(* ===== verification/Prelude.thy ===== *)
theory Prelude
  imports Complex_Main "HOL-Library.Word" "HOL-Library.Multiset"
begin

section \<open>Shared vocabulary: machine integers, failures, vectors and loops\<close>

text \<open>
  This theory holds what every component of the simulator model shares.

  \<^item> \<open>u64\<close> is the C++ type \<^verbatim>\<open>uint64_t\<close>: arithmetic wraps, comparison is unsigned. The C++
    type \<^verbatim>\<open>int\<close> is modelled by \<open>int\<close>; signed overflow is undefined in C++, so only runs without it
    are described. Conversions between the two are explicit (\<open>u64_to_int\<close>, \<open>of_int\<close>).
  \<^item> \<open>err\<close> lists the ways a call does not return: \<^verbatim>\<open>AbruptExit(__FILE__, __LINE__)\<close>,
    \<^verbatim>\<open>exit(1)\<close>, a failed \<^verbatim>\<open>assert\<close>, an index outside a vector, a division by zero, a shift by a
    negative or too large amount, a container length error and the exception of a number that cannot be read; \<open>OutOfFuel\<close> stands for a loop that has
    used up the steps the model gives it. A fallible operation has type \<open>'a res\<close>; \<open>rbind\<close> sequences two of them.
  \<^item> \<open>vget\<close>, \<open>vmod\<close> read and update a vector at an \<open>int\<close> index; \<open>mfold\<close> is a \<^verbatim>\<open>for\<close> loop whose
    body may fail.
  \<^item> the locale \<open>indexed_store\<close> is the interface of a container that is read and modified at an
    index; what a loop over distinct indices does to such a container is proved once, inside it.
\<close>

named_theorems res_simps \<open>when a sequence of fallible calls returns\<close>
named_theorems inv_intros \<open>preservation of component invariants\<close>

subsection \<open>Machine integers\<close>

type_synonym u64 = "64 word"

text \<open>The conversion \<^verbatim>\<open>static_cast<int>\<close> of a \<^verbatim>\<open>uint64_t\<close>: the low 32 bits as two's complement.\<close>

definition u64_to_int :: "u64 \<Rightarrow> int" where
  "u64_to_int w = signed_take_bit 31 (uint w)"

lemma u64_to_int_small:
  assumes "uint w < 2 ^ 31"
  shows "u64_to_int w = uint w"
proof -
  have "signed_take_bit 31 (uint w) = uint w"
    by (rule signed_take_bit_int_eq_self) (use assms uint_ge_0 [of w] in linarith)+
  then show ?thesis by (simp add: u64_to_int_def)
qed

text \<open>C++ division and remainder of \<^verbatim>\<open>int\<close> truncate towards zero.\<close>

definition tdiv :: "int \<Rightarrow> int \<Rightarrow> int" where
  "tdiv a b = sgn a * sgn b * (\<bar>a\<bar> div \<bar>b\<bar>)"

definition tmod :: "int \<Rightarrow> int \<Rightarrow> int" where
  "tmod a b = a - tdiv a b * b"

lemma tdiv_nonneg [simp]: "0 \<le> a \<Longrightarrow> 0 \<le> b \<Longrightarrow> tdiv a b = a div b"
  by (cases "a = 0"; cases "b = 0") (simp_all add: tdiv_def)

lemma tmod_nonneg [simp]: "0 \<le> a \<Longrightarrow> 0 \<le> b \<Longrightarrow> tmod a b = a mod b"
  by (simp add: tmod_def minus_div_mult_eq_mod)

lemma div_lt_mult:
  fixes x d m :: int
  assumes "0 < d" and "x < m * d"
  shows "x div d < m"
proof -
  have "x div d * d \<le> x"
    using minus_mod_eq_div_mult [of x d] pos_mod_sign [OF assms(1), of x] by linarith
  then have "x div d * d < m * d" using assms(2) by linarith
  then show ?thesis using assms(1) by (simp only: mult_less_cancel_right_pos)
qed

subsection \<open>Failures\<close>

datatype err =
    AbruptExit string nat
  | ExitFailure string nat
  | AssertFail string nat
  | OutOfRange
  | DivByZero
  | LengthError
  | BadShift
  | InvalidArgument
  | OutOfFuel

type_synonym 'a res = "err + 'a"

definition rbind :: "'a res \<Rightarrow> ('a \<Rightarrow> 'b res) \<Rightarrow> 'b res" where
  "rbind m f = (case m of Inl e \<Rightarrow> Inl e | Inr x \<Rightarrow> f x)"

lemma rbind_Inl [simp]: "rbind (Inl e) f = Inl e"
  by (simp add: rbind_def)

lemma rbind_Inr [simp]: "rbind (Inr x) f = f x"
  by (simp add: rbind_def)

lemma rbind_Inr_id [simp]: "rbind m Inr = m"
  by (simp add: rbind_def split: sum.splits)

lemma rbind_assoc: "rbind (rbind m f) g = rbind m (\<lambda>x. rbind (f x) g)"
  by (simp add: rbind_def split: sum.splits)

lemma rbind_eq_Inr [res_simps]: "rbind m f = Inr y \<longleftrightarrow> (\<exists>x. m = Inr x \<and> f x = Inr y)"
  by (cases m) auto

lemma rbind_eq_Inl [res_simps]:
  "rbind m f = Inl e \<longleftrightarrow> m = Inl e \<or> (\<exists>x. m = Inr x \<and> f x = Inl e)"
  by (cases m) auto

lemma rbind_cong [fundef_cong]:
  "m = m' \<Longrightarrow> (\<And>x. m' = Inr x \<Longrightarrow> f x = f' x) \<Longrightarrow> rbind m f = rbind m' f'"
  by (cases m') auto

lemma rbindE:
  assumes "rbind m f = Inr y"
  obtains x where "m = Inr x" and "f x = Inr y"
  using assms by (auto simp: res_simps)

definition ok :: "'a res \<Rightarrow> bool" where
  "ok m \<longleftrightarrow> (\<exists>x. m = Inr x)"

lemma ok_Inr [simp]: "ok (Inr x)" and ok_Inl [simp]: "\<not> ok (Inl e)"
  by (simp_all add: ok_def)

lemma ok_code [code]: "ok (Inl e) = False" "ok (Inr x) = True"
  by simp_all

lemma okE: assumes "ok m" obtains x where "m = Inr x"
  using assms by (auto simp: ok_def)

lemma ok_rbind: "ok (rbind m f) \<longleftrightarrow> (\<exists>x. m = Inr x \<and> ok (f x))"
  by (cases m) auto

subsection \<open>Loops\<close>

fun mfold :: "('x \<Rightarrow> 's \<Rightarrow> 's res) \<Rightarrow> 'x list \<Rightarrow> 's \<Rightarrow> 's res" where
  "mfold f [] s = Inr s"
| "mfold f (x # xs) s = rbind (f x s) (mfold f xs)"

lemma mfold_append: "mfold f (xs @ ys) s = rbind (mfold f xs s) (mfold f ys)"
  by (induction xs arbitrary: s) (simp_all add: rbind_assoc cong: rbind_cong)

text \<open>A loop whose body always returns, and keeps an invariant, returns and keeps it.\<close>

lemma mfold_invariant:
  assumes "\<And>x s. x \<in> set xs \<Longrightarrow> P s \<Longrightarrow> \<exists>s'. f x s = Inr s' \<and> P s'" and "P s"
  shows "\<exists>s'. mfold f xs s = Inr s' \<and> P s'"
  using assms
proof (induction xs arbitrary: s)
  case Nil
  then show ?case by simp
next
  case (Cons x xs)
  obtain s1 where "f x s = Inr s1" "P s1"
    using Cons.prems by (meson list.set_intros(1))
  moreover have "\<exists>s'. mfold f xs s1 = Inr s' \<and> P s'"
    using Cons.IH [OF _ \<open>P s1\<close>] Cons.prems(1) by simp
  ultimately show ?case by simp
qed

text \<open>A loop over distinct elements may rely on what each step leaves true for the elements still to come.\<close>

lemma mfold_distinct:
  assumes step: "\<And>x s. x \<in> set xs \<Longrightarrow> P s \<Longrightarrow> R x s \<Longrightarrow>
      \<exists>s'. f x s = Inr s' \<and> P s' \<and> (\<forall>y \<in> set xs. y \<noteq> x \<longrightarrow> R y s \<longrightarrow> R y s')"
    and "distinct xs" "P s" "\<forall>x \<in> set xs. R x s"
  shows "\<exists>s'. mfold f xs s = Inr s' \<and> P s'"
  using assms
proof (induction xs arbitrary: s)
  case (Cons x xs)
  from Cons.prems(1) [of x s] Cons.prems(3,4) obtain s1 where
    s1: "f x s = Inr s1" "P s1" "\<forall>y \<in> set (x # xs). y \<noteq> x \<longrightarrow> R y s \<longrightarrow> R y s1" by auto
  have "\<exists>s'. mfold f xs s1 = Inr s' \<and> P s'"
  proof (rule Cons.IH)
    show "\<And>z u. z \<in> set xs \<Longrightarrow> P u \<Longrightarrow> R z u \<Longrightarrow>
        \<exists>s'. f z u = Inr s' \<and> P s' \<and> (\<forall>y \<in> set xs. y \<noteq> z \<longrightarrow> R y u \<longrightarrow> R y s')"
      using Cons.prems(1) by (metis list.set_intros(2))
    show "\<forall>z \<in> set xs. R z s1" using s1(3) Cons.prems(2,4) by auto
  qed (use Cons.prems(2) s1(2) in auto)
  with s1(1) show ?case by simp
qed simp

lemma mfold_preserves:
  assumes "\<And>x s s'. x \<in> set xs \<Longrightarrow> P s \<Longrightarrow> f x s = Inr s' \<Longrightarrow> P s'"
    and "P s" and "mfold f xs s = Inr s'"
  shows "P s'"
  using assms
proof (induction xs arbitrary: s)
  case Nil
  then show ?case by simp
next
  case (Cons x xs)
  from Cons.prems(3) obtain s1 where s1: "f x s = Inr s1" "mfold f xs s1 = Inr s'"
    by (auto elim: rbindE)
  then have "P s1" using Cons.prems(1) [of x s s1] Cons.prems(2) by simp
  with s1 show ?case using Cons.IH Cons.prems(1) by (meson list.set_intros(2))
qed

subsection \<open>Vectors indexed by int\<close>

definition vget :: "'a list \<Rightarrow> int \<Rightarrow> 'a res" where
  "vget xs i = (if 0 \<le> i \<and> i < int (length xs) then Inr (xs ! nat i) else Inl OutOfRange)"

definition vmod :: "'a list \<Rightarrow> int \<Rightarrow> ('a \<Rightarrow> 'a res) \<Rightarrow> 'a list res" where
  "vmod xs i f = rbind (vget xs i) (\<lambda>x. rbind (f x) (\<lambda>y. Inr (xs[nat i := y])))"

definition vset :: "'a list \<Rightarrow> int \<Rightarrow> 'a \<Rightarrow> 'a list res" where
  "vset xs i y = vmod xs i (\<lambda>_. Inr y)"

lemma vget_Inr [res_simps]:
  "vget xs i = Inr x \<longleftrightarrow> 0 \<le> i \<and> i < int (length xs) \<and> x = xs ! nat i"
  by (auto simp: vget_def)

lemma vget_in [simp]: "0 \<le> i \<Longrightarrow> i < int (length xs) \<Longrightarrow> vget xs i = Inr (xs ! nat i)"
  by (simp add: vget_def)

lemma vget_mem: "vget xs i = Inr x \<Longrightarrow> x \<in> set xs"
  by (auto simp: res_simps)

lemma vmod_Inr [res_simps]:
  "vmod xs i f = Inr ys \<longleftrightarrow>
     0 \<le> i \<and> i < int (length xs) \<and> (\<exists>y. f (xs ! nat i) = Inr y \<and> ys = xs[nat i := y])"
  by (auto simp: vmod_def res_simps)

lemma vset_Inr [res_simps]:
  "vset xs i y = Inr ys \<longleftrightarrow> 0 \<le> i \<and> i < int (length xs) \<and> ys = xs[nat i := y]"
  by (auto simp: vset_def res_simps)

lemma vmod_length: "vmod xs i f = Inr ys \<Longrightarrow> length ys = length xs"
  by (auto simp: res_simps)

lemma vset_length: "vset xs i y = Inr ys \<Longrightarrow> length ys = length xs"
  by (auto simp: res_simps)

text \<open>An element-wise property of a vector survives an update that keeps it.\<close>

lemma vmod_all:
  assumes "vmod xs i f = Inr ys" and "\<forall>x \<in> set xs. P x"
    and "\<And>x y. x \<in> set xs \<Longrightarrow> f x = Inr y \<Longrightarrow> P y"
  shows "\<forall>y \<in> set ys. P y"
proof -
  from assms(1) obtain y where i: "nat i < length xs" and y: "f (xs ! nat i) = Inr y"
    and ys: "ys = xs[nat i := y]"
    by (auto simp: res_simps)
  have "P y" using assms(3) [OF _ y] i by simp
  then show ?thesis
    using assms(2) ys set_update_subset_insert [of xs "nat i" y] by auto
qed

text \<open>Erasing the first element that satisfies a test: \<^verbatim>\<open>erase(it); break\<close> in a loop.\<close>

fun erase_first :: "('a \<Rightarrow> bool) \<Rightarrow> 'a list \<Rightarrow> 'a list" where
  "erase_first P [] = []"
| "erase_first P (x # xs) = (if P x then xs else x # erase_first P xs)"

lemma set_erase_first: "set (erase_first P xs) \<subseteq> set xs"
  by (induction xs) auto

lemma erase_first_id [simp]: "\<forall>x \<in> set xs. \<not> P x \<Longrightarrow> erase_first P xs = xs"
  by (induction xs) auto

lemma length_erase_first: "length (erase_first P xs) = length xs - (if \<exists>x \<in> set xs. P x then 1 else 0)"
proof (induction xs)
  case (Cons x xs)
  then show ?case by (cases xs) auto
qed simp

subsection \<open>Containers read and modified at an index\<close>

locale indexed_store =
  fixes get :: "'s \<Rightarrow> 'i \<Rightarrow> 'v res"
    and modify :: "'s \<Rightarrow> 'i \<Rightarrow> ('v \<Rightarrow> 'v res) \<Rightarrow> 's res"
  assumes modify_eq:
      "modify s i f = Inr s' \<Longrightarrow> \<exists>v w. get s i = Inr v \<and> f v = Inr w \<and> get s' i = Inr w"
    and modify_other: "modify s i f = Inr s' \<Longrightarrow> j \<noteq> i \<Longrightarrow> get s' j = get s j"
    and modify_ok: "get s i = Inr v \<Longrightarrow> f v = Inr w \<Longrightarrow> ok (modify s i f)"
    and modify_err: "get s i = Inr v \<Longrightarrow> f v = Inl e \<Longrightarrow> modify s i f = Inl e"
begin

lemma get_modify:
  "modify s i f = Inr s' \<Longrightarrow> get s' j = (if j = i then rbind (get s j) f else get s j)"
  using modify_eq modify_other by fastforce

lemma get_modify_dom: "modify s i f = Inr s' \<Longrightarrow> ok (get s' j) = ok (get s j)"
  using modify_eq modify_other by (metis ok_Inr)

text \<open>
  A loop over distinct indices whose body changes only the content at its index changes each of
  them once and nothing else; the body may be a loop itself.
\<close>

lemma get_mfold_body:
  assumes body: "\<And>i s s' j. h i s = Inr s' \<Longrightarrow>
      get s' j = (if j = i then rbind (get s j) (f i) else get s j)"
  shows "distinct is \<Longrightarrow> mfold h is s = Inr s' \<Longrightarrow>
    get s' j = (if j \<in> set is then rbind (get s j) (f j) else get s j)"
proof (induction "is" arbitrary: s)
  case Nil
  then show ?case by simp
next
  case (Cons i "is")
  from Cons.prems obtain s1 where s1: "h i s = Inr s1" "mfold h is s1 = Inr s'"
    by (auto elim: rbindE)
  have "get s' j = (if j \<in> set is then rbind (get s1 j) (f j) else get s1 j)"
    using Cons.IH s1(2) Cons.prems(1) by simp
  then show ?case using body [OF s1(1), of j] Cons.prems(1) by auto
qed

lemma get_mfold_modify:
  "distinct is \<Longrightarrow> mfold (\<lambda>i s. modify s i (f i)) is s = Inr s' \<Longrightarrow>
   get s' j = (if j \<in> set is then rbind (get s j) (f j) else get s j)"
  by (rule get_mfold_body [where h = "\<lambda>i s. modify s i (f i)"]) (rule get_modify)

lemma get_mfold_same:
  "mfold (\<lambda>x s. modify s i (g x)) xs s = Inr s' \<Longrightarrow>
   get s' j = (if j = i then rbind (get s j) (mfold g xs) else get s j)"
proof (induction xs arbitrary: s)
  case Nil
  then show ?case by (cases "get s j") auto
next
  case (Cons x xs)
  from Cons.prems obtain s1 where
    s1: "modify s i (g x) = Inr s1" "mfold (\<lambda>x s. modify s i (g x)) xs s1 = Inr s'"
    by (auto elim: rbindE)
  show ?case using Cons.IH [OF s1(2)] get_modify [OF s1(1), of j] by (auto simp: rbind_assoc)
qed

lemma mfold_same_ok:
  "get s i = Inr v \<Longrightarrow> ok (mfold g xs v) \<Longrightarrow> ok (mfold (\<lambda>x s. modify s i (g x)) xs s)"
proof (induction xs arbitrary: s v)
  case Nil
  then show ?case by simp
next
  case (Cons x xs)
  from Cons.prems(2) obtain w where w: "g x v = Inr w" "ok (mfold g xs w)"
    by (auto simp: ok_rbind)
  obtain s1 where s1: "modify s i (g x) = Inr s1"
    by (rule okE [OF modify_ok [where f = "g x", OF Cons.prems(1) w(1)]])
  have "get s1 i = Inr w" using get_modify [OF s1, of i] Cons.prems(1) w(1) by simp
  then show ?case using Cons.IH [OF _ w(2)] s1 by simp
qed

lemma mfold_modify_dom:
  assumes "mfold (\<lambda>x s. modify s (idx x) (f x)) xs s = Inr s'"
  shows "ok (get s' j) = ok (get s j)"
  by (rule mfold_preserves [where P = "\<lambda>s'. ok (get s' j) = ok (get s j)", OF _ _ assms])
    (simp_all add: get_modify_dom)

lemma mfold_modify_ok:
  "distinct is \<Longrightarrow> (\<And>i. i \<in> set is \<Longrightarrow> \<exists>v w. get s i = Inr v \<and> f i v = Inr w) \<Longrightarrow>
   ok (mfold (\<lambda>i s. modify s i (f i)) is s)"
proof (induction "is" arbitrary: s)
  case Nil
  then show ?case by simp
next
  case (Cons i "is")
  obtain v w where "get s i = Inr v" "f i v = Inr w"
    using Cons.prems(2) by (meson list.set_intros(1))
  then have "ok (modify s i (f i))" by (rule modify_ok)
  then obtain s1 where s1: "modify s i (f i) = Inr s1" by (rule okE)
  have "ok (mfold (\<lambda>i s. modify s i (f i)) is s1)"
  proof (rule Cons.IH)
    show "distinct is" using Cons.prems(1) by simp
  next
    fix j assume j: "j \<in> set is"
    then have "j \<noteq> i" using Cons.prems(1) by auto
    then have "get s1 j = get s j" using modify_other [OF s1] by simp
    then show "\<exists>v w. get s1 j = Inr v \<and> f j v = Inr w"
      using Cons.prems(2) j by simp
  qed
  then show ?case using s1 by simp
qed

end

text \<open>Two nested containers form one container indexed by pairs.\<close>

locale nested_store =
  outer: indexed_store get1 modify1 + inner: indexed_store get2 modify2
  for get1 :: "'s \<Rightarrow> 'i \<Rightarrow> 't res" and modify1 :: "'s \<Rightarrow> 'i \<Rightarrow> ('t \<Rightarrow> 't res) \<Rightarrow> 's res"
    and get2 :: "'t \<Rightarrow> 'j \<Rightarrow> 'v res" and modify2 :: "'t \<Rightarrow> 'j \<Rightarrow> ('v \<Rightarrow> 'v res) \<Rightarrow> 't res"

sublocale nested_store \<subseteq> pair: indexed_store
  "\<lambda>s (i, j). rbind (get1 s i) (\<lambda>t. get2 t j)"
  "\<lambda>s (i, j) f. modify1 s i (\<lambda>t. modify2 t j f)"
proof (unfold_locales, goal_cases)
  case (1 s p f s')
  obtain i j where p: "p = (i, j)" by (cases p)
  with 1 obtain t t' where t: "get1 s i = Inr t" "modify2 t j f = Inr t'" "get1 s' i = Inr t'"
    using outer.modify_eq by fastforce
  then show ?case using inner.modify_eq [OF t(2)] p by auto
next
  case (2 s p f s' q)
  obtain i j k l where pq: "p = (i, j)" "q = (k, l)" by (cases p, cases q)
  with 2 have m: "modify1 s i (\<lambda>t. modify2 t j f) = Inr s'" by simp
  then obtain t t' where t: "get1 s i = Inr t" "modify2 t j f = Inr t'" "get1 s' i = Inr t'"
    using outer.modify_eq by fastforce
  show ?case
  proof (cases "k = i")
    case True
    then have "l \<noteq> j" using 2 pq by simp
    then show ?thesis using t inner.modify_other [OF t(2)] True pq by simp
  next
    case False
    then show ?thesis using outer.modify_other [OF m] pq by simp
  qed
next
  case (3 s p v f w)
  obtain i j where p: "p = (i, j)" by (cases p)
  with 3 obtain t where t: "get1 s i = Inr t" "get2 t j = Inr v" by (auto simp: res_simps)
  then have "ok (modify2 t j f)" using 3(2) by (rule_tac inner.modify_ok)
  then obtain t' where "modify2 t j f = Inr t'" by (rule okE)
  with t show ?case using p outer.modify_ok [of s i t "\<lambda>t. modify2 t j f" t'] by simp
next
  case (4 s p v f e)
  obtain i j where p: "p = (i, j)" by (cases p)
  with 4 obtain t where t: "get1 s i = Inr t" "get2 t j = Inr v" by (auto simp: res_simps)
  then have "modify2 t j f = Inl e" using 4(2) by (rule_tac inner.modify_err)
  with t show ?case using p outer.modify_err [of s i t "\<lambda>t. modify2 t j f" e] by simp
qed

interpretation vec: indexed_store vget vmod
proof (unfold_locales, goal_cases)
  case (1 s i f s')
  then show ?case by (auto simp: res_simps)
next
  case (2 s i f s' j)
  then show ?case by (auto simp: vget_def res_simps nat_eq_iff nth_list_update)
next
  case (3 s i v f w)
  then show ?case by (auto simp: vmod_def)
next
  case (4 s i v f e)
  then show ?case by (simp add: vmod_def)
qed

subsection \<open>More on loops, vectors and sums\<close>

lemma mfold_collect:
  assumes "\<And>x. x \<in> set xs \<Longrightarrow> g x = Inr (h x)"
  shows "mfold (\<lambda>x rs. rbind (g x) (\<lambda>r. Inr (rs @ [r]))) xs rs = Inr (rs @ map h xs)"
  using assms by (induction xs arbitrary: rs) simp_all

lemma filter_concat_key:
  assumes "distinct xs" "x \<in> set xs" "\<And>y e. y \<in> set xs \<Longrightarrow> e \<in> set (f y) \<Longrightarrow> key e = k y" "inj_on k (set xs)"
  shows "filter (\<lambda>e. key e = k x) (concat (map f xs)) = f x"
  using assms
proof (induction xs)
  case (Cons y ys)
  have ne: "filter (\<lambda>e. key e = k x) (f z) = []" if "z \<in> set (y # ys)" "z \<noteq> x" for z
    using Cons.prems(2-4) that by (auto simp: filter_empty_conv inj_on_def)
  have eq: "filter (\<lambda>e. key e = k x) (f x) = f x"
    using Cons.prems(2,3) by (auto simp: filter_id_conv)
  show ?case
  proof (cases "y = x")
    case True
    then have "filter (\<lambda>e. key e = k x) (concat (map f ys)) = []"
      using ne Cons.prems(1) by (auto simp: filter_concat)
    with eq True show ?thesis by simp
  next
    case False
    then show ?thesis using ne [of y] Cons by (auto simp: inj_on_def)
  qed
qed simp

lemma sum_list_product: "(\<Sum>x \<leftarrow> List.product xs ys. f x) = (\<Sum>x \<leftarrow> xs. \<Sum>y \<leftarrow> ys. f (x, y))"
  by (induction xs) (simp_all add: comp_def)

lemma int_sum_list: "int (\<Sum>x \<leftarrow> xs. f x) = (\<Sum>x \<leftarrow> xs. int (f x))"
  by (induction xs) simp_all

lemma mfold_cong_set:
  assumes "\<And>x s. x \<in> set xs \<Longrightarrow> f x s = g x s"
  shows "mfold f xs s = mfold g xs s"
  using assms by (induction xs arbitrary: s) (auto intro!: rbind_cong)

lemma mfold_map: "mfold f (map g xs) s = mfold (\<lambda>x. f (g x)) xs s"
  by (induction xs arbitrary: s) (auto intro!: rbind_cong)

lemma mfold_index:
  assumes "0 \<le> a" "b \<le> int (length M)"
  shows "mfold (\<lambda>i s. rbind (vget M i) (\<lambda>e. f e s)) [a..b - 1] s = mfold f (take (nat (b - a)) (drop (nat a) M)) s"
proof -
  have "mfold (\<lambda>i s. rbind (vget M i) (\<lambda>e. f e s)) [a..b - 1] s = mfold (\<lambda>i. f (M ! nat i)) [a..b - 1] s"
    using assms by (intro mfold_cong_set) simp
  also have "\<dots> = mfold f (map (\<lambda>i. M ! nat i) [a..b - 1]) s" by (simp add: mfold_map)
  also have "map (\<lambda>i. M ! nat i) [a..b - 1] = take (nat (b - a)) (drop (nat a) M)"
    using assms by (intro nth_equalityI) (auto simp: nat_add_distrib)
  finally show ?thesis .
qed

lemma pair_index:
  fixes x y n m :: int
  assumes "0 \<le> x" "x < m" "0 \<le> y" "y < n"
  shows "0 \<le> y * m + x" "y * m + x < m * n"
proof -
  show "0 \<le> y * m + x" using assms by simp
  have "(y + 1) * m \<le> n * m" using assms by (intro mult_right_mono) auto
  then show "y * m + x < m * n" using assms by (simp only: distrib_right mult_1 mult.commute [of m])
qed

lemma mfold_measure:
  assumes "\<And>x s s'. f x s = Inr s' \<Longrightarrow> \<mu> s' = \<mu> s + (n :: nat)"
  shows "mfold f xs s = Inr s' \<Longrightarrow> \<mu> s' = \<mu> s + length xs * n"
proof (induction xs arbitrary: s)
  case (Cons x xs)
  then obtain s1 where "f x s = Inr s1" "mfold f xs s1 = Inr s'" by (auto elim: rbindE)
  then show ?case using Cons.IH assms by fastforce
qed simp

lemma not_ok_rbind: "\<not> ok m \<Longrightarrow> \<not> ok (rbind m f)"
  by (cases m) simp_all

lemma mfold_head_fails: "\<not> ok (f x s) \<Longrightarrow> \<not> ok (mfold f (x # xs) s)"
  by (cases "f x s") simp_all

lemma vmod_all_ok:
  assumes "0 \<le> i" "i < int (length xs)" "\<forall>x \<in> set xs. P x" "\<And>x. P x \<Longrightarrow> \<exists>y. f x = Inr y \<and> P y"
  shows "\<exists>ys. vmod xs i f = Inr ys \<and> length ys = length xs \<and> (\<forall>y \<in> set ys. P y)"
proof -
  have "P (xs ! nat i)" using assms(1-3) by simp
  with assms(4) obtain y where "f (xs ! nat i) = Inr y" "P y" by blast
  then show ?thesis using assms(1-3) by (auto simp: vmod_def dest!: set_update_subset_insert [THEN subsetD])
qed

lemma fold_invariant: "P s \<Longrightarrow> (\<And>x s. x \<in> set xs \<Longrightarrow> P s \<Longrightarrow> P (f x s)) \<Longrightarrow> P (fold f xs s)"
  by (induction xs arbitrary: s) simp_all

end
