(* ===== verification/Common.thy ===== *)
theory Common
  imports Prelude
begin

section \<open>Addresses, commands and transactions\<close>

text \<open>
  Models \<^verbatim>\<open>src/common.h\<close> and \<^verbatim>\<open>src/common.cc\<close>: the DRAM address, the command and transaction
  structures with their predicates, and the bit and string helpers. Every enumerator of
  \<^verbatim>\<open>CommandType\<close> is a constructor; the sentinel \<^verbatim>\<open>CommandType::SIZE\<close> is \<open>CommandType_SIZE\<close> and marks
  the invalid command \<open>no_command\<close>, the default-constructed \<^verbatim>\<open>Command()\<close>.
\<close>

unbundle bit_operations_syntax

subsection \<open>Data\<close>

record Address =
  channel :: int
  rank :: int
  bankgroup :: int
  bank :: int
  row :: int
  column :: int

definition no_address :: Address where
  "no_address = \<lparr>channel = -1, rank = -1, bankgroup = -1, bank = -1, row = -1, column = -1\<rparr>"

definition mk_address :: "int \<Rightarrow> int \<Rightarrow> int \<Rightarrow> int \<Rightarrow> int \<Rightarrow> int \<Rightarrow> Address" where
  "mk_address ch ra bg ba ro co =
     \<lparr>channel = ch, rank = ra, bankgroup = bg, bank = ba, row = ro, column = co\<rparr>"

datatype CommandType =
    READ
  | READ_PRECHARGE
  | WRITE
  | WRITE_PRECHARGE
  | ACTIVATE
  | PRECHARGE
  | REFRESH_BANK
  | REFRESH
  | SREF_ENTER
  | SREF_EXIT
  | LH_READ
  | LH_READ_PRECHARGE
  | GH_READ
  | GH_READ_PRECHARGE
  | PIM_WRITE
  | PIM_WRITE_PRECHARGE
  | PIM_ACTIVATE
  | CommandType_SIZE

record Command =
  cmd_type :: CommandType
  addr :: Address
  hex_addr :: u64

definition no_command :: Command where
  "no_command = \<lparr>cmd_type = CommandType_SIZE, addr = no_address, hex_addr = 0\<rparr>"

definition mk_command :: "CommandType \<Rightarrow> Address \<Rightarrow> u64 \<Rightarrow> Command" where
  "mk_command t a h = \<lparr>cmd_type = t, addr = a, hex_addr = h\<rparr>"

definition IsValid :: "Command \<Rightarrow> bool" where
  "IsValid c \<longleftrightarrow> cmd_type c \<noteq> CommandType_SIZE"

definition IsRefresh :: "Command \<Rightarrow> bool" where
  "IsRefresh c \<longleftrightarrow> cmd_type c = REFRESH \<or> cmd_type c = REFRESH_BANK"

definition IsRead :: "Command \<Rightarrow> bool" where
  "IsRead c \<longleftrightarrow> cmd_type c = READ \<or> cmd_type c = READ_PRECHARGE"

definition IsWrite :: "Command \<Rightarrow> bool" where
  "IsWrite c \<longleftrightarrow> cmd_type c = WRITE \<or> cmd_type c = WRITE_PRECHARGE"

definition IsReadWrite :: "Command \<Rightarrow> bool" where
  "IsReadWrite c \<longleftrightarrow> IsRead c \<or> IsWrite c"

definition IsRankCMD :: "Command \<Rightarrow> bool" where
  "IsRankCMD c \<longleftrightarrow> cmd_type c = REFRESH \<or> cmd_type c = SREF_ENTER \<or> cmd_type c = SREF_EXIT"

abbreviation Channel :: "Command \<Rightarrow> int" where "Channel c \<equiv> channel (addr c)"
abbreviation Rank :: "Command \<Rightarrow> int" where "Rank c \<equiv> rank (addr c)"
abbreviation Bankgroup :: "Command \<Rightarrow> int" where "Bankgroup c \<equiv> bankgroup (addr c)"
abbreviation Bank :: "Command \<Rightarrow> int" where "Bank c \<equiv> bank (addr c)"
abbreviation Row :: "Command \<Rightarrow> int" where "Row c \<equiv> row (addr c)"
abbreviation Column :: "Command \<Rightarrow> int" where "Column c \<equiv> column (addr c)"

text \<open>
  A transaction. The C++ structure also has members for PIM targets that no code fills in. The
  constructors leave some flags uninitialised (\<^verbatim>\<open>is_pim\<close>, and \<^verbatim>\<open>is_write\<close> for the one-argument
  constructor); nothing reads them, and the model sets them to \<open>False\<close>.
\<close>

record Transaction =
  trans_addr :: u64
  added_cycle :: u64
  complete_cycle :: u64
  is_write :: bool
  is_pim :: bool
  active :: bool

definition mk_transaction :: "u64 \<Rightarrow> bool \<Rightarrow> Transaction" where
  "mk_transaction a w = \<lparr>trans_addr = a, added_cycle = 0, complete_cycle = 0, is_write = w,
     is_pim = False, active = False\<rparr>"

definition mk_pim_transaction :: "u64 \<Rightarrow> Transaction" where
  "mk_pim_transaction a = \<lparr>trans_addr = a, added_cycle = 0, complete_cycle = 0, is_write = False,
     is_pim = False, active = False\<rparr>"

text \<open>
  \<^verbatim>\<open>operator>>(istream, Transaction)\<close> on one trace record whose fields, read by the standard
  library, are the address, the operation word and the cycle.
\<close>

definition read_transaction :: "u64 \<Rightarrow> string \<Rightarrow> u64 \<Rightarrow> Transaction \<Rightarrow> Transaction" where
  "read_transaction a mem_op cycle tr =
     (let w_cnt = (if mem_op \<in> {''WRITE'', ''write'', ''P_MEM_WR'', ''BOFF''} then 1 else 0 :: int);
          pim_cnt = (if mem_op \<in> {''PIM''} then 1 else 0 :: int)
      in tr\<lparr>trans_addr := a, added_cycle := cycle,
            active := \<not> (w_cnt = 0 \<and> pim_cnt = 0),
            is_write := (w_cnt = 1),
            is_pim := (pim_cnt = 1)\<rparr>)"

subsection \<open>Bit helpers\<close>

definition ModuloWidth :: "u64 \<Rightarrow> 32 word \<Rightarrow> 32 word \<Rightarrow> 32 word" where
  "ModuloWidth a bit_width pos =
     (let store = drop_bit (unat pos) a;
          a' = push_bit (unat bit_width) (drop_bit (unat bit_width) store)
      in ucast (store XOR a'))"

definition GetBitInPos :: "u64 \<Rightarrow> int \<Rightarrow> int" where
  "GetBitInPos bits pos = u64_to_int (drop_bit (nat pos) bits AND 1)"

function LogBase2_loop :: "int \<Rightarrow> int \<Rightarrow> int" where
  "LogBase2_loop p i = (if p > 1 then LogBase2_loop (tdiv p 2) (i + 1) else i)"
  by pat_completeness auto
termination
  by (relation "measure (\<lambda>(p, i). nat p)") auto

declare LogBase2_loop.simps [simp del]

definition LogBase2 :: "int \<Rightarrow> int" where
  "LogBase2 power_of_two = LogBase2_loop power_of_two 0"

subsection \<open>Splitting strings\<close>

text \<open>
  \<^verbatim>\<open>std::getline(ss, item, delim)\<close>: fails when no character is left, otherwise yields the
  characters up to the next delimiter, which is consumed.
\<close>

definition getline :: "string \<Rightarrow> char \<Rightarrow> (string \<times> string) option" where
  "getline s d =
     (if s = [] then None
      else Some (takeWhile (\<lambda>c. c \<noteq> d) s, tl (dropWhile (\<lambda>c. c \<noteq> d) s)))"

function StringSplit :: "string \<Rightarrow> char \<Rightarrow> string list" where
  "StringSplit s d =
     (case getline s d of
        None \<Rightarrow> []
      | Some (item, rest) \<Rightarrow>
          (if item \<noteq> [] then item # StringSplit rest d else StringSplit rest d))"
  by pat_completeness auto
termination
proof (relation "measure (\<lambda>(s, d). length s)", goal_cases)
  case 1
  show ?case by simp
next
  case (2 s d p item rest)
  then show ?case
    using length_dropWhile_le [of "\<lambda>c. c \<noteq> d" s] by (cases s) (auto simp: getline_def split: if_splits)
next
  case (3 s d p item rest)
  then show ?case
    using length_dropWhile_le [of "\<lambda>c. c \<noteq> d" s] by (cases s) (auto simp: getline_def split: if_splits)
qed

declare StringSplit.simps [simp del]

subsection \<open>Facts about the command predicates\<close>

lemmas cmd_pred_defs =
  IsValid_def IsRefresh_def IsRead_def IsWrite_def IsReadWrite_def IsRankCMD_def

lemma no_command_simps [simp]:
  "cmd_type no_command = CommandType_SIZE" "\<not> IsValid no_command" "\<not> IsRefresh no_command"
  "\<not> IsRead no_command" "\<not> IsWrite no_command" "\<not> IsReadWrite no_command"
  by (simp_all add: no_command_def cmd_pred_defs)

lemma mk_command_simps [simp]:
  "cmd_type (mk_command t a h) = t" "addr (mk_command t a h) = a"
  "hex_addr (mk_command t a h) = h"
  by (simp_all add: mk_command_def)

lemma mk_address_simps [simp]:
  "channel (mk_address ch ra bg ba ro co) = ch" "rank (mk_address ch ra bg ba ro co) = ra"
  "bankgroup (mk_address ch ra bg ba ro co) = bg" "bank (mk_address ch ra bg ba ro co) = ba"
  "row (mk_address ch ra bg ba ro co) = ro" "column (mk_address ch ra bg ba ro co) = co"
  by (simp_all add: mk_address_def)

subsection \<open>The logarithm loop\<close>

lemma LogBase2_loop_shift: "LogBase2_loop p (i + j) = LogBase2_loop p i + j"
proof (induction p i rule: LogBase2_loop.induct)
  case (1 p i)
  show ?case
  proof (cases "p > 1")
    case True
    have "LogBase2_loop p (i + j) = LogBase2_loop (tdiv p 2) ((i + 1) + j)"
      using True by (simp add: LogBase2_loop.simps [of p] algebra_simps)
    also have "\<dots> = LogBase2_loop (tdiv p 2) (i + 1) + j"
      by (rule 1 [OF True])
    finally show ?thesis using True by (simp add: LogBase2_loop.simps [of p i])
  next
    case False
    then show ?thesis by (simp add: LogBase2_loop.simps)
  qed
qed

lemma LogBase2_rec: "1 < p \<Longrightarrow> LogBase2 p = LogBase2 (p div 2) + 1"
  using LogBase2_loop_shift [of "p div 2" 0 1] by (simp add: LogBase2_def LogBase2_loop.simps [of p])

lemma LogBase2_le_1: "p \<le> 1 \<Longrightarrow> LogBase2 p = 0"
  by (simp add: LogBase2_def LogBase2_loop.simps)

lemma LogBase2_induct [consumes 1, case_names one step]:
  assumes "1 \<le> p" and "P 1" and "\<And>p. 1 < p \<Longrightarrow> P (p div 2) \<Longrightarrow> P p"
  shows "P (p :: int)"
  using assms(1)
proof (induction "nat p" arbitrary: p rule: less_induct)
  case less
  show ?case
  proof (cases "p = 1")
    case True
    then show ?thesis using assms(2) by simp
  next
    case False
    with less.prems have "1 < p" by simp
    moreover from this have "P (p div 2)"
      using less.hyps [of "p div 2"] by (simp add: nat_less_eq_zless)
    ultimately show ?thesis by (rule assms(3))
  qed
qed

lemma LogBase2_nonneg: "0 \<le> LogBase2 p"
proof (cases "1 \<le> p")
  case True
  then show ?thesis
    by (induction p rule: LogBase2_induct) (auto simp: LogBase2_le_1 LogBase2_rec)
next
  case False
  then show ?thesis by (simp add: LogBase2_le_1)
qed

lemma LogBase2_lower: "1 \<le> p \<Longrightarrow> 2 ^ nat (LogBase2 p) \<le> p"
proof (induction p rule: LogBase2_induct)
  case one
  show ?case by (simp add: LogBase2_le_1)
next
  case (step p)
  then show ?case
    by (simp add: LogBase2_rec nat_add_distrib LogBase2_nonneg)
qed

lemma LogBase2_upper: "1 \<le> p \<Longrightarrow> p < 2 * 2 ^ nat (LogBase2 p)"
proof (induction p rule: LogBase2_induct)
  case one
  show ?case by (simp add: LogBase2_le_1)
next
  case (step p)
  then show ?case
    by (simp add: LogBase2_rec nat_add_distrib LogBase2_nonneg)
qed

lemma LogBase2_power: "LogBase2 (2 ^ k) = int k"
proof (induction k)
  case 0
  show ?case by (simp add: LogBase2_le_1)
next
  case (Suc k)
  have "(1 :: int) < 2 * 2 ^ k"
    using one_le_power [of "2::int" k] by linarith
  then show ?case using Suc by (simp add: LogBase2_rec)
qed

subsection \<open>Bits and strings\<close>

lemma xor_high_part: "(a :: u64) XOR push_bit n (drop_bit n a) = take_bit n a"
  by (rule bit_eqI) (auto simp: bit_simps)

text \<open>\<open>split_ref\<close>: the plain reading of "split at every delimiter, drop the empty pieces".\<close>

fun split_ref :: "string \<Rightarrow> char \<Rightarrow> string list" where
  "split_ref [] d = [[]]"
| "split_ref (c # s) d =
     (if c = d then [] # split_ref s d
      else (case split_ref s d of [] \<Rightarrow> [[c]] | p # ps \<Rightarrow> (c # p) # ps))"

lemma split_ref_unfold:
  "split_ref s d =
     (case dropWhile (\<lambda>c. c \<noteq> d) s of
        [] \<Rightarrow> [s]
      | x # rest \<Rightarrow> takeWhile (\<lambda>c. c \<noteq> d) s # split_ref rest d)"
proof (induction s)
  case Nil
  show ?case by simp
next
  case (Cons c s)
  show ?case
  proof (cases "c = d")
    case True
    then show ?thesis by simp
  next
    case False
    with Cons show ?thesis
      by (cases "dropWhile (\<lambda>c. c \<noteq> d) s") (simp_all del: dropWhile_eq_Nil_conv)
  qed
qed

lemma dropWhile_neq_Nil: "dropWhile (\<lambda>c. c \<noteq> d) s = [] \<Longrightarrow> takeWhile (\<lambda>c. c \<noteq> d) s = s"
  by (metis append_Nil2 takeWhile_dropWhile_id)

lemma StringSplit_eq_split_ref: "StringSplit s d = filter (\<lambda>p. p \<noteq> []) (split_ref s d)"
proof (induction s d rule: StringSplit.induct)
  case (1 s d)
  show ?case
  proof (cases "s = []")
    case True
    then show ?thesis by (simp add: StringSplit.simps getline_def)
  next
    case False
    let ?item = "takeWhile (\<lambda>c. c \<noteq> d) s" and ?rest = "tl (dropWhile (\<lambda>c. c \<noteq> d) s)"
    have g: "getline s d = Some (?item, ?rest)" using False by (simp add: getline_def)
    have IH: "StringSplit ?rest d = filter (\<lambda>p. p \<noteq> []) (split_ref ?rest d)"
      using "1" [OF g refl] by auto
    show ?thesis
    proof (cases "dropWhile (\<lambda>c. c \<noteq> d) s")
      case Nil
      then show ?thesis
        using False dropWhile_neq_Nil [OF Nil] IH
        by (subst StringSplit.simps, subst split_ref_unfold)
          (simp add: g StringSplit.simps [of "[]"] getline_def
            del: dropWhile_eq_Nil_conv takeWhile_eq_all_conv)
    next
      case (Cons x xs)
      then show ?thesis
        using IH by (subst StringSplit.simps, subst split_ref_unfold) (simp add: g)
    qed
  qed
qed

subsection \<open>The binary logarithm\<close>

text \<open>
  \<^verbatim>\<open>LogBase2\<close> is the binary logarithm rounded down: its loop terminates for every argument, the result
  is never negative, and for a positive argument the argument lies between the power of two of the
  result and the next one.
\<close>

lemma LogBase2_floor_log:
  assumes "1 \<le> n"
  shows "0 \<le> LogBase2 n \<and> 2 ^ nat (LogBase2 n) \<le> n \<and> n < 2 ^ Suc (nat (LogBase2 n))"
  using LogBase2_nonneg LogBase2_lower [OF assms] LogBase2_upper [OF assms] by simp

end
