(* ===== verification/Configuration.thy ===== *)
theory Configuration
  imports Common
begin

section \<open>Configuration\<close>

text \<open>
  Models \<^verbatim>\<open>src/configuration.h\<close> and \<^verbatim>\<open>src/configuration.cc\<close>: the parameter structure, how the
  constructor derives it from the values of an INI file, and the two address translations.

  The INI reader is third-party code, so it is a parameter: a record \<open>ini\<close> of the four lookup
  functions the constructor calls, each taking section, option and default. The names of
  the output files are not modelled; the thermal parameters are in theory \<open>Thermal\<close>. Quantities of C++ type
  \<^verbatim>\<open>double\<close> are real numbers here.
\<close>

unbundle bit_operations_syntax

subsection \<open>Data\<close>

datatype DRAMProtocol =
    DDR3
  | DDR4
  | GDDR5
  | GDDR5X
  | GDDR6
  | LPDDR
  | LPDDR3
  | LPDDR4
  | HBM
  | HBM2
  | HMC
  | DRAMProtocol_SIZE

datatype RefreshPolicy =
    RANK_LEVEL_SIMULTANEOUS
  | RANK_LEVEL_STAGGERED
  | BANK_LEVEL_STAGGERED
  | RefreshPolicy_SIZE

record Config =
  protocol :: DRAMProtocol
  channel_size :: int
  channels :: int
  ranks :: int
  banks :: int
  bankgroups :: int
  banks_per_group :: int
  rows :: int
  columns :: int
  device_width :: int
  bus_width :: int
  devices_per_rank :: int
  BL :: int
  shift_bits :: int
  ch_pos :: int
  ra_pos :: int
  bg_pos :: int
  ba_pos :: int
  ro_pos :: int
  co_pos :: int
  ch_mask :: u64
  ra_mask :: u64
  bg_mask :: u64
  ba_mask :: u64
  ro_mask :: u64
  co_mask :: u64
  tCK :: real
  burst_cycle :: int
  AL :: int
  CL :: int
  CWL :: int
  RL :: int
  WL :: int
  tCCD_L :: int
  tCCD_S :: int
  tRTRS :: int
  tRTP :: int
  tWTR_L :: int
  tWTR_S :: int
  tWR :: int
  tRP :: int
  tRRD_L :: int
  tRRD_S :: int
  tRAS :: int
  tRCD :: int
  tRFC :: int
  tRC :: int
  tCKE :: int
  tCKESR :: int
  tXS :: int
  tXP :: int
  tRFCb :: int
  tREFI :: int
  tREFIb :: int
  tFAW :: int
  tRPRE :: int
  tWPRE :: int
  read_delay :: int
  write_delay :: int
  tPPD :: int
  t32AW :: int
  tRCDRD :: int
  tRCDWR :: int
  act_energy_inc :: real
  read_energy_inc :: real
  write_energy_inc :: real
  lh_read_energy_inc :: real
  gh_read_energy_inc :: real
  pim_write_energy_inc :: real
  ref_energy_inc :: real
  refb_energy_inc :: real
  act_stb_energy_inc :: real
  pre_stb_energy_inc :: real
  pre_pd_energy_inc :: real
  sref_energy_inc :: real
  num_links :: int
  num_dies :: int
  link_width :: int
  link_speed :: int
  block_size :: int
  xbar_queue_depth :: int
  address_mapping :: string
  queue_structure_name :: string
  row_buf_policy_name :: string
  refresh_policy :: RefreshPolicy
  cmd_queue_size :: int
  unified_queue_enabled :: bool
  trans_queue_size :: int
  write_buf_size :: int
  enable_self_refresh :: bool
  sref_threshold :: int
  aggressive_precharging_enabled :: bool
  enable_hbm_dual_cmd :: bool
  epoch_period :: int
  output_level :: int
  request_size_bytes :: int
  ideal_memory_latency :: int

text \<open>
  The object before any initialisation phase has run. C++ leaves the members uninitialised; each
  phase below writes what the later ones read.
\<close>

definition config0 :: Config where
  "config0 = \<lparr>
    protocol = DDR3, channel_size = 0, channels = 0, ranks = 0, banks = 0, bankgroups = 0,
    banks_per_group = 0, rows = 0, columns = 0, device_width = 0, bus_width = 0,
    devices_per_rank = 0, BL = 0, shift_bits = 0, ch_pos = 0, ra_pos = 0, bg_pos = 0,
    ba_pos = 0, ro_pos = 0, co_pos = 0, ch_mask = 0, ra_mask = 0, bg_mask = 0, ba_mask = 0,
    ro_mask = 0, co_mask = 0, tCK = 0, burst_cycle = 0, AL = 0, CL = 0, CWL = 0, RL = 0,
    WL = 0, tCCD_L = 0, tCCD_S = 0, tRTRS = 0, tRTP = 0, tWTR_L = 0, tWTR_S = 0, tWR = 0,
    tRP = 0, tRRD_L = 0, tRRD_S = 0, tRAS = 0, tRCD = 0, tRFC = 0, tRC = 0, tCKE = 0,
    tCKESR = 0, tXS = 0, tXP = 0, tRFCb = 0, tREFI = 0, tREFIb = 0, tFAW = 0, tRPRE = 0,
    tWPRE = 0, read_delay = 0, write_delay = 0, tPPD = 0, t32AW = 0, tRCDRD = 0, tRCDWR = 0,
    act_energy_inc = 0, read_energy_inc = 0, write_energy_inc = 0, lh_read_energy_inc = 0,
    gh_read_energy_inc = 0, pim_write_energy_inc = 0, ref_energy_inc = 0, refb_energy_inc = 0,
    act_stb_energy_inc = 0, pre_stb_energy_inc = 0, pre_pd_energy_inc = 0, sref_energy_inc = 0,
    num_links = 0, num_dies = 0, link_width = 0, link_speed = 0, block_size = 0,
    xbar_queue_depth = 0, address_mapping = '''', queue_structure_name = '''',
    row_buf_policy_name = '''', refresh_policy = RANK_LEVEL_STAGGERED, cmd_queue_size = 0,
    unified_queue_enabled = False, trans_queue_size = 0, write_buf_size = 0,
    enable_self_refresh = False, sref_threshold = 0, aggressive_precharging_enabled = False,
    enable_hbm_dual_cmd = False, epoch_period = 0, output_level = 0, request_size_bytes = 0,
    ideal_memory_latency = 0\<rparr>"

record ini =
  ini_Get :: "string \<Rightarrow> string \<Rightarrow> string \<Rightarrow> string"
  ini_GetInteger :: "string \<Rightarrow> string \<Rightarrow> int \<Rightarrow> int"
  ini_GetBoolean :: "string \<Rightarrow> string \<Rightarrow> bool \<Rightarrow> bool"
  ini_GetReal :: "string \<Rightarrow> string \<Rightarrow> real \<Rightarrow> real"

definition IsGDDR :: "Config \<Rightarrow> bool" where
  "IsGDDR cfg \<longleftrightarrow> protocol cfg = GDDR5 \<or> protocol cfg = GDDR5X \<or> protocol cfg = GDDR6"

definition IsHBM :: "Config \<Rightarrow> bool" where
  "IsHBM cfg \<longleftrightarrow> protocol cfg = HBM \<or> protocol cfg = HBM2"

definition IsHMC :: "Config \<Rightarrow> bool" where
  "IsHMC cfg \<longleftrightarrow> protocol cfg = HMC"

definition IsDDR4 :: "Config \<Rightarrow> bool" where
  "IsDDR4 cfg \<longleftrightarrow> protocol cfg = DDR4"

subsection \<open>The constructor's phases\<close>

text \<open>Integer division and remainder as the program runs them: a zero divisor traps.\<close>

definition idiv :: "int \<Rightarrow> int \<Rightarrow> int res" where
  "idiv a b = (if b = 0 then Inl DivByZero else Inr (tdiv a b))"

definition imod :: "int \<Rightarrow> int \<Rightarrow> int res" where
  "imod a b = (if b = 0 then Inl DivByZero else Inr (tmod a b))"

text \<open>\<^verbatim>\<open>reader_->GetInteger\<close> returns a \<^verbatim>\<open>long\<close>, which is narrowed to \<^verbatim>\<open>int\<close>.\<close>

definition GetInteger :: "ini \<Rightarrow> string \<Rightarrow> string \<Rightarrow> int \<Rightarrow> int" where
  "GetInteger rd sec opt d = signed_take_bit 31 (ini_GetInteger rd sec opt d)"

definition GetDRAMProtocol :: "string \<Rightarrow> DRAMProtocol res" where
  "GetDRAMProtocol protocol_str =
     (case map_of
        [(''DDR3'', DDR3), (''DDR4'', DDR4), (''GDDR5'', GDDR5), (''GDDR5X'', GDDR5X),
         (''GDDR6'', GDDR6), (''LPDDR'', LPDDR), (''LPDDR3'', LPDDR3), (''LPDDR4'', LPDDR4),
         (''HBM'', HBM), (''HBM2'', HBM2), (''HMC'', HMC)] protocol_str of
        None \<Rightarrow> Inl (AbruptExit ''configuration.cc'' 82)
      | Some pr \<Rightarrow> Inr pr)"

definition InitSystemParams :: "ini \<Rightarrow> Config \<Rightarrow> Config res" where
  "InitSystemParams rd cfg =
     (let cfg = cfg\<lparr>
        channel_size := GetInteger rd ''system'' ''channel_size'' 1024,
        channels := GetInteger rd ''system'' ''channels'' 1,
        bus_width := GetInteger rd ''system'' ''bus_width'' 64,
        address_mapping := ini_Get rd ''system'' ''address_mapping'' ''chrobabgraco'',
        queue_structure_name := ini_Get rd ''system'' ''queue_structure'' ''PER_BANK'',
        row_buf_policy_name := ini_Get rd ''system'' ''row_buf_policy'' ''OPEN_PAGE'',
        cmd_queue_size := GetInteger rd ''system'' ''cmd_queue_size'' 16,
        trans_queue_size := GetInteger rd ''system'' ''trans_queue_size'' 32,
        unified_queue_enabled := ini_GetBoolean rd ''system'' ''unified_queue'' False,
        write_buf_size := GetInteger rd ''system'' ''write_buf_size'' 16\<rparr>;
        ref_policy = ini_Get rd ''system'' ''refresh_policy'' ''RANK_LEVEL_STAGGERED''
      in rbind
           (if ref_policy = ''RANK_LEVEL_SIMULTANEOUS'' then Inr RANK_LEVEL_SIMULTANEOUS
            else if ref_policy = ''RANK_LEVEL_STAGGERED'' then Inr RANK_LEVEL_STAGGERED
            else if ref_policy = ''BANK_LEVEL_STAGGERED'' then Inr BANK_LEVEL_STAGGERED
            else Inl (AbruptExit ''configuration.cc'' 247))
           (\<lambda>pol. Inr (cfg\<lparr>
              refresh_policy := pol,
              enable_self_refresh := ini_GetBoolean rd ''system'' ''enable_self_refresh'' False,
              sref_threshold := GetInteger rd ''system'' ''sref_threshold'' 1000,
              aggressive_precharging_enabled :=
                ini_GetBoolean rd ''system'' ''aggressive_precharging_enabled'' False\<rparr>)))"

definition burst_params :: "DRAMProtocol \<Rightarrow> int \<Rightarrow> int \<times> int" where
  "burst_params pr bl =
     (if pr = GDDR5 then (if bl = 0 then 0 else tdiv bl 4, if bl = 0 then 8 else bl)
      else if pr = GDDR5X then (if bl = 0 then 0 else tdiv bl 8, if bl = 0 then 8 else bl)
      else if pr = GDDR6 then (if bl = 0 then 0 else tdiv bl 16, if bl = 0 then 8 else bl)
      else (if bl = 0 then 0 else tdiv bl 2,
            if bl = 0 then (if pr = HBM \<or> pr = HBM2 then 4 else 8) else bl))"

definition structure_params :: "ini \<Rightarrow> DRAMProtocol \<Rightarrow> Config \<Rightarrow> Config" where
  "structure_params rd pr cfg =
     (let bgs = GetInteger rd ''dram_structure'' ''bankgroups'' 2;
          bpg = GetInteger rd ''dram_structure'' ''banks_per_group'' 2;
          bankgroup_enable = ini_GetBoolean rd ''dram_structure'' ''bankgroup_enable'' True;
          bpg' = (if \<not> bankgroup_enable then bpg * bgs else bpg);
          bgs' = (if \<not> bankgroup_enable then 1 else bgs)
      in cfg\<lparr>
           protocol := pr,
           bankgroups := bgs',
           banks_per_group := bpg',
           banks := bgs' * bpg',
           rows := GetInteger rd ''dram_structure'' ''rows'' 65536,
           columns := GetInteger rd ''dram_structure'' ''columns'' 1024,
           device_width := GetInteger rd ''dram_structure'' ''device_width'' 8,
           BL := GetInteger rd ''dram_structure'' ''BL'' 8,
           num_dies := GetInteger rd ''dram_structure'' ''num_dies'' 1\<rparr>)"

definition special_params :: "ini \<Rightarrow> Config \<Rightarrow> Config" where
  "special_params rd cfg = cfg\<lparr>
     enable_hbm_dual_cmd :=
       (ini_GetBoolean rd ''dram_structure'' ''hbm_dual_cmd'' True \<and> IsHBM cfg),
     num_links := GetInteger rd ''hmc'' ''num_links'' 4,
     link_width := GetInteger rd ''hmc'' ''link_width'' 16,
     link_speed := GetInteger rd ''hmc'' ''link_speed'' 15000,
     block_size := GetInteger rd ''hmc'' ''block_size'' 64,
     xbar_queue_depth := GetInteger rd ''hmc'' ''xbar_queue_depth'' 16\<rparr>"

definition set_burst :: "DRAMProtocol \<Rightarrow> int \<Rightarrow> Config \<Rightarrow> Config" where
  "set_burst pr bl cfg =
     (let (bc, bl') = burst_params pr bl;
          cfg = cfg\<lparr>burst_cycle := bc, BL := bl'\<rparr>
      in if IsGDDR cfg then cfg\<lparr>columns := columns cfg * BL cfg\<rparr>
         else if IsHBM cfg then cfg\<lparr>columns := columns cfg * 2\<rparr>
         else cfg)"

definition InitDRAMParams :: "ini \<Rightarrow> Config \<Rightarrow> Config res" where
  "InitDRAMParams rd cfg =
     rbind (GetDRAMProtocol (ini_Get rd ''dram_structure'' ''protocol'' ''DDR3'')) (\<lambda>pr.
     let cfg = special_params rd (structure_params rd pr cfg) in
     rbind (if IsHMC cfg then idiv (block_size cfg * 8) (device_width cfg) else Inr (BL cfg)) (\<lambda>bl.
       Inr (set_burst pr bl cfg)))"

definition CalculateSize :: "Config \<Rightarrow> Config res" where
  "CalculateSize cfg =
     rbind (idiv (bus_width cfg) (device_width cfg)) (\<lambda>dpr.
     let page_size = tdiv (columns cfg * device_width cfg) 8;
         megs_per_bank = tdiv (page_size * tdiv (rows cfg) 1024) 1024;
         megs_per_rank = megs_per_bank * banks cfg * dpr;
         cfg = cfg\<lparr>devices_per_rank := dpr\<rparr>
     in if megs_per_rank > channel_size cfg
        then Inr (cfg\<lparr>ranks := 1, channel_size := megs_per_rank\<rparr>)
        else rbind (idiv (channel_size cfg) megs_per_rank) (\<lambda>r.
             Inr (cfg\<lparr>ranks := r, channel_size := r * megs_per_rank\<rparr>)))"

text \<open>\<^verbatim>\<open>(1 << w) - 1\<close> on \<^verbatim>\<open>int\<close>, converted to \<^verbatim>\<open>uint64_t\<close>.\<close>

definition mask_of :: "int \<Rightarrow> u64 res" where
  "mask_of w = (if 0 \<le> w \<and> w < 31 then Inr (of_int (2 ^ nat w - 1)) else Inl BadShift)"

fun tokens2 :: "string \<Rightarrow> string list" where
  "tokens2 (a # b # s) = [a, b] # tokens2 s"
| "tokens2 s = (if s = [] then [] else [s])"

fun place_fields ::
  "(string \<rightharpoonup> int) \<Rightarrow> string list \<Rightarrow> (string \<rightharpoonup> int) \<Rightarrow> int \<Rightarrow> (string \<rightharpoonup> int) res" where
  "place_fields fw [] fp pos = Inr fp"
| "place_fields fw (token # rest) fp pos =
     (case fw token of
        None \<Rightarrow> Inl (AbruptExit ''configuration.cc'' 394)
      | Some w \<Rightarrow> place_fields fw rest (fp(token \<mapsto> pos)) (pos + w))"

definition field_widths :: "Config \<Rightarrow> (string \<rightharpoonup> int)" where
  "field_widths cfg =
     [''ch'' \<mapsto> LogBase2 (channels cfg),
      ''ra'' \<mapsto> LogBase2 (ranks cfg),
      ''bg'' \<mapsto> LogBase2 (bankgroups cfg),
      ''ba'' \<mapsto> LogBase2 (banks_per_group cfg),
      ''ro'' \<mapsto> LogBase2 (rows cfg),
      ''co'' \<mapsto> LogBase2 (columns cfg) - LogBase2 (BL cfg)]"

text \<open>\<^verbatim>\<open>std::map::at\<close> throws on a missing key.\<close>

definition map_at :: "('k \<rightharpoonup> 'v) \<Rightarrow> 'k \<Rightarrow> 'v res" where
  "map_at m k = (case m k of None \<Rightarrow> Inl OutOfRange | Some v \<Rightarrow> Inr v)"

definition SetAddressMapping :: "Config \<Rightarrow> Config res" where
  "SetAddressMapping cfg =
     (let rsb = tdiv (bus_width cfg) 8 * BL cfg;
          cfg = cfg\<lparr>request_size_bytes := rsb, shift_bits := LogBase2 rsb\<rparr>;
          fw = field_widths cfg
      in if length (address_mapping cfg) \<noteq> 12 then Inl (AbruptExit ''configuration.cc'' 376)
         else
           rbind (place_fields fw (rev (tokens2 (address_mapping cfg))) Map.empty 0) (\<lambda>fp.
           rbind (map_at fp ''ch'') (\<lambda>chp. rbind (map_at fp ''ra'') (\<lambda>rap.
           rbind (map_at fp ''bg'') (\<lambda>bgp. rbind (map_at fp ''ba'') (\<lambda>bap.
           rbind (map_at fp ''ro'') (\<lambda>rop. rbind (map_at fp ''co'') (\<lambda>cop.
           rbind (rbind (map_at fw ''ch'') mask_of) (\<lambda>chm. rbind (rbind (map_at fw ''ra'') mask_of) (\<lambda>ram.
           rbind (rbind (map_at fw ''bg'') mask_of) (\<lambda>bgm. rbind (rbind (map_at fw ''ba'') mask_of) (\<lambda>bam.
           rbind (rbind (map_at fw ''ro'') mask_of) (\<lambda>rom. rbind (rbind (map_at fw ''co'') mask_of) (\<lambda>com.
           Inr (cfg\<lparr>ch_pos := chp, ra_pos := rap, bg_pos := bgp, ba_pos := bap,
                    ro_pos := rop, co_pos := cop,
                    ch_mask := chm, ra_mask := ram, bg_mask := bgm, ba_mask := bam,
                    ro_mask := rom, co_mask := com\<rparr>)))))))))))))))"

definition InitTimingParams :: "ini \<Rightarrow> Config \<Rightarrow> Config" where
  "InitTimingParams rd cfg =
     (let cfg = cfg\<lparr>
        tCK := ini_GetReal rd ''timing'' ''tCK'' 1,
        AL := GetInteger rd ''timing'' ''AL'' 0,
        CL := GetInteger rd ''timing'' ''CL'' 12,
        CWL := GetInteger rd ''timing'' ''CWL'' 12,
        tCCD_L := GetInteger rd ''timing'' ''tCCD_L'' 6,
        tCCD_S := GetInteger rd ''timing'' ''tCCD_S'' 4,
        tRTRS := GetInteger rd ''timing'' ''tRTRS'' 2,
        tRTP := GetInteger rd ''timing'' ''tRTP'' 5,
        tWTR_L := GetInteger rd ''timing'' ''tWTR_L'' 5,
        tWTR_S := GetInteger rd ''timing'' ''tWTR_S'' 5,
        tWR := GetInteger rd ''timing'' ''tWR'' 10,
        tRP := GetInteger rd ''timing'' ''tRP'' 10,
        tRRD_L := GetInteger rd ''timing'' ''tRRD_L'' 4,
        tRRD_S := GetInteger rd ''timing'' ''tRRD_S'' 4,
        tRAS := GetInteger rd ''timing'' ''tRAS'' 24,
        tRCD := GetInteger rd ''timing'' ''tRCD'' 10,
        tRFC := GetInteger rd ''timing'' ''tRFC'' 74\<rparr>;
      cfg = cfg\<lparr>
        tRC := tRAS cfg + tRP cfg,
        tCKE := GetInteger rd ''timing'' ''tCKE'' 6,
        tCKESR := GetInteger rd ''timing'' ''tCKESR'' 12,
        tXS := GetInteger rd ''timing'' ''tXS'' 432,
        tXP := GetInteger rd ''timing'' ''tXP'' 8,
        tRFCb := GetInteger rd ''timing'' ''tRFCb'' 20,
        tREFI := GetInteger rd ''timing'' ''tREFI'' 7800,
        tREFIb := GetInteger rd ''timing'' ''tREFIb'' 1950,
        tFAW := GetInteger rd ''timing'' ''tFAW'' 50,
        tRPRE := GetInteger rd ''timing'' ''tRPRE'' 1,
        tWPRE := GetInteger rd ''timing'' ''tWPRE'' 1,
        tPPD := GetInteger rd ''timing'' ''tPPD'' 0,
        t32AW := GetInteger rd ''timing'' ''t32AW'' 330,
        tRCDRD := GetInteger rd ''timing'' ''tRCDRD'' 24,
        tRCDWR := GetInteger rd ''timing'' ''tRCDWR'' 20,
        ideal_memory_latency := GetInteger rd ''timing'' ''ideal_memory_latency'' 10,
        RL := AL cfg + CL cfg,
        WL := AL cfg + CWL cfg\<rparr>
      in cfg\<lparr>read_delay := RL cfg + burst_cycle cfg, write_delay := WL cfg + burst_cycle cfg\<rparr>)"

definition InitPowerParams :: "ini \<Rightarrow> Config \<Rightarrow> Config" where
  "InitPowerParams rd cfg =
     (let VDD = ini_GetReal rd ''power'' ''VDD'' (12 / 10);
          IDD0 = ini_GetReal rd ''power'' ''IDD0'' 48;
          IDD2P = ini_GetReal rd ''power'' ''IDD2P'' 25;
          IDD2N = ini_GetReal rd ''power'' ''IDD2N'' 34;
          IDD3N = ini_GetReal rd ''power'' ''IDD3N'' 43;
          IDD4W = ini_GetReal rd ''power'' ''IDD4W'' 123;
          IDD4R = ini_GetReal rd ''power'' ''IDD4R'' 135;
          IDD5AB = ini_GetReal rd ''power'' ''IDD5AB'' 250;
          IDD5PB = ini_GetReal rd ''power'' ''IDD5PB'' 5;
          IDD6x = ini_GetReal rd ''power'' ''IDD6x'' 31;
          devices = real_of_int (devices_per_rank cfg);
          bc = real_of_int (burst_cycle cfg)
      in cfg\<lparr>
        act_energy_inc := VDD * (IDD0 * real_of_int (tRC cfg)
           - (IDD3N * real_of_int (tRAS cfg) + IDD2N * real_of_int (tRP cfg))) * devices,
        read_energy_inc := VDD * (IDD4R - IDD3N) * bc * devices,
        write_energy_inc := VDD * (IDD4W - IDD3N) * bc * devices,
        lh_read_energy_inc := VDD * (55 / 100) * (IDD4R - IDD3N) * bc * devices,
        gh_read_energy_inc := VDD * (IDD4R - IDD3N) * bc * devices,
        pim_write_energy_inc := VDD * (IDD4W - IDD3N) * bc * devices,
        ref_energy_inc := VDD * (IDD5AB - IDD3N) * real_of_int (tRFC cfg) * devices,
        refb_energy_inc := VDD * (IDD5PB - IDD3N) * real_of_int (tRFCb cfg) * devices,
        act_stb_energy_inc := VDD * IDD3N * devices,
        pre_stb_energy_inc := VDD * IDD2N * devices,
        pre_pd_energy_inc := VDD * IDD2P * devices,
        sref_energy_inc := VDD * IDD6x * devices\<rparr>)"

definition InitOtherParams :: "ini \<Rightarrow> Config \<Rightarrow> Config" where
  "InitOtherParams rd cfg = cfg\<lparr>
     epoch_period := GetInteger rd ''other'' ''epoch_period'' 100000,
     output_level := signed_take_bit 31 (ini_GetInteger rd ''other'' ''output_level'' 1)\<rparr>"

text \<open>The constructor, after the INI file has been parsed without error.\<close>

definition mk_config :: "ini \<Rightarrow> Config res" where
  "mk_config rd =
     rbind (InitSystemParams rd config0) (\<lambda>cfg.
     rbind (InitDRAMParams rd cfg) (\<lambda>cfg.
     rbind (CalculateSize cfg) (\<lambda>cfg.
     rbind (SetAddressMapping cfg) (\<lambda>cfg.
     Inr (InitOtherParams rd (InitPowerParams rd (InitTimingParams rd cfg)))))))"

subsection \<open>Address translation\<close>

definition AddressMapping :: "Config \<Rightarrow> u64 \<Rightarrow> Address" where
  "AddressMapping cfg hex =
     (let h = drop_bit (nat (shift_bits cfg)) hex in
      mk_address
        (u64_to_int (drop_bit (nat (ch_pos cfg)) h AND ch_mask cfg))
        (u64_to_int (drop_bit (nat (ra_pos cfg)) h AND ra_mask cfg))
        (u64_to_int (drop_bit (nat (bg_pos cfg)) h AND bg_mask cfg))
        (u64_to_int (drop_bit (nat (ba_pos cfg)) h AND ba_mask cfg))
        (u64_to_int (drop_bit (nat (ro_pos cfg)) h AND ro_mask cfg))
        (u64_to_int (drop_bit (nat (co_pos cfg)) h AND co_mask cfg)))"

text \<open>\<^verbatim>\<open>x << n\<close> on \<^verbatim>\<open>int\<close>: the shifted value is kept to 32 bits.\<close>

definition shl_int :: "int \<Rightarrow> int \<Rightarrow> int" where
  "shl_int x n = signed_take_bit 31 (push_bit (nat n) x)"

definition AddressUnmapping :: "Config \<Rightarrow> Address \<Rightarrow> u64" where
  "AddressUnmapping cfg a =
     push_bit (nat (shift_bits cfg))
       (of_int (shl_int (column a) (co_pos cfg) OR shl_int (row a) (ro_pos cfg)
          OR shl_int (bank a) (ba_pos cfg) OR shl_int (bankgroup a) (bg_pos cfg)
          OR shl_int (rank a) (ra_pos cfg) OR shl_int (channel a) (ch_pos cfg)) :: u64)"

subsection \<open>Masks\<close>

lemma u64_to_int_masked:
  fixes x :: u64
  assumes "0 \<le> w" "w < 31"
  shows "u64_to_int (x AND of_int (2 ^ nat w - 1)) = take_bit (nat w) (uint x)"
proof -
  have "x AND of_int (2 ^ nat w - 1) = take_bit (nat w) x"
    by (simp add: take_bit_eq_mask mask_eq_exp_minus_1)
  moreover have "uint (take_bit (nat w) x) < 2 ^ 31"
  proof -
    have "uint (take_bit (nat w) x) < 2 ^ nat w"
      by (simp add: unsigned_take_bit_eq)
    also have "(2::int) ^ nat w \<le> 2 ^ 31"
      using assms by (intro power_increasing) auto
    finally show ?thesis .
  qed
  ultimately show ?thesis by (simp add: u64_to_int_small unsigned_take_bit_eq)
qed

lemma mask_of_Inr [res_simps]:
  "mask_of w = Inr m \<longleftrightarrow> 0 \<le> w \<and> w < 31 \<and> m = of_int (2 ^ nat w - 1)"
  by (auto simp: mask_of_def)

subsection \<open>Packing disjoint bit fields\<close>

fun pack :: "(nat \<times> int) list \<Rightarrow> int" where
  "pack [] = 0"
| "pack ((p, x) # fs) = push_bit p x OR pack fs"

lemma bit_pack: "bit (pack fs) n \<longleftrightarrow> (\<exists>(p, x) \<in> set fs. p \<le> n \<and> bit x (n - p))"
  by (induction fs rule: pack.induct) (auto simp: bit_simps)

lemma bit_small: "0 \<le> (x::int) \<Longrightarrow> x < 2 ^ w \<Longrightarrow> w \<le> n \<Longrightarrow> \<not> bit x n"
  by (metis bit_take_bit_iff linorder_not_le take_bit_int_eq_self)

lemma unpack_pack:
  assumes "(p, x) \<in> set fs" and "0 \<le> x" "x < 2 ^ w"
    and "\<And>q y. (q, y) \<in> set fs \<Longrightarrow> (q, y) \<noteq> (p, x) \<Longrightarrow>
            (\<exists>v. 0 \<le> y \<and> y < 2 ^ v \<and> (p + w \<le> q \<or> q + v \<le> p))"
  shows "take_bit w (drop_bit p (pack fs)) = x"
proof (rule bit_eqI)
  fix n
  show "bit (take_bit w (drop_bit p (pack fs))) n = bit x n"
  proof (cases "n < w")
    case False
    then show ?thesis using bit_small [OF assms(2,3)] by (simp add: bit_simps)
  next
    case True
    have only: "(q, y) = (p, x)"
      if h: "bit y (p + n - q)" "q \<le> p + n" "(q, y) \<in> set fs" for q y
    proof (rule ccontr)
      assume "(q, y) \<noteq> (p, x)"
      then obtain v where "0 \<le> y" "y < 2 ^ v" "p + w \<le> q \<or> q + v \<le> p"
        using assms(4) h(3) by blast
      then show False
        using bit_small [of y v "p + n - q"] h(1,2) True by linarith
    qed
    have "bit (pack fs) (p + n) \<longleftrightarrow> bit x n"
    proof
      assume "bit (pack fs) (p + n)"
      then obtain q y where "(q, y) \<in> set fs" "q \<le> p + n" "bit y (p + n - q)"
        by (auto simp: bit_pack)
      with only [of y q] show "bit x n" by auto
    next
      assume "bit x n"
      then show "bit (pack fs) (p + n)"
        using assms(1) by (auto simp: bit_pack intro!: bexI [of _ "(p, x)"])
    qed
    then show ?thesis using True by (simp add: bit_simps)
  qed
qed

lemma pack_range:
  assumes "\<And>p x. (p, x) \<in> set fs \<Longrightarrow> 0 \<le> x \<and> (\<exists>w. x < 2 ^ w \<and> p + w \<le> k)"
  shows "0 \<le> pack fs \<and> pack fs < 2 ^ k"
proof -
  have "0 \<le> pack fs" using assms
  proof (induction fs rule: pack.induct)
    case (2 p x fs)
    then have "0 \<le> x" and "0 \<le> pack fs" by auto
    then show ?case by simp
  qed simp
  moreover have "take_bit k (pack fs) = pack fs"
  proof (rule bit_eqI)
    fix n show "bit (take_bit k (pack fs)) n = bit (pack fs) n"
    proof (cases "n < k")
      case False
      have "\<not> bit (pack fs) n"
      proof
        assume "bit (pack fs) n"
        then obtain q y where q: "(q, y) \<in> set fs" "q \<le> n" "bit y (n - q)"
          by (auto simp: bit_pack)
        then obtain w where "0 \<le> y" "y < 2 ^ w" "q + w \<le> k" using assms by blast
        with q False bit_small [of y w "n - q"] show False by linarith
      qed
      then show ?thesis by (simp add: bit_simps)
    qed (simp add: bit_simps)
  qed
  ultimately show ?thesis by (metis take_bit_int_less_exp)
qed


subsection \<open>The layout chosen by SetAddressMapping\<close>

lemma place_fields_other:
  "place_fields fw toks fp pos = Inr fp' \<Longrightarrow> t \<notin> set toks \<Longrightarrow> fp' t = fp t"
  by (induction fw toks fp pos rule: place_fields.induct) (auto split: option.splits)

lemma place_fields_lower:
  "place_fields fw toks fp pos = Inr fp' \<Longrightarrow> distinct toks \<Longrightarrow>
   \<forall>t \<in> set toks. \<forall>w. fw t = Some w \<longrightarrow> 0 \<le> w \<Longrightarrow> t \<in> set toks \<Longrightarrow> fp' t = Some p \<Longrightarrow> pos \<le> p"
proof (induction fw toks fp pos rule: place_fields.induct)
  case (2 fw token rest fp pos)
  then obtain w where w: "fw token = Some w" "place_fields fw rest (fp(token \<mapsto> pos)) (pos + w) = Inr fp'"
    by (auto split: option.splits)
  show ?case
  proof (cases "t = token")
    case True
    then have "fp' t = Some pos" using place_fields_other [OF w(2)] "2.prems"(2) by auto
    then show ?thesis using "2.prems" by simp
  next
    case False
    then have "pos + w \<le> p" using "2.IH" [OF w] "2.prems" by auto
    moreover have "0 \<le> w" using "2.prems"(3) w(1) by auto
    ultimately show ?thesis by simp
  qed
qed simp

lemma place_fields_disjoint:
  "place_fields fw toks fp pos = Inr fp' \<Longrightarrow> distinct toks \<Longrightarrow>
   \<forall>t \<in> set toks. \<forall>w. fw t = Some w \<longrightarrow> 0 \<le> w \<Longrightarrow>
   t \<in> set toks \<Longrightarrow> u \<in> set toks \<Longrightarrow> t \<noteq> u \<Longrightarrow>
   fp' t = Some p \<Longrightarrow> fw t = Some w \<Longrightarrow> fp' u = Some q \<Longrightarrow> fw u = Some v \<Longrightarrow>
   p + w \<le> q \<or> q + v \<le> p"
proof (induction fw toks fp pos rule: place_fields.induct)
  case (2 fw token rest fp pos)
  then obtain x where x: "fw token = Some x" "place_fields fw rest (fp(token \<mapsto> pos)) (pos + x) = Inr fp'"
    by (auto split: option.splits)
  have tok: "fp' token = Some pos" using place_fields_other [OF x(2)] "2.prems"(2) by auto
  have low: "r \<in> set rest \<Longrightarrow> fp' r = Some z \<Longrightarrow> pos + x \<le> z" for r z
    using place_fields_lower [OF x(2)] "2.prems"(2,3) by auto
  consider "t = token" | "u = token" | "t \<in> set rest" "u \<in> set rest" using "2.prems" by auto
  then show ?case
  proof cases
    case 1
    then show ?thesis using low [of u q] "2.prems" tok x(1) by auto
  next
    case 2
    then show ?thesis using low [of t p] "2.prems" tok x(1) by auto
  next
    case 3
    then show ?thesis using "2.IH" [OF x] "2.prems" by auto
  qed
qed simp

lemma length_tokens2: "length s = 2 * n \<Longrightarrow> length (tokens2 s) = n"
proof (induction s arbitrary: n rule: tokens2.induct)
  case (1 a b s)
  then have "length (tokens2 s) = n - 1" by simp
  with 1 show ?case by auto
qed auto

definition field_names :: "string list" where
  "field_names = [''ch'', ''ra'', ''bg'', ''ba'', ''ro'', ''co'']"

text \<open>A successful placement of six tokens that places all six fields places each exactly once.\<close>

lemma tokens_distinct:
  assumes "length toks = 6" and "set field_names \<subseteq> set toks"
  shows "distinct toks \<and> set toks = set field_names"
proof -
  have c: "card (set field_names) = 6" by (simp add: field_names_def)
  have "card (set toks) \<le> 6" using card_length [of toks] assms(1) by simp
  moreover have "card (set field_names) \<le> card (set toks)" using assms(2) by (intro card_mono) auto
  ultimately have "card (set toks) = 6" using c by simp
  then show ?thesis using assms c card_seteq [of "set toks" "set field_names"]
    by (auto simp: card_distinct)
qed


definition widths :: "Config \<Rightarrow> int list" where
  "widths cfg = [LogBase2 (channels cfg), LogBase2 (ranks cfg), LogBase2 (bankgroups cfg),
     LogBase2 (banks_per_group cfg), LogBase2 (rows cfg),
     LogBase2 (columns cfg) - LogBase2 (BL cfg)]"

definition positions :: "Config \<Rightarrow> int list" where
  "positions cfg = [ch_pos cfg, ra_pos cfg, bg_pos cfg, ba_pos cfg, ro_pos cfg, co_pos cfg]"

definition masks :: "Config \<Rightarrow> u64 list" where
  "masks cfg = [ch_mask cfg, ra_mask cfg, bg_mask cfg, ba_mask cfg, ro_mask cfg, co_mask cfg]"

definition address_fields :: "Address \<Rightarrow> int list" where
  "address_fields a = [channel a, rank a, bankgroup a, bank a, row a, column a]"

definition fields_disjoint :: "int list \<Rightarrow> int list \<Rightarrow> bool" where
  "fields_disjoint ps ws \<longleftrightarrow>
     (\<forall>i < length ps. \<forall>j < length ps. i \<noteq> j \<longrightarrow>
        ps ! i + ws ! i \<le> ps ! j \<or> ps ! j + ws ! j \<le> ps ! i)"

definition mapping_wf :: "Config \<Rightarrow> bool" where
  "mapping_wf cfg \<longleftrightarrow>
     (\<forall>w \<in> set (widths cfg). 0 \<le> w \<and> w < 31) \<and>
     masks cfg = map (\<lambda>w. of_int (2 ^ nat w - 1)) (widths cfg) \<and>
     (\<forall>p \<in> set (positions cfg). 0 \<le> p) \<and>
     fields_disjoint (positions cfg) (widths cfg)"

lemma length_widths [simp]: "length (widths cfg) = 6"
  by (simp add: widths_def)

lemma length_positions [simp]: "length (positions cfg) = 6"
  by (simp add: positions_def)

lemma widths_names: "map (field_widths cfg) field_names = map Some (widths cfg)"
  by (simp add: field_names_def field_widths_def widths_def)

lemma SetAddressMapping_wf:
  assumes "SetAddressMapping cfg0 = Inr cfg"
  shows "mapping_wf cfg"
proof -
  let ?toks = "rev (tokens2 (address_mapping cfg))"
  have fr: "field_widths cfg = field_widths cfg0" "address_mapping cfg = address_mapping cfg0"
    using assms by (auto simp: SetAddressMapping_def Let_def res_simps field_widths_def split: if_splits)
  have len: "length (address_mapping cfg0) = 12"
    using assms by (simp add: SetAddressMapping_def Let_def split: if_splits)
  obtain fp where
    fp: "place_fields (field_widths cfg) ?toks Map.empty 0 = Inr fp"
    and pos: "map fp field_names = map Some (positions cfg)"
    and msk: "map Inr (masks cfg) = map mask_of (widths cfg)"
    using assms len
    by (auto simp: SetAddressMapping_def Let_def res_simps field_widths_def map_at_def field_names_def
        positions_def masks_def widths_def mask_of_def split: if_splits option.splits)
  have w: "\<forall>w \<in> set (widths cfg). 0 \<le> w \<and> w < 31"
    and m: "masks cfg = map (\<lambda>w. of_int (2 ^ nat w - 1)) (widths cfg)"
    using msk by (auto simp: masks_def widths_def mask_of_def split: if_splits)
  have in_toks: "set field_names \<subseteq> set ?toks"
  proof
    fix n assume "n \<in> set field_names"
    then have "fp n \<in> set (map fp field_names)" by simp
    then have "fp n \<noteq> None" using pos by auto
    then show "n \<in> set ?toks" using place_fields_other [OF fp] by fastforce
  qed
  moreover have "length ?toks = 6" using len fr length_tokens2 [of _ 6] by simp
  ultimately have d: "distinct ?toks" "set ?toks = set field_names" using tokens_distinct by auto
  have nth: "field_widths cfg (field_names ! i) = Some (widths cfg ! i)"
      "fp (field_names ! i) = Some (positions cfg ! i)" "field_names ! i \<in> set ?toks"
    if "i < 6" for i
  proof -
    have l: "i < length field_names" using that by (simp add: field_names_def)
    show "field_widths cfg (field_names ! i) = Some (widths cfg ! i)"
      "fp (field_names ! i) = Some (positions cfg ! i)"
      using that l arg_cong [OF widths_names [of cfg], of "\<lambda>xs. xs ! i"]
        arg_cong [OF pos, of "\<lambda>xs. xs ! i"] by simp_all
    show "field_names ! i \<in> set ?toks" using l d by simp
  qed
  have six: "\<exists>i < 6. t = field_names ! i" if "t \<in> set ?toks" for t
  proof -
    have "t \<in> set field_names" using that d(2) by simp
    moreover have "length field_names = 6" by (simp add: field_names_def)
    ultimately show ?thesis by (metis in_set_conv_nth)
  qed
  have nn: "\<forall>t \<in> set ?toks. \<forall>w. field_widths cfg t = Some w \<longrightarrow> 0 \<le> w"
  proof (intro ballI allI impI)
    fix t v assume "t \<in> set ?toks" "field_widths cfg t = Some v"
    then obtain i where "i < 6" "v = widths cfg ! i" using six nth(1) by fastforce
    then show "0 \<le> v" using w by simp
  qed
  have pnn: "\<forall>p \<in> set (positions cfg). 0 \<le> p"
  proof
    fix p assume "p \<in> set (positions cfg)"
    then obtain i where "i < 6" "p = positions cfg ! i"
      using length_positions [of cfg] by (metis in_set_conv_nth)
    then show "0 \<le> p"
      using place_fields_lower [OF fp d(1) nn nth(3) nth(2)] by simp
  qed
  have "fields_disjoint (positions cfg) (widths cfg)"
    unfolding fields_disjoint_def
  proof (intro allI impI)
    fix i j assume ij: "i < length (positions cfg)" "j < length (positions cfg)" "i \<noteq> j"
    then have b: "i < 6" "j < 6" by simp_all
    have "field_names ! i \<noteq> field_names ! j"
      using ij b by (subst nth_eq_iff_index_eq) (simp_all add: field_names_def)
    then show "positions cfg ! i + widths cfg ! i \<le> positions cfg ! j \<or>
        positions cfg ! j + widths cfg ! j \<le> positions cfg ! i"
      using place_fields_disjoint [OF fp d(1) nn nth(3) nth(3) _ nth(2) nth(1) nth(2) nth(1)] b
      by blast
  qed
  then show ?thesis using w m pnn by (simp add: mapping_wf_def)
qed

subsection \<open>Translating addresses\<close>

lemma mapping_wf_nth:
  assumes "mapping_wf cfg" and "i < 6"
  shows "0 \<le> widths cfg ! i" "widths cfg ! i < 31" "0 \<le> positions cfg ! i"
    "masks cfg ! i = of_int (2 ^ nat (widths cfg ! i) - 1)"
  using assms by (simp_all add: mapping_wf_def)

lemma address_fields_length [simp]: "length (address_fields a) = 6"
  by (simp add: address_fields_def)

lemma six_cases: "i < 6 \<longleftrightarrow> i = 0 \<or> i = 1 \<or> i = 2 \<or> i = 3 \<or> i = 4 \<or> i = (5 :: nat)"
  by auto

lemma AddressMapping_fields:
  assumes "mapping_wf cfg" and "i < 6"
  shows "address_fields (AddressMapping cfg h) ! i =
    take_bit (nat (widths cfg ! i)) (drop_bit (nat (positions cfg ! i))
      (uint (drop_bit (nat (shift_bits cfg)) h)))"
proof -
  have "address_fields (AddressMapping cfg h) ! i =
     u64_to_int (drop_bit (nat (positions cfg ! i)) (drop_bit (nat (shift_bits cfg)) h) AND masks cfg ! i)"
    using assms(2)
    by (auto simp: six_cases AddressMapping_def address_fields_def positions_def masks_def Let_def)
  then show ?thesis
    using mapping_wf_nth [OF assms] u64_to_int_masked
    by (simp add: unsigned_drop_bit_eq)
qed

lemma address_fields_inject: "address_fields a = address_fields b \<Longrightarrow> a = (b :: Address)"
  by (simp add: address_fields_def)

lemma AddressUnmapping_pack:
  assumes "mapping_wf cfg"
    and fits: "\<And>i. i < 6 \<Longrightarrow> positions cfg ! i + widths cfg ! i \<le> 31"
    and range: "\<And>i. i < 6 \<Longrightarrow> 0 \<le> address_fields a ! i \<and> address_fields a ! i < 2 ^ nat (widths cfg ! i)"
  shows "AddressUnmapping cfg a =
    push_bit (nat (shift_bits cfg)) (of_int (pack (zip (map nat (positions cfg)) (address_fields a))))"
proof -
  have shl: "shl_int (address_fields a ! i) (positions cfg ! i) =
      push_bit (nat (positions cfg ! i)) (address_fields a ! i)" if "i < 6" for i
  proof -
    let ?x = "address_fields a ! i" and ?p = "nat (positions cfg ! i)" and ?w = "nat (widths cfg ! i)"
    have "?x * 2 ^ ?p < 2 ^ ?w * 2 ^ ?p" using range [OF that] by simp
    also have "\<dots> = 2 ^ (?w + ?p)" by (simp add: power_add)
    also have "\<dots> \<le> 2 ^ 31"
      using fits [OF that] mapping_wf_nth [OF assms(1) that] by (intro power_increasing) auto
    finally have "push_bit ?p ?x < 2 ^ 31" by (simp add: push_bit_eq_mult)
    moreover have "0 \<le> push_bit ?p ?x" using range [OF that] by simp
    ultimately show ?thesis
      unfolding shl_int_def by (intro signed_take_bit_int_eq_self) linarith+
  qed
  have "pack (zip (map nat (positions cfg)) (address_fields a)) =
     shl_int (column a) (co_pos cfg) OR shl_int (row a) (ro_pos cfg)
          OR shl_int (bank a) (ba_pos cfg) OR shl_int (bankgroup a) (bg_pos cfg)
          OR shl_int (rank a) (ra_pos cfg) OR shl_int (channel a) (ch_pos cfg)"
    using shl [of 0] shl [of 1] shl [of 2] shl [of 3] shl [of 4] shl [of 5]
    by (simp add: positions_def address_fields_def ac_simps)
  then show ?thesis by (simp add: AddressUnmapping_def)
qed

lemma AddressMapping_Unmapping:
  assumes wf: "mapping_wf cfg"
    and fits: "\<And>i. i < 6 \<Longrightarrow> positions cfg ! i + widths cfg ! i \<le> 31"
    and range: "\<And>i. i < 6 \<Longrightarrow> 0 \<le> address_fields a ! i \<and> address_fields a ! i < 2 ^ nat (widths cfg ! i)"
    and sh: "0 \<le> shift_bits cfg" "shift_bits cfg \<le> 33"
  shows "AddressMapping cfg (AddressUnmapping cfg a) = a"
proof -
  let ?fs = "zip (map nat (positions cfg)) (address_fields a)"
  let ?s = "nat (shift_bits cfg)"
  have len64: "LENGTH(64) = 64" by simp
  have mem: "\<exists>i < 6. p = nat (positions cfg ! i) \<and> x = address_fields a ! i"
    if "(p, x) \<in> set ?fs" for p x
    using that by (auto simp: in_set_zip)
  have "0 \<le> pack ?fs \<and> pack ?fs < 2 ^ 31"
  proof (rule pack_range)
    fix p x assume "(p, x) \<in> set ?fs"
    then obtain i where i: "i < 6" "p = nat (positions cfg ! i)" "x = address_fields a ! i"
      using mem by blast
    then have "p + nat (widths cfg ! i) \<le> 31"
      using fits [OF i(1)] mapping_wf_nth [OF wf i(1)] by auto
    then show "0 \<le> x \<and> (\<exists>w. x < 2 ^ w \<and> p + w \<le> 31)" using range i by blast
  qed
  then have pk: "0 \<le> pack ?fs" "pack ?fs < 2 ^ 31" by auto
  have "pack ?fs * 2 ^ ?s < 2 ^ 31 * 2 ^ ?s" using pk by simp
  also have "\<dots> = 2 ^ (31 + ?s)" by (simp only: power_add)
  also have "\<dots> \<le> 2 ^ 64" using sh by (intro power_increasing) auto
  finally have "push_bit ?s (pack ?fs) < 2 ^ 64" by (simp add: push_bit_eq_mult)
  then have t64: "take_bit 64 (push_bit ?s (pack ?fs)) = push_bit ?s (pack ?fs)"
    using pk by (intro take_bit_int_eq_self) simp_all
  have pk64: "take_bit 64 (pack ?fs) = pack ?fs"
    using pk by (intro take_bit_int_eq_self) simp_all
  have nn: "int (nat (pack ?fs)) = pack ?fs" using pk by simp
  have ua: "AddressUnmapping cfg a = push_bit ?s (of_int (pack ?fs))"
    by (rule AddressUnmapping_pack [OF wf fits range])
  have "uint (AddressUnmapping cfg a) = push_bit ?s (pack ?fs)"
    by (simp only: ua unsigned_push_bit_eq unsigned_of_int len64 pk64 nn t64)
  then have dr: "uint (drop_bit ?s (AddressUnmapping cfg a)) = pack ?fs"
    using t64 by (simp add: unsigned_drop_bit_eq drop_bit_push_bit_int)
  have "address_fields (AddressMapping cfg (AddressUnmapping cfg a)) ! i = address_fields a ! i"
    if i: "i < 6" for i
    unfolding AddressMapping_fields [OF wf i] dr
  proof (rule unpack_pack)
    show "(nat (positions cfg ! i), address_fields a ! i) \<in> set ?fs"
      using i by (auto simp: in_set_zip intro!: exI [of _ i])
    show "0 \<le> address_fields a ! i" "address_fields a ! i < 2 ^ nat (widths cfg ! i)"
      using range [OF i] by auto
  next
    fix q y assume qy: "(q, y) \<in> set ?fs" "(q, y) \<noteq> (nat (positions cfg ! i), address_fields a ! i)"
    then obtain j where j: "j < 6" "q = nat (positions cfg ! j)" "y = address_fields a ! j"
      using mem by blast
    with qy have "i \<noteq> j" by auto
    then have "positions cfg ! i + widths cfg ! i \<le> positions cfg ! j \<or>
        positions cfg ! j + widths cfg ! j \<le> positions cfg ! i"
      using wf i j by (auto simp: mapping_wf_def fields_disjoint_def)
    then have "nat (positions cfg ! i) + nat (widths cfg ! i) \<le> q \<or>
        q + nat (widths cfg ! j) \<le> nat (positions cfg ! i)"
      using mapping_wf_nth [OF wf i] mapping_wf_nth [OF wf j(1)] j(2) by linarith
    then show "\<exists>v. 0 \<le> y \<and> y < 2 ^ v \<and>
        (nat (positions cfg ! i) + nat (widths cfg ! i) \<le> q \<or> q + v \<le> nat (positions cfg ! i))"
      using range [OF j(1)] j(3) by blast
  qed
  then show ?thesis
    by (intro address_fields_inject nth_equalityI) simp_all
qed

lemma AddressMapping_in_field:
  assumes "mapping_wf cfg" and "i < 6"
  shows "0 \<le> address_fields (AddressMapping cfg h) ! i"
    "address_fields (AddressMapping cfg h) ! i < 2 ^ nat (widths cfg ! i)"
  using AddressMapping_fields [OF assms] by simp_all

lemma in_field_in_dim: "x < 2 ^ nat (LogBase2 d) \<Longrightarrow> 1 \<le> d \<Longrightarrow> x < d"
  using LogBase2_lower by fastforce

lemma widths_phases [simp]:
  "widths (InitTimingParams rd cfg) = widths cfg" "widths (InitPowerParams rd cfg) = widths cfg"
  "widths (InitOtherParams rd cfg) = widths cfg"
  "positions (InitTimingParams rd cfg) = positions cfg" "positions (InitPowerParams rd cfg) = positions cfg"
  "positions (InitOtherParams rd cfg) = positions cfg"
  "masks (InitTimingParams rd cfg) = masks cfg" "masks (InitPowerParams rd cfg) = masks cfg"
  "masks (InitOtherParams rd cfg) = masks cfg"
  by (simp_all add: InitTimingParams_def InitPowerParams_def InitOtherParams_def widths_def positions_def
      masks_def Let_def)

lemma mk_config_mapping_wf: "mk_config rd = Inr cfg \<Longrightarrow> mapping_wf cfg"
  unfolding mk_config_def
  by (elim rbindE) (auto dest!: SetAddressMapping_wf simp: mapping_wf_def)

text \<open>What else the phases of the constructor establish and keep.\<close>

definition params_ok :: "Config \<Rightarrow> bool" where
  "params_ok cfg \<longleftrightarrow> banks cfg = bankgroups cfg * banks_per_group cfg \<and> refresh_policy cfg \<noteq> RefreshPolicy_SIZE"

lemma InitSystemParams_policy: "InitSystemParams rd cfg = Inr cfg' \<Longrightarrow> refresh_policy cfg' \<noteq> RefreshPolicy_SIZE"
  by (auto simp: InitSystemParams_def Let_def elim!: rbindE split: if_splits)

lemma structure_params_ok:
  "refresh_policy cfg \<noteq> RefreshPolicy_SIZE \<Longrightarrow> params_ok (structure_params rd pr cfg)"
  by (simp add: params_ok_def structure_params_def Let_def)

lemma dram_params_frame [simp]:
  "params_ok (special_params rd cfg) = params_ok cfg" "params_ok (set_burst pr bl cfg) = params_ok cfg"
  by (simp_all add: params_ok_def special_params_def set_burst_def Let_def case_prod_beta)

lemma InitDRAMParams_ok:
  "InitDRAMParams rd cfg = Inr cfg' \<Longrightarrow> refresh_policy cfg \<noteq> RefreshPolicy_SIZE \<Longrightarrow> params_ok cfg'"
  unfolding InitDRAMParams_def Let_def
  by (elim rbindE) (auto simp: structure_params_ok)

lemma CalculateSize_ok: "CalculateSize cfg = Inr cfg' \<Longrightarrow> params_ok cfg \<Longrightarrow> params_ok cfg'"
  unfolding CalculateSize_def Let_def by (auto simp: params_ok_def elim!: rbindE split: if_splits)

lemma SetAddressMapping_ok: "SetAddressMapping cfg = Inr cfg' \<Longrightarrow> params_ok cfg \<Longrightarrow> params_ok cfg'"
  by (auto simp: SetAddressMapping_def Let_def res_simps params_ok_def split: if_splits)

lemma Init_params_ok [simp]:
  "params_ok (InitTimingParams rd cfg) = params_ok cfg" "params_ok (InitPowerParams rd cfg) = params_ok cfg"
  "params_ok (InitOtherParams rd cfg) = params_ok cfg"
  by (simp_all add: params_ok_def InitTimingParams_def InitPowerParams_def InitOtherParams_def Let_def)

lemma mk_config_params_ok: "mk_config rd = Inr cfg \<Longrightarrow> params_ok cfg"
  unfolding mk_config_def
  by (elim rbindE)
    (auto, metis InitSystemParams_policy InitDRAMParams_ok CalculateSize_ok SetAddressMapping_ok)

lemma AddressMapping_in_dims:
  assumes "mapping_wf cfg"
    and "1 \<le> channels cfg" "1 \<le> ranks cfg" "1 \<le> bankgroups cfg" "1 \<le> banks_per_group cfg" "1 \<le> rows cfg"
  shows "0 \<le> channel (AddressMapping cfg h)" "channel (AddressMapping cfg h) < channels cfg"
    "0 \<le> rank (AddressMapping cfg h)" "rank (AddressMapping cfg h) < ranks cfg"
    "0 \<le> bankgroup (AddressMapping cfg h)" "bankgroup (AddressMapping cfg h) < bankgroups cfg"
    "0 \<le> bank (AddressMapping cfg h)" "bank (AddressMapping cfg h) < banks_per_group cfg"
    "0 \<le> row (AddressMapping cfg h)" "row (AddressMapping cfg h) < rows cfg"
  using AddressMapping_in_field [OF assms(1), of 0 h] AddressMapping_in_field [OF assms(1), of 1 h]
    AddressMapping_in_field [OF assms(1), of 2 h] AddressMapping_in_field [OF assms(1), of 3 h]
    AddressMapping_in_field [OF assms(1), of 4 h] assms(2-)
  by (auto simp: address_fields_def widths_def intro: in_field_in_dim)

subsection \<open>Properties\<close>

text \<open>The values an empty INI file yields: every lookup returns its default.\<close>

definition default_ini :: ini where
  "default_ini = \<lparr>ini_Get = (\<lambda>_ _ d. d), ini_GetInteger = (\<lambda>_ _ d. d),
     ini_GetBoolean = (\<lambda>_ _ d. d), ini_GetReal = (\<lambda>_ _ d. d)\<rparr>"

text \<open>
  The constructor lays the address out without overlap: whenever it accepts an INI file, every field
  of the address (channel, rank, bank group, bank, row, column) has a width of 0 to 30 bits and a
  non-negative position, the bit ranges of different fields are disjoint, and each mask selects exactly
  the width of its field - for every order of the fields in \<^verbatim>\<open>address_mapping\<close>.
\<close>

lemma address_layout:
  assumes "mk_config rd = Inr cfg" and "i < 6" and "j < 6"
  shows "0 \<le> widths cfg ! i \<and> widths cfg ! i < 31 \<and> 0 \<le> positions cfg ! i \<and>
    masks cfg ! i = of_int (2 ^ nat (widths cfg ! i) - 1) \<and>
    (i \<noteq> j \<longrightarrow> positions cfg ! i + widths cfg ! i \<le> positions cfg ! j \<or>
       positions cfg ! j + widths cfg ! j \<le> positions cfg ! i)"
  using mk_config_mapping_wf [OF assms(1)] assms(2,3)
  by (auto simp: mapping_wf_def fields_disjoint_def)

definition dims_of :: "Config \<Rightarrow> int list" where
  "dims_of cfg = [channels cfg, ranks cfg, bankgroups cfg, banks_per_group cfg, rows cfg, columns cfg]"

lemma default_config:
  obtains cfg where "mk_config default_ini = Inr cfg" "dims_of cfg = [1, 1, 2, 2, 65536, 1024]"
    "positions cfg = [25, 7, 7, 8, 9, 0]" "shift_bits cfg = 6"
    "widths cfg = [0, 0, 1, 1, 16, 7]"
proof -
  have "rbind (mk_config default_ini) (\<lambda>cfg. Inr (dims_of cfg, positions cfg, shift_bits cfg, widths cfg)) =
      Inr ([1, 1, 2, 2, 65536, 1024], [25, 7, 7, 8, 9, 0], 6, [0, 0, 1, 1, 16, 7])"
    by code_simp
  then show thesis by (elim rbindE) (use that in auto)
qed

text \<open>
  C16. Every 64-bit address is translated to a place that exists: with a configuration the constructor
  accepted and positive dimensions, \<^verbatim>\<open>AddressMapping\<close> yields a channel, rank, bank group, bank and row
  within the dimensions of the memory - also when a dimension is not a power of two.
\<close>

theorem address_in_range:
  assumes "mk_config rd = Inr cfg"
    and "1 \<le> channels cfg" "1 \<le> ranks cfg" "1 \<le> bankgroups cfg" "1 \<le> banks_per_group cfg" "1 \<le> rows cfg"
  shows "channel (AddressMapping cfg h) \<in> {0..<channels cfg} \<and> rank (AddressMapping cfg h) \<in> {0..<ranks cfg} \<and>
    bankgroup (AddressMapping cfg h) \<in> {0..<bankgroups cfg} \<and>
    bank (AddressMapping cfg h) \<in> {0..<banks_per_group cfg} \<and> row (AddressMapping cfg h) \<in> {0..<rows cfg}"
  using AddressMapping_in_dims [OF mk_config_mapping_wf [OF assms(1)] assms(2-)] by simp

theorem address_in_range_witness:
  "\<exists>cfg. mk_config default_ini = Inr cfg \<and> row (AddressMapping cfg 0xDEADBEEF) \<in> {0..<65536}"
proof -
  obtain cfg where cfg: "mk_config default_ini = Inr cfg" "dims_of cfg = [1, 1, 2, 2, 65536, 1024]"
    by (rule default_config)
  have "row (AddressMapping cfg 0xDEADBEEF) \<in> {0..<65536}"
    using address_in_range [OF cfg(1), of "0xDEADBEEF"] cfg(2) by (simp add: dims_of_def)
  with cfg(1) show ?thesis by blast
qed

text \<open>
  C15. \<^verbatim>\<open>AddressMapping\<close> undoes \<^verbatim>\<open>AddressUnmapping\<close>: with a configuration the constructor accepted, an address
  whose fields fit into their widths is found again in the hexadecimal address built from it, as long
  as the fields lie below bit 31 (the shifts of \<^verbatim>\<open>AddressUnmapping\<close> are done in \<^verbatim>\<open>int\<close>).
\<close>

theorem address_roundtrip:
  assumes "mk_config rd = Inr cfg"
    and "\<And>i. i < 6 \<Longrightarrow> positions cfg ! i + widths cfg ! i \<le> 31"
    and "\<And>i. i < 6 \<Longrightarrow> 0 \<le> address_fields a ! i \<and> address_fields a ! i < 2 ^ nat (widths cfg ! i)"
    and "0 \<le> shift_bits cfg" "shift_bits cfg \<le> 33"
  shows "AddressMapping cfg (AddressUnmapping cfg a) = a"
  by (rule AddressMapping_Unmapping [OF mk_config_mapping_wf [OF assms(1)]]) (use assms in auto)

theorem address_roundtrip_witness:
  "\<exists>cfg. mk_config default_ini = Inr cfg \<and>
     AddressMapping cfg (AddressUnmapping cfg (mk_address 0 0 1 0 4711 99)) = mk_address 0 0 1 0 4711 99"
proof -
  obtain cfg where cfg: "mk_config default_ini = Inr cfg" and w: "widths cfg = [0, 0, 1, 1, 16, 7]"
    and p: "positions cfg = [25, 7, 7, 8, 9, 0]" "shift_bits cfg = 6"
    by (rule default_config)
  have "AddressMapping cfg (AddressUnmapping cfg (mk_address 0 0 1 0 4711 99)) = mk_address 0 0 1 0 4711 99"
    by (rule address_roundtrip [OF cfg])
      (auto simp: six_cases w p address_fields_def)
  with cfg show ?thesis by blast
qed

end
