(* ===== verification/Timing.thy ===== *)
theory Timing
  imports Configuration
begin

section \<open>Command-to-command timing\<close>

text \<open>
  Models \<^verbatim>\<open>src/timing.h\<close> and \<^verbatim>\<open>src/timing.cc\<close>. The constructor first computes the delays between
  commands (its local variables, record \<open>Latencies\<close>) and then fills five tables. A table gives, for
  an issued command type, the command types it holds back and by how many cycles: on the same bank,
  on the other banks of the bank group, on the other bank groups of the rank, on the other ranks,
  and on the whole rank. A row the constructor does not assign is the empty vector.
\<close>

record Latencies =
  read_to_read_l :: int
  read_to_read_s :: int
  read_to_read_o :: int
  read_to_write :: int
  read_to_write_o :: int
  read_to_precharge :: int
  readp_to_act :: int
  write_to_read_l :: int
  write_to_read_s :: int
  write_to_read_o :: int
  write_to_write_l :: int
  write_to_write_s :: int
  write_to_write_o :: int
  write_to_precharge :: int
  precharge_to_activate :: int
  precharge_to_precharge :: int
  read_to_activate :: int
  write_to_activate :: int
  activate_to_activate :: int
  activate_to_activate_l :: int
  activate_to_activate_s :: int
  activate_to_precharge :: int
  activate_to_read :: int
  activate_to_write :: int
  activate_to_refresh :: int
  refresh_to_refresh :: int
  refresh_to_activate :: int
  refresh_to_activate_bank :: int
  self_refresh_entry_to_exit :: int
  self_refresh_exit :: int

definition mk_latencies :: "Config \<Rightarrow> Latencies" where
  "mk_latencies cfg =
     (let r2p = AL cfg + tRTP cfg;
          w2p = WL cfg + burst_cycle cfg + tWR cfg;
          p2a = tRP cfg;
          one_group = (bankgroups cfg = 1)
      in \<lparr>
        read_to_read_l =
          (if one_group then max (burst_cycle cfg) (tCCD_S cfg) else max (burst_cycle cfg) (tCCD_L cfg)),
        read_to_read_s = max (burst_cycle cfg) (tCCD_S cfg),
        read_to_read_o = burst_cycle cfg + tRTRS cfg,
        read_to_write = RL cfg + burst_cycle cfg - WL cfg + tRTRS cfg,
        read_to_write_o = read_delay cfg + burst_cycle cfg + tRTRS cfg - write_delay cfg,
        read_to_precharge = r2p,
        readp_to_act = AL cfg + tRTP cfg + tRP cfg,
        write_to_read_l =
          (if one_group then write_delay cfg + tWTR_S cfg else write_delay cfg + tWTR_L cfg),
        write_to_read_s = write_delay cfg + tWTR_S cfg,
        write_to_read_o = write_delay cfg + burst_cycle cfg + tRTRS cfg - read_delay cfg,
        write_to_write_l =
          (if one_group then max (burst_cycle cfg) (tCCD_S cfg) else max (burst_cycle cfg) (tCCD_L cfg)),
        write_to_write_s = max (burst_cycle cfg) (tCCD_S cfg),
        write_to_write_o = burst_cycle cfg,
        write_to_precharge = w2p,
        precharge_to_activate = p2a,
        precharge_to_precharge = tPPD cfg,
        read_to_activate = r2p + p2a,
        write_to_activate = w2p + p2a,
        activate_to_activate = tRC cfg,
        activate_to_activate_l = (if one_group then tRRD_S cfg else tRRD_L cfg),
        activate_to_activate_s = tRRD_S cfg,
        activate_to_precharge = tRAS cfg,
        activate_to_read = (if IsGDDR cfg \<or> IsHBM cfg then tRCDRD cfg else tRCD cfg - AL cfg),
        activate_to_write = (if IsGDDR cfg \<or> IsHBM cfg then tRCDWR cfg else tRCD cfg - AL cfg),
        activate_to_refresh = tRC cfg,
        refresh_to_refresh = tREFI cfg,
        refresh_to_activate = tRFC cfg,
        refresh_to_activate_bank = tRFCb cfg,
        self_refresh_entry_to_exit = tCKESR cfg,
        self_refresh_exit = tXS cfg\<rparr>)"

type_synonym timing_table = "CommandType \<Rightarrow> (CommandType \<times> int) list"

record Timing =
  same_bank :: timing_table
  other_banks_same_bankgroup :: timing_table
  other_bankgroups_same_rank :: timing_table
  other_ranks :: timing_table
  same_rank :: timing_table

definition same_bank_table :: "Latencies \<Rightarrow> timing_table" where
  "same_bank_table l t =
     (case t of
        READ \<Rightarrow>
          [(READ, read_to_read_l l), (WRITE, read_to_write l),
           (READ_PRECHARGE, read_to_read_l l), (WRITE_PRECHARGE, read_to_write l),
           (PRECHARGE, read_to_precharge l)]
      | WRITE \<Rightarrow>
          [(READ, write_to_read_l l), (WRITE, write_to_write_l l),
           (READ_PRECHARGE, write_to_read_l l), (WRITE_PRECHARGE, write_to_write_l l),
           (PRECHARGE, write_to_precharge l)]
      | READ_PRECHARGE \<Rightarrow>
          [(ACTIVATE, readp_to_act l), (PIM_ACTIVATE, readp_to_act l),
           (REFRESH, read_to_activate l), (REFRESH_BANK, read_to_activate l),
           (SREF_ENTER, read_to_activate l)]
      | WRITE_PRECHARGE \<Rightarrow>
          [(ACTIVATE, write_to_activate l), (PIM_ACTIVATE, write_to_activate l),
           (REFRESH, write_to_activate l), (REFRESH_BANK, write_to_activate l),
           (SREF_ENTER, write_to_activate l)]
      | LH_READ \<Rightarrow>
          [(LH_READ, read_to_read_s l), (GH_READ, read_to_read_s l),
           (PIM_WRITE, read_to_write l), (LH_READ_PRECHARGE, read_to_read_s l),
           (GH_READ_PRECHARGE, read_to_read_s l), (PIM_WRITE_PRECHARGE, read_to_write l),
           (PRECHARGE, read_to_precharge l)]
      | GH_READ \<Rightarrow>
          [(LH_READ, read_to_read_s l), (GH_READ, read_to_read_s l),
           (PIM_WRITE, read_to_write l), (LH_READ_PRECHARGE, read_to_read_s l),
           (GH_READ_PRECHARGE, read_to_read_s l), (PIM_WRITE_PRECHARGE, read_to_write l),
           (PRECHARGE, read_to_precharge l)]
      | PIM_WRITE \<Rightarrow>
          [(LH_READ, write_to_read_s l), (GH_READ, write_to_read_s l),
           (PIM_WRITE, write_to_write_s l), (LH_READ_PRECHARGE, write_to_read_l l),
           (GH_READ_PRECHARGE, write_to_read_l l),
           (PIM_WRITE_PRECHARGE, write_to_write_s l), (PRECHARGE, write_to_precharge l)]
      | LH_READ_PRECHARGE \<Rightarrow>
          [(ACTIVATE, readp_to_act l), (PIM_ACTIVATE, readp_to_act l),
           (REFRESH, read_to_activate l), (REFRESH_BANK, read_to_activate l),
           (SREF_ENTER, read_to_activate l)]
      | GH_READ_PRECHARGE \<Rightarrow>
          [(ACTIVATE, readp_to_act l), (PIM_ACTIVATE, readp_to_act l),
           (REFRESH, read_to_activate l), (REFRESH_BANK, read_to_activate l),
           (SREF_ENTER, read_to_activate l)]
      | PIM_WRITE_PRECHARGE \<Rightarrow>
          [(ACTIVATE, write_to_activate l), (PIM_ACTIVATE, write_to_activate l),
           (REFRESH, write_to_activate l), (REFRESH_BANK, write_to_activate l),
           (SREF_ENTER, write_to_activate l)]
      | ACTIVATE \<Rightarrow>
          [(ACTIVATE, activate_to_activate l), (PIM_ACTIVATE, activate_to_activate l),
           (READ, activate_to_read l), (WRITE, activate_to_write l),
           (READ_PRECHARGE, activate_to_read l), (WRITE_PRECHARGE, activate_to_write l),
           (PRECHARGE, activate_to_precharge l)]
      | PIM_ACTIVATE \<Rightarrow>
          [(ACTIVATE, activate_to_activate l), (PIM_ACTIVATE, activate_to_activate l),
           (LH_READ, activate_to_read l), (GH_READ, activate_to_read l),
           (PIM_WRITE, activate_to_write l), (LH_READ_PRECHARGE, activate_to_read l),
           (GH_READ_PRECHARGE, activate_to_read l),
           (PIM_WRITE_PRECHARGE, activate_to_write l),
           (PRECHARGE, activate_to_precharge l)]
      | PRECHARGE \<Rightarrow>
          [(ACTIVATE, precharge_to_activate l), (PIM_ACTIVATE, precharge_to_activate l),
           (REFRESH, precharge_to_activate l), (REFRESH_BANK, precharge_to_activate l),
           (SREF_ENTER, precharge_to_activate l)]
      | _ \<Rightarrow> [])"

definition other_banks_table :: "Config \<Rightarrow> Latencies \<Rightarrow> timing_table" where
  "other_banks_table cfg l t =
     (case t of
        READ \<Rightarrow>
          [(READ, read_to_read_l l), (WRITE, read_to_write l),
           (READ_PRECHARGE, read_to_read_l l), (WRITE_PRECHARGE, read_to_write l)]
      | WRITE \<Rightarrow>
          [(READ, write_to_read_l l), (WRITE, write_to_write_l l),
           (READ_PRECHARGE, write_to_read_l l), (WRITE_PRECHARGE, write_to_write_l l)]
      | READ_PRECHARGE \<Rightarrow>
          [(READ, read_to_read_l l), (WRITE, read_to_write l),
           (READ_PRECHARGE, read_to_read_l l), (WRITE_PRECHARGE, read_to_write l)]
      | WRITE_PRECHARGE \<Rightarrow>
          [(READ, write_to_read_l l), (WRITE, write_to_write_l l),
           (READ_PRECHARGE, write_to_read_l l), (WRITE_PRECHARGE, write_to_write_l l)]
      | ACTIVATE \<Rightarrow>
          [(ACTIVATE, activate_to_activate_l l), (REFRESH_BANK, activate_to_refresh l)]
      | PIM_ACTIVATE \<Rightarrow>
          [(REFRESH_BANK, activate_to_refresh l)]
      | PRECHARGE \<Rightarrow>
          (if IsGDDR cfg \<or> protocol cfg = LPDDR4 then [(PRECHARGE, precharge_to_precharge l)] else [])
      | REFRESH_BANK \<Rightarrow>
          [(ACTIVATE, refresh_to_activate l), (PIM_ACTIVATE, refresh_to_activate l),
           (REFRESH_BANK, refresh_to_refresh l)]
      | _ \<Rightarrow> [])"

definition other_bankgroups_table :: "Config \<Rightarrow> Latencies \<Rightarrow> timing_table" where
  "other_bankgroups_table cfg l t =
     (case t of
        READ \<Rightarrow>
          [(READ, read_to_read_s l), (WRITE, read_to_write l),
           (READ_PRECHARGE, read_to_read_s l), (WRITE_PRECHARGE, read_to_write l)]
      | WRITE \<Rightarrow>
          [(READ, write_to_read_s l), (WRITE, write_to_write_s l),
           (READ_PRECHARGE, write_to_read_s l), (WRITE_PRECHARGE, write_to_write_s l)]
      | READ_PRECHARGE \<Rightarrow>
          [(READ, read_to_read_s l), (WRITE, read_to_write l),
           (READ_PRECHARGE, read_to_read_s l), (WRITE_PRECHARGE, read_to_write l)]
      | WRITE_PRECHARGE \<Rightarrow>
          [(READ, write_to_read_s l), (WRITE, write_to_write_s l),
           (READ_PRECHARGE, write_to_read_s l), (WRITE_PRECHARGE, write_to_write_s l)]
      | ACTIVATE \<Rightarrow>
          [(ACTIVATE, activate_to_activate_s l), (REFRESH_BANK, activate_to_refresh l)]
      | PIM_ACTIVATE \<Rightarrow>
          [(REFRESH_BANK, activate_to_refresh l)]
      | PRECHARGE \<Rightarrow>
          (if IsGDDR cfg \<or> protocol cfg = LPDDR4 then [(PRECHARGE, precharge_to_precharge l)] else [])
      | REFRESH_BANK \<Rightarrow>
          [(ACTIVATE, refresh_to_activate l), (PIM_ACTIVATE, refresh_to_activate l),
           (REFRESH_BANK, refresh_to_refresh l)]
      | _ \<Rightarrow> [])"

definition other_ranks_table :: "Latencies \<Rightarrow> timing_table" where
  "other_ranks_table l t =
     (case t of
        READ \<Rightarrow>
          [(READ, read_to_read_o l), (WRITE, read_to_write_o l),
           (READ_PRECHARGE, read_to_read_o l), (WRITE_PRECHARGE, read_to_write_o l)]
      | WRITE \<Rightarrow>
          [(READ, write_to_read_o l), (WRITE, write_to_write_o l),
           (READ_PRECHARGE, write_to_read_o l), (WRITE_PRECHARGE, write_to_write_o l)]
      | READ_PRECHARGE \<Rightarrow>
          [(READ, read_to_read_o l), (WRITE, read_to_write_o l),
           (READ_PRECHARGE, read_to_read_o l), (WRITE_PRECHARGE, read_to_write_o l)]
      | WRITE_PRECHARGE \<Rightarrow>
          [(READ, write_to_read_o l), (WRITE, write_to_write_o l),
           (READ_PRECHARGE, write_to_read_o l), (WRITE_PRECHARGE, write_to_write_o l)]
      | _ \<Rightarrow> [])"

definition same_rank_table :: "Latencies \<Rightarrow> timing_table" where
  "same_rank_table l t =
     (case t of
        REFRESH_BANK \<Rightarrow>
          [(ACTIVATE, refresh_to_activate_bank l),
           (PIM_ACTIVATE, refresh_to_activate_bank l),
           (REFRESH, refresh_to_activate_bank l),
           (REFRESH_BANK, refresh_to_activate_bank l),
           (SREF_ENTER, refresh_to_activate_bank l)]
      | REFRESH \<Rightarrow>
          [(ACTIVATE, refresh_to_activate l), (PIM_ACTIVATE, refresh_to_activate l),
           (REFRESH, refresh_to_activate l), (SREF_ENTER, refresh_to_activate l)]
      | SREF_ENTER \<Rightarrow>
          [(SREF_EXIT, self_refresh_entry_to_exit l)]
      | SREF_EXIT \<Rightarrow>
          [(ACTIVATE, self_refresh_exit l), (PIM_ACTIVATE, self_refresh_exit l),
           (REFRESH, self_refresh_exit l), (REFRESH_BANK, self_refresh_exit l),
           (SREF_ENTER, self_refresh_exit l)]
      | _ \<Rightarrow> [])"

definition mk_timing :: "Config \<Rightarrow> Timing" where
  "mk_timing cfg =
     (let l = mk_latencies cfg in
      \<lparr>same_bank = same_bank_table l,
       other_banks_same_bankgroup = other_banks_table cfg l,
       other_bankgroups_same_rank = other_bankgroups_table cfg l,
       other_ranks = other_ranks_table l,
       same_rank = same_rank_table l\<rparr>)"

subsection \<open>Facts about the tables\<close>

lemmas timing_tables =
  same_bank_table_def other_banks_table_def other_bankgroups_table_def other_ranks_table_def
  same_rank_table_def

lemma mk_timing_sel [simp]:
  "same_bank (mk_timing cfg) = same_bank_table (mk_latencies cfg)"
  "other_banks_same_bankgroup (mk_timing cfg) = other_banks_table cfg (mk_latencies cfg)"
  "other_bankgroups_same_rank (mk_timing cfg) = other_bankgroups_table cfg (mk_latencies cfg)"
  "other_ranks (mk_timing cfg) = other_ranks_table (mk_latencies cfg)"
  "same_rank (mk_timing cfg) = same_rank_table (mk_latencies cfg)"
  by (simp_all add: mk_timing_def Let_def)

text \<open>Every entry of every table is about a command type, never about the sentinel.\<close>

definition table_wf :: "timing_table \<Rightarrow> bool" where
  "table_wf tab \<longleftrightarrow> (\<forall>t. CommandType_SIZE \<notin> fst ` set (tab t))"

definition timing_wf :: "Timing \<Rightarrow> bool" where
  "timing_wf tm \<longleftrightarrow> table_wf (same_bank tm) \<and> table_wf (other_banks_same_bankgroup tm) \<and>
     table_wf (other_bankgroups_same_rank tm) \<and> table_wf (other_ranks tm) \<and> table_wf (same_rank tm)"

lemma timing_wf_mk_timing: "timing_wf (mk_timing cfg)"
  by (simp add: timing_wf_def table_wf_def timing_tables split: CommandType.split)

end
