(* ===== verification/Bank_State.thy ===== *)
theory Bank_State
  imports Timing
begin

section \<open>One DRAM bank\<close>

text \<open>
  Models \<^verbatim>\<open>src/bankstate.h\<close> and \<^verbatim>\<open>src/bankstate.cc\<close>: the state of a bank, the earliest time at which
  each command may be issued to it, which command a request needs next (\<open>BankState_GetReadyCommand\<close>)
  and what an issued command does to the bank (\<open>BankState_UpdateState\<close>, \<open>BankState_UpdateTiming\<close>).
  The vector \<^verbatim>\<open>cmd_timing_\<close> has one slot per command type and is modelled by a function; a write at
  the sentinel index is outside the vector and fails.

  The second half specifies the bank as a three-state automaton (\<open>bank_step\<close>), shows that the code
  implements it, that a command the bank offers as ready is one it accepts, and that a request is
  served after at most two preparing commands.
\<close>

datatype State = OPEN | CLOSED | SREF | PD | State_SIZE

record BankState =
  state :: State
  cmd_timing :: "CommandType \<Rightarrow> u64"
  open_row :: int
  row_hit_count :: int

definition mk_bankstate :: BankState where
  "mk_bankstate = \<lparr>state = CLOSED, cmd_timing = (\<lambda>_. 0), open_row = -1, row_hit_count = 0\<rparr>"

definition IsRowOpen :: "BankState \<Rightarrow> bool" where
  "IsRowOpen b \<longleftrightarrow> state b = OPEN"

text \<open>The command type the bank must see next for a request: the switch of \<^verbatim>\<open>GetReadyCommand\<close>.\<close>

definition required_type :: "BankState \<Rightarrow> Command \<Rightarrow> CommandType res" where
  "required_type b c =
     (case state b of
        CLOSED \<Rightarrow>
          (if cmd_type c \<in> {READ, READ_PRECHARGE, WRITE, WRITE_PRECHARGE} then Inr ACTIVATE
           else if cmd_type c \<in> {LH_READ, LH_READ_PRECHARGE, GH_READ, GH_READ_PRECHARGE,
                     PIM_WRITE, PIM_WRITE_PRECHARGE}
           then Inr PIM_ACTIVATE
           else if cmd_type c \<in> {REFRESH, REFRESH_BANK, SREF_ENTER} then Inr (cmd_type c)
           else Inl (AbruptExit ''bankstate.cc'' 55))
      | OPEN \<Rightarrow>
          (if cmd_type c \<in> {READ, READ_PRECHARGE, WRITE, WRITE_PRECHARGE, LH_READ,
                LH_READ_PRECHARGE, GH_READ, GH_READ_PRECHARGE, PIM_WRITE, PIM_WRITE_PRECHARGE}
           then Inr (if Row c = open_row b then cmd_type c else PRECHARGE)
           else if cmd_type c \<in> {REFRESH, REFRESH_BANK, SREF_ENTER} then Inr PRECHARGE
           else Inl (AbruptExit ''bankstate.cc'' 85))
      | SREF \<Rightarrow>
          (if cmd_type c \<in> {READ, READ_PRECHARGE, WRITE, WRITE_PRECHARGE, LH_READ,
                LH_READ_PRECHARGE, GH_READ, GH_READ_PRECHARGE, PIM_WRITE, PIM_WRITE_PRECHARGE}
           then Inr SREF_EXIT
           else Inl (AbruptExit ''bankstate.cc'' 105))
      | PD \<Rightarrow> Inl (AbruptExit ''bankstate.cc'' 112)
      | State_SIZE \<Rightarrow> Inl (AbruptExit ''bankstate.cc'' 112))"

definition BankState_GetReadyCommand :: "BankState \<Rightarrow> Command \<Rightarrow> u64 \<Rightarrow> Command res" where
  "BankState_GetReadyCommand b c clk =
     rbind (required_type b c) (\<lambda>required.
       if required \<noteq> CommandType_SIZE \<and> clk \<ge> cmd_timing b required
       then Inr (mk_command required (addr c) (hex_addr c))
       else Inr no_command)"

definition BankState_UpdateState :: "BankState \<Rightarrow> Command \<Rightarrow> BankState res" where
  "BankState_UpdateState b c =
     (case state b of
        OPEN \<Rightarrow>
          (if cmd_type c \<in> {READ, WRITE, LH_READ, GH_READ, PIM_WRITE}
           then Inr (b\<lparr>row_hit_count := row_hit_count b + 1\<rparr>)
           else if cmd_type c \<in> {READ_PRECHARGE, WRITE_PRECHARGE, LH_READ_PRECHARGE,
                     GH_READ_PRECHARGE, PIM_WRITE_PRECHARGE, PRECHARGE}
           then Inr (b\<lparr>state := CLOSED, open_row := -1, row_hit_count := 0\<rparr>)
           else Inl (AbruptExit ''bankstate.cc'' 152))
      | CLOSED \<Rightarrow>
          (if cmd_type c \<in> {REFRESH, REFRESH_BANK} then Inr b
           else if cmd_type c \<in> {ACTIVATE, PIM_ACTIVATE}
           then Inr (b\<lparr>state := OPEN, open_row := Row c\<rparr>)
           else if cmd_type c = SREF_ENTER then Inr (b\<lparr>state := SREF\<rparr>)
           else Inl (AbruptExit ''bankstate.cc'' 182))
      | SREF \<Rightarrow>
          (if cmd_type c = SREF_EXIT then Inr (b\<lparr>state := CLOSED\<rparr>)
           else Inl (AbruptExit ''bankstate.cc'' 207))
      | _ \<Rightarrow> Inl (AbruptExit ''bankstate.cc'' 211))"

definition BankState_UpdateTiming :: "CommandType \<Rightarrow> u64 \<Rightarrow> BankState \<Rightarrow> BankState res" where
  "BankState_UpdateTiming t time b =
     (if t = CommandType_SIZE then Inl OutOfRange
      else Inr (b\<lparr>cmd_timing := (cmd_timing b)(t := max (cmd_timing b t) time)\<rparr>))"

subsection \<open>The state invariant\<close>

definition bank_inv :: "BankState \<Rightarrow> bool" where
  "bank_inv b \<longleftrightarrow> state b \<in> {OPEN, CLOSED, SREF} \<and> 0 \<le> row_hit_count b \<and>
     (state b \<noteq> OPEN \<longrightarrow> open_row b = -1 \<and> row_hit_count b = 0)"

lemma bank_inv_mk_bankstate [simp, inv_intros]: "bank_inv mk_bankstate"
  by (simp add: bank_inv_def mk_bankstate_def)

lemma bank_inv_UpdateState [inv_intros]:
  "BankState_UpdateState b c = Inr b' \<Longrightarrow> bank_inv b \<Longrightarrow> bank_inv b'"
  by (auto simp: bank_inv_def BankState_UpdateState_def split: State.splits if_splits)

lemma bank_inv_UpdateTiming [inv_intros]:
  "BankState_UpdateTiming t time b = Inr b' \<Longrightarrow> bank_inv b \<Longrightarrow> bank_inv b'"
  by (auto simp: bank_inv_def BankState_UpdateTiming_def split: if_splits)

lemma UpdateState_cmd_timing:
  "BankState_UpdateState b c = Inr b' \<Longrightarrow> cmd_timing b' = cmd_timing b"
  by (auto simp: BankState_UpdateState_def split: State.splits if_splits)

subsection \<open>Timing only ever moves forward\<close>

lemma UpdateTiming_sel:
  assumes "BankState_UpdateTiming t time b = Inr b'"
  shows "state b' = state b" "open_row b' = open_row b" "row_hit_count b' = row_hit_count b"
    "cmd_timing b' u = (if u = t then max (cmd_timing b t) time else cmd_timing b u)"
  using assms by (auto simp: BankState_UpdateTiming_def split: if_splits)

text \<open>What a list of table entries does to a bank: the loop body shared by all timing updates.\<close>

definition apply_timings :: "(CommandType \<times> int) list \<Rightarrow> u64 \<Rightarrow> BankState \<Rightarrow> BankState res" where
  "apply_timings ts clk b = mfold (\<lambda>(t, d). BankState_UpdateTiming t (clk + of_int d)) ts b"

lemma apply_timings_Nil [simp]: "apply_timings [] clk = Inr"
  by (simp add: fun_eq_iff apply_timings_def)

lemma apply_timings_Cons [simp]:
  "apply_timings ((t, d) # ts) clk b =
     rbind (BankState_UpdateTiming t (clk + of_int d) b) (apply_timings ts clk)"
  by (simp add: apply_timings_def [abs_def])

lemma apply_timings_ok:
  "CommandType_SIZE \<notin> fst ` set ts \<Longrightarrow> ok (apply_timings ts clk b)"
  by (induction ts arbitrary: b) (auto simp: BankState_UpdateTiming_def)

lemma apply_timings_sel:
  assumes "apply_timings ts clk b = Inr b'"
  shows "state b' = state b" "open_row b' = open_row b" "row_hit_count b' = row_hit_count b"
    "cmd_timing b u \<le> cmd_timing b' u"
proof -
  have "state b' = state b \<and> open_row b' = open_row b \<and> row_hit_count b' = row_hit_count b \<and>
      cmd_timing b u \<le> cmd_timing b' u"
    using assms
  proof (induction ts arbitrary: b)
    case Nil
    then show ?case by simp
  next
    case (Cons e ts)
    obtain t d where e: "e = (t, d)" by (cases e)
    with Cons.prems obtain b1 where
      b1: "BankState_UpdateTiming t (clk + of_int d) b = Inr b1" "apply_timings ts clk b1 = Inr b'"
      by (auto elim: rbindE)
    have "cmd_timing b u \<le> cmd_timing b1 u" by (simp add: UpdateTiming_sel(4) [OF b1(1)])
    then show ?case using Cons.IH [OF b1(2)] UpdateTiming_sel(1-3) [OF b1(1)] by (auto intro: order_trans)
  qed
  then show "state b' = state b" "open_row b' = open_row b" "row_hit_count b' = row_hit_count b"
    "cmd_timing b u \<le> cmd_timing b' u" by blast+
qed

lemma apply_timings_entry:
  "apply_timings ts clk b = Inr b' \<Longrightarrow> (t, d) \<in> set ts \<Longrightarrow> clk + of_int d \<le> cmd_timing b' t"
proof (induction ts arbitrary: b)
  case Nil
  then show ?case by simp
next
  case (Cons e ts)
  obtain u x where e: "e = (u, x)" by (cases e)
  with Cons.prems(1) obtain b1 where
    b1: "BankState_UpdateTiming u (clk + of_int x) b = Inr b1" "apply_timings ts clk b1 = Inr b'"
    by (auto elim: rbindE)
  show ?case
  proof (cases "(t, d) = e")
    case True
    then have "clk + of_int d \<le> cmd_timing b1 t" using UpdateTiming_sel(4) [OF b1(1), of t] e by simp
    also have "\<dots> \<le> cmd_timing b' t" by (rule apply_timings_sel(4) [OF b1(2)])
    finally show ?thesis .
  next
    case False
    then show ?thesis using Cons.IH [OF b1(2)] Cons.prems(2) by simp
  qed
qed

lemma bank_inv_apply_timings [inv_intros]:
  "apply_timings ts clk b = Inr b' \<Longrightarrow> bank_inv b \<Longrightarrow> bank_inv b'"
  by (simp add: bank_inv_def apply_timings_sel)

subsection \<open>The bank as an automaton\<close>

text \<open>
  The specification: a bank is idle, has one row open, or refreshes itself. Column accesses need an
  open row, with or without closing it; activation, refresh and self-refresh entry need an idle
  bank. Commands are given by type and row.
\<close>

datatype bank_abs = Idle | Active int | SelfRefresh

definition access_types :: "CommandType set" where
  "access_types = {READ, WRITE, LH_READ, GH_READ, PIM_WRITE}"

definition closing_types :: "CommandType set" where
  "closing_types = {READ_PRECHARGE, WRITE_PRECHARGE, LH_READ_PRECHARGE, GH_READ_PRECHARGE,
     PIM_WRITE_PRECHARGE}"

inductive bank_step :: "bank_abs \<Rightarrow> CommandType \<times> int \<Rightarrow> bank_abs \<Rightarrow> bool" where
  activate: "t \<in> {ACTIVATE, PIM_ACTIVATE} \<Longrightarrow> bank_step Idle (t, r) (Active r)"
| access: "t \<in> access_types \<Longrightarrow> bank_step (Active r) (t, q) (Active r)"
| close: "t \<in> insert PRECHARGE closing_types \<Longrightarrow> bank_step (Active r) (t, q) Idle"
| refresh: "t \<in> {REFRESH, REFRESH_BANK} \<Longrightarrow> bank_step Idle (t, q) Idle"
| sref_enter: "bank_step Idle (SREF_ENTER, q) SelfRefresh"
| sref_exit: "bank_step SelfRefresh (SREF_EXIT, q) Idle"

inductive_simps bank_step_simps:
  "bank_step Idle (t, r) a"
  "bank_step (Active q) (t, r) a"
  "bank_step SelfRefresh (t, r) a"

definition bank_abs :: "BankState \<Rightarrow> bank_abs" where
  "bank_abs b = (case state b of OPEN \<Rightarrow> Active (open_row b) | SREF \<Rightarrow> SelfRefresh | _ \<Rightarrow> Idle)"

lemmas type_sets = access_types_def closing_types_def

lemma UpdateState_bank_step:
  assumes "bank_inv b"
  shows "(\<exists>b'. BankState_UpdateState b c = Inr b' \<and> bank_abs b' = a) \<longleftrightarrow>
    bank_step (bank_abs b) (cmd_type c, Row c) a"
  using assms
  by (cases "state b")
    (auto simp: bank_inv_def BankState_UpdateState_def bank_abs_def bank_step_simps type_sets)

subsection \<open>Ready commands\<close>

definition request_types :: "CommandType set" where
  "request_types = access_types \<union> closing_types"

definition refresh_types :: "CommandType set" where
  "refresh_types = {REFRESH, REFRESH_BANK, SREF_ENTER}"

lemma GetReadyCommand_Inr:
  "BankState_GetReadyCommand b c clk = Inr r \<Longrightarrow>
   \<exists>t. required_type b c = Inr t \<and>
     r = (if t \<noteq> CommandType_SIZE \<and> cmd_timing b t \<le> clk then mk_command t (addr c) (hex_addr c)
          else no_command)"
  unfolding BankState_GetReadyCommand_def by (erule rbindE) (auto split: if_splits)

lemma required_type_not_SIZE:
  "required_type b c = Inr t \<Longrightarrow> t \<noteq> CommandType_SIZE"
  by (auto simp: required_type_def split: State.splits if_splits)

text \<open>A request meets no failure in any reachable bank state, a refresh request in all but self-refresh.\<close>

lemma required_type_ok:
  assumes "bank_inv b"
    and "cmd_type c \<in> request_types \<or> cmd_type c \<in> refresh_types \<and> state b \<noteq> SREF"
  shows "ok (required_type b c)"
  using assms
  by (cases "state b"; cases "cmd_type c")
    (auto simp: required_type_def bank_inv_def request_types_def refresh_types_def type_sets)

lemma GetReadyCommand_ok:
  assumes "bank_inv b"
    and "cmd_type c \<in> request_types \<or> cmd_type c \<in> refresh_types \<and> state b \<noteq> SREF"
  shows "ok (BankState_GetReadyCommand b c clk)"
  proof -
  obtain t where "required_type b c = Inr t" by (rule okE [OF required_type_ok [OF assms]])
  then show ?thesis by (simp add: BankState_GetReadyCommand_def)
qed

lemma required_type_legal:
  assumes "bank_inv b" and "required_type b c = Inr t" and "cmd_type d = t"
  shows "ok (BankState_UpdateState b d)"
  using assms
  by (cases "state b"; cases "cmd_type c")
    (auto simp: required_type_def bank_inv_def BankState_UpdateState_def split: if_splits)

text \<open>
  How many commands have to precede a request in a bank: none if its row is open, one if the bank
  is closed, two if another row is open or the bank is in self-refresh.
\<close>

definition distance :: "BankState \<Rightarrow> Command \<Rightarrow> nat" where
  "distance b c =
     (case state b of OPEN \<Rightarrow> (if Row c = open_row b then 0 else 2) | CLOSED \<Rightarrow> 1 | _ \<Rightarrow> 2)"

lemma required_type_distance:
  assumes "bank_inv b" and "cmd_type c \<in> request_types" and "required_type b c = Inr t"
    and "BankState_UpdateState b (mk_command t (addr c) h) = Inr b'"
  shows "(t = cmd_type c \<and> distance b c = 0) \<or> (t \<noteq> cmd_type c \<and> Suc (distance b' c) = distance b c)"
  using assms
  by (cases "state b"; cases "cmd_type c")
    (auto simp: required_type_def bank_inv_def BankState_UpdateState_def distance_def mk_command_def
      request_types_def type_sets split: if_splits)

subsection \<open>Serving a request\<close>

text \<open>
  A request is served by issuing, each time, the command the bank needs next, until that command is
  the request itself; the list of the issued command types is returned.
\<close>

fun serve :: "nat \<Rightarrow> BankState \<Rightarrow> Command \<Rightarrow> (CommandType list \<times> BankState) option" where
  "serve 0 b c = None"
| "serve (Suc n) b c =
     (case required_type b c of
        Inl e \<Rightarrow> None
      | Inr t \<Rightarrow>
          (case BankState_UpdateState b (mk_command t (addr c) (hex_addr c)) of
             Inl e \<Rightarrow> None
           | Inr b' \<Rightarrow>
               if t = cmd_type c then Some ([t], b')
               else map_option (\<lambda>(ts, b''). (t # ts, b'')) (serve n b' c)))"

lemma serve_distance:
  assumes "bank_inv b" and "cmd_type c \<in> request_types" and "distance b c < n"
  shows "\<exists>ts b'. serve n b c = Some (ts, b') \<and> bank_inv b' \<and> length ts = Suc (distance b c) \<and>
    last ts = cmd_type c"
  using assms
proof (induction n arbitrary: b)
  case (Suc n)
  obtain t where t: "required_type b c = Inr t"
    using okE [OF required_type_ok [OF Suc.prems(1)]] Suc.prems(2) by metis
  obtain b' where b': "BankState_UpdateState b (mk_command t (addr c) (hex_addr c)) = Inr b'"
    using okE [OF required_type_legal [OF Suc.prems(1) t]] by (metis mk_command_simps(1))
  have inv': "bank_inv b'" by (rule bank_inv_UpdateState [OF b' Suc.prems(1)])
  from required_type_distance [OF Suc.prems(1,2) t b']
  show ?case
  proof (elim disjE conjE)
    assume "t = cmd_type c" "distance b c = 0"
    then show ?thesis using t b' inv' by simp
  next
    assume d: "t \<noteq> cmd_type c" "Suc (distance b' c) = distance b c"
    then obtain ts b'' where "serve n b' c = Some (ts, b'')" "bank_inv b''"
      "length ts = Suc (distance b' c)" "last ts = cmd_type c"
      using Suc.IH [OF inv' Suc.prems(2)] Suc.prems(3) by auto
    then show ?thesis using t b' d by auto
  qed
qed simp

lemma distance_le_2: "distance b c \<le> 2"
  by (simp add: distance_def split: State.split)

subsection \<open>Properties\<close>

text \<open>
  C31. The bank implements its automaton: in a well-formed bank state, \<^verbatim>\<open>UpdateState\<close> accepts a command and
  moves to an abstract state exactly when the three-state automaton \<open>bank_step\<close> has that transition;
  in particular a command the automaton does not allow makes the code abort.
\<close>

theorem bank_refines_automaton:
  assumes "bank_inv b"
  shows "(\<exists>b'. BankState_UpdateState b c = Inr b' \<and> bank_inv b' \<and> bank_abs b' = a) \<longleftrightarrow>
    bank_step (bank_abs b) (cmd_type c, Row c) a"
  using UpdateState_bank_step [OF assms] bank_inv_UpdateState [OF _ assms] by metis

theorem bank_refines_automaton_witness:
  "\<exists>b'. BankState_UpdateState mk_bankstate (mk_command ACTIVATE (mk_address 0 0 0 0 7 0) 0) = Inr b' \<and>
     bank_inv b' \<and> bank_abs b' = Active 7"
proof -
  have "bank_step (bank_abs mk_bankstate) (ACTIVATE, 7) (Active 7)"
    by (simp add: bank_abs_def mk_bankstate_def bank_step_simps)
  then show ?thesis
    using bank_refines_automaton [OF bank_inv_mk_bankstate,
        of "mk_command ACTIVATE (mk_address 0 0 0 0 7 0) 0" "Active 7"] by simp
qed

text \<open>
  C32. Every request is served: from any well-formed bank state, the commands the bank asks for lead to
  the requested access itself after at most two others (precharge and activate, or self-refresh exit
  and activate), each of them accepted by the bank, and the number of commands is exactly the distance
  of the state from the request.
\<close>

theorem request_served:
  assumes "bank_inv b" and "cmd_type c \<in> request_types"
  shows "\<exists>ts b'. serve 3 b c = Some (ts, b') \<and> bank_inv b' \<and> last ts = cmd_type c \<and>
    length ts = Suc (distance b c) \<and> length ts \<le> 3"
  using serve_distance [OF assms, of 3] distance_le_2 [of b c] by auto

theorem request_served_witness:
  "\<exists>ts b'. serve 3 (mk_bankstate\<lparr>state := OPEN, open_row := 4\<rparr>)
       (mk_command READ (mk_address 0 0 0 0 9 0) 0) = Some (ts, b') \<and>
     ts = [PRECHARGE, ACTIVATE, READ] \<and> last ts = READ \<and> length ts \<le> 3"
proof -
  have "bank_inv (mk_bankstate\<lparr>state := OPEN, open_row := 4\<rparr>)"
    by (simp add: bank_inv_def mk_bankstate_def)
  moreover have "map_option fst (serve 3 (mk_bankstate\<lparr>state := OPEN, open_row := 4\<rparr>)
      (mk_command READ (mk_address 0 0 0 0 9 0) 0)) = Some [PRECHARGE, ACTIVATE, READ]"
    by code_simp
  ultimately show ?thesis
    using request_served [of "mk_bankstate\<lparr>state := OPEN, open_row := 4\<rparr>"
        "mk_command READ (mk_address 0 0 0 0 9 0) 0"]
    by (auto simp: request_types_def access_types_def)
qed

text \<open>
  A bank in self-refresh cannot be woken: \<^verbatim>\<open>GetReadyCommand\<close> knows no transition for the request
  \<^verbatim>\<open>SREF_EXIT\<close> in the self-refresh state and aborts, although \<^verbatim>\<open>UpdateState\<close> accepts the command.
\<close>

theorem sref_exit_request_aborts:
  assumes "state b = SREF" and "cmd_type c = SREF_EXIT"
  shows "BankState_GetReadyCommand b c clk = Inl (AbruptExit ''bankstate.cc'' 105) \<and>
    BankState_UpdateState b c = Inr (b\<lparr>state := CLOSED\<rparr>)"
  using assms by (simp add: BankState_GetReadyCommand_def required_type_def BankState_UpdateState_def)

theorem sref_exit_request_aborts_witness:
  "BankState_GetReadyCommand (mk_bankstate\<lparr>state := SREF\<rparr>) (mk_command SREF_EXIT no_address 0) 10 =
     Inl (AbruptExit ''bankstate.cc'' 105)"
  using sref_exit_request_aborts [of "mk_bankstate\<lparr>state := SREF\<rparr>" "mk_command SREF_EXIT no_address 0" 10]
  by simp

end
