(* ===== verification/Channel_State.thy ===== *)
theory Channel_State
  imports Bank_State
begin

section \<open>The banks of a channel\<close>

text \<open>
  Models \<^verbatim>\<open>src/channel_state.h\<close> and \<^verbatim>\<open>src/channel_state.cc\<close>: the three-dimensional array of banks
  (rank, bank group, bank), the queue of pending refreshes, the activation windows of every rank, and
  the propagation of timing constraints from an issued command to all banks of the channel. The
  members \<^verbatim>\<open>config_\<close> and \<^verbatim>\<open>timing_\<close> are references to constant objects and are passed as arguments.

  The lemmas give the effect of an issued command on each bank (\<open>constraints\<close>, \<open>targets\<close>) and the
  invariant of the channel (\<open>channel_inv\<close>) that every operation keeps.
\<close>

record ChannelState =
  rank_idle_cycles :: "int list"
  rank_is_sref :: "bool list"
  bank_states :: "BankState list list list"
  refresh_q :: "Command list"
  four_aw :: "u64 list list"
  thirty_two_aw :: "u64 list list"

subsection \<open>The bank array\<close>

type_synonym bank_id = "int \<times> int \<times> int"

definition bank_at :: "BankState list list list \<Rightarrow> bank_id \<Rightarrow> BankState res" where
  "bank_at B p = (case p of (i, j, k) \<Rightarrow> rbind (vget B i) (\<lambda>R. rbind (vget R j) (\<lambda>G. vget G k)))"

definition bank_modify ::
  "BankState list list list \<Rightarrow> bank_id \<Rightarrow> (BankState \<Rightarrow> BankState res) \<Rightarrow> BankState list list list res"
where
  "bank_modify B p f = (case p of (i, j, k) \<Rightarrow> vmod B i (\<lambda>R. vmod R j (\<lambda>G. vmod G k f)))"

text \<open>The banks of a rank, in the order of the nested loops over bank groups and banks.\<close>

definition rank_banks :: "Config \<Rightarrow> int \<Rightarrow> bank_id list" where
  "rank_banks cfg r = [(r, j, k). j \<leftarrow> [0..bankgroups cfg - 1], k \<leftarrow> [0..banks_per_group cfg - 1]]"

subsection \<open>Construction and queries\<close>

definition mk_channel_state :: "Config \<Rightarrow> ChannelState res" where
  "mk_channel_state cfg =
     (if ranks cfg < 0 then Inl LengthError
      else if ranks cfg > 0 \<and> bankgroups cfg < 0 then Inl LengthError
      else if ranks cfg > 0 \<and> bankgroups cfg > 0 \<and> banks_per_group cfg < 0 then Inl LengthError
      else
        Inr \<lparr>rank_idle_cycles = replicate (nat (ranks cfg)) 0,
             rank_is_sref = replicate (nat (ranks cfg)) False,
             bank_states = map (\<lambda>_. map (\<lambda>_. replicate (nat (banks_per_group cfg)) mk_bankstate)
                                      [0..bankgroups cfg - 1])
                             [0..ranks cfg - 1],
             refresh_q = [],
             four_aw = replicate (nat (ranks cfg)) [],
             thirty_two_aw = replicate (nat (ranks cfg)) []\<rparr>)"

definition ChannelState_IsRowOpen :: "ChannelState \<Rightarrow> int \<Rightarrow> int \<Rightarrow> int \<Rightarrow> bool res" where
  "ChannelState_IsRowOpen cs r g k =
     rbind (bank_at (bank_states cs) (r, g, k)) (\<lambda>b. Inr (IsRowOpen b))"

definition OpenRow :: "ChannelState \<Rightarrow> int \<Rightarrow> int \<Rightarrow> int \<Rightarrow> int res" where
  "OpenRow cs r g k = rbind (bank_at (bank_states cs) (r, g, k)) (\<lambda>b. Inr (open_row b))"

definition RowHitCount :: "ChannelState \<Rightarrow> int \<Rightarrow> int \<Rightarrow> int \<Rightarrow> int res" where
  "RowHitCount cs r g k = rbind (bank_at (bank_states cs) (r, g, k)) (\<lambda>b. Inr (row_hit_count b))"

definition IsRankSelfRefreshing :: "ChannelState \<Rightarrow> int \<Rightarrow> bool res" where
  "IsRankSelfRefreshing cs r = vget (rank_is_sref cs) r"

definition IsRefreshWaiting :: "ChannelState \<Rightarrow> bool" where
  "IsRefreshWaiting cs \<longleftrightarrow> refresh_q cs \<noteq> []"

definition PendingRefCommand :: "ChannelState \<Rightarrow> Command res" where
  "PendingRefCommand cs = vget (refresh_q cs) 0"

fun all_idle :: "BankState list list list \<Rightarrow> bank_id list \<Rightarrow> bool res" where
  "all_idle B [] = Inr True"
| "all_idle B (p # ps) = rbind (bank_at B p) (\<lambda>b. if IsRowOpen b then Inr False else all_idle B ps)"

definition IsAllBankIdleInRank :: "Config \<Rightarrow> ChannelState \<Rightarrow> int \<Rightarrow> bool res" where
  "IsAllBankIdleInRank cfg cs r = all_idle (bank_states cs) (rank_banks cfg r)"

definition IsRWPendingOnRef :: "ChannelState \<Rightarrow> Command \<Rightarrow> bool res" where
  "IsRWPendingOnRef cs c =
     (let r = Rank c; g = Bankgroup c; k = Bank c in
      rbind (ChannelState_IsRowOpen cs r g k) (\<lambda>opn. if \<not> opn then Inr False else
      rbind (RowHitCount cs r g k) (\<lambda>hits. if hits \<noteq> 0 then Inr False else
      rbind (OpenRow cs r g k) (\<lambda>ro. Inr (ro = Row c)))))"

subsection \<open>Pending refreshes\<close>

definition BankNeedRefresh :: "ChannelState \<Rightarrow> int \<Rightarrow> int \<Rightarrow> int \<Rightarrow> bool \<Rightarrow> ChannelState" where
  "BankNeedRefresh cs r g k need =
     (if need then
        cs\<lparr>refresh_q := refresh_q cs @ [mk_command REFRESH_BANK (mk_address (-1) r g k (-1) (-1)) (-1)]\<rparr>
      else
        cs\<lparr>refresh_q := erase_first (\<lambda>c. Rank c = r \<and> Bankgroup c = g \<and> Bank c = k) (refresh_q cs)\<rparr>)"

definition RankNeedRefresh :: "ChannelState \<Rightarrow> int \<Rightarrow> bool \<Rightarrow> ChannelState" where
  "RankNeedRefresh cs r need =
     (if need then
        cs\<lparr>refresh_q := refresh_q cs @ [mk_command REFRESH (mk_address (-1) r (-1) (-1) (-1) (-1)) (-1)]\<rparr>
      else
        cs\<lparr>refresh_q := erase_first (\<lambda>c. Rank c = r) (refresh_q cs)\<rparr>)"

subsection \<open>Activation windows\<close>

definition aw_ready :: "nat \<Rightarrow> u64 list \<Rightarrow> u64 \<Rightarrow> bool" where
  "aw_ready n q t \<longleftrightarrow> (case q of [] \<Rightarrow> True | x # _ \<Rightarrow> \<not> (t < x \<and> length q \<ge> n))"

definition aw_push :: "int \<Rightarrow> u64 list \<Rightarrow> u64 \<Rightarrow> u64 list" where
  "aw_push d q t = (case q of [] \<Rightarrow> [] | x # xs \<Rightarrow> if t \<ge> x then xs else q) @ [t + of_int d]"

definition IsFAWReady :: "ChannelState \<Rightarrow> int \<Rightarrow> u64 \<Rightarrow> bool res" where
  "IsFAWReady cs r curr_time = rbind (vget (four_aw cs) r) (\<lambda>q. Inr (aw_ready 4 q curr_time))"

definition Is32AWReady :: "ChannelState \<Rightarrow> int \<Rightarrow> u64 \<Rightarrow> bool res" where
  "Is32AWReady cs r curr_time = rbind (vget (thirty_two_aw cs) r) (\<lambda>q. Inr (aw_ready 32 q curr_time))"

definition ActivationWindowOk :: "Config \<Rightarrow> ChannelState \<Rightarrow> int \<Rightarrow> u64 \<Rightarrow> bool res" where
  "ActivationWindowOk cfg cs r curr_time =
     rbind (IsFAWReady cs r curr_time) (\<lambda>tfaw_ok.
       if IsGDDR cfg then (if \<not> tfaw_ok then Inr False else Is32AWReady cs r curr_time)
       else Inr tfaw_ok)"

definition UpdateActivationTimes :: "Config \<Rightarrow> ChannelState \<Rightarrow> int \<Rightarrow> u64 \<Rightarrow> ChannelState res" where
  "UpdateActivationTimes cfg cs r curr_time =
     rbind (vmod (four_aw cs) r (\<lambda>q. Inr (aw_push (tFAW cfg) q curr_time))) (\<lambda>fw.
       if IsGDDR cfg then
         rbind (vmod (thirty_two_aw cs) r (\<lambda>q. Inr (aw_push (t32AW cfg) q curr_time))) (\<lambda>tw.
           Inr (cs\<lparr>four_aw := fw, thirty_two_aw := tw\<rparr>))
       else Inr (cs\<lparr>four_aw := fw\<rparr>))"

subsection \<open>The command that can be issued\<close>

text \<open>
  The loop of a rank-level request: it stops at the first bank that needs another command first and
  counts the banks that are ready otherwise.
\<close>

fun rank_ready_loop ::
  "BankState list list list \<Rightarrow> Command \<Rightarrow> u64 \<Rightarrow> bank_id list \<Rightarrow> Command \<Rightarrow> int \<Rightarrow>
   (Command \<times> int option) res"
where
  "rank_ready_loop B c clk [] ready num_ready = Inr (ready, Some num_ready)"
| "rank_ready_loop B c clk (p # ps) ready num_ready =
     rbind (bank_at B p) (\<lambda>b.
     rbind (BankState_GetReadyCommand b c clk) (\<lambda>ready_cmd.
       if \<not> IsValid ready_cmd then rank_ready_loop B c clk ps ready_cmd num_ready
       else if cmd_type ready_cmd \<noteq> cmd_type c then
         (case p of (i, j, k) \<Rightarrow>
            Inr (ready_cmd\<lparr>addr := mk_address (-1) (Rank c) j k (-1) (-1)\<rparr>, None))
       else rank_ready_loop B c clk ps ready_cmd (num_ready + 1)))"

definition ChannelState_GetReadyCommand ::
  "Config \<Rightarrow> ChannelState \<Rightarrow> Command \<Rightarrow> u64 \<Rightarrow> Command res"
where
  "ChannelState_GetReadyCommand cfg cs c clk =
     (if IsRankCMD c then
        rbind (rank_ready_loop (bank_states cs) c clk (rank_banks cfg (Rank c)) no_command 0)
          (\<lambda>(ready_cmd, n).
             case n of
               None \<Rightarrow> Inr ready_cmd
             | Some num_ready \<Rightarrow> Inr (if num_ready = banks cfg then ready_cmd else no_command))
      else
        rbind (bank_at (bank_states cs) (Rank c, Bankgroup c, Bank c)) (\<lambda>b.
        rbind (BankState_GetReadyCommand b c clk) (\<lambda>ready_cmd.
          if \<not> IsValid ready_cmd then Inr no_command
          else if cmd_type ready_cmd = ACTIVATE \<or> cmd_type ready_cmd = PIM_ACTIVATE then
            rbind (ActivationWindowOk cfg cs (Rank ready_cmd) clk) (\<lambda>w.
              Inr (if \<not> w then no_command else ready_cmd))
          else Inr ready_cmd)))"

subsection \<open>Issuing a command\<close>

definition ChannelState_UpdateState :: "Config \<Rightarrow> ChannelState \<Rightarrow> Command \<Rightarrow> ChannelState res" where
  "ChannelState_UpdateState cfg cs c =
     (if IsRankCMD c then
        rbind (mfold (\<lambda>p B. bank_modify B p (\<lambda>b. BankState_UpdateState b c))
                 (rank_banks cfg (Rank c)) (bank_states cs)) (\<lambda>B.
          let cs' = cs\<lparr>bank_states := B\<rparr> in
          if IsRefresh c then Inr (RankNeedRefresh cs' (Rank c) False)
          else if cmd_type c = SREF_ENTER then
            rbind (vset (rank_is_sref cs') (Rank c) True) (\<lambda>s. Inr (cs'\<lparr>rank_is_sref := s\<rparr>))
          else if cmd_type c = SREF_EXIT then
            rbind (vset (rank_is_sref cs') (Rank c) False) (\<lambda>s. Inr (cs'\<lparr>rank_is_sref := s\<rparr>))
          else Inr cs')
      else
        rbind (bank_modify (bank_states cs) (Rank c, Bankgroup c, Bank c)
                 (\<lambda>b. BankState_UpdateState b c)) (\<lambda>B.
          let cs' = cs\<lparr>bank_states := B\<rparr> in
          if IsRefresh c then Inr (BankNeedRefresh cs' (Rank c) (Bankgroup c) (Bank c) False)
          else Inr cs'))"

text \<open>The loops of the timing updates: every table entry at every listed bank.\<close>

definition update_banks ::
  "bank_id list \<Rightarrow> (CommandType \<times> int) list \<Rightarrow> u64 \<Rightarrow> BankState list list list \<Rightarrow>
   BankState list list list res"
where
  "update_banks ps ts clk =
     mfold (\<lambda>p. mfold (\<lambda>(t, d) B. bank_modify B p (BankState_UpdateTiming t (clk + of_int d))) ts) ps"

definition UpdateSameBankTiming ::
  "Address \<Rightarrow> (CommandType \<times> int) list \<Rightarrow> u64 \<Rightarrow> BankState list list list \<Rightarrow> BankState list list list res"
where
  "UpdateSameBankTiming a ts clk = update_banks [(rank a, bankgroup a, bank a)] ts clk"

definition UpdateOtherBanksSameBankgroupTiming ::
  "Config \<Rightarrow> Address \<Rightarrow> (CommandType \<times> int) list \<Rightarrow> u64 \<Rightarrow> BankState list list list \<Rightarrow>
   BankState list list list res"
where
  "UpdateOtherBanksSameBankgroupTiming cfg a ts clk =
     update_banks [(rank a, bankgroup a, k). k \<leftarrow> [0..banks_per_group cfg - 1], k \<noteq> bank a] ts clk"

definition UpdateOtherBankgroupsSameRankTiming ::
  "Config \<Rightarrow> Address \<Rightarrow> (CommandType \<times> int) list \<Rightarrow> u64 \<Rightarrow> BankState list list list \<Rightarrow>
   BankState list list list res"
where
  "UpdateOtherBankgroupsSameRankTiming cfg a ts clk =
     update_banks [(rank a, j, k). j \<leftarrow> [0..bankgroups cfg - 1], j \<noteq> bankgroup a,
                                   k \<leftarrow> [0..banks_per_group cfg - 1]] ts clk"

definition UpdateOtherRanksTiming ::
  "Config \<Rightarrow> Address \<Rightarrow> (CommandType \<times> int) list \<Rightarrow> u64 \<Rightarrow> BankState list list list \<Rightarrow>
   BankState list list list res"
where
  "UpdateOtherRanksTiming cfg a ts clk =
     update_banks [(i, j, k). i \<leftarrow> [0..ranks cfg - 1], i \<noteq> rank a, j \<leftarrow> [0..bankgroups cfg - 1],
                              k \<leftarrow> [0..banks_per_group cfg - 1]] ts clk"

definition UpdateSameRankTiming ::
  "Config \<Rightarrow> Address \<Rightarrow> (CommandType \<times> int) list \<Rightarrow> u64 \<Rightarrow> BankState list list list \<Rightarrow>
   BankState list list list res"
where
  "UpdateSameRankTiming cfg a ts clk = update_banks (rank_banks cfg (rank a)) ts clk"

definition on_banks ::
  "(BankState list list list \<Rightarrow> BankState list list list res) \<Rightarrow> ChannelState \<Rightarrow> ChannelState res"
where
  "on_banks f cs = rbind (f (bank_states cs)) (\<lambda>B. Inr (cs\<lparr>bank_states := B\<rparr>))"

definition ChannelState_UpdateTiming ::
  "Config \<Rightarrow> Timing \<Rightarrow> ChannelState \<Rightarrow> Command \<Rightarrow> u64 \<Rightarrow> ChannelState res"
where
  "ChannelState_UpdateTiming cfg tm cs c clk =
     (let t = cmd_type c; a = addr c in
      if t \<in> {ACTIVATE, PIM_ACTIVATE, READ, READ_PRECHARGE, WRITE, WRITE_PRECHARGE, PRECHARGE,
              REFRESH_BANK} then
        rbind (if t \<in> {ACTIVATE, PIM_ACTIVATE} then UpdateActivationTimes cfg cs (Rank c) clk
               else Inr cs) (\<lambda>cs.
        on_banks (\<lambda>B.
          rbind (UpdateSameBankTiming a (same_bank tm t) clk B) (\<lambda>B.
          rbind (UpdateOtherBanksSameBankgroupTiming cfg a (other_banks_same_bankgroup tm t) clk B) (\<lambda>B.
          rbind (UpdateOtherBankgroupsSameRankTiming cfg a (other_bankgroups_same_rank tm t) clk B) (\<lambda>B.
          UpdateOtherRanksTiming cfg a (other_ranks tm t) clk B)))) cs)
      else if t \<in> {REFRESH, SREF_ENTER, SREF_EXIT} then
        on_banks (UpdateSameRankTiming cfg a (same_rank tm t) clk) cs
      else if t \<in> {LH_READ, LH_READ_PRECHARGE, GH_READ, GH_READ_PRECHARGE, PIM_WRITE,
                   PIM_WRITE_PRECHARGE} then
        on_banks (UpdateSameBankTiming a (same_bank tm t) clk) cs
      else Inl (AbruptExit ''channel_state.cc'' 194))"

definition UpdateTimingAndStates ::
  "Config \<Rightarrow> Timing \<Rightarrow> ChannelState \<Rightarrow> Command \<Rightarrow> u64 \<Rightarrow> ChannelState res"
where
  "UpdateTimingAndStates cfg tm cs c clk =
     rbind (ChannelState_UpdateState cfg cs c) (\<lambda>cs. ChannelState_UpdateTiming cfg tm cs c clk)"

subsection \<open>The bank array as a container\<close>

interpretation group_array: nested_store vget vmod vget vmod
  by unfold_locales

interpretation rank_array: nested_store vget vmod
  "\<lambda>s (i, j). rbind (vget s i) (\<lambda>t. vget t j)" "\<lambda>s (i, j) f. vmod s i (\<lambda>t. vmod t j f)"
  by unfold_locales

interpretation bank_array: indexed_store bank_at bank_modify
proof -
  have get: "bank_at = (\<lambda>s p. rbind (vget s (fst p))
      (\<lambda>t. rbind (vget t (fst (snd p))) (\<lambda>t. vget t (snd (snd p)))))"
    by (simp add: fun_eq_iff bank_at_def case_prod_beta)
  have modify: "bank_modify = (\<lambda>s p f. vmod s (fst p)
      (\<lambda>t. vmod t (fst (snd p)) (\<lambda>t. vmod t (snd (snd p)) f)))"
    by (simp add: fun_eq_iff bank_modify_def case_prod_beta)
  show "indexed_store bank_at bank_modify"
    using rank_array.pair.indexed_store_axioms unfolding get modify case_prod_beta .
qed

definition in_range :: "Config \<Rightarrow> bank_id \<Rightarrow> bool" where
  "in_range cfg p \<longleftrightarrow>
     (case p of (i, j, k) \<Rightarrow> 0 \<le> i \<and> i < ranks cfg \<and> 0 \<le> j \<and> j < bankgroups cfg \<and>
        0 \<le> k \<and> k < banks_per_group cfg)"

lemma set_rank_banks:
  "set (rank_banks cfg r) =
     {(i, j, k). i = r \<and> 0 \<le> j \<and> j < bankgroups cfg \<and> 0 \<le> k \<and> k < banks_per_group cfg}"
  by (auto simp: rank_banks_def)

lemma distinct_concat_map:
  "distinct xs \<Longrightarrow> (\<And>x. x \<in> set xs \<Longrightarrow> distinct (f x)) \<Longrightarrow>
   (\<And>x y. x \<in> set xs \<Longrightarrow> y \<in> set xs \<Longrightarrow> x \<noteq> y \<Longrightarrow> set (f x) \<inter> set (f y) = {}) \<Longrightarrow>
   distinct (concat (map f xs))"
  by (induction xs) auto

lemma distinct_rank_banks: "distinct (rank_banks cfg r)"
  unfolding rank_banks_def
  by (rule distinct_concat_map) (auto simp: distinct_map inj_on_def)

lemma get_update_banks:
  assumes "distinct ps" and "update_banks ps ts clk B = Inr B'"
  shows "bank_at B' q =
    (if q \<in> set ps then rbind (bank_at B q) (apply_timings ts clk) else bank_at B q)"
proof (rule bank_array.get_mfold_body [OF _ assms(1)])
  show "mfold (\<lambda>p. mfold (\<lambda>x B. bank_modify B p
      ((\<lambda>(t, d). BankState_UpdateTiming t (clk + of_int d)) x)) ts) ps B = Inr B'"
    using assms(2) unfolding update_banks_def case_prod_beta .
next
  fix i s s' j
  assume "mfold (\<lambda>x B. bank_modify B i
      ((\<lambda>(t, d). BankState_UpdateTiming t (clk + of_int d)) x)) ts s = Inr s'"
  from bank_array.get_mfold_same [OF this, of j]
  show "bank_at s' j = (if j = i then rbind (bank_at s j) (apply_timings ts clk) else bank_at s j)"
    by (simp add: apply_timings_def [abs_def])
qed

lemma update_banks_ok:
  assumes "CommandType_SIZE \<notin> fst ` set ts" and "\<And>p. p \<in> set ps \<Longrightarrow> ok (bank_at B p)"
  shows "ok (update_banks ps ts clk B)"
proof -
  let ?f = "\<lambda>p. mfold (\<lambda>x B. bank_modify B p ((\<lambda>(t, d). BankState_UpdateTiming t (clk + of_int d)) x)) ts"
  have "\<exists>B'. mfold ?f ps B = Inr B' \<and> (\<forall>p. ok (bank_at B' p) = ok (bank_at B p))"
  proof (rule mfold_invariant)
    fix p B1
    assume p: "p \<in> set ps" and B1: "\<forall>p. ok (bank_at B1 p) = ok (bank_at B p)"
    obtain b where b: "bank_at B1 p = Inr b" using assms(2) [OF p] B1 by (metis ok_def)
    have "ok (?f p B1)"
      by (rule bank_array.mfold_same_ok [OF b])
        (use apply_timings_ok [OF assms(1)] in \<open>simp add: apply_timings_def\<close>)
    then obtain B2 where B2: "?f p B1 = Inr B2" by (rule okE)
    have "ok (bank_at B2 q) = ok (bank_at B1 q)" for q
      using bank_array.get_mfold_same [OF B2, of q] b apply_timings_ok [OF assms(1)]
      by (simp add: apply_timings_def)
    with B1 B2 show "\<exists>B2. ?f p B1 = Inr B2 \<and> (\<forall>p. ok (bank_at B2 p) = ok (bank_at B p))" by simp
  qed simp
  then show ?thesis unfolding update_banks_def ok_def case_prod_beta by blast
qed

subsection \<open>What an issued command does to each bank\<close>

definition bank_level_types :: "CommandType set" where
  "bank_level_types = {ACTIVATE, PIM_ACTIVATE, READ, READ_PRECHARGE, WRITE, WRITE_PRECHARGE,
     PRECHARGE, REFRESH_BANK}"

definition rank_level_types :: "CommandType set" where
  "rank_level_types = {REFRESH, SREF_ENTER, SREF_EXIT}"

definition pim_column_types :: "CommandType set" where
  "pim_column_types = {LH_READ, LH_READ_PRECHARGE, GH_READ, GH_READ_PRECHARGE, PIM_WRITE,
     PIM_WRITE_PRECHARGE}"

lemmas level_defs = bank_level_types_def rank_level_types_def pim_column_types_def

lemma levels_disjoint:
  "t \<in> rank_level_types \<Longrightarrow> t \<notin> bank_level_types" "t \<in> pim_column_types \<Longrightarrow> t \<notin> bank_level_types"
  "t \<in> pim_column_types \<Longrightarrow> t \<notin> rank_level_types"
  by (auto simp: level_defs)

lemma levels_exhaustive:
  "t \<noteq> CommandType_SIZE \<Longrightarrow> t \<in> bank_level_types \<or> t \<in> rank_level_types \<or> t \<in> pim_column_types"
  by (cases t) (auto simp: level_defs)

lemma IsRankCMD_rank_level: "IsRankCMD c \<longleftrightarrow> cmd_type c \<in> rank_level_types"
  by (auto simp: level_defs IsRankCMD_def)

text \<open>
  The table of delays that a command imposes on a bank, by the position of the bank relative to the
  address of the command.
\<close>

definition constraints :: "Timing \<Rightarrow> Command \<Rightarrow> bank_id \<Rightarrow> (CommandType \<times> int) list" where
  "constraints tm c p =
     (case p of (i, j, k) \<Rightarrow>
        let t = cmd_type c in
        if t \<in> bank_level_types then
          (if i \<noteq> Rank c then other_ranks tm t
           else if j \<noteq> Bankgroup c then other_bankgroups_same_rank tm t
           else if k \<noteq> Bank c then other_banks_same_bankgroup tm t
           else same_bank tm t)
        else if t \<in> rank_level_types then (if i = Rank c then same_rank tm t else [])
        else if (i, j, k) = (Rank c, Bankgroup c, Bank c) then same_bank tm t else [])"

text \<open>The banks whose state a command changes.\<close>

definition targets :: "Config \<Rightarrow> Command \<Rightarrow> bank_id set" where
  "targets cfg c =
     (if IsRankCMD c then set (rank_banks cfg (Rank c)) else {(Rank c, Bankgroup c, Bank c)})"

lemma UpdateState_rankD:
  assumes "ChannelState_UpdateState cfg cs c = Inr cs'" and "IsRankCMD c"
  shows "mfold (\<lambda>p B. bank_modify B p (\<lambda>b. BankState_UpdateState b c))
      (rank_banks cfg (Rank c)) (bank_states cs) = Inr (bank_states cs')"
  using assms
  by (auto simp: ChannelState_UpdateState_def RankNeedRefresh_def Let_def elim!: rbindE
      split: if_splits)

lemma UpdateState_bankD:
  assumes "ChannelState_UpdateState cfg cs c = Inr cs'" and "\<not> IsRankCMD c"
  shows "bank_modify (bank_states cs) (Rank c, Bankgroup c, Bank c)
      (\<lambda>b. BankState_UpdateState b c) = Inr (bank_states cs')"
  using assms
  by (auto simp: ChannelState_UpdateState_def BankNeedRefresh_def Let_def elim!: rbindE
      split: if_splits)

lemma UpdateState_banks:
  assumes "ChannelState_UpdateState cfg cs c = Inr cs'"
  shows "bank_at (bank_states cs') q =
    (if q \<in> targets cfg c then rbind (bank_at (bank_states cs) q) (\<lambda>b. BankState_UpdateState b c)
     else bank_at (bank_states cs) q)"
proof (cases "IsRankCMD c")
  case True
  then show ?thesis
    using bank_array.get_mfold_modify [OF distinct_rank_banks UpdateState_rankD [OF assms True], of q]
    by (simp add: targets_def)
next
  case False
  then show ?thesis
    using bank_array.get_modify [OF UpdateState_bankD [OF assms False], of q] by (simp add: targets_def)
qed

lemma distinct_update_lists:
  "distinct [(r, g, k). k \<leftarrow> [0..n - 1], k \<noteq> x]"
  "distinct [(r, j, k). j \<leftarrow> [0..m - 1], j \<noteq> g, k \<leftarrow> [0..n - 1]]"
  "distinct [(i, j, k). i \<leftarrow> [0..l - 1], i \<noteq> r, j \<leftarrow> [0..m - 1], k \<leftarrow> [0..n - 1]]"
  by (rule distinct_concat_map; auto simp: distinct_map inj_on_def intro!: distinct_concat_map)+

lemma mem_update_lists:
  "(i, j, k) \<in> set [(r, g, k). k \<leftarrow> [0..n - 1], k \<noteq> x] \<longleftrightarrow> i = r \<and> j = g \<and> 0 \<le> k \<and> k < n \<and> k \<noteq> x"
  "(i, j, k) \<in> set [(r, j, k). j \<leftarrow> [0..m - 1], j \<noteq> g, k \<leftarrow> [0..n - 1]] \<longleftrightarrow>
     i = r \<and> 0 \<le> j \<and> j < m \<and> j \<noteq> g \<and> 0 \<le> k \<and> k < n"
  "(i, j, k) \<in> set [(i, j, k). i \<leftarrow> [0..l - 1], i \<noteq> r, j \<leftarrow> [0..m - 1], k \<leftarrow> [0..n - 1]] \<longleftrightarrow>
     0 \<le> i \<and> i < l \<and> i \<noteq> r \<and> 0 \<le> j \<and> j < m \<and> 0 \<le> k \<and> k < n"
  by (auto, rule bexI [of _ j], auto, rule bexI [of _ i], rule bexI [of _ j], auto)

lemmas bank_loop_defs =
  UpdateSameBankTiming_def UpdateOtherBanksSameBankgroupTiming_def
  UpdateOtherBankgroupsSameRankTiming_def UpdateOtherRanksTiming_def UpdateSameRankTiming_def

lemma UpdateActivationTimes_sel:
  assumes "UpdateActivationTimes cfg cs r t = Inr cs'"
  shows "bank_states cs' = bank_states cs" "rank_is_sref cs' = rank_is_sref cs"
    "refresh_q cs' = refresh_q cs" "rank_idle_cycles cs' = rank_idle_cycles cs"
    "length (four_aw cs') = length (four_aw cs)"
    "length (thirty_two_aw cs') = length (thirty_two_aw cs)"
  using assms
  by (auto simp: UpdateActivationTimes_def vmod_length elim!: rbindE split: if_splits)

lemma UpdateTiming_bank_level:
  assumes "ChannelState_UpdateTiming cfg tm cs c clk = Inr cs'" and "cmd_type c \<in> bank_level_types"
  obtains cs1 B1 B2 B3 B4 where
    "(if cmd_type c \<in> {ACTIVATE, PIM_ACTIVATE} then UpdateActivationTimes cfg cs (Rank c) clk
      else Inr cs) = Inr cs1"
    "UpdateSameBankTiming (addr c) (same_bank tm (cmd_type c)) clk (bank_states cs1) = Inr B1"
    "UpdateOtherBanksSameBankgroupTiming cfg (addr c)
       (other_banks_same_bankgroup tm (cmd_type c)) clk B1 = Inr B2"
    "UpdateOtherBankgroupsSameRankTiming cfg (addr c)
       (other_bankgroups_same_rank tm (cmd_type c)) clk B2 = Inr B3"
    "UpdateOtherRanksTiming cfg (addr c) (other_ranks tm (cmd_type c)) clk B3 = Inr B4"
    "cs' = cs1\<lparr>bank_states := B4\<rparr>"
proof -
  note eq = assms(1) [unfolded ChannelState_UpdateTiming_def Let_def if_P [OF assms(2) [unfolded
        bank_level_types_def]] on_banks_def]
  from eq show ?thesis by (elim rbindE) (erule that, assumption+, simp)
qed

lemma UpdateTiming_banks:
  assumes "ChannelState_UpdateTiming cfg tm cs c clk = Inr cs'" and q: "in_range cfg q"
  shows "bank_at (bank_states cs') q =
    rbind (bank_at (bank_states cs) q) (apply_timings (constraints tm c q) clk)"
proof -
  obtain i j k where ijk: "q = (i, j, k)" by (cases q)
  let ?t = "cmd_type c"
  have "?t \<noteq> CommandType_SIZE"
    using assms(1) by (intro notI) (simp add: ChannelState_UpdateTiming_def Let_def)
  then consider "?t \<in> bank_level_types" | "?t \<in> rank_level_types" | "?t \<in> pim_column_types"
    using levels_exhaustive by blast
  then show ?thesis
  proof cases
    case 1
    show ?thesis
    proof (rule UpdateTiming_bank_level [OF assms(1) 1], goal_cases)
      case (1 cs1 B1 B2 B3 B4)
      have "bank_states cs1 = bank_states cs"
        using 1(1) UpdateActivationTimes_sel(1) by (auto split: if_splits)
      with 1 \<open>?t \<in> bank_level_types\<close> show ?case
        using get_update_banks [OF _ 1(2) [unfolded bank_loop_defs], of q, unfolded ijk]
          get_update_banks [OF distinct_update_lists(1) 1(3) [unfolded bank_loop_defs], of q, unfolded ijk mem_update_lists]
          get_update_banks [OF distinct_update_lists(2) 1(4) [unfolded bank_loop_defs], of q, unfolded ijk mem_update_lists]
          get_update_banks [OF distinct_update_lists(3) 1(5) [unfolded bank_loop_defs], of q, unfolded ijk mem_update_lists] q
        by (cases "i = Rank c"; cases "j = Bankgroup c"; cases "k = Bank c")
          (simp_all add: ijk in_range_def constraints_def Let_def)
    qed
  next
    case 2
    with assms(1) obtain B where
      B: "UpdateSameRankTiming cfg (addr c) (same_rank tm ?t) clk (bank_states cs) = Inr B"
      and "bank_states cs' = B"
      by (auto simp: ChannelState_UpdateTiming_def on_banks_def Let_def rank_level_types_def
          elim!: rbindE)
    with 2 q show ?thesis
      using get_update_banks [OF distinct_rank_banks B [unfolded bank_loop_defs], of q] levels_disjoint(1)
      by (auto simp: ijk in_range_def constraints_def Let_def set_rank_banks)
  next
    case 3
    with assms(1) obtain B where
      B: "UpdateSameBankTiming (addr c) (same_bank tm ?t) clk (bank_states cs) = Inr B"
      and "bank_states cs' = B"
      by (auto simp: ChannelState_UpdateTiming_def on_banks_def Let_def pim_column_types_def
          elim!: rbindE)
    with 3 show ?thesis
      using get_update_banks [OF _ B [unfolded bank_loop_defs], of q] levels_disjoint(2,3)
      by (auto simp: ijk constraints_def Let_def)
  qed
qed

subsection \<open>The channel invariant\<close>

definition refresh_wf :: "Config \<Rightarrow> Command \<Rightarrow> bool" where
  "refresh_wf cfg c \<longleftrightarrow>
     cmd_type c = REFRESH \<and> 0 \<le> Rank c \<and> Rank c < ranks cfg \<or>
     cmd_type c = REFRESH_BANK \<and> in_range cfg (Rank c, Bankgroup c, Bank c)"

definition banks_inv :: "Config \<Rightarrow> ChannelState \<Rightarrow> bool" where
  "banks_inv cfg cs \<longleftrightarrow>
     (\<forall>p. ok (bank_at (bank_states cs) p) \<longleftrightarrow> in_range cfg p) \<and>
     (\<forall>p b. bank_at (bank_states cs) p = Inr b \<longrightarrow>
        bank_inv b \<and> (state b = SREF \<longleftrightarrow> rank_is_sref cs ! nat (fst p)))"

definition channel_inv :: "Config \<Rightarrow> ChannelState \<Rightarrow> bool" where
  "channel_inv cfg cs \<longleftrightarrow> 0 \<le> ranks cfg \<and> banks_inv cfg cs \<and>
     length (rank_is_sref cs) = nat (ranks cfg) \<and> length (rank_idle_cycles cs) = nat (ranks cfg) \<and>
     length (four_aw cs) = nat (ranks cfg) \<and> length (thirty_two_aw cs) = nat (ranks cfg) \<and>
     (\<forall>c \<in> set (refresh_q cs). refresh_wf cfg c)"

lemma bank_at_map:
  "bank_at (map (\<lambda>_. map (\<lambda>_. replicate n x) [0..m - 1]) [0..l - 1]) (i, j, k) =
     (if 0 \<le> i \<and> i < l \<and> 0 \<le> j \<and> j < m \<and> 0 \<le> k \<and> k < int n then Inr x else Inl OutOfRange)"
  by (auto simp: bank_at_def vget_def nat_less_iff)

lemma mk_channel_state_banks:
  assumes "mk_channel_state cfg = Inr cs"
  shows "bank_at (bank_states cs) p = (if in_range cfg p then Inr mk_bankstate else Inl OutOfRange)"
proof -
  obtain i j k where p: "p = (i, j, k)" by (cases p)
  have B: "bank_states cs = map (\<lambda>_. map (\<lambda>_. replicate (nat (banks_per_group cfg)) mk_bankstate)
      [0..bankgroups cfg - 1]) [0..ranks cfg - 1]"
    using assms unfolding mk_channel_state_def by (force split: if_splits)
  have "0 \<le> i \<and> i < ranks cfg \<and> 0 \<le> j \<and> j < bankgroups cfg \<and> 0 \<le> k \<longrightarrow>
      (k < int (nat (banks_per_group cfg)) \<longleftrightarrow> k < banks_per_group cfg)"
    using assms by (simp add: mk_channel_state_def split: if_splits)
  then show ?thesis unfolding B p bank_at_map in_range_def by auto
qed

lemma channel_inv_init [inv_intros]:
  assumes "mk_channel_state cfg = Inr cs"
  shows "channel_inv cfg cs"
proof -
  have "banks_inv cfg cs"
    using assms mk_channel_state_banks [OF assms]
    by (auto simp: banks_inv_def mk_channel_state_def in_range_def mk_bankstate_def bank_inv_def
        nat_less_iff split: if_splits)
  then show ?thesis using assms by (auto simp: channel_inv_def mk_channel_state_def split: if_splits)
qed

lemma channel_invD:
  assumes "channel_inv cfg cs"
  shows "bank_at (bank_states cs) p = Inr b \<Longrightarrow> bank_inv b"
    and "bank_at (bank_states cs) p = Inr b \<Longrightarrow> in_range cfg p"
    and "in_range cfg p \<Longrightarrow> \<exists>b. bank_at (bank_states cs) p = Inr b"
    and "bank_at (bank_states cs) p = Inr b \<Longrightarrow> state b = SREF \<longleftrightarrow> rank_is_sref cs ! nat (fst p)"
    and "ok (bank_at (bank_states cs) p) \<longleftrightarrow> in_range cfg p"
  using assms unfolding channel_inv_def banks_inv_def ok_def by blast+

text \<open>Refresh requests and the idle counters leave the banks alone.\<close>

lemma channel_inv_RankNeedRefresh [inv_intros]:
  "channel_inv cfg cs \<Longrightarrow> need \<longrightarrow> 0 \<le> r \<and> r < ranks cfg \<Longrightarrow> channel_inv cfg (RankNeedRefresh cs r need)"
  using set_erase_first [of "\<lambda>c. Rank c = r" "refresh_q cs"]
  by (auto simp: channel_inv_def banks_inv_def RankNeedRefresh_def refresh_wf_def mk_command_def
      mk_address_def)

lemma channel_inv_BankNeedRefresh [inv_intros]:
  "channel_inv cfg cs \<Longrightarrow> need \<longrightarrow> in_range cfg (r, g, k) \<Longrightarrow>
   channel_inv cfg (BankNeedRefresh cs r g k need)"
  using set_erase_first [of "\<lambda>c. Rank c = r \<and> Bankgroup c = g \<and> Bank c = k" "refresh_q cs"]
  by (auto simp: channel_inv_def banks_inv_def BankNeedRefresh_def refresh_wf_def mk_command_def
      mk_address_def)

lemma channel_inv_idle [inv_intros]:
  "channel_inv cfg cs \<Longrightarrow> length xs = nat (ranks cfg) \<Longrightarrow> channel_inv cfg (cs\<lparr>rank_idle_cycles := xs\<rparr>)"
  by (simp add: channel_inv_def banks_inv_def)

lemma update_banks_dom:
  assumes "update_banks ps ts clk B = Inr B'"
  shows "ok (bank_at B' q) = ok (bank_at B q)"
  by (rule mfold_preserves [where P = "\<lambda>B'. ok (bank_at B' q) = ok (bank_at B q)", OF _ _
        assms [unfolded update_banks_def case_prod_beta]])
    (simp_all add: bank_array.mfold_modify_dom [where idx = "\<lambda>_. p" for p])

lemma UpdateTiming_frame:
  assumes "ChannelState_UpdateTiming cfg tm cs c clk = Inr cs'"
  shows "ok (bank_at (bank_states cs') q) = ok (bank_at (bank_states cs) q)"
    "rank_is_sref cs' = rank_is_sref cs" "refresh_q cs' = refresh_q cs"
    "rank_idle_cycles cs' = rank_idle_cycles cs" "length (four_aw cs') = length (four_aw cs)"
    "length (thirty_two_aw cs') = length (thirty_two_aw cs)"
  using assms
  by (auto simp: ChannelState_UpdateTiming_def Let_def on_banks_def bank_loop_defs update_banks_dom
      UpdateActivationTimes_sel elim!: rbindE split: if_splits)

lemma channel_inv_UpdateTiming [inv_intros]:
  assumes inv: "channel_inv cfg cs" and upd: "ChannelState_UpdateTiming cfg tm cs c clk = Inr cs'"
  shows "channel_inv cfg cs'"
proof -
  have "banks_inv cfg cs'"
    unfolding banks_inv_def
  proof (intro conjI allI impI)
    fix p
    show dom: "ok (bank_at (bank_states cs') p) \<longleftrightarrow> in_range cfg p"
      unfolding UpdateTiming_frame(1) [OF upd] by (rule channel_invD(5) [OF inv])
    fix b
    assume b: "bank_at (bank_states cs') p = Inr b"
    then have "in_range cfg p" using dom by simp
    then obtain b0 where b0: "bank_at (bank_states cs) p = Inr b0"
      and "apply_timings (constraints tm c p) clk b0 = Inr b"
      using UpdateTiming_banks [OF upd] b by (auto elim: rbindE)
    then have "bank_inv b" "state b = state b0"
      using channel_invD(1) [OF inv b0] apply_timings_sel(1) by (auto intro: inv_intros)
    then show "bank_inv b" "state b = SREF \<longleftrightarrow> rank_is_sref cs' ! nat (fst p)"
      using channel_invD(4) [OF inv b0] UpdateTiming_frame(2) [OF upd] by simp_all
  qed
  then show ?thesis using inv UpdateTiming_frame(2-) [OF upd] by (simp add: channel_inv_def)
qed


lemma UpdateState_ok_iff:
  "ok (BankState_UpdateState b c) \<Longrightarrow> state b = SREF \<longleftrightarrow> cmd_type c = SREF_EXIT"
  by (auto simp: BankState_UpdateState_def split: State.splits if_splits)

lemma UpdateState_SREF:
  "BankState_UpdateState b c = Inr b' \<Longrightarrow> state b' = SREF \<longleftrightarrow> cmd_type c = SREF_ENTER"
  by (auto simp: BankState_UpdateState_def split: State.splits if_splits)

lemma UpdateState_dom:
  assumes "ChannelState_UpdateState cfg cs c = Inr cs'"
  shows "ok (bank_at (bank_states cs') q) = ok (bank_at (bank_states cs) q)"
proof (cases "IsRankCMD c")
  case True
  then show ?thesis
    by (rule bank_array.mfold_modify_dom [where idx = "\<lambda>p. p", OF UpdateState_rankD [OF assms]])
next
  case False
  then show ?thesis by (rule bank_array.get_modify_dom [OF UpdateState_bankD [OF assms]])
qed

lemma UpdateState_frame:
  assumes "ChannelState_UpdateState cfg cs c = Inr cs'"
  shows "rank_is_sref cs' =
      (if cmd_type c \<in> {SREF_ENTER, SREF_EXIT}
       then (rank_is_sref cs)[nat (Rank c) := (cmd_type c = SREF_ENTER)] else rank_is_sref cs)"
    and "set (refresh_q cs') \<subseteq> set (refresh_q cs)"
    and "rank_idle_cycles cs' = rank_idle_cycles cs" "four_aw cs' = four_aw cs"
    "thirty_two_aw cs' = thirty_two_aw cs"
    "cmd_type c \<in> {SREF_ENTER, SREF_EXIT} \<Longrightarrow> 0 \<le> Rank c"
  using assms set_erase_first
  by (fastforce simp: ChannelState_UpdateState_def Let_def RankNeedRefresh_def BankNeedRefresh_def
      vset_Inr cmd_pred_defs elim!: rbindE split: if_splits)+

lemma channel_inv_UpdateState [inv_intros]:
  assumes inv: "channel_inv cfg cs" and upd: "ChannelState_UpdateState cfg cs c = Inr cs'"
  shows "channel_inv cfg cs'"
proof -
  note banks = UpdateState_banks [OF upd]
  have "banks_inv cfg cs'"
    unfolding banks_inv_def
  proof (intro conjI allI impI)
    fix p
    show dom: "ok (bank_at (bank_states cs') p) \<longleftrightarrow> in_range cfg p"
      unfolding UpdateState_dom [OF upd] by (rule channel_invD(5) [OF inv])
    fix b
    assume b: "bank_at (bank_states cs') p = Inr b"
    then obtain b0 where b0: "bank_at (bank_states cs) p = Inr b0"
      and upd0: "if p \<in> targets cfg c then BankState_UpdateState b0 c = Inr b else b = b0"
      using banks [of p] by (auto split: if_splits elim: rbindE)
    have p: "in_range cfg p" by (rule channel_invD(2) [OF inv b0])
    show "bank_inv b" using upd0 channel_invD(1) [OF inv b0] by (auto split: if_splits intro: inv_intros)
    show "state b = SREF \<longleftrightarrow> rank_is_sref cs' ! nat (fst p)"
    proof (cases "cmd_type c \<in> {SREF_ENTER, SREF_EXIT}")
      case True
      then have "0 \<le> Rank c" by (rule UpdateState_frame(6) [OF upd])
      have "0 \<le> fst p" "nat (fst p) < length (rank_is_sref cs)"
        using p inv by (auto simp: in_range_def channel_inv_def)
      moreover have "p \<in> targets cfg c \<longleftrightarrow> fst p = Rank c"
        using True p by (auto simp: targets_def IsRankCMD_def set_rank_banks in_range_def)
      ultimately show ?thesis
        using True UpdateState_frame(1) [OF upd] upd0 UpdateState_SREF [of b0 c b]
          channel_invD(4) [OF inv b0] \<open>0 \<le> Rank c\<close>
        by (cases "fst p = Rank c") (auto simp: nat_eq_iff)
    next
      case False
      moreover have "p \<in> targets cfg c \<Longrightarrow> state b0 \<noteq> SREF"
        using False upd0 UpdateState_ok_iff [of b0 c] by simp
      ultimately show ?thesis
        using UpdateState_frame(1) [OF upd] upd0 UpdateState_SREF [of b0 c b]
          channel_invD(4) [OF inv b0]
        by (auto split: if_splits)
    qed
  qed
  then show ?thesis using inv UpdateState_frame [OF upd] by (auto simp: channel_inv_def)
qed

end
