(* ===== verification/Refresh.thy ===== *)
theory Refresh
  imports Channel_State
begin

section \<open>Refresh requests\<close>

text \<open>
  Models \<^verbatim>\<open>src/refresh.h\<close> and \<^verbatim>\<open>src/refresh.cc\<close>: the refresh clock, the three policies and the
  counters that choose the next rank or bank. The object holds a reference to the channel state,
  which is passed along and returned. The remainder \<^verbatim>\<open>clk_ % refresh_interval_\<close> is computed in
  \<^verbatim>\<open>uint64_t\<close>, the one of \<^verbatim>\<open>pim_refresh_coming\<close> in \<^verbatim>\<open>int\<close>.
\<close>

record Refresh =
  ref_clk :: u64
  refresh_interval :: int
  policy :: RefreshPolicy
  next_rank :: int
  next_bg :: int
  next_bank :: int

definition mk_refresh :: "Config \<Rightarrow> Refresh res" where
  "mk_refresh cfg =
     rbind (if refresh_policy cfg = RANK_LEVEL_SIMULTANEOUS then Inr (tREFI cfg)
            else if refresh_policy cfg = BANK_LEVEL_STAGGERED then Inr (tREFIb cfg)
            else idiv (tREFI cfg) (ranks cfg)) (\<lambda>interval.
       Inr \<lparr>ref_clk = 0, refresh_interval = interval, policy = refresh_policy cfg,
            next_rank = 0, next_bg = 0, next_bank = 0\<rparr>)"

definition IterateNext :: "Config \<Rightarrow> Refresh \<Rightarrow> Refresh res" where
  "IterateNext cfg rf =
     (case policy rf of
        RANK_LEVEL_STAGGERED \<Rightarrow>
          rbind (imod (next_rank rf + 1) (ranks cfg)) (\<lambda>r. Inr (rf\<lparr>next_rank := r\<rparr>))
      | BANK_LEVEL_STAGGERED \<Rightarrow>
          rbind (imod (next_bg rf + 1) (bankgroups cfg)) (\<lambda>g.
          let rf = rf\<lparr>next_bg := g\<rparr> in
          if g = 0 then
            rbind (imod (next_bank rf + 1) (banks_per_group cfg)) (\<lambda>k.
            let rf = rf\<lparr>next_bank := k\<rparr> in
            if k = 0 then
              rbind (imod (next_rank rf + 1) (ranks cfg)) (\<lambda>r. Inr (rf\<lparr>next_rank := r\<rparr>))
            else Inr rf)
          else Inr rf)
      | _ \<Rightarrow> Inl (AbruptExit ''refresh.cc'' 87))"

text \<open>The loop of the simultaneous policy, which stops at the first rank it requests.\<close>

fun refresh_first :: "int list \<Rightarrow> ChannelState \<Rightarrow> ChannelState res" where
  "refresh_first [] cs = Inr cs"
| "refresh_first (i # is) cs =
     rbind (IsRankSelfRefreshing cs i) (\<lambda>sref.
       if \<not> sref then Inr (RankNeedRefresh cs i True) else refresh_first is cs)"

definition InsertRefresh :: "Config \<Rightarrow> Refresh \<Rightarrow> ChannelState \<Rightarrow> (Refresh \<times> ChannelState) res" where
  "InsertRefresh cfg rf cs =
     (case policy rf of
        RANK_LEVEL_SIMULTANEOUS \<Rightarrow>
          rbind (refresh_first [0..ranks cfg - 1] cs) (\<lambda>cs. Inr (rf, cs))
      | RANK_LEVEL_STAGGERED \<Rightarrow>
          rbind (IsRankSelfRefreshing cs (next_rank rf)) (\<lambda>sref.
          let cs = (if \<not> sref then RankNeedRefresh cs (next_rank rf) True else cs) in
          rbind (IterateNext cfg rf) (\<lambda>rf. Inr (rf, cs)))
      | BANK_LEVEL_STAGGERED \<Rightarrow>
          rbind (IsRankSelfRefreshing cs (next_rank rf)) (\<lambda>sref.
          let cs = (if \<not> sref then BankNeedRefresh cs (next_rank rf) (next_bg rf) (next_bank rf) True
                    else cs) in
          rbind (IterateNext cfg rf) (\<lambda>rf. Inr (rf, cs)))
      | RefreshPolicy_SIZE \<Rightarrow> Inl (AbruptExit ''refresh.cc'' 64))"

definition Refresh_ClockTick ::
  "Config \<Rightarrow> Refresh \<Rightarrow> ChannelState \<Rightarrow> (Refresh \<times> ChannelState) res"
where
  "Refresh_ClockTick cfg rf cs =
     (if refresh_interval rf = 0 then Inl DivByZero
      else
        rbind (if ref_clk rf mod of_int (refresh_interval rf) = 0 \<and> ref_clk rf > 0
               then InsertRefresh cfg rf cs else Inr (rf, cs)) (\<lambda>(rf, cs).
          Inr (rf\<lparr>ref_clk := ref_clk rf + 1\<rparr>, cs)))"

definition pim_refresh_left :: "Refresh \<Rightarrow> int res" where
  "pim_refresh_left rf =
     rbind (imod (max 0 (u64_to_int (ref_clk rf) - 1)) (refresh_interval rf)) (\<lambda>m.
       Inr (refresh_interval rf - m))"

definition pim_refresh_coming :: "Config \<Rightarrow> Refresh \<Rightarrow> bool res" where
  "pim_refresh_coming cfg rf = rbind (pim_refresh_left rf) (\<lambda>left. Inr (left < tRAS cfg + 3))"

definition pim_refresh_coming2 :: "Refresh \<Rightarrow> bool res" where
  "pim_refresh_coming2 rf = rbind (pim_refresh_left rf) (\<lambda>left. Inr (left < 3))"

subsection \<open>Invariant\<close>

definition refresh_inv :: "Config \<Rightarrow> Refresh \<Rightarrow> bool" where
  "refresh_inv cfg rf \<longleftrightarrow> policy rf \<noteq> RefreshPolicy_SIZE \<and>
     in_range cfg (next_rank rf, next_bg rf, next_bank rf)"

lemma imod_pos: "0 \<le> a \<Longrightarrow> 0 < b \<Longrightarrow> imod a b = Inr (a mod b)"
  by (simp add: imod_def)

text \<open>The counters as a mixed-radix number: bank group fastest, then bank, then rank.\<close>

lemma IterateNext_bank:
  assumes "refresh_inv cfg rf" and "policy rf = BANK_LEVEL_STAGGERED"
  shows "IterateNext cfg rf = Inr (rf\<lparr>
    next_bg := (next_bg rf + 1) mod bankgroups cfg,
    next_bank := (if next_bg rf + 1 = bankgroups cfg
                  then (next_bank rf + 1) mod banks_per_group cfg else next_bank rf),
    next_rank := (if next_bg rf + 1 = bankgroups cfg \<and> next_bank rf + 1 = banks_per_group cfg
                  then (next_rank rf + 1) mod ranks cfg else next_rank rf)\<rparr>)"
proof -
  have z: "(x + 1) mod n = 0 \<longleftrightarrow> x + 1 = n" if "0 \<le> x" "x < n" for x n :: int
  proof (cases "x + 1 = n")
    case False
    then have "(x + 1) mod n = x + 1" using that by (intro mod_pos_pos_trivial) auto
    with False that show ?thesis by simp
  qed simp
  show ?thesis
    using assms z [of "next_bg rf" "bankgroups cfg"] z [of "next_bank rf" "banks_per_group cfg"]
    by (simp add: IterateNext_def refresh_inv_def in_range_def imod_pos Let_def)
qed

lemma IterateNext_rank:
  assumes "refresh_inv cfg rf" and "policy rf = RANK_LEVEL_STAGGERED"
  shows "IterateNext cfg rf = Inr (rf\<lparr>next_rank := (next_rank rf + 1) mod ranks cfg\<rparr>)"
  using assms by (simp add: IterateNext_def refresh_inv_def in_range_def imod_pos)

lemma IterateNext_inv [inv_intros]:
  assumes inv: "refresh_inv cfg rf" and "IterateNext cfg rf = Inr rf'"
  shows "refresh_inv cfg rf'"
proof (cases "policy rf")
  case BANK_LEVEL_STAGGERED
  with assms IterateNext_bank [OF inv] show ?thesis
    by (auto simp: refresh_inv_def in_range_def)
next
  case RANK_LEVEL_STAGGERED
  with assms IterateNext_rank [OF inv] show ?thesis by (auto simp: refresh_inv_def in_range_def)
qed (use assms in \<open>simp_all add: IterateNext_def\<close>)

lemma IterateNext_sel:
  assumes "IterateNext cfg rf = Inr rf'"
  shows "policy rf' = policy rf" "ref_clk rf' = ref_clk rf" "refresh_interval rf' = refresh_interval rf"
  using assms
  by (auto simp: IterateNext_def Let_def elim!: rbindE split: RefreshPolicy.splits if_splits)

subsection \<open>The order of the refreshes\<close>

text \<open>The bank and the command of the \<open>n\<close>-th refresh request, counted from zero.\<close>

definition nth_bank :: "Config \<Rightarrow> nat \<Rightarrow> bank_id" where
  "nth_bank cfg n =
     (int n div (bankgroups cfg * banks_per_group cfg) mod ranks cfg, int n mod bankgroups cfg,
      int n div bankgroups cfg mod banks_per_group cfg)"

definition nth_refresh :: "Config \<Rightarrow> nat \<Rightarrow> Command" where
  "nth_refresh cfg n =
     (if refresh_policy cfg = BANK_LEVEL_STAGGERED
      then (case nth_bank cfg n of (r, g, k) \<Rightarrow>
              mk_command REFRESH_BANK (mk_address (-1) r g k (-1) (-1)) (-1))
      else mk_command REFRESH (mk_address (-1) (int n mod ranks cfg) (-1) (-1) (-1) (-1)) (-1))"

definition at_count :: "Config \<Rightarrow> Refresh \<Rightarrow> nat \<Rightarrow> bool" where
  "at_count cfg rf n \<longleftrightarrow> refresh_inv cfg rf \<and> policy rf = refresh_policy cfg \<and>
     policy rf \<in> {RANK_LEVEL_STAGGERED, BANK_LEVEL_STAGGERED} \<and>
     (policy rf = RANK_LEVEL_STAGGERED \<longrightarrow> next_rank rf = int n mod ranks cfg) \<and>
     (policy rf = BANK_LEVEL_STAGGERED \<longrightarrow> (next_rank rf, next_bg rf, next_bank rf) = nth_bank cfg n)"

lemma mod_succ: "(m mod n + 1) mod n = (m + 1) mod (n :: int)"
  by (rule mod_add_left_eq)

lemma div_succ: "0 < n \<Longrightarrow> (m + 1) div n = m div n + (if m mod n + 1 = n then 1 else (0 :: int))"
proof -
  assume n: "0 < n"
  define q r where "q = m div n" and "r = m mod n"
  have m: "m = n * q + r" "0 \<le> r" "r < n" using n by (simp_all add: q_def r_def)
  have "(m + 1) div n = q + (if r + 1 = n then 1 else 0)"
  proof (cases "r + 1 = n")
    case True
    then have "m + 1 = n * (q + 1) + 0" using m(1) by (simp add: algebra_simps)
    then have "(m + 1) div n = q + 1" by (rule int_div_pos_eq) (use n in auto)
    with True show ?thesis by simp
  next
    case False
    have "m + 1 = n * q + (r + 1)" using m(1) by simp
    then have "(m + 1) div n = q" by (rule int_div_pos_eq) (use m False in auto)
    with False show ?thesis by simp
  qed
  then show ?thesis by (simp add: q_def r_def)
qed

lemma nth_bank_Suc:
  assumes "0 < ranks cfg" "0 < bankgroups cfg" "0 < banks_per_group cfg"
  shows "nth_bank cfg (Suc n) =
    (case nth_bank cfg n of (r, g, k) \<Rightarrow>
       (if g + 1 = bankgroups cfg \<and> k + 1 = banks_per_group cfg then (r + 1) mod ranks cfg else r,
        (g + 1) mod bankgroups cfg,
        if g + 1 = bankgroups cfg then (k + 1) mod banks_per_group cfg else k))"
proof -
  let ?g = "bankgroups cfg" and ?b = "banks_per_group cfg"
  have 1: "int (Suc n) div ?g = int n div ?g + (if int n mod ?g + 1 = ?g then 1 else 0)"
    using div_succ [of ?g "int n"] assms by (simp add: add.commute)
  have "int (Suc n) div (?g * ?b) = int (Suc n) div ?g div ?b" "int n div (?g * ?b) = int n div ?g div ?b"
    using assms by (simp_all add: zdiv_zmult2_eq)
  then have 2: "int (Suc n) div (?g * ?b) = int n div (?g * ?b) +
      (if int n mod ?g + 1 = ?g \<and> int n div ?g mod ?b + 1 = ?b then 1 else 0)"
    using 1 div_succ [of ?b "int n div ?g"] assms(3) by auto
  have 3: "int (Suc n) mod ?g = (int n mod ?g + 1) mod ?g"
    by (simp only: of_nat_Suc add.commute [of 1] mod_succ)
  show ?thesis unfolding nth_bank_def prod.case 2 3 1 by (auto simp: mod_succ)
qed

lemma at_count_next:
  assumes "at_count cfg rf n" and "IterateNext cfg rf = Inr rf'"
  shows "at_count cfg rf' (Suc n)"
proof -
  note inv = IterateNext_inv [OF _ assms(2)]
  have pos: "0 < ranks cfg" "0 < bankgroups cfg" "0 < banks_per_group cfg"
    using assms(1) by (auto simp: at_count_def refresh_inv_def in_range_def)
  show ?thesis
  proof (cases "policy rf = BANK_LEVEL_STAGGERED")
    case True
    moreover have "nth_bank cfg n = (next_rank rf, next_bg rf, next_bank rf)"
      using assms(1) True by (simp add: at_count_def)
    ultimately show ?thesis
      using assms inv IterateNext_bank [of cfg rf] nth_bank_Suc [OF pos, of n]
      by (auto simp: at_count_def)
  next
    case False
    then show ?thesis
      using assms inv IterateNext_rank [of cfg rf] mod_succ [of "int n" "ranks cfg"]
      by (auto simp: at_count_def add.commute)
  qed
qed

lemma IterateNext_ok:
  "refresh_inv cfg rf \<Longrightarrow> policy rf \<in> {RANK_LEVEL_STAGGERED, BANK_LEVEL_STAGGERED} \<Longrightarrow> ok (IterateNext cfg rf)"
  using IterateNext_bank IterateNext_rank by fastforce

text \<open>One insertion appends the next request, if no rank is in self-refresh.\<close>

lemma InsertRefresh_count:
  assumes "at_count cfg rf n" and "rank_is_sref cs = replicate (nat (ranks cfg)) False"
  obtains rf' where "InsertRefresh cfg rf cs = Inr (rf', cs\<lparr>refresh_q := refresh_q cs @ [nth_refresh cfg n]\<rparr>)"
    "at_count cfg rf' (Suc n)" "ref_clk rf' = ref_clk rf" "refresh_interval rf' = refresh_interval rf"
proof -
  have "ok (IterateNext cfg rf)"
    using assms(1) by (intro IterateNext_ok) (auto simp: at_count_def)
  then obtain rf' where rf': "IterateNext cfg rf = Inr rf'" by (rule okE)
  have "0 \<le> next_rank rf" "next_rank rf < ranks cfg"
    using assms(1) by (auto simp: at_count_def refresh_inv_def in_range_def)
  then have "IsRankSelfRefreshing cs (next_rank rf) = Inr False"
    using assms(2) by (simp add: IsRankSelfRefreshing_def nat_less_iff)
  then have "InsertRefresh cfg rf cs = Inr (rf', cs\<lparr>refresh_q := refresh_q cs @ [nth_refresh cfg n]\<rparr>)"
    using assms(1) rf'
    by (auto simp: InsertRefresh_def at_count_def nth_refresh_def RankNeedRefresh_def BankNeedRefresh_def
        split: RefreshPolicy.split prod.split)
  then show thesis using that at_count_next [OF assms(1) rf'] IterateNext_sel [OF rf'] by blast
qed

lemma at_count_clk [simp]: "at_count cfg (rf\<lparr>ref_clk := t\<rparr>) n = at_count cfg rf n"
  by (simp add: at_count_def refresh_inv_def)

fun refresh_run :: "Config \<Rightarrow> nat \<Rightarrow> Refresh \<times> ChannelState \<Rightarrow> (Refresh \<times> ChannelState) res" where
  "refresh_run cfg 0 s = Inr s"
| "refresh_run cfg (Suc n) s =
     rbind (refresh_run cfg n s) (\<lambda>(rf, cs). Refresh_ClockTick cfg rf cs)"

lemma div_Suc_pred: "0 < i \<Longrightarrow> t div i = (t - 1) div i + (if 0 < t \<and> t mod i = 0 then 1 else (0 :: nat))"
  by (cases t) (auto simp: div_Suc)

lemma refresh_run_count:
  assumes "at_count cfg rf 0" and "ref_clk rf = 0" and "0 < refresh_interval rf" "refresh_interval rf < 2 ^ 63"
    and sref: "rank_is_sref cs = replicate (nat (ranks cfg)) False" and "T < 2 ^ 64"
  shows "\<exists>rf'. refresh_run cfg T (rf, cs) =
      Inr (rf', cs\<lparr>refresh_q := refresh_q cs @ map (nth_refresh cfg) [0..<(T - 1) div nat (refresh_interval rf)]\<rparr>) \<and>
    at_count cfg rf' ((T - 1) div nat (refresh_interval rf)) \<and> ref_clk rf' = of_nat T \<and>
    refresh_interval rf' = refresh_interval rf"
  using assms(6)
proof (induction T)
  case 0
  then show ?case using assms(1,2) by simp
next
  case (Suc T)
  let ?i = "nat (refresh_interval rf)"
  let ?n = "(T - 1) div ?i"
  from Suc obtain rf1 where rf1: "refresh_run cfg T (rf, cs) =
      Inr (rf1, cs\<lparr>refresh_q := refresh_q cs @ map (nth_refresh cfg) [0..<?n]\<rparr>)" (is "_ = Inr (rf1, ?cs1)")
    "at_count cfg rf1 ?n" "ref_clk rf1 = of_nat T" "refresh_interval rf1 = refresh_interval rf"
    by auto
  have clk: "unat (of_nat T :: u64) = T"
    using Suc.prems by (simp add: unsigned_of_nat take_bit_nat_eq_self)
  have "unat (of_int (refresh_interval rf) :: u64) = ?i"
  proof -
    have "unat (of_nat ?i :: u64) = ?i"
      using assms(4) by (simp add: unsigned_of_nat take_bit_nat_eq_self nat_less_iff)
    then show ?thesis using assms(3) by simp
  qed
  then have "unat ((of_nat T :: u64) mod of_int (refresh_interval rf)) = T mod ?i"
    using clk by (simp add: unat_mod_distrib)
  then have due: "ref_clk rf1 mod of_int (refresh_interval rf1) = 0 \<and> ref_clk rf1 > 0 \<longleftrightarrow>
      0 < T \<and> T mod ?i = 0"
    using clk rf1(3,4) by (metis unat_eq_zero unat_gt_0 word_neq_0_conv neq0_conv)
  show ?case
  proof (cases "0 < T \<and> T mod ?i = 0")
    case True
    obtain rf2 where rf2: "InsertRefresh cfg rf1 ?cs1 =
        Inr (rf2, ?cs1\<lparr>refresh_q := refresh_q ?cs1 @ [nth_refresh cfg ?n]\<rparr>)"
      "at_count cfg rf2 (Suc ?n)" "ref_clk rf2 = ref_clk rf1" "refresh_interval rf2 = refresh_interval rf1"
      by (rule InsertRefresh_count [OF rf1(2), of ?cs1]) (use sref in auto)
    have "(Suc T - 1) div ?i = Suc ?n" using div_Suc_pred [of ?i T] True assms(3) by simp
    then show ?thesis
      using rf1 rf2 due True assms(3)
      by (simp add: Refresh_ClockTick_def add.commute)
  next
    case False
    have "(Suc T - 1) div ?i = ?n" using div_Suc_pred [of ?i T] False assms(3) by simp
    then show ?thesis
      using rf1 due False assms(3)
      by (auto simp: Refresh_ClockTick_def add.commute)
  qed
qed


text \<open>One round of requests reaches every bank exactly once.\<close>

lemma nth_bank_inj:
  assumes "0 < ranks cfg" "0 < bankgroups cfg" "0 < banks_per_group cfg"
    and "nth_bank cfg n = (r, g, k)" and "int n < ranks cfg * (bankgroups cfg * banks_per_group cfg)"
  shows "int n = g + bankgroups cfg * (k + banks_per_group cfg * r)"
proof -
  let ?g = "bankgroups cfg" and ?b = "banks_per_group cfg"
  have gb: "int n div (?g * ?b) = int n div ?g div ?b" using assms(3) by (simp add: zdiv_zmult2_eq)
  have d: "0 < ?g * ?b" using assms(2,3) by simp
  have "int n div (?g * ?b) < ranks cfg" using d assms(5) by (rule div_lt_mult)
  moreover have "0 \<le> int n div (?g * ?b)" using d by (simp add: pos_imp_zdiv_nonneg_iff)
  ultimately have "r = int n div ?g div ?b" using assms(4) gb by (auto simp: nth_bank_def)
  then show ?thesis
    using assms(4) mult_div_mod_eq [of ?g "int n"] mult_div_mod_eq [of ?b "int n div ?g"]
    by (simp add: nth_bank_def add.commute mult.commute)
qed

lemma nth_bank_in_range:
  "0 < ranks cfg \<Longrightarrow> 0 < bankgroups cfg \<Longrightarrow> 0 < banks_per_group cfg \<Longrightarrow> in_range cfg (nth_bank cfg n)"
  by (simp add: nth_bank_def in_range_def)

lemma nth_bank_round:
  assumes pos: "0 < ranks cfg" "0 < bankgroups cfg" "0 < banks_per_group cfg"
    and N: "N = nat (ranks cfg * (bankgroups cfg * banks_per_group cfg))"
  shows "distinct (map (nth_bank cfg) [0..<N])" "set (map (nth_bank cfg) [0..<N]) = {p. in_range cfg p}"
proof -
  have lim: "int n < ranks cfg * (bankgroups cfg * banks_per_group cfg)" if "n < N" for n
    using that N by linarith
  show dist: "distinct (map (nth_bank cfg) [0..<N])"
    unfolding distinct_map
  proof (intro conjI inj_onI)
    fix n m
    assume "n \<in> set [0..<N]" "m \<in> set [0..<N]" and eq: "nth_bank cfg n = nth_bank cfg m"
    moreover obtain r g k where "nth_bank cfg m = (r, g, k)" by (cases "nth_bank cfg m")
    ultimately show "n = m" using nth_bank_inj [OF pos _ lim, of n] nth_bank_inj [OF pos _ lim, of m] by simp
  qed simp
  let ?S = "(\<lambda>(g, k, r). (r, g, k)) ` ({0..<bankgroups cfg} \<times> {0..<banks_per_group cfg} \<times> {0..<ranks cfg})"
  have S: "{p. in_range cfg p} = ?S" by (auto simp: in_range_def image_iff)
  have "card ?S = N"
    by (subst card_image)
      (use pos in \<open>auto simp: inj_on_def card_cartesian_product N nat_mult_distrib\<close>)
  moreover have "card (set (map (nth_bank cfg) [0..<N])) = N"
    using distinct_card [OF dist] by simp
  moreover have "set (map (nth_bank cfg) [0..<N]) \<subseteq> ?S"
    using nth_bank_in_range [OF pos] unfolding S [symmetric] by auto
  ultimately show "set (map (nth_bank cfg) [0..<N]) = {p. in_range cfg p}"
    unfolding S by (intro card_subset_eq) auto
qed

lemma mk_refresh_count:
  assumes "mk_refresh cfg = Inr rf" and "refresh_policy cfg \<in> {RANK_LEVEL_STAGGERED, BANK_LEVEL_STAGGERED}"
    and "0 < ranks cfg" "0 < bankgroups cfg" "0 < banks_per_group cfg"
  shows "at_count cfg rf 0" "ref_clk rf = 0"
    "refresh_policy cfg = BANK_LEVEL_STAGGERED \<Longrightarrow> refresh_interval rf = tREFIb cfg"
  using assms
  by (auto simp: mk_refresh_def at_count_def refresh_inv_def in_range_def nth_bank_def elim!: rbindE
      split: if_splits)

lemma mk_channel_state_refresh:
  assumes "mk_channel_state cfg = Inr cs"
  shows "rank_is_sref cs = replicate (nat (ranks cfg)) False" "refresh_q cs = []"
  using assms by (auto simp: mk_channel_state_def split: if_splits)

subsection \<open>Properties\<close>

text \<open>
  C35. The refresh schedule: with a staggered policy, no rank in self-refresh and a positive interval,
  the refresh clock run for \<open>T\<close> cycles requests a refresh exactly at the positive multiples of the
  interval, and the \<open>n\<close>-th request is for the rank \<open>n mod ranks\<close> (rank level), or for the bank that
  the mixed-radix counter of bank group, bank and rank names (bank level).
\<close>

theorem refresh_schedule:
  assumes "mk_refresh cfg = Inr rf" and "mk_channel_state cfg = Inr cs"
    and "refresh_policy cfg \<in> {RANK_LEVEL_STAGGERED, BANK_LEVEL_STAGGERED}"
    and "0 < ranks cfg" "0 < bankgroups cfg" "0 < banks_per_group cfg"
    and "0 < refresh_interval rf" "refresh_interval rf < 2 ^ 63" and "T < 2 ^ 64"
  shows "\<exists>rf'. refresh_run cfg T (rf, cs) =
    Inr (rf', cs\<lparr>refresh_q := map (nth_refresh cfg) [0..<(T - 1) div nat (refresh_interval rf)]\<rparr>)"
  using refresh_run_count [OF mk_refresh_count(1,2) [OF assms(1,3-6)] assms(7,8) _ assms(9), of cs]
    mk_channel_state_refresh [OF assms(2)]
  by auto

definition demo_refresh_config :: Config where
  "demo_refresh_config = config0\<lparr>ranks := 2, bankgroups := 2, banks_per_group := 3, tREFIb := 5,
     refresh_policy := BANK_LEVEL_STAGGERED\<rparr>"

lemma demo_refresh_ok:
  "\<exists>rf cs. mk_refresh demo_refresh_config = Inr rf \<and> mk_channel_state demo_refresh_config = Inr cs \<and>
     refresh_interval rf = 5"
  by (simp add: mk_refresh_def mk_channel_state_def demo_refresh_config_def config0_def)

theorem refresh_schedule_witness:
  "\<exists>rf cs rf' cs'. mk_refresh demo_refresh_config = Inr rf \<and>
     mk_channel_state demo_refresh_config = Inr cs \<and>
     refresh_run demo_refresh_config 16 (rf, cs) = Inr (rf', cs') \<and>
     map (\<lambda>c. (Rank c, Bankgroup c, Bank c)) (refresh_q cs') = [(0, 0, 0), (0, 1, 0), (0, 0, 1)]"
proof -
  obtain rf cs where mk: "mk_refresh demo_refresh_config = Inr rf"
    "mk_channel_state demo_refresh_config = Inr cs" "refresh_interval rf = 5"
    using demo_refresh_ok by blast
  obtain rf' where "refresh_run demo_refresh_config 16 (rf, cs) =
      Inr (rf', cs\<lparr>refresh_q := map (nth_refresh demo_refresh_config) [0..<3]\<rparr>)"
    using refresh_schedule [OF mk(1,2), of 16] mk(3)
    by (auto simp: demo_refresh_config_def)
  moreover have "map (\<lambda>c. (Rank c, Bankgroup c, Bank c)) (map (nth_refresh demo_refresh_config) [0..<3]) =
      [(0, 0, 0), (0, 1, 0), (0, 0, 1)]"
    by (simp add: upt_rec nth_refresh_def nth_bank_def demo_refresh_config_def)
  ultimately show ?thesis using mk(1,2) by (intro exI conjI) auto
qed

text \<open>
  C36. One round of bank-level refresh: in as many intervals as there are banks, every bank of the
  channel is requested exactly once, and nothing else is requested.
\<close>

theorem refresh_round:
  assumes "mk_refresh cfg = Inr rf" and "mk_channel_state cfg = Inr cs"
    and "refresh_policy cfg = BANK_LEVEL_STAGGERED"
    and "0 < ranks cfg" "0 < bankgroups cfg" "0 < banks_per_group cfg"
    and "0 < tREFIb cfg" "tREFIb cfg < 2 ^ 63"
    and "N = nat (ranks cfg * (bankgroups cfg * banks_per_group cfg))"
    and "N * nat (tREFIb cfg) + 1 < 2 ^ 64"
  shows "\<exists>rf' cs'. refresh_run cfg (N * nat (tREFIb cfg) + 1) (rf, cs) = Inr (rf', cs') \<and>
    distinct (map (\<lambda>c. (Rank c, Bankgroup c, Bank c)) (refresh_q cs')) \<and>
    (\<lambda>c. (Rank c, Bankgroup c, Bank c)) ` set (refresh_q cs') = {p. in_range cfg p} \<and>
    cmd_type ` set (refresh_q cs') \<subseteq> {REFRESH_BANK}"
proof -
  note mk = mk_refresh_count [OF assms(1) _ assms(4-6)]
  have iv: "refresh_interval rf = tREFIb cfg" using mk(3) assms(3) by simp
  have "(N * nat (tREFIb cfg) + 1 - 1) div nat (refresh_interval rf) = N" using iv assms(7) by simp
  then obtain rf' cs' where run: "refresh_run cfg (N * nat (tREFIb cfg) + 1) (rf, cs) = Inr (rf', cs')"
    and q: "refresh_q cs' = map (nth_refresh cfg) [0..<N]"
    using refresh_run_count [OF mk(1,2), of cs "N * nat (tREFIb cfg) + 1"] assms iv
      mk_channel_state_refresh [OF assms(2)] by auto
  have banks: "map (\<lambda>c. (Rank c, Bankgroup c, Bank c)) (map (nth_refresh cfg) [0..<N]) =
      map (nth_bank cfg) [0..<N]"
    using assms(3) by (simp add: nth_refresh_def split: prod.split)
  have "(\<lambda>c. (Rank c, Bankgroup c, Bank c)) ` set (map (nth_refresh cfg) [0..<N]) = {p. in_range cfg p}"
    using arg_cong [OF banks, of set] nth_bank_round(2) [OF assms(4-6,9)] by (simp add: image_image)
  moreover have "cmd_type ` set (map (nth_refresh cfg) [0..<N]) \<subseteq> {REFRESH_BANK}"
    using assms(3) by (auto simp: nth_refresh_def split: prod.splits)
  moreover have "distinct (map (\<lambda>c. (Rank c, Bankgroup c, Bank c)) (map (nth_refresh cfg) [0..<N]))"
    unfolding banks by (rule nth_bank_round(1) [OF assms(4-6,9)])
  ultimately show ?thesis
    using run unfolding q [symmetric] by blast
qed

theorem refresh_round_witness:
  "\<exists>rf cs rf' cs'. mk_refresh demo_refresh_config = Inr rf \<and>
     mk_channel_state demo_refresh_config = Inr cs \<and>
     refresh_run demo_refresh_config 61 (rf, cs) = Inr (rf', cs') \<and>
     (\<lambda>c. (Rank c, Bankgroup c, Bank c)) ` set (refresh_q cs') = {p. in_range demo_refresh_config p}"
proof -
  obtain rf cs where mk: "mk_refresh demo_refresh_config = Inr rf"
    "mk_channel_state demo_refresh_config = Inr cs" "refresh_interval rf = 5"
    using demo_refresh_ok by blast
  then show ?thesis
    using refresh_round [OF mk(1,2), of 12] by (auto simp: demo_refresh_config_def)
qed

text \<open>
  The simultaneous policy refreshes one rank only: its loop over the ranks stops after the first
  rank that is not in self-refresh, so with no rank in self-refresh only rank 0 is ever requested and
  the other ranks of the channel are never refreshed.
\<close>

theorem simultaneous_refresh_one_rank:
  assumes "policy rf = RANK_LEVEL_SIMULTANEOUS" and "0 < ranks cfg"
    and "rank_is_sref cs = replicate (nat (ranks cfg)) False"
  shows "InsertRefresh cfg rf cs = Inr (rf, RankNeedRefresh cs 0 True)"
proof -
  have "[0..ranks cfg - 1] = 0 # [1..ranks cfg - 1]" using assms(2) by (simp add: upto_rec1)
  then show ?thesis
    using assms by (simp add: InsertRefresh_def IsRankSelfRefreshing_def nat_less_iff)
qed

theorem simultaneous_refresh_one_rank_witness:
  "\<exists>rf cs. mk_refresh (config0\<lparr>ranks := 4, tREFI := 100, refresh_policy := RANK_LEVEL_SIMULTANEOUS\<rparr>) = Inr rf \<and>
     mk_channel_state (config0\<lparr>ranks := 4, tREFI := 100, refresh_policy := RANK_LEVEL_SIMULTANEOUS\<rparr>) = Inr cs \<and>
     InsertRefresh (config0\<lparr>ranks := 4, tREFI := 100, refresh_policy := RANK_LEVEL_SIMULTANEOUS\<rparr>) rf cs =
       Inr (rf, RankNeedRefresh cs 0 True)"
proof -
  let ?cfg = "config0\<lparr>ranks := 4, tREFI := 100, refresh_policy := RANK_LEVEL_SIMULTANEOUS\<rparr>"
  obtain rf cs where mk: "mk_refresh ?cfg = Inr rf" "mk_channel_state ?cfg = Inr cs"
    "policy rf = RANK_LEVEL_SIMULTANEOUS"
    by (simp add: mk_refresh_def mk_channel_state_def config0_def)
  have "InsertRefresh ?cfg rf cs = Inr (rf, RankNeedRefresh cs 0 True)"
    by (rule simultaneous_refresh_one_rank [OF mk(3)])
      (use mk_channel_state_refresh(1) [OF mk(2)] in simp_all)
  with mk show ?thesis by blast
qed

end
