(* ===== verification/Channel_Timing.thy ===== *)
theory Channel_Timing
  imports Channel_State
begin

section \<open>Ready commands, timing histories and activation windows\<close>

text \<open>
  Properties of the model of \<^verbatim>\<open>src/channel_state.cc\<close>: what an answer of \<open>GetReadyCommand\<close> means for
  the banks; that it is accepted when it is issued; the histories of issued commands
  (\<open>channel_reach\<close> for arbitrary commands, \<open>legal_reach\<close> for commands that were offered) and the
  delays that hold between the commands of a history; the activation windows, whose two queues
  share the locale \<open>activation_window\<close>.
\<close>

subsection \<open>Ready commands\<close>

definition dims_wf :: "Config \<Rightarrow> bool" where
  "dims_wf cfg \<longleftrightarrow> 0 < bankgroups cfg \<and> 0 < banks_per_group cfg \<and>
     banks cfg = bankgroups cfg * banks_per_group cfg"

lemma length_rank_banks:
  "0 \<le> bankgroups cfg \<Longrightarrow> 0 \<le> banks_per_group cfg \<Longrightarrow>
   int (length (rank_banks cfg r)) = bankgroups cfg * banks_per_group cfg"
  by (simp add: rank_banks_def length_concat o_def sum_list_triv)

text \<open>A bank is ready for a command: the command is what it needs next, and its time has come.\<close>

definition bank_ready :: "BankState \<Rightarrow> Command \<Rightarrow> u64 \<Rightarrow> CommandType \<Rightarrow> bool" where
  "bank_ready b c clk t \<longleftrightarrow> required_type b c = Inr t \<and> cmd_timing b t \<le> clk"

lemma GetReadyCommand_cases:
  assumes "BankState_GetReadyCommand b c clk = Inr r"
  obtains t where "bank_ready b c clk t" "t \<noteq> CommandType_SIZE" "r = mk_command t (addr c) (hex_addr c)"
  | "r = no_command"
  using GetReadyCommand_Inr [OF assms] by (auto simp: bank_ready_def split: if_splits)

lemma mk_command_valid [simp]: "IsValid (mk_command t a h) \<longleftrightarrow> t \<noteq> CommandType_SIZE"
  by (simp add: IsValid_def mk_command_def)

lemma rank_ready_loop_None:
  assumes "rank_ready_loop B c clk ps ready n = Inr (r, None)"
  shows "\<exists>i j k b t. (i, j, k) \<in> set ps \<and> bank_at B (i, j, k) = Inr b \<and> bank_ready b c clk t \<and>
    t \<noteq> cmd_type c \<and> r = mk_command t (mk_address (-1) (Rank c) j k (-1) (-1)) (hex_addr c)"
  using assms
proof (induction ps arbitrary: ready n)
  case Nil
  then show ?case by simp
next
  case (Cons p ps)
  from Cons.prems obtain b r0 where b: "bank_at B p = Inr b"
    and r0: "BankState_GetReadyCommand b c clk = Inr r0" by (auto elim!: rbindE)
  from r0 show ?case
  proof (cases rule: GetReadyCommand_cases)
    case (1 t)
    show ?thesis
    proof (cases "t = cmd_type c")
      case True
      then have "rank_ready_loop B c clk ps r0 (n + 1) = Inr (r, None)"
        using Cons.prems b r0 1 by (simp add: mk_command_def IsValid_def)
      from Cons.IH [OF this] show ?thesis by (metis list.set_intros(2))
    next
      case False
      then have "case p of (i, j, k) \<Rightarrow> r = r0\<lparr>addr := mk_address (-1) (Rank c) j k (-1) (-1)\<rparr>"
        using Cons.prems b r0 1 by (auto simp: mk_command_def IsValid_def split: prod.splits)
      with False b 1 show ?thesis
        by (cases p) (fastforce simp: mk_command_def)
    qed
  next
    case 2
    then have "rank_ready_loop B c clk ps r0 n = Inr (r, None)"
      using Cons.prems b r0 by simp
    from Cons.IH [OF this] show ?thesis by (metis list.set_intros(2))
  qed
qed

lemma rank_ready_loop_Some:
  assumes "rank_ready_loop B c clk ps ready n = Inr (r, Some m)"
  shows "m \<le> n + int (length ps) \<and>
    (m = n + int (length ps) \<longrightarrow>
       (\<forall>p \<in> set ps. \<exists>b. bank_at B p = Inr b \<and> bank_ready b c clk (cmd_type c)) \<and>
       r = (if ps = [] then ready else mk_command (cmd_type c) (addr c) (hex_addr c)))"
  using assms
proof (induction ps arbitrary: ready n)
  case Nil
  then show ?case by simp
next
  case (Cons p ps)
  from Cons.prems obtain b r0 where b: "bank_at B p = Inr b"
    and r0: "BankState_GetReadyCommand b c clk = Inr r0" by (auto elim!: rbindE)
  from r0 show ?case
  proof (cases rule: GetReadyCommand_cases)
    case (1 t)
    have t: "t = cmd_type c"
      using Cons.prems b r0 1 by (auto simp: mk_command_def IsValid_def split: if_splits prod.splits)
    then have "rank_ready_loop B c clk ps r0 (n + 1) = Inr (r, Some m)"
      using Cons.prems b r0 1 by (simp add: mk_command_def IsValid_def)
    from Cons.IH [OF this] show ?thesis using b 1 t by (auto split: if_splits)
  next
    case 2
    then have "rank_ready_loop B c clk ps r0 n = Inr (r, Some m)"
      using Cons.prems b r0 by simp
    from Cons.IH [OF this] show ?thesis by auto
  qed
qed

lemma required_type_rank:
  "IsRankCMD c \<Longrightarrow> required_type b c = Inr t \<Longrightarrow> t = cmd_type c \<or> t = PRECHARGE"
  by (auto simp: required_type_def IsRankCMD_def split: State.splits if_splits)

lemma required_type_bank:
  "\<not> IsRankCMD c \<Longrightarrow> required_type b c = Inr t \<Longrightarrow> t \<in> rank_level_types \<Longrightarrow> t = SREF_EXIT \<and> state b = SREF"
  by (auto simp: required_type_def IsRankCMD_def level_defs split: State.splits if_splits)

text \<open>What a valid answer means: which bank or banks have been found ready for which request.\<close>

lemma ready_cases:
  assumes "ChannelState_GetReadyCommand cfg cs c clk = Inr r" and "IsValid r" and "dims_wf cfg"
  obtains
    (rank) "IsRankCMD c" "r = mk_command (cmd_type c) (addr c) (hex_addr c)"
      "\<forall>p \<in> set (rank_banks cfg (Rank c)). \<exists>b. bank_at (bank_states cs) p = Inr b \<and>
         bank_ready b c clk (cmd_type c)"
  | (precharge) j k b where "IsRankCMD c" "(Rank c, j, k) \<in> set (rank_banks cfg (Rank c))"
      "bank_at (bank_states cs) (Rank c, j, k) = Inr b" "bank_ready b c clk PRECHARGE"
      "r = mk_command PRECHARGE (mk_address (-1) (Rank c) j k (-1) (-1)) (hex_addr c)"
  | (bank) b t where "\<not> IsRankCMD c" "bank_at (bank_states cs) (Rank c, Bankgroup c, Bank c) = Inr b"
      "bank_ready b c clk t" "r = mk_command t (addr c) (hex_addr c)"
      "t \<in> {ACTIVATE, PIM_ACTIVATE} \<longrightarrow> ActivationWindowOk cfg cs (Rank c) clk = Inr True"
proof (cases "IsRankCMD c")
  case True
  with assms(1) obtain r0 n where
    loop: "rank_ready_loop (bank_states cs) c clk (rank_banks cfg (Rank c)) no_command 0 = Inr (r0, n)"
    and res: "(case n of None \<Rightarrow> Inr r0 | Some m \<Rightarrow> Inr (if m = banks cfg then r0 else no_command)) = (Inr r :: Command res)"
    by (auto simp: ChannelState_GetReadyCommand_def elim!: rbindE)
  show thesis
  proof (cases n)
    case None
    with res have "r0 = r" by simp
    obtain i j k b t where w: "(i, j, k) \<in> set (rank_banks cfg (Rank c))"
      "bank_at (bank_states cs) (i, j, k) = Inr b" "bank_ready b c clk t" "t \<noteq> cmd_type c"
      "r = mk_command t (mk_address (-1) (Rank c) j k (-1) (-1)) (hex_addr c)"
      using rank_ready_loop_None [of "bank_states cs" c clk] loop None \<open>r0 = r\<close> by blast
    have i: "i = Rank c" using w(1) by (simp add: set_rank_banks)
    have t: "t = PRECHARGE" using required_type_rank [OF True] w(3,4) by (auto simp: bank_ready_def)
    show thesis by (rule precharge [OF True w(1,2,3,5) [unfolded i t]])
  next
    case (Some m)
    with res assms(2) have m: "m = banks cfg" and "r0 = r" by (auto split: if_splits)
    have len: "int (length (rank_banks cfg (Rank c))) = banks cfg" "rank_banks cfg (Rank c) \<noteq> []"
      using assms(3) length_rank_banks [of cfg "Rank c"] by (auto simp: dims_wf_def)
    show thesis
      by (rule rank [OF True])
        (use rank_ready_loop_Some [OF loop [unfolded Some]] m len \<open>r0 = r\<close> in auto)
  qed
next
  case False
  with assms(1) obtain b r0 where
    b: "bank_at (bank_states cs) (Rank c, Bankgroup c, Bank c) = Inr b" and
    r0: "BankState_GetReadyCommand b c clk = Inr r0" and
    res: "(if \<not> IsValid r0 then Inr no_command
       else if cmd_type r0 = ACTIVATE \<or> cmd_type r0 = PIM_ACTIVATE then
         rbind (ActivationWindowOk cfg cs (Rank r0) clk) (\<lambda>w. Inr (if \<not> w then no_command else r0))
       else Inr r0) = Inr r"
    by (auto simp: ChannelState_GetReadyCommand_def elim!: rbindE)
  from r0 show thesis
  proof (cases rule: GetReadyCommand_cases)
    case (1 t)
    have "r = r0" "t \<in> {ACTIVATE, PIM_ACTIVATE} \<longrightarrow> ActivationWindowOk cfg cs (Rank c) clk = Inr True"
      using res assms(2) 1 by (auto simp: mk_command_def elim!: rbindE split: if_splits)
    with 1 show thesis by (intro bank [OF False b 1(1)]) auto
  next
    case 2
    then show thesis using res assms(2) by simp
  qed
qed

definition request_wf :: "Config \<Rightarrow> Command \<Rightarrow> bool" where
  "request_wf cfg c \<longleftrightarrow>
     (if IsRankCMD c then 0 \<le> Rank c \<and> Rank c < ranks cfg
      else in_range cfg (Rank c, Bankgroup c, Bank c))"

lemma mk_command_rank [simp]: "IsRankCMD (mk_command t a h) \<longleftrightarrow> t \<in> rank_level_types"
  by (simp add: IsRankCMD_rank_level)

lemma SREF_EXIT_ok: "state b = SREF \<Longrightarrow> cmd_type r = SREF_EXIT \<Longrightarrow> ok (BankState_UpdateState b r)"
  by (simp add: BankState_UpdateState_def)

text \<open>Every bank a ready command goes to accepts it.\<close>

lemma ready_accepted:
  assumes inv: "channel_inv cfg cs" and "dims_wf cfg" and "request_wf cfg c"
    and "ChannelState_GetReadyCommand cfg cs c clk = Inr r" and "IsValid r" and p: "p \<in> targets cfg r"
  shows "\<exists>b. bank_at (bank_states cs) p = Inr b \<and> ok (BankState_UpdateState b r)"
  using assms(4,5,2)
proof (cases rule: ready_cases)
  case rank
  with p obtain b where b: "bank_at (bank_states cs) p = Inr b" "bank_ready b c clk (cmd_type c)"
    by (auto simp: targets_def IsRankCMD_rank_level)
  then show ?thesis
    using required_type_legal [OF channel_invD(1) [OF inv b(1)], of c "cmd_type c" r] rank
    by (auto simp: bank_ready_def)
next
  case (precharge j k b)
  then have "p = (Rank c, j, k)" using p by (simp add: targets_def level_defs mk_address_def)
  then show ?thesis
    using required_type_legal [OF channel_invD(1) [OF inv precharge(3)], of c PRECHARGE r] precharge
    by (auto simp: bank_ready_def)
next
  case (bank b t)
  show ?thesis
  proof (cases "t \<in> rank_level_types")
    case True
    then have sref: "t = SREF_EXIT" "state b = SREF"
      using required_type_bank [OF bank(1)] bank(3) by (auto simp: bank_ready_def)
    have "fst p = Rank c" "in_range cfg p"
      using p bank(1,4) True assms(3) by (auto simp: targets_def set_rank_banks request_wf_def in_range_def)
    moreover obtain b' where b': "bank_at (bank_states cs) p = Inr b'"
      using channel_invD(3) [OF inv \<open>in_range cfg p\<close>] by blast
    ultimately have "state b' = SREF"
      using channel_invD(4) [OF inv b'] channel_invD(4) [OF inv bank(2)] sref(2) by simp
    then show ?thesis using b' SREF_EXIT_ok sref(1) bank(4) by auto
  next
    case False
    then have "p = (Rank c, Bankgroup c, Bank c)" using p bank by (simp add: targets_def)
    then show ?thesis
      using required_type_legal [OF channel_invD(1) [OF inv bank(2)], of c t r] bank
      by (auto simp: bank_ready_def)
  qed
qed

subsection \<open>Self-refresh exit has one time per rank\<close>

lemma apply_timings_value:
  "apply_timings ts clk b = Inr b' \<Longrightarrow> cmd_timing b' u =
     fold (\<lambda>(_, d) x. max x (clk + of_int d)) (filter (\<lambda>e. fst e = u) ts) (cmd_timing b u)"
proof (induction ts arbitrary: b)
  case Nil
  then show ?case by simp
next
  case (Cons e ts)
  obtain t d where e: "e = (t, d)" by (cases e)
  with Cons.prems obtain b1 where
    b1: "BankState_UpdateTiming t (clk + of_int d) b = Inr b1" "apply_timings ts clk b1 = Inr b'"
    by (auto elim: rbindE)
  show ?case using Cons.IH [OF b1(2)] UpdateTiming_sel(4) [OF b1(1), of u] e by simp
qed

definition sref_uniform :: "ChannelState \<Rightarrow> bool" where
  "sref_uniform cs \<longleftrightarrow>
     (\<forall>p q b c. bank_at (bank_states cs) p = Inr b \<and> bank_at (bank_states cs) q = Inr c \<and> fst p = fst q
        \<longrightarrow> cmd_timing b SREF_EXIT = cmd_timing c SREF_EXIT)"

lemma constraints_SREF_EXIT:
  "fst p = fst q \<Longrightarrow> filter (\<lambda>e. fst e = SREF_EXIT) (constraints (mk_timing cfg) c p) =
     filter (\<lambda>e. fst e = SREF_EXIT) (constraints (mk_timing cfg) c q)"
  by (cases p; cases q; cases "cmd_type c") (simp_all add: constraints_def level_defs timing_tables)


lemma UpdateTimingAndStates_banks:
  assumes "UpdateTimingAndStates cfg tm cs c clk = Inr cs'" and "channel_inv cfg cs"
    and "bank_at (bank_states cs') q = Inr b'"
  obtains b b1 where "bank_at (bank_states cs) q = Inr b"
    "if q \<in> targets cfg c then BankState_UpdateState b c = Inr b1 else b1 = b"
    "cmd_timing b1 = cmd_timing b" "apply_timings (constraints tm c q) clk b1 = Inr b'"
proof -
  from assms(1) obtain cs1 where cs1: "ChannelState_UpdateState cfg cs c = Inr cs1"
    "ChannelState_UpdateTiming cfg tm cs1 c clk = Inr cs'"
    by (auto simp: UpdateTimingAndStates_def elim: rbindE)
  have inv1: "channel_inv cfg cs1" by (rule channel_inv_UpdateState [OF assms(2) cs1(1)])
  then have "in_range cfg q"
    using channel_invD(2) [OF channel_inv_UpdateTiming [OF inv1 cs1(2)] assms(3)] by simp
  then obtain b1 where b1: "bank_at (bank_states cs1) q = Inr b1"
    "apply_timings (constraints tm c q) clk b1 = Inr b'"
    using UpdateTiming_banks [OF cs1(2)] assms(3) by (auto elim: rbindE)
  have "\<exists>b. bank_at (bank_states cs) q = Inr b \<and>
      (if q \<in> targets cfg c then BankState_UpdateState b c = Inr b1 else b1 = b)"
    using UpdateState_banks [OF cs1(1), of q] b1(1)
    by (cases "bank_at (bank_states cs) q") (auto split: if_splits)
  then obtain b where "bank_at (bank_states cs) q = Inr b"
    "if q \<in> targets cfg c then BankState_UpdateState b c = Inr b1 else b1 = b" by blast
  then show thesis using that b1(2) UpdateState_cmd_timing by (metis (full_types))
qed

lemma channel_inv_issue [inv_intros]:
  assumes "UpdateTimingAndStates cfg tm cs c clk = Inr cs'" and "channel_inv cfg cs"
  shows "channel_inv cfg cs'"
  using assms by (auto simp: UpdateTimingAndStates_def elim!: rbindE intro: inv_intros)

lemma sref_uniform_issue:
  assumes "UpdateTimingAndStates cfg (mk_timing cfg) cs c clk = Inr cs'" and "channel_inv cfg cs"
    and "sref_uniform cs"
  shows "sref_uniform cs'"
  unfolding sref_uniform_def
proof (intro allI impI, elim conjE)
  fix p q b' d'
  assume b': "bank_at (bank_states cs') p = Inr b'" and d': "bank_at (bank_states cs') q = Inr d'"
    and "fst p = fst q"
  obtain b b1 where b: "bank_at (bank_states cs) p = Inr b" "cmd_timing b1 = cmd_timing b"
    "apply_timings (constraints (mk_timing cfg) c p) clk b1 = Inr b'"
    by (rule UpdateTimingAndStates_banks [OF assms(1,2) b'])
  obtain d d1 where d: "bank_at (bank_states cs) q = Inr d" "cmd_timing d1 = cmd_timing d"
    "apply_timings (constraints (mk_timing cfg) c q) clk d1 = Inr d'"
    by (rule UpdateTimingAndStates_banks [OF assms(1,2) d'])
  have "cmd_timing b SREF_EXIT = cmd_timing d SREF_EXIT"
    using assms(3) b(1) d(1) \<open>fst p = fst q\<close> unfolding sref_uniform_def by blast
  then show "cmd_timing b' SREF_EXIT = cmd_timing d' SREF_EXIT"
    using constraints_SREF_EXIT [OF \<open>fst p = fst q\<close>] b(2) d(2)
    by (simp add: apply_timings_value [OF b(3)] apply_timings_value [OF d(3)])
qed

subsection \<open>Histories\<close>

text \<open>
  The states a channel reaches, with the commands issued so far and their times, newest first. Any
  command may be issued at any time here: the timing theorem does not depend on a scheduler.
\<close>

inductive channel_reach :: "Config \<Rightarrow> (Command \<times> u64) list \<Rightarrow> ChannelState \<Rightarrow> bool" for cfg where
  init: "mk_channel_state cfg = Inr cs \<Longrightarrow> channel_reach cfg [] cs"
| issue: "channel_reach cfg h cs \<Longrightarrow> UpdateTimingAndStates cfg (mk_timing cfg) cs c clk = Inr cs' \<Longrightarrow>
    channel_reach cfg ((c, clk) # h) cs'"
| rank_refresh: "channel_reach cfg h cs \<Longrightarrow> 0 \<le> r \<Longrightarrow> r < ranks cfg \<Longrightarrow>
    channel_reach cfg h (RankNeedRefresh cs r True)"
| bank_refresh: "channel_reach cfg h cs \<Longrightarrow> in_range cfg (r, g, k) \<Longrightarrow>
    channel_reach cfg h (BankNeedRefresh cs r g k True)"
| idle: "channel_reach cfg h cs \<Longrightarrow> length xs = nat (ranks cfg) \<Longrightarrow>
    channel_reach cfg h (cs\<lparr>rank_idle_cycles := xs\<rparr>)"

lemma NeedRefresh_sel [simp]:
  "bank_states (RankNeedRefresh cs r n) = bank_states cs"
  "bank_states (BankNeedRefresh cs r g k n) = bank_states cs"
  "four_aw (RankNeedRefresh cs r n) = four_aw cs"
  "four_aw (BankNeedRefresh cs r g k n) = four_aw cs"
  "thirty_two_aw (RankNeedRefresh cs r n) = thirty_two_aw cs"
  "thirty_two_aw (BankNeedRefresh cs r g k n) = thirty_two_aw cs"
  "rank_is_sref (RankNeedRefresh cs r n) = rank_is_sref cs"
  "rank_is_sref (BankNeedRefresh cs r g k n) = rank_is_sref cs"
  by (simp_all add: RankNeedRefresh_def BankNeedRefresh_def)

lemma channel_reach_inv: "channel_reach cfg h cs \<Longrightarrow> channel_inv cfg cs"
  by (induction rule: channel_reach.induct) (auto intro: inv_intros)

lemma sref_uniform_cong: "bank_states cs = bank_states cs' \<Longrightarrow> sref_uniform cs \<Longrightarrow> sref_uniform cs'"
  by (simp add: sref_uniform_def)

lemma channel_reach_sref: "channel_reach cfg h cs \<Longrightarrow> sref_uniform cs"
proof (induction rule: channel_reach.induct)
  case (init cs)
  then show ?case by (auto simp: sref_uniform_def mk_channel_state_banks split: if_splits)
next
  case (issue h cs c clk cs')
  then show ?case using sref_uniform_issue channel_reach_inv by blast
qed (auto elim: sref_uniform_cong [rotated])

text \<open>Every delay of every issued command is recorded in every bank it concerns.\<close>

lemma channel_reach_history:
  assumes "channel_reach cfg h cs" and "(c0, t0) \<in> set h" and "bank_at (bank_states cs) p = Inr b"
    and "(u, d) \<in> set (constraints (mk_timing cfg) c0 p)"
  shows "t0 + of_int d \<le> cmd_timing b u"
  using assms
proof (induction arbitrary: b rule: channel_reach.induct)
  case (issue h cs c clk cs')
  obtain b0 b1 where b: "bank_at (bank_states cs) p = Inr b0" "cmd_timing b1 = cmd_timing b0"
    "apply_timings (constraints (mk_timing cfg) c p) clk b1 = Inr b"
    by (rule UpdateTimingAndStates_banks [OF issue.hyps(2) channel_reach_inv [OF issue.hyps(1)]
          issue.prems(2)])
  show ?case
  proof (cases "(c0, t0) = (c, clk)")
    case True
    then show ?thesis using apply_timings_entry [OF b(3)] issue.prems(3) by simp
  next
    case False
    then have "t0 + of_int d \<le> cmd_timing b0 u"
      using issue.IH [OF _ b(1)] issue.prems by auto
    also have "\<dots> \<le> cmd_timing b u" using apply_timings_sel(4) [OF b(3), of u] b(2) by simp
    finally show ?thesis .
  qed
qed auto

lemma ready_in_time:
  assumes inv: "channel_inv cfg cs" and "dims_wf cfg" and "request_wf cfg c" and "sref_uniform cs"
    and "ChannelState_GetReadyCommand cfg cs c clk = Inr r" and "IsValid r" and p: "p \<in> targets cfg r"
    and b: "bank_at (bank_states cs) p = Inr b"
  shows "cmd_timing b (cmd_type r) \<le> clk"
  using assms(5,6,2)
proof (cases rule: ready_cases)
  case rank
  with p b show ?thesis by (fastforce simp: targets_def IsRankCMD_rank_level bank_ready_def)
next
  case (precharge j k d)
  then have "p = (Rank c, j, k)" using p by (simp add: targets_def level_defs mk_address_def)
  with precharge b show ?thesis by (simp add: bank_ready_def)
next
  case (bank d t)
  show ?thesis
  proof (cases "t \<in> rank_level_types")
    case True
    then have "t = SREF_EXIT"
      using required_type_bank [OF bank(1)] bank(3) by (auto simp: bank_ready_def)
    moreover have "fst p = Rank c"
      using p bank(1,4) True by (auto simp: targets_def set_rank_banks)
    ultimately have "cmd_timing b SREF_EXIT = cmd_timing d SREF_EXIT"
      using assms(4) b bank(2) unfolding sref_uniform_def by (metis fst_conv)
    then show ?thesis using bank(3,4) \<open>t = SREF_EXIT\<close> by (simp add: bank_ready_def)
  next
    case False
    then have "p = (Rank c, Bankgroup c, Bank c)" using p bank by (simp add: targets_def)
    with bank b show ?thesis by (simp add: bank_ready_def)
  qed
qed

lemma timing_respected_word:
  assumes "channel_reach cfg h cs" and "dims_wf cfg" and "request_wf cfg c"
    and "ChannelState_GetReadyCommand cfg cs c clk = Inr r" and "IsValid r"
    and "(c0, t0) \<in> set h" and "p \<in> targets cfg r"
    and "(cmd_type r, d) \<in> set (constraints (mk_timing cfg) c0 p)"
  shows "t0 + of_int d \<le> clk"
proof -
  note inv = channel_reach_inv [OF assms(1)]
  obtain b where b: "bank_at (bank_states cs) p = Inr b"
    using ready_accepted [OF inv assms(2-5,7)] by blast
  have "t0 + of_int d \<le> cmd_timing b (cmd_type r)"
    by (rule channel_reach_history [OF assms(1,6) b assms(8)])
  also have "\<dots> \<le> clk"
    by (rule ready_in_time [OF inv assms(2,3) channel_reach_sref [OF assms(1)] assms(4,5,7) b])
  finally show ?thesis .
qed

subsection \<open>Activation windows\<close>

text \<open>
  The two window queues share one discipline: at most \<open>n\<close> expiry times are kept, oldest first. The
  history \<open>hs\<close> of activation times has the newest first.
\<close>

definition window_inv :: "nat \<Rightarrow> int \<Rightarrow> u64 list \<Rightarrow> u64 list \<Rightarrow> bool" where
  "window_inv n d hs q \<longleftrightarrow> length q \<le> n \<and> length q \<le> length hs \<and>
     q = rev (map (\<lambda>t. t + of_int d) (take (length q) hs)) \<and>
     (\<forall>j. length q \<le> j \<and> j < length hs \<longrightarrow> hs ! j + of_int d \<le> hs ! 0) \<and>
     (\<forall>i. i + n < length hs \<longrightarrow> hs ! (i + n) + of_int d \<le> hs ! i)"

locale activation_window =
  fixes n :: nat
  assumes n_pos: "0 < n"
begin

lemma window_inv_Nil: "window_inv n d [] []"
  by (simp add: window_inv_def)

lemma window_inv_front:
  assumes "window_inv n d hs (x # xs)"
  shows "hs ! length xs + of_int d = x" "xs = rev (map (\<lambda>t. t + of_int d) (take (length xs) hs))"
    "length xs < length hs"
proof -
  have len: "length xs < length hs" and
    eq: "x # xs = rev (map (\<lambda>t. t + of_int d) (take (Suc (length xs)) hs))"
    using assms by (auto simp: window_inv_def)
  have "x # xs = (hs ! length xs + of_int d) # rev (map (\<lambda>t. t + of_int d) (take (length xs) hs))"
    using eq len by (simp add: take_Suc_conv_app_nth)
  then show "hs ! length xs + of_int d = x"
    "xs = rev (map (\<lambda>t. t + of_int d) (take (length xs) hs))" "length xs < length hs"
    using len by simp_all
qed

lemma window_inv_push:
  assumes inv: "window_inv n d hs q" and ready: "aw_ready n q t" and mono: "hs = [] \<or> hd hs \<le> t"
  shows "window_inv n d (t # hs) (aw_push d q t)"
proof -
  have before: "hs ! j + of_int d \<le> t" if "length q \<le> j" "j < length hs" for j
  proof -
    have "hs ! j + of_int d \<le> hs ! 0" using inv that by (simp add: window_inv_def)
    also have "\<dots> \<le> t" using mono that by (cases hs) auto
    finally show ?thesis .
  qed
  have intro: "window_inv n d (t # hs) q'"
    if q': "length q' \<le> n" "length q' \<le> Suc (length hs)"
      "q' = rev (map (\<lambda>t. t + of_int d) (take (length q') (t # hs)))"
      "\<And>j. length q' \<le> Suc j \<Longrightarrow> j < length hs \<Longrightarrow> hs ! j + of_int d \<le> t" "q' \<noteq> []" for q'
  proof -
    have "(t # hs) ! (i + n) + of_int d \<le> (t # hs) ! i" if "i + n < length (t # hs)" for i
    proof (cases i)
      case 0
      then show ?thesis using that q'(1) n_pos q'(4) [of "n - 1"]
        by (cases n) auto
    next
      case (Suc m)
      then show ?thesis using that inv by (simp add: window_inv_def)
    qed
    moreover have "(t # hs) ! j + of_int d \<le> (t # hs) ! 0" if "length q' \<le> j" "j < length (t # hs)" for j
      using that q'(5) q'(4) [of "j - 1"]
      by (cases j) auto
    ultimately show ?thesis unfolding window_inv_def
      using q'(1,2) by (intro conjI allI impI) (simp_all only: length_Cons q'(3) [symmetric])
  qed
  show ?thesis
  proof (cases q)
    case Nil
    then show ?thesis using n_pos before by (intro intro) (auto simp: aw_push_def)
  next
    case (Cons x xs)
    note front = window_inv_front [OF inv [unfolded Cons]]
    show ?thesis
    proof (cases "x \<le> t")
      case True
      have expired: "hs ! j + of_int d \<le> t" if "length xs \<le> j" "j < length hs" for j
        using that front(1) True before [of j] Cons by (cases "j = length xs") auto
      have "window_inv n d (t # hs) (xs @ [t + of_int d])"
      proof (rule intro)
        show "length (xs @ [t + of_int d]) \<le> n" using inv Cons by (simp add: window_inv_def)
        show "xs @ [t + of_int d] =
            rev (map (\<lambda>t. t + of_int d) (take (length (xs @ [t + of_int d])) (t # hs)))"
          using arg_cong [OF front(2), of "\<lambda>ys. ys @ [t + of_int d]"] by simp
      qed (use front(3) expired in auto)
      then show ?thesis using True Cons by (simp add: aw_push_def)
    next
      case False
      then have room: "length q < n" using ready Cons by (auto simp: aw_ready_def)
      have "window_inv n d (t # hs) (q @ [t + of_int d])"
      proof (rule intro)
        show "q @ [t + of_int d] =
            rev (map (\<lambda>t. t + of_int d) (take (length (q @ [t + of_int d])) (t # hs)))"
          using inv arg_cong [of q _ "\<lambda>ys. ys @ [t + of_int d]"] by (simp add: window_inv_def)
      qed (use room before inv in \<open>auto simp: window_inv_def\<close>)
      then show ?thesis using False Cons by (simp add: aw_push_def)
    qed
  qed
qed

end

interpretation faw: activation_window 4
  by unfold_locales simp

interpretation aw32: activation_window 32
  by unfold_locales simp

definition is_act :: "Command \<Rightarrow> bool" where
  "is_act c \<longleftrightarrow> cmd_type c = ACTIVATE \<or> cmd_type c = PIM_ACTIVATE"

text \<open>The activation times of a rank in a history, newest first.\<close>

definition acts :: "int \<Rightarrow> (Command \<times> u64) list \<Rightarrow> u64 list" where
  "acts r h = map snd (filter (\<lambda>(c, _). is_act c \<and> Rank c = r) h)"

lemma acts_simps [simp]:
  "acts r [] = []"
  "acts r ((c, t) # h) = (if is_act c \<and> Rank c = r then t # acts r h else acts r h)"
  by (simp_all add: acts_def)

text \<open>
  The states reached when every issued command was offered by \<open>GetReadyCommand\<close> at the time of its
  issue and time does not run backwards.
\<close>

inductive legal_reach :: "Config \<Rightarrow> (Command \<times> u64) list \<Rightarrow> ChannelState \<Rightarrow> bool" for cfg where
  init: "mk_channel_state cfg = Inr cs \<Longrightarrow> legal_reach cfg [] cs"
| issue: "legal_reach cfg h cs \<Longrightarrow> request_wf cfg c \<Longrightarrow>
    ChannelState_GetReadyCommand cfg cs c clk = Inr r \<Longrightarrow> IsValid r \<Longrightarrow> h = [] \<or> snd (hd h) \<le> clk \<Longrightarrow>
    UpdateTimingAndStates cfg (mk_timing cfg) cs r clk = Inr cs' \<Longrightarrow>
    legal_reach cfg ((r, clk) # h) cs'"
| rank_refresh: "legal_reach cfg h cs \<Longrightarrow> 0 \<le> r \<Longrightarrow> r < ranks cfg \<Longrightarrow>
    legal_reach cfg h (RankNeedRefresh cs r True)"
| bank_refresh: "legal_reach cfg h cs \<Longrightarrow> in_range cfg (r, g, k) \<Longrightarrow>
    legal_reach cfg h (BankNeedRefresh cs r g k True)"
| idle: "legal_reach cfg h cs \<Longrightarrow> length xs = nat (ranks cfg) \<Longrightarrow>
    legal_reach cfg h (cs\<lparr>rank_idle_cycles := xs\<rparr>)"

lemma legal_reach_channel: "legal_reach cfg h cs \<Longrightarrow> channel_reach cfg h cs"
  by (induction rule: legal_reach.induct) (auto intro: channel_reach.intros)

lemma legal_reach_times: "legal_reach cfg h cs \<Longrightarrow> x \<in> set h \<Longrightarrow> snd x \<le> snd (hd h)"
  by (induction rule: legal_reach.induct) (auto intro: order_trans)

lemma UpdateTiming_windows:
  assumes "ChannelState_UpdateTiming cfg tm cs c clk = Inr cs'" and "0 \<le> r"
  shows "four_aw cs' ! nat r =
      (if is_act c \<and> Rank c = r then aw_push (tFAW cfg) (four_aw cs ! nat r) clk else four_aw cs ! nat r)"
    and "IsGDDR cfg \<Longrightarrow> thirty_two_aw cs' ! nat r =
      (if is_act c \<and> Rank c = r then aw_push (t32AW cfg) (thirty_two_aw cs ! nat r) clk
       else thirty_two_aw cs ! nat r)"
  using assms
  by (auto simp: ChannelState_UpdateTiming_def Let_def on_banks_def UpdateActivationTimes_def
      is_act_def vmod_Inr nth_list_update nat_eq_iff elim!: rbindE split: if_splits)

lemma issue_windows:
  assumes "UpdateTimingAndStates cfg tm cs c clk = Inr cs'" and "0 \<le> r"
  shows "four_aw cs' ! nat r =
      (if is_act c \<and> Rank c = r then aw_push (tFAW cfg) (four_aw cs ! nat r) clk else four_aw cs ! nat r)"
    and "IsGDDR cfg \<Longrightarrow> thirty_two_aw cs' ! nat r =
      (if is_act c \<and> Rank c = r then aw_push (t32AW cfg) (thirty_two_aw cs ! nat r) clk
       else thirty_two_aw cs ! nat r)"
proof -
  from assms(1) obtain cs1 where cs1: "ChannelState_UpdateState cfg cs c = Inr cs1"
    "ChannelState_UpdateTiming cfg tm cs1 c clk = Inr cs'"
    by (auto simp: UpdateTimingAndStates_def elim: rbindE)
  show "four_aw cs' ! nat r =
      (if is_act c \<and> Rank c = r then aw_push (tFAW cfg) (four_aw cs ! nat r) clk else four_aw cs ! nat r)"
    using UpdateTiming_windows(1) [OF cs1(2) assms(2)] UpdateState_frame(4) [OF cs1(1)] by simp
  show "thirty_two_aw cs' ! nat r =
      (if is_act c \<and> Rank c = r then aw_push (t32AW cfg) (thirty_two_aw cs ! nat r) clk
       else thirty_two_aw cs ! nat r)" if "IsGDDR cfg"
    using UpdateTiming_windows(2) [OF cs1(2) assms(2) that] UpdateState_frame(5) [OF cs1(1)] by simp
qed

lemma ActivationWindowOk_True:
  assumes "ActivationWindowOk cfg cs r clk = Inr True"
  shows "aw_ready 4 (four_aw cs ! nat r) clk" "IsGDDR cfg \<Longrightarrow> aw_ready 32 (thirty_two_aw cs ! nat r) clk"
  using assms
  by (auto simp: ActivationWindowOk_def IsFAWReady_def Is32AWReady_def vget_Inr elim!: rbindE
      split: if_splits)

lemma ready_act_window:
  assumes "ChannelState_GetReadyCommand cfg cs c clk = Inr r" and "IsValid r" and "dims_wf cfg"
    and "is_act r"
  shows "ActivationWindowOk cfg cs (Rank r) clk = Inr True"
  using assms(1-3)
proof (cases rule: ready_cases)
  case rank
  then show ?thesis using assms(4) by (auto simp: is_act_def IsRankCMD_def)
next
  case (precharge j k b)
  then show ?thesis using assms(4) by (simp add: is_act_def)
next
  case (bank b t)
  then show ?thesis using assms(4) by (auto simp: is_act_def)
qed

lemma hd_acts:
  assumes "legal_reach cfg h cs" and "h = [] \<or> snd (hd h) \<le> clk"
  shows "acts r h = [] \<or> hd (acts r h) \<le> clk"
proof (cases "acts r h = []")
  case False
  then have "hd (acts r h) \<in> snd ` set h"
    using hd_in_set [OF False] by (auto simp: acts_def)
  then obtain x where x: "x \<in> set h" "hd (acts r h) = snd x" by blast
  then have "snd (hd h) \<le> clk" using assms(2) by auto
  then show ?thesis using legal_reach_times [OF assms(1) x(1)] x(2) by (auto intro: order_trans)
qed simp

lemma legal_reach_window:
  assumes "legal_reach cfg h cs" and "dims_wf cfg" and "0 \<le> r" and "r < ranks cfg"
  shows "window_inv 4 (tFAW cfg) (acts r h) (four_aw cs ! nat r) \<and>
    (IsGDDR cfg \<longrightarrow> window_inv 32 (t32AW cfg) (acts r h) (thirty_two_aw cs ! nat r))"
  using assms
proof (induction rule: legal_reach.induct)
  case (init cs)
  then have "four_aw cs ! nat r = []" "thirty_two_aw cs ! nat r = []"
    by (auto simp: mk_channel_state_def nat_less_iff split: if_splits)
  then show ?case by (simp add: faw.window_inv_Nil aw32.window_inv_Nil)
next
  case (issue h cs c clk q cs')
  note windows = issue_windows [OF issue.hyps(6) issue.prems(2)]
  show ?case
  proof (cases "is_act q \<and> Rank q = r")
    case True
    then have win: "ActivationWindowOk cfg cs r clk = Inr True"
      using ready_act_window [OF issue.hyps(3,4) issue.prems(1)] by simp
    note mono = hd_acts [OF issue.hyps(1,5), of r]
    show ?thesis
      using True windows issue.IH [OF issue.prems] ActivationWindowOk_True [OF win] mono
      by (simp add: faw.window_inv_push aw32.window_inv_push)
  next
    case False
    then show ?thesis using windows issue.IH [OF issue.prems] by auto
  qed
qed auto

subsection \<open>Issuing a ready command succeeds\<close>

lemma UpdateState_ok:
  assumes inv: "channel_inv cfg cs"
    and acc: "\<And>p. p \<in> targets cfg r \<Longrightarrow> \<exists>b. bank_at (bank_states cs) p = Inr b \<and> ok (BankState_UpdateState b r)"
    and rnk: "IsRankCMD r \<Longrightarrow> 0 \<le> Rank r \<and> Rank r < ranks cfg"
  shows "ok (ChannelState_UpdateState cfg cs r)"
proof (cases "IsRankCMD r")
  case True
  have "ok (mfold (\<lambda>p B. bank_modify B p (\<lambda>b. BankState_UpdateState b r)) (rank_banks cfg (Rank r))
      (bank_states cs))"
    by (rule bank_array.mfold_modify_ok [OF distinct_rank_banks])
      (use acc True in \<open>auto simp: targets_def ok_def\<close>)
  moreover have "ok (vset (rank_is_sref cs) (Rank r) f)" for f
    using rnk [OF True] inv by (simp add: vset_def vmod_def channel_inv_def)
  then obtain s1 s2 where "vset (rank_is_sref cs) (Rank r) True = Inr s1"
    "vset (rank_is_sref cs) (Rank r) False = Inr s2" by (meson okE)
  ultimately show ?thesis
    using True by (auto simp: ChannelState_UpdateState_def Let_def elim!: okE)
next
  case False
  obtain b b' where "bank_at (bank_states cs) (Rank r, Bankgroup r, Bank r) = Inr b"
    "BankState_UpdateState b r = Inr b'"
    using acc [of "(Rank r, Bankgroup r, Bank r)"] False by (auto simp: targets_def elim: okE)
  then have "ok (bank_modify (bank_states cs) (Rank r, Bankgroup r, Bank r) (\<lambda>b. BankState_UpdateState b r))"
    by (rule bank_array.modify_ok)
  then show ?thesis
    using False by (auto simp: ChannelState_UpdateState_def ok_rbind Let_def elim!: okE)
qed

lemma UpdateActivationTimes_ok:
  assumes "channel_inv cfg cs" and "0 \<le> r" and "r < ranks cfg"
  shows "ok (UpdateActivationTimes cfg cs r clk)"
  using assms by (auto simp: UpdateActivationTimes_def vmod_def channel_inv_def)

lemma update_banks_step:
  assumes "table_wf tab" and "set ps \<subseteq> Collect (in_range cfg)"
    and "\<And>p. ok (bank_at B p) \<longleftrightarrow> in_range cfg p"
  obtains B' where "update_banks ps (tab t) clk B = Inr B'" "\<And>p. ok (bank_at B' p) \<longleftrightarrow> in_range cfg p"
proof -
  have "ok (update_banks ps (tab t) clk B)"
    by (rule update_banks_ok) (use assms in \<open>auto simp: table_wf_def\<close>)
  then obtain B' where "update_banks ps (tab t) clk B = Inr B'" by (rule okE)
  then show thesis using that update_banks_dom assms(3) by blast
qed

lemma update_lists_in_range:
  assumes "in_range cfg (r, g, k)"
  shows "set [(r, g, k)] \<subseteq> Collect (in_range cfg)"
    "set [(r, g, k'). k' \<leftarrow> [0..banks_per_group cfg - 1], k' \<noteq> k] \<subseteq> Collect (in_range cfg)"
    "set [(r, j, k). j \<leftarrow> [0..bankgroups cfg - 1], j \<noteq> g, k \<leftarrow> [0..banks_per_group cfg - 1]]
       \<subseteq> Collect (in_range cfg)"
    "set [(i, j, k). i \<leftarrow> [0..ranks cfg - 1], i \<noteq> r, j \<leftarrow> [0..bankgroups cfg - 1],
       k \<leftarrow> [0..banks_per_group cfg - 1]] \<subseteq> Collect (in_range cfg)"
  using assms by (auto simp: in_range_def)

lemma UpdateTiming_ok:
  assumes inv: "channel_inv cfg cs" and tm: "timing_wf tm" and "cmd_type c \<noteq> CommandType_SIZE"
    and wf: "request_wf cfg c"
  shows "ok (ChannelState_UpdateTiming cfg tm cs c clk)"
proof -
  let ?t = "cmd_type c"
  have tables: "table_wf (same_bank tm)" "table_wf (other_banks_same_bankgroup tm)"
    "table_wf (other_bankgroups_same_rank tm)" "table_wf (other_ranks tm)" "table_wf (same_rank tm)"
    using tm by (simp_all add: timing_wf_def)
  have dom: "\<And>p. ok (bank_at (bank_states cs) p) \<longleftrightarrow> in_range cfg p" by (rule channel_invD(5) [OF inv])
  consider "?t \<in> bank_level_types" | "?t \<in> rank_level_types" | "?t \<in> pim_column_types"
    using levels_exhaustive assms(3) by blast
  then show ?thesis
  proof cases
    case 1
    then have in_r: "in_range cfg (Rank c, Bankgroup c, Bank c)"
      using wf levels_disjoint(1) [of ?t] by (auto simp: request_wf_def IsRankCMD_rank_level split: if_splits)
    obtain cs0 where "UpdateActivationTimes cfg cs (Rank c) clk = Inr cs0"
      using UpdateActivationTimes_ok [OF inv, of "Rank c" clk] in_r by (auto simp: in_range_def elim: okE)
    then obtain cs1 where cs1: "(if ?t \<in> {ACTIVATE, PIM_ACTIVATE} then UpdateActivationTimes cfg cs (Rank c) clk
        else Inr cs) = Inr cs1" and "bank_states cs1 = bank_states cs"
      using UpdateActivationTimes_sel(1) by (cases "?t \<in> {ACTIVATE, PIM_ACTIVATE}") auto
    then have dom1: "\<And>p. ok (bank_at (bank_states cs1) p) \<longleftrightarrow> in_range cfg p" using dom by simp
    note lists = update_lists_in_range [OF in_r]
    obtain B1 where B1: "UpdateSameBankTiming (addr c) (same_bank tm ?t) clk (bank_states cs1) = Inr B1"
      "\<And>p. ok (bank_at B1 p) \<longleftrightarrow> in_range cfg p"
      unfolding bank_loop_defs by (rule update_banks_step [where t = ?t and clk = clk, OF tables(1) lists(1) dom1]) blast
    obtain B2 where B2: "UpdateOtherBanksSameBankgroupTiming cfg (addr c)
        (other_banks_same_bankgroup tm ?t) clk B1 = Inr B2" "\<And>p. ok (bank_at B2 p) \<longleftrightarrow> in_range cfg p"
      unfolding bank_loop_defs by (rule update_banks_step [where t = ?t and clk = clk, OF tables(2) lists(2) B1(2)]) blast
    obtain B3 where B3: "UpdateOtherBankgroupsSameRankTiming cfg (addr c)
        (other_bankgroups_same_rank tm ?t) clk B2 = Inr B3" "\<And>p. ok (bank_at B3 p) \<longleftrightarrow> in_range cfg p"
      unfolding bank_loop_defs by (rule update_banks_step [where t = ?t and clk = clk, OF tables(3) lists(3) B2(2)]) blast
    obtain B4 where B4: "UpdateOtherRanksTiming cfg (addr c) (other_ranks tm ?t) clk B3 = Inr B4"
      unfolding bank_loop_defs by (rule update_banks_step [where t = ?t and clk = clk, OF tables(4) lists(4) B3(2)]) blast
    from 1 show ?thesis
      unfolding ChannelState_UpdateTiming_def Let_def bank_level_types_def
      by (simp only: if_True cs1 on_banks_def rbind_Inr B1 B2 B3 B4 ok_Inr)
  next
    case 2
    then have "set (rank_banks cfg (Rank c)) \<subseteq> Collect (in_range cfg)"
      using wf by (auto simp: request_wf_def IsRankCMD_rank_level set_rank_banks in_range_def)
    then obtain B where "UpdateSameRankTiming cfg (addr c) (same_rank tm ?t) clk (bank_states cs) = Inr B"
      unfolding bank_loop_defs by (rule update_banks_step [where t = ?t and clk = clk, OF tables(5) _ dom]) blast
    with 2 show ?thesis
      by (auto simp: ChannelState_UpdateTiming_def Let_def rank_level_types_def on_banks_def)
  next
    case 3
    then have "in_range cfg (Rank c, Bankgroup c, Bank c)"
      using wf levels_disjoint(3) [of ?t] by (auto simp: request_wf_def IsRankCMD_rank_level split: if_splits)
    then obtain B where "UpdateSameBankTiming (addr c) (same_bank tm ?t) clk (bank_states cs) = Inr B"
      unfolding bank_loop_defs by (rule update_banks_step [where t = ?t and clk = clk, OF tables(1) update_lists_in_range(1) dom]) blast
    with 3 show ?thesis
      by (auto simp: ChannelState_UpdateTiming_def Let_def pim_column_types_def on_banks_def)
  qed
qed

lemma ready_request_wf:
  assumes "channel_inv cfg cs" and "dims_wf cfg" and "request_wf cfg c"
    and "ChannelState_GetReadyCommand cfg cs c clk = Inr r" and "IsValid r"
  shows "request_wf cfg r"
  using assms(4,5,2)
proof (cases rule: ready_cases)
  case rank
  then show ?thesis using assms(3) by (simp add: request_wf_def IsRankCMD_rank_level)
next
  case (precharge j k b)
  then show ?thesis
    using assms(3) channel_invD(2) [OF assms(1) precharge(3)]
    by (simp add: request_wf_def level_defs mk_address_def)
next
  case (bank b t)
  then show ?thesis
    using assms(3) channel_invD(2) [OF assms(1) bank(2)] by (auto simp: request_wf_def in_range_def)
qed

lemma issue_ready_ok:
  assumes "channel_inv cfg cs" and "dims_wf cfg" and "request_wf cfg c" and "timing_wf tm"
    and "ChannelState_GetReadyCommand cfg cs c clk = Inr r" and "IsValid r"
  shows "ok (UpdateTimingAndStates cfg tm cs r clk')"
proof -
  note wf = ready_request_wf [OF assms(1-3,5,6)]
  have "ok (ChannelState_UpdateState cfg cs r)"
    by (rule UpdateState_ok [OF assms(1)])
      (use ready_accepted [OF assms(1-3,5,6)] wf in \<open>auto simp: request_wf_def\<close>)
  then obtain cs1 where cs1: "ChannelState_UpdateState cfg cs r = Inr cs1" by (rule okE)
  have "ok (ChannelState_UpdateTiming cfg tm cs1 r clk')"
    by (rule UpdateTiming_ok [OF channel_inv_UpdateState [OF assms(1) cs1] assms(4) _ wf])
      (use assms(6) in \<open>simp add: IsValid_def\<close>)
  then show ?thesis by (simp add: UpdateTimingAndStates_def cs1)
qed

subsection \<open>Asking for a ready command succeeds\<close>

lemma rank_ready_loop_ok:
  assumes "\<And>p. p \<in> set ps \<Longrightarrow> \<exists>b. bank_at B p = Inr b \<and> ok (BankState_GetReadyCommand b c clk)"
  shows "ok (rank_ready_loop B c clk ps ready n)"
  using assms
proof (induction ps arbitrary: ready n)
  case Nil
  then show ?case by simp
next
  case (Cons p ps)
  obtain b r where "bank_at B p = Inr b" "BankState_GetReadyCommand b c clk = Inr r"
    using Cons.prems [of p] by (auto elim: okE)
  moreover have "ok (rank_ready_loop B c clk ps ready n)" for ready n
    using Cons.IH Cons.prems by simp
  ultimately show ?case by (simp split: prod.split)
qed

lemma GetReadyCommand_channel_ok:
  assumes inv: "channel_inv cfg cs" and wf: "request_wf cfg c"
    and ty: "cmd_type c \<in> request_types \<or> cmd_type c \<in> refresh_types \<and> \<not> rank_is_sref cs ! nat (Rank c)"
  shows "ok (ChannelState_GetReadyCommand cfg cs c clk)"
proof -
  have bank: "\<exists>b. bank_at (bank_states cs) p = Inr b \<and> ok (BankState_GetReadyCommand b c clk)"
    if p: "in_range cfg p" "fst p = Rank c" for p
  proof -
    obtain b where b: "bank_at (bank_states cs) p = Inr b" using channel_invD(3) [OF inv p(1)] by blast
    have "ok (BankState_GetReadyCommand b c clk)"
      by (rule GetReadyCommand_ok [OF channel_invD(1) [OF inv b]])
        (use ty channel_invD(4) [OF inv b] p(2) in auto)
    with b show ?thesis by blast
  qed
  show ?thesis
  proof (cases "IsRankCMD c")
    case True
    have "ok (rank_ready_loop (bank_states cs) c clk (rank_banks cfg (Rank c)) no_command 0)"
      by (rule rank_ready_loop_ok, rule bank)
        (use wf True in \<open>auto simp: request_wf_def set_rank_banks in_range_def\<close>)
    then obtain r n where "rank_ready_loop (bank_states cs) c clk (rank_banks cfg (Rank c)) no_command 0 = Inr (r, n)"
      by (metis okE surj_pair)
    with True show ?thesis by (simp add: ChannelState_GetReadyCommand_def split: option.split)
  next
    case False
    then have in_r: "in_range cfg (Rank c, Bankgroup c, Bank c)" using wf by (simp add: request_wf_def)
    then obtain b r where b: "bank_at (bank_states cs) (Rank c, Bankgroup c, Bank c) = Inr b"
      "BankState_GetReadyCommand b c clk = Inr r"
      using bank [of "(Rank c, Bankgroup c, Bank c)"] by (auto elim: okE)
    from b(2) show ?thesis
    proof (cases rule: GetReadyCommand_cases)
      case (1 t)
      have "Rank c < int (length (four_aw cs))" "Rank c < int (length (thirty_two_aw cs))"
        using inv in_r by (auto simp: channel_inv_def in_range_def)
      then have "ok (ActivationWindowOk cfg cs (Rank c) clk)"
        using in_r by (simp add: ActivationWindowOk_def IsFAWReady_def Is32AWReady_def in_range_def)
      then show ?thesis using False b 1 by (auto simp: ChannelState_GetReadyCommand_def elim: okE)
    next
      case 2
      then show ?thesis using False b by (simp add: ChannelState_GetReadyCommand_def)
    qed
  qed
qed

subsection \<open>Runs\<close>

text \<open>
  Executes a list of requests with their times: each time, the command that the channel offers for
  the request, if any, is issued. The result is the history and the state.
\<close>

fun legal_run :: "Config \<Rightarrow> (Command \<times> u64) list \<Rightarrow> (Command \<times> u64) list \<Rightarrow> ChannelState \<Rightarrow>
    ((Command \<times> u64) list \<times> ChannelState) option" where
  "legal_run cfg [] h cs = Some (h, cs)"
| "legal_run cfg ((c, clk) # ops) h cs =
     (if request_wf cfg c \<and> (h = [] \<or> snd (hd h) \<le> clk) then
        (case ChannelState_GetReadyCommand cfg cs c clk of
           Inl e \<Rightarrow> None
         | Inr r \<Rightarrow>
             if IsValid r then
               (case UpdateTimingAndStates cfg (mk_timing cfg) cs r clk of
                  Inl e \<Rightarrow> None
                | Inr cs' \<Rightarrow> legal_run cfg ops ((r, clk) # h) cs')
             else legal_run cfg ops h cs)
      else None)"

lemma legal_run_reach:
  "legal_reach cfg h cs \<Longrightarrow> legal_run cfg ops h cs = Some (h', cs') \<Longrightarrow> legal_reach cfg h' cs'"
proof (induction cfg ops h cs rule: legal_run.induct)
  case (2 cfg c clk ops h cs)
  from 2(4) have g: "request_wf cfg c \<and> (h = [] \<or> snd (hd h) \<le> clk)"
    by (simp split: if_splits)
  with 2(4) obtain r where r: "ChannelState_GetReadyCommand cfg cs c clk = Inr r"
    by (simp split: sum.splits)
  show ?case
  proof (cases "IsValid r")
    case True
    with 2(4) g r obtain cs1 where "UpdateTimingAndStates cfg (mk_timing cfg) cs r clk = Inr cs1"
      "legal_run cfg ops ((r, clk) # h) cs1 = Some (h', cs')" by (simp split: sum.splits)
    with True g r show ?thesis using 2(1,3) legal_reach.issue by blast
  next
    case False
    with 2(2-4) g r show ?thesis by simp
  qed
qed simp

lemma uint_of_int_id: "0 \<le> x \<Longrightarrow> x < 2 ^ 64 \<Longrightarrow> uint (of_int x :: u64) = x"
  by (simp add: unsigned_of_int take_bit_int_eq_self)

lemma channel_inv_mk_channel_state: "mk_channel_state cfg = Inr cs \<Longrightarrow> channel_inv cfg cs"
  by (rule channel_reach_inv [OF channel_reach.init])

text \<open>A channel with one bank, whose activations are counted in a window of ten cycles.\<close>

definition one_bank_config :: Config where
  "one_bank_config = config0\<lparr>ranks := 1, bankgroups := 1, banks_per_group := 1, banks := 1,
     tRCD := 3, tFAW := 10\<rparr>"

definition one_bank_request :: "int \<Rightarrow> Command" where
  "one_bank_request r = mk_command READ (mk_address 0 0 0 0 r 0) 0"

definition one_bank_run :: "(int \<times> u64) list \<Rightarrow> ((Command \<times> u64) list \<times> ChannelState) option" where
  "one_bank_run ops =
     (case mk_channel_state one_bank_config of
        Inl e \<Rightarrow> None
      | Inr cs \<Rightarrow> legal_run one_bank_config (map (\<lambda>(r, t). (one_bank_request r, t)) ops) [] cs)"

lemma one_bank_run_reach: "one_bank_run ops = Some (h, cs) \<Longrightarrow> legal_reach one_bank_config h cs"
  by (auto simp: one_bank_run_def intro: legal_run_reach legal_reach.init split: sum.splits)

lemma one_bank_wf: "dims_wf one_bank_config" "request_wf one_bank_config (one_bank_request r)"
  by (simp_all add: dims_wf_def one_bank_config_def one_bank_request_def request_wf_def in_range_def
      rank_level_types_def)

subsection \<open>Properties\<close>



text \<open>
  C6. The activation windows hold: when every issued command was offered at its time and time does not run
  backwards, any five successive activations of a rank (ordinary and in-memory ones together) span at
  least \<^verbatim>\<open>tFAW\<close>, and with a GDDR protocol any 33 successive ones at least \<^verbatim>\<open>t32AW\<close>. \<open>acts\<close> lists the
  activation times of the rank, newest first.
\<close>

theorem activation_windows:
  assumes "legal_reach cfg h cs" and "dims_wf cfg" and "0 \<le> r" and "r < ranks cfg"
  shows "(i + 4 < length (acts r h) \<longrightarrow> acts r h ! (i + 4) + of_int (tFAW cfg) \<le> acts r h ! i) \<and>
    (IsGDDR cfg \<and> i + 32 < length (acts r h) \<longrightarrow> acts r h ! (i + 32) + of_int (t32AW cfg) \<le> acts r h ! i)"
  using legal_reach_window [OF assms] by (simp add: window_inv_def)

theorem activation_windows_witness:
  "\<exists>h cs. one_bank_run [(0, 0), (1, 1), (1, 1), (0, 2), (0, 2), (1, 2), (1, 3), (0, 4), (0, 9), (0, 10)] =
       Some (h, cs) \<and> acts 0 h = [10, 3, 2, 1, 0] \<and>
     acts 0 h ! 4 + of_int (tFAW one_bank_config) \<le> acts 0 h ! 0"
proof -
  let ?ops = "[(0, 0), (1, 1), (1, 1), (0, 2), (0, 2), (1, 2), (1, 3), (0, 4), (0, 9), (0, 10)]"
  have "map_option (\<lambda>(h, cs). acts 0 h) (one_bank_run ?ops) = Some [10, 3, 2, 1, 0]" by code_simp
  then obtain h cs where run: "one_bank_run ?ops = Some (h, cs)" and a: "acts 0 h = [10, 3, 2, 1, 0]"
    by auto
  have "acts 0 h ! 4 + of_int (tFAW one_bank_config) \<le> acts 0 h ! 0"
    using activation_windows [OF one_bank_run_reach [OF run] one_bank_wf(1), of 0 0] a
    by (simp add: one_bank_config_def)
  with run a show ?thesis by blast
qed

text \<open>
  C7. An offered command can be issued: for every channel state that can be reached and every request
  with a valid address, \<^verbatim>\<open>GetReadyCommand\<close> returns (requests, and refreshes of a rank that is not in
  self-refresh), and if it offers a command then \<^verbatim>\<open>UpdateTimingAndStates\<close> with it neither aborts nor leaves a
  vector, and keeps the channel invariant.
\<close>

theorem offered_command_issues:
  assumes "channel_reach cfg h cs" and "dims_wf cfg" and "request_wf cfg c"
    and "cmd_type c \<in> request_types \<or> cmd_type c \<in> refresh_types \<and> \<not> rank_is_sref cs ! nat (Rank c)"
  shows "\<exists>r. ChannelState_GetReadyCommand cfg cs c clk = Inr r \<and>
    (IsValid r \<longrightarrow> (\<exists>cs'. UpdateTimingAndStates cfg (mk_timing cfg) cs r clk = Inr cs' \<and> channel_inv cfg cs'))"
proof -
  note inv = channel_reach_inv [OF assms(1)]
  obtain r where r: "ChannelState_GetReadyCommand cfg cs c clk = Inr r"
    by (rule okE [OF GetReadyCommand_channel_ok [OF inv assms(3,4)]])
  have "\<exists>cs'. UpdateTimingAndStates cfg (mk_timing cfg) cs r clk = Inr cs' \<and> channel_inv cfg cs'"
    if "IsValid r"
    using okE [OF issue_ready_ok [OF inv assms(2,3) timing_wf_mk_timing r that]] channel_inv_issue inv
    by metis
  with r show ?thesis by blast
qed

theorem offered_command_issues_witness:
  "\<exists>cs r cs'. mk_channel_state one_bank_config = Inr cs \<and>
     ChannelState_GetReadyCommand one_bank_config cs (one_bank_request 5) 0 = Inr r \<and> cmd_type r = ACTIVATE \<and>
     UpdateTimingAndStates one_bank_config (mk_timing one_bank_config) cs r 0 = Inr cs' \<and>
     channel_inv one_bank_config cs'"
proof -
  obtain cs where cs: "mk_channel_state one_bank_config = Inr cs"
    by (auto simp: mk_channel_state_def one_bank_config_def)
  have "rbind (mk_channel_state one_bank_config) (\<lambda>cs.
      ChannelState_GetReadyCommand one_bank_config cs (one_bank_request 5) 0) =
      Inr (mk_command ACTIVATE (mk_address 0 0 0 0 5 0) 0)" by code_simp
  with cs have r: "ChannelState_GetReadyCommand one_bank_config cs (one_bank_request 5) 0 =
      Inr (mk_command ACTIVATE (mk_address 0 0 0 0 5 0) 0)" by simp
  have "cmd_type (one_bank_request 5) \<in> request_types"
    by (simp add: one_bank_request_def request_types_def access_types_def)
  then obtain cs' where "UpdateTimingAndStates one_bank_config (mk_timing one_bank_config) cs
      (mk_command ACTIVATE (mk_address 0 0 0 0 5 0) 0) 0 = Inr cs'" "channel_inv one_bank_config cs'"
    using offered_command_issues [OF channel_reach.init [OF cs] one_bank_wf, of 5 0] r by auto
  with cs r show ?thesis by force
qed

text \<open>
  C38. A bank refresh delays nothing in the refreshed bank: \<^verbatim>\<open>UpdateTiming\<close> handles \<^verbatim>\<open>REFRESH_BANK\<close> with the
  bank-level tables, but its delays (\<^verbatim>\<open>tRFCb\<close> before the next activation) are entered in the rank-level
  table only. The refreshed bank's earliest times are unchanged.
\<close>

theorem refresh_bank_not_delayed:
  assumes "ChannelState_UpdateTiming cfg (mk_timing cfg) cs (mk_command REFRESH_BANK a h) clk = Inr cs'"
    and "in_range cfg (rank a, bankgroup a, bank a)"
  shows "bank_at (bank_states cs') (rank a, bankgroup a, bank a) =
    bank_at (bank_states cs) (rank a, bankgroup a, bank a)"
proof -
  have "bank_at (bank_states cs') (rank a, bankgroup a, bank a) =
      rbind (bank_at (bank_states cs) (rank a, bankgroup a, bank a)) Inr"
    using UpdateTiming_banks [OF assms(1,2)]
    by (simp add: constraints_def Let_def level_defs timing_tables)
  then show ?thesis by (simp split: sum.splits)
qed

theorem refresh_bank_not_delayed_witness:
  "\<exists>cs cs'. mk_channel_state one_bank_config = Inr cs \<and>
     ChannelState_UpdateTiming one_bank_config (mk_timing one_bank_config) cs
       (mk_command REFRESH_BANK (mk_address 0 0 0 0 0 0) 0) 7 = Inr cs' \<and>
     bank_at (bank_states cs') (0, 0, 0) = bank_at (bank_states cs) (0, 0, 0)"
proof -
  let ?c = "mk_command REFRESH_BANK (mk_address 0 0 0 0 0 0) 0"
  obtain cs where cs: "mk_channel_state one_bank_config = Inr cs"
    by (auto simp: mk_channel_state_def one_bank_config_def)
  have in_r: "in_range one_bank_config (0, 0, 0)" by (simp add: in_range_def one_bank_config_def)
  obtain cs' where cs': "ChannelState_UpdateTiming one_bank_config (mk_timing one_bank_config) cs ?c 7 = Inr cs'"
    by (rule okE [OF UpdateTiming_ok [OF channel_inv_mk_channel_state [OF cs] timing_wf_mk_timing,
            where c = ?c and clk = 7]])
      (use in_r in \<open>simp_all add: request_wf_def rank_level_types_def\<close>)
  have "bank_at (bank_states cs') (0, 0, 0) = bank_at (bank_states cs) (0, 0, 0)"
    using refresh_bank_not_delayed [OF cs'] in_r by simp
  with cs cs' show ?thesis by blast
qed

end
