(* ===== verification/Simple_Stats.thy ===== *)
theory Simple_Stats
  imports Configuration "HOL-Library.AList"
begin

section \<open>Statistics\<close>

text \<open>
  Models \<^verbatim>\<open>src/simple_stats.h\<close> and \<^verbatim>\<open>src/simple_stats.cc\<close>: named counters, vector counters and
  histograms, each kept once for the current epoch and once for the whole run, and the energy
  figures computed from them. An \<^verbatim>\<open>unordered_map\<close> is an association list with distinct keys; a
  loop over it visits the entries in the order of the list. The order of C++ is unspecified, and no
  result below depends on it.

  Doubles are real numbers. A quotient whose divisor is zero is an infinity or not a number in
  C++; \<open>fdiv\<close> returns \<open>None\<close> for it. The text output (\<^verbatim>\<open>UpdatePrints\<close>, \<^verbatim>\<open>PrintStatText\<close>, the header
  texts and the JSON object) is not modelled.
\<close>

type_synonym 'v smap = "(string \<times> 'v) list"

type_synonym histo = "(int \<times> u64) list"

record SimpleStats =
  counters :: "u64 smap"
  epoch_counters :: "u64 smap"
  vec_counters :: "u64 list smap"
  epoch_vec_counters :: "u64 list smap"
  doubles :: "real smap"
  vec_doubles :: "real list smap"
  calculated :: "real option smap"
  histo_bounds :: "(int \<times> int) smap"
  bin_widths :: "int smap"
  histo_counts :: "histo smap"
  epoch_histo_counts :: "histo smap"
  histo_bins :: "u64 list smap"
  epoch_histo_bins :: "u64 list smap"

text \<open>
  The access \<^verbatim>\<open>m[key]\<close>, which yields a default value for an absent key (the entry C++ then adds is
  not added here), the assignment \<^verbatim>\<open>m[key] = v\<close>, the access \<^verbatim>\<open>m.at(key)\<close>, which throws for an absent
  key, and the insertion \<^verbatim>\<open>m.emplace(key, v)\<close>, which keeps a present key.
\<close>

definition at0 :: "('k \<times> 'v) list \<Rightarrow> 'v \<Rightarrow> 'k \<Rightarrow> 'v" where
  "at0 m d k = (case map_of m k of None \<Rightarrow> d | Some v \<Rightarrow> v)"

abbreviation cnt :: "u64 smap \<Rightarrow> string \<Rightarrow> u64" where
  "cnt m k \<equiv> at0 m 0 k"

abbreviation put :: "'k \<Rightarrow> 'v \<Rightarrow> ('k \<times> 'v) list \<Rightarrow> ('k \<times> 'v) list" where
  "put \<equiv> AList.update"

definition at_key :: "('k \<times> 'v) list \<Rightarrow> 'k \<Rightarrow> 'v res" where
  "at_key m k = (case map_of m k of None \<Rightarrow> Inl OutOfRange | Some v \<Rightarrow> Inr v)"

definition emplace :: "'k \<Rightarrow> 'v \<Rightarrow> ('k \<times> 'v) list \<Rightarrow> ('k \<times> 'v) list" where
  "emplace k v m = (if map_of m k = None then put k v m else m)"

text \<open>Division of doubles.\<close>

definition fdiv :: "real \<Rightarrow> real \<Rightarrow> real option" where
  "fdiv a b = (if b = 0 then None else Some (a / b))"

subsection \<open>Construction\<close>

definition stats0 :: SimpleStats where
  "stats0 = \<lparr>counters = [], epoch_counters = [], vec_counters = [],
     epoch_vec_counters = [], doubles = [], vec_doubles = [],
     calculated = [], histo_bounds = [], bin_widths = [],
     histo_counts = [], epoch_histo_counts = [], histo_bins = [],
     epoch_histo_bins = []\<rparr>"

definition InitStat :: "string \<Rightarrow> string \<Rightarrow> SimpleStats \<Rightarrow> SimpleStats" where
  "InitStat name stat_type s =
     (if stat_type = ''counter'' then
        s\<lparr>counters := emplace name 0 (counters s), epoch_counters := emplace name 0 (epoch_counters s)\<rparr>
      else if stat_type = ''double'' then s\<lparr>doubles := emplace name 0 (doubles s)\<rparr>
      else if stat_type = ''calculated'' then s\<lparr>calculated := emplace name (Some 0) (calculated s)\<rparr>
      else s)"

definition InitVecStat :: "string \<Rightarrow> string \<Rightarrow> int \<Rightarrow> SimpleStats \<Rightarrow> SimpleStats res" where
  "InitVecStat name stat_type vec_len s =
     (if stat_type = ''vec_counter'' then
        (if vec_len < 0 then Inl LengthError
         else Inr (s\<lparr>vec_counters := emplace name (replicate (nat vec_len) 0) (vec_counters s),
                     epoch_vec_counters :=
                       emplace name (replicate (nat vec_len) 0) (epoch_vec_counters s)\<rparr>))
      else if stat_type = ''vec_double'' then
        (if vec_len < 0 then Inl LengthError
         else Inr (s\<lparr>vec_doubles := emplace name (replicate (nat vec_len) 0) (vec_doubles s)\<rparr>))
      else Inr s)"

definition InitHistoStat :: "string \<Rightarrow> int \<Rightarrow> int \<Rightarrow> int \<Rightarrow> SimpleStats \<Rightarrow> SimpleStats res" where
  "InitHistoStat name start_val end_val num_bins s =
     rbind (idiv (end_val - start_val) num_bins) (\<lambda>bin_width.
       if num_bins + 2 < 0 then Inl LengthError
       else Inr (s\<lparr>bin_widths := emplace name bin_width (bin_widths s),
                   histo_bounds := emplace name (start_val, end_val) (histo_bounds s),
                   histo_counts := emplace name [] (histo_counts s),
                   epoch_histo_counts := emplace name [] (epoch_histo_counts s),
                   histo_bins := emplace name (replicate (nat (num_bins + 2)) 0) (histo_bins s),
                   epoch_histo_bins :=
                     emplace name (replicate (nat (num_bins + 2)) 0) (epoch_histo_bins s)\<rparr>))"

definition counter_names :: "string list" where
  "counter_names =
     [''num_cycles'', ''epoch_num'', ''num_reads_done'', ''num_writes_done'', ''num_write_buf_hits'',
      ''num_read_row_hits'', ''num_write_row_hits'', ''num_read_cmds'', ''num_write_cmds'',
      ''num_pim_write_buf_hits'', ''num_lh_read_row_hits'', ''num_gh_read_row_hits'',
      ''num_pim_write_row_hits'', ''num_lh_read_cmds'', ''num_gh_read_cmds'', ''num_pim_write_cmds'',
      ''num_act_cmds'', ''num_pre_cmds'', ''num_ondemand_pres'', ''num_ref_cmds'', ''num_refb_cmds'',
      ''num_srefe_cmds'', ''num_srefx_cmds'', ''hbm_dual_cmds'']"

definition double_names :: "string list" where
  "double_names =
     [''act_energy'', ''read_energy'', ''write_energy'', ''lh_read_energy'', ''gh_read_energy'',
      ''pim_write_energy'', ''ref_energy'', ''refb_energy'']"

definition calculated_names :: "string list" where
  "calculated_names =
     [''average_bandwidth'', ''total_energy'', ''average_power'', ''average_read_latency'',
      ''average_interarrival'']"

definition mk_stats :: "Config \<Rightarrow> SimpleStats res" where
  "mk_stats cfg =
     (let s = fold (\<lambda>n. InitStat n ''counter'') counter_names stats0;
          s = fold (\<lambda>n. InitStat n ''double'') double_names s
      in rbind (mfold (\<lambda>n. InitVecStat n ''vec_counter'' (ranks cfg))
                  [''all_bank_idle_cycles'', ''rank_active_cycles'', ''sref_cycles''] s) (\<lambda>s.
         rbind (mfold (\<lambda>n. InitVecStat n ''vec_double'' (ranks cfg))
                  [''act_stb_energy'', ''pre_stb_energy'', ''sref_energy''] s) (\<lambda>s.
         rbind (InitHistoStat ''read_latency'' 0 200 10 s) (\<lambda>s.
         rbind (InitHistoStat ''write_latency'' 0 200 10 s) (\<lambda>s.
         rbind (InitHistoStat ''interarrival_latency'' 0 100 10 s) (\<lambda>s.
           Inr (fold (\<lambda>n. InitStat n ''calculated'') calculated_names s)))))))"

subsection \<open>Recording\<close>

definition Increment :: "string \<Rightarrow> SimpleStats \<Rightarrow> SimpleStats" where
  "Increment name s =
     s\<lparr>epoch_counters := put name (cnt (epoch_counters s) name + 1) (epoch_counters s)\<rparr>"

definition IncrementVecBy :: "string \<Rightarrow> int \<Rightarrow> int \<Rightarrow> SimpleStats \<Rightarrow> SimpleStats res" where
  "IncrementVecBy name pos num s =
     rbind (vmod (at0 (epoch_vec_counters s) [] name) pos (\<lambda>x. Inr (x + of_int num))) (\<lambda>v.
       Inr (s\<lparr>epoch_vec_counters := put name v (epoch_vec_counters s)\<rparr>))"

definition IncrementVec :: "string \<Rightarrow> int \<Rightarrow> SimpleStats \<Rightarrow> SimpleStats res" where
  "IncrementVec name pos s =
     rbind (vmod (at0 (epoch_vec_counters s) [] name) pos (\<lambda>x. Inr (x + 1))) (\<lambda>v.
       Inr (s\<lparr>epoch_vec_counters := put name v (epoch_vec_counters s)\<rparr>))"

text \<open>\<^verbatim>\<open>counts[v] += n\<close> on a histogram; a new value starts from \<open>n\<close>.\<close>

definition histo_add :: "int \<Rightarrow> u64 \<Rightarrow> histo \<Rightarrow> histo" where
  "histo_add v n h = (case map_of h v of None \<Rightarrow> put v n h | Some m \<Rightarrow> put v (m + n) h)"

definition AddValue :: "string \<Rightarrow> int \<Rightarrow> SimpleStats \<Rightarrow> SimpleStats" where
  "AddValue name v s =
     s\<lparr>epoch_histo_counts :=
         put name (histo_add v 1 (at0 (epoch_histo_counts s) [] name)) (epoch_histo_counts s)\<rparr>"

definition RankBackgroundEnergy :: "SimpleStats \<Rightarrow> int \<Rightarrow> real res" where
  "RankBackgroundEnergy s r =
     rbind (at_key (vec_doubles s) ''act_stb_energy'') (\<lambda>a.
     rbind (vget a r) (\<lambda>x.
     rbind (at_key (vec_doubles s) ''pre_stb_energy'') (\<lambda>b.
     rbind (vget b r) (\<lambda>y.
     rbind (at_key (vec_doubles s) ''sref_energy'') (\<lambda>c.
     rbind (vget c r) (\<lambda>z. Inr (x + y + z)))))))"

definition map_vals :: "('v \<Rightarrow> 'w) \<Rightarrow> ('k \<times> 'v) list \<Rightarrow> ('k \<times> 'w) list" where
  "map_vals f m = map (\<lambda>(k, v). (k, f v)) m"

definition Reset :: "SimpleStats \<Rightarrow> SimpleStats" where
  "Reset s =
     s\<lparr>counters := map_vals (\<lambda>_. 0) (counters s),
       epoch_counters := map_vals (\<lambda>_. 0) (epoch_counters s),
       vec_counters := map_vals (map (\<lambda>_. 0)) (vec_counters s),
       epoch_vec_counters := map_vals (map (\<lambda>_. 0)) (epoch_vec_counters s),
       doubles := map_vals (\<lambda>_. 0) (doubles s),
       vec_doubles := map_vals (map (\<lambda>_. 0)) (vec_doubles s),
       calculated := map_vals (\<lambda>_. Some 0) (calculated s),
       histo_counts := map_vals (\<lambda>_. []) (histo_counts s),
       epoch_histo_counts := map_vals (\<lambda>_. []) (epoch_histo_counts s)\<rparr>"

subsection \<open>End of an epoch and end of the run\<close>

text \<open>
  Adding a vector to a vector index by index; the loop runs over the indices of the second and
  fails where the first is shorter.
\<close>

definition vec_add :: "u64 list \<Rightarrow> u64 list \<Rightarrow> u64 list res" where
  "vec_add v w =
     (if length w \<le> length v then Inr (map2 (+) (take (length w) v) w @ drop (length w) v)
      else Inl OutOfRange)"

text \<open>The same with the loop over the indices of the first vector.\<close>

definition vec_add_all :: "u64 list \<Rightarrow> u64 list \<Rightarrow> u64 list res" where
  "vec_add_all v w =
     (if length v \<le> length w then Inr (map2 (+) v (take (length v) w)) else Inl OutOfRange)"

definition UpdateCounters :: "SimpleStats \<Rightarrow> SimpleStats res" where
  "UpdateCounters s =
     (let cs = fold (\<lambda>(n, v) m. put n (cnt m n + v) m) (epoch_counters s) (counters s)
      in rbind (mfold (\<lambda>(n, w) m. rbind (vec_add (at0 m [] n) w) (\<lambda>v. Inr (put n v m)))
                  (epoch_vec_counters s) (vec_counters s)) (\<lambda>vs.
           Inr (s\<lparr>counters := cs, vec_counters := vs\<rparr>)))"

definition bin_index :: "int \<times> int \<Rightarrow> int \<Rightarrow> nat \<Rightarrow> int \<Rightarrow> int res" where
  "bin_index bounds bin_width num v =
     (if v < fst bounds then Inr 0
      else if v > snd bounds then Inr (int num - 1)
      else rbind (idiv (v - fst bounds) bin_width) (\<lambda>q. Inr (q + 1)))"

definition fill_bins :: "int \<times> int \<Rightarrow> int \<Rightarrow> histo \<Rightarrow> u64 list \<Rightarrow> u64 list res" where
  "fill_bins bounds bin_width h bins =
     mfold (\<lambda>(v, n) b. rbind (bin_index bounds bin_width (length b) v) (\<lambda>i. vmod b i (\<lambda>x. Inr (x + n))))
       h (map (\<lambda>_. 0) bins)"

definition add_counts :: "histo \<Rightarrow> histo \<Rightarrow> histo" where
  "add_counts epoch_counts final_counts = fold (\<lambda>(v, n). histo_add v n) epoch_counts final_counts"

definition UpdateHistoBins :: "SimpleStats \<Rightarrow> SimpleStats res" where
  "UpdateHistoBins s =
     rbind (mfold (\<lambda>(n, bins) eb.
                rbind (fill_bins (at0 (histo_bounds s) (0, 0) n) (at0 (bin_widths s) 0 n)
                         (at0 (epoch_histo_counts s) [] n) bins) (\<lambda>bins'. Inr (put n bins' eb)))
              (epoch_histo_bins s) (epoch_histo_bins s)) (\<lambda>eb.
     rbind (mfold (\<lambda>(n, epoch_counts) (hc, hb).
                rbind (vec_add_all (at0 hb [] n) (at0 eb [] n)) (\<lambda>final_bins.
                  Inr (put n (add_counts epoch_counts (at0 hc [] n)) hc, put n final_bins hb)))
              (epoch_histo_counts s) (histo_counts s, histo_bins s)) (\<lambda>(hc, hb).
       Inr (s\<lparr>epoch_histo_bins := eb, histo_counts := hc, histo_bins := hb\<rparr>)))"

definition GetHistoAvg :: "histo \<Rightarrow> real" where
  "GetHistoAvg h =
     (let accu_sum = fold (\<lambda>(v, n) a. a + of_int v * n) h (0 :: u64);
          total = fold (\<lambda>(v, n) a. a + n) h (0 :: u64)
      in if total = 0 then 0 else real (unat accu_sum) / real (unat total))"

text \<open>
  The energies, the background energy and the derived figures of \<^verbatim>\<open>UpdateEpochStats\<close> and
  \<^verbatim>\<open>UpdateFinalStats\<close>. The products of a counter and an energy are computed in doubles.
\<close>

definition energy :: "u64 smap \<Rightarrow> string \<Rightarrow> real \<Rightarrow> real" where
  "energy m name inc = real (unat (cnt m name)) * inc"

definition background ::
  "Config \<Rightarrow> u64 list smap \<Rightarrow> real list smap \<Rightarrow> (real \<times> real list smap) res"
where
  "background cfg vc vd0 =
     mfold (\<lambda>i (background_energy, vd).
       rbind (vget (at0 vc [] ''rank_active_cycles'') i) (\<lambda>act.
       rbind (vget (at0 vc [] ''all_bank_idle_cycles'') i) (\<lambda>idle.
       rbind (vget (at0 vc [] ''sref_cycles'') i) (\<lambda>sref.
         let act_stb = real (unat act) * act_stb_energy_inc cfg;
             pre_stb = real (unat idle) * pre_stb_energy_inc cfg;
             sref_e = real (unat sref) * sref_energy_inc cfg
         in rbind (vset (at0 vd [] ''act_stb_energy'') i act_stb) (\<lambda>a.
            rbind (vset (at0 vd [] ''pre_stb_energy'') i pre_stb) (\<lambda>p.
            rbind (vset (at0 vd [] ''sref_energy'') i sref_e) (\<lambda>r.
              Inr (background_energy + (act_stb + pre_stb + sref_e),
                   put ''sref_energy'' r (put ''pre_stb_energy'' p (put ''act_stb_energy'' a vd))))))))))
       [0..ranks cfg - 1] (0, vd0)"

definition calculate ::
  "Config \<Rightarrow> u64 smap \<Rightarrow> real smap \<Rightarrow> real \<Rightarrow> histo \<Rightarrow> histo \<Rightarrow> real option smap \<Rightarrow> real option smap"
where
  "calculate cfg m ds background_energy read_latency interarrival c =
     (let total_reqs = cnt m ''num_reads_done'' + cnt m ''num_writes_done'';
          total_time = real (unat (cnt m ''num_cycles'')) * tCK cfg;
          avg_bw = fdiv (real (unat (total_reqs * of_int (request_size_bytes cfg)))) total_time;
          total_energy = sum_list (map (at0 ds 0) double_names) + background_energy
      in put ''average_interarrival'' (Some (GetHistoAvg interarrival))
        (put ''average_read_latency'' (Some (GetHistoAvg read_latency))
        (put ''average_power'' (fdiv total_energy (real (unat (cnt m ''num_cycles''))))
        (put ''total_energy'' (Some total_energy)
        (put ''average_bandwidth'' avg_bw c)))))"

definition put_energies :: "Config \<Rightarrow> u64 smap \<Rightarrow> u64 smap \<Rightarrow> real smap \<Rightarrow> real smap" where
  "put_energies cfg m pim ds =
     put ''refb_energy'' (energy m ''num_refb_cmds'' (refb_energy_inc cfg))
    (put ''ref_energy'' (energy m ''num_ref_cmds'' (ref_energy_inc cfg))
    (put ''pim_write_energy'' (energy pim ''num_pim_write_cmds'' (pim_write_energy_inc cfg))
    (put ''gh_read_energy'' (energy pim ''num_gh_read_cmds'' (gh_read_energy_inc cfg))
    (put ''lh_read_energy'' (energy pim ''num_lh_read_cmds'' (lh_read_energy_inc cfg))
    (put ''write_energy'' (energy m ''num_write_cmds'' (write_energy_inc cfg))
    (put ''read_energy'' (energy m ''num_read_cmds'' (read_energy_inc cfg))
    (put ''act_energy'' (energy m ''num_act_cmds'' (act_energy_inc cfg)) ds)))))))"

definition UpdateEpochStats :: "Config \<Rightarrow> SimpleStats \<Rightarrow> SimpleStats res" where
  "UpdateEpochStats cfg s =
     rbind (UpdateCounters s) (\<lambda>s.
     let ds = put_energies cfg (epoch_counters s) (epoch_counters s) (doubles s) in
     rbind (background cfg (epoch_vec_counters s) (vec_doubles s)) (\<lambda>(background_energy, vd).
     rbind (UpdateHistoBins (s\<lparr>doubles := ds, vec_doubles := vd\<rparr>)) (\<lambda>s.
     rbind (at_key (epoch_histo_counts s) ''read_latency'') (\<lambda>rl.
     rbind (at_key (epoch_histo_counts s) ''interarrival_latency'') (\<lambda>il.
       Inr (s\<lparr>calculated := calculate cfg (epoch_counters s) ds background_energy rl il (calculated s),
              epoch_counters := map_vals (\<lambda>_. 0) (epoch_counters s),
              epoch_vec_counters := map_vals (map (\<lambda>_. 0)) (epoch_vec_counters s),
              epoch_histo_counts := map_vals (\<lambda>_. []) (epoch_histo_counts s)\<rparr>))))))"

definition UpdateFinalStats :: "Config \<Rightarrow> SimpleStats \<Rightarrow> SimpleStats res" where
  "UpdateFinalStats cfg s =
     rbind (UpdateCounters s) (\<lambda>s.
     let ds = put_energies cfg (counters s) (epoch_counters s) (doubles s) in
     rbind (background cfg (vec_counters s) (vec_doubles s)) (\<lambda>(background_energy, vd).
     rbind (UpdateHistoBins (s\<lparr>doubles := ds, vec_doubles := vd\<rparr>)) (\<lambda>s.
     rbind (at_key (histo_counts s) ''read_latency'') (\<lambda>rl.
     rbind (at_key (histo_counts s) ''interarrival_latency'') (\<lambda>il.
       Inr (s\<lparr>calculated := calculate cfg (counters s) ds background_energy rl il (calculated s)\<rparr>))))))"

subsection \<open>Association lists\<close>

abbreviation keys :: "('k \<times> 'v) list \<Rightarrow> 'k list" where
  "keys m \<equiv> map fst m"

lemma at0_put [simp]: "at0 (put k v m) d j = (if j = k then v else at0 m d j)"
  by (simp add: at0_def update_conv)

lemma at0_Cons [simp]: "at0 ((k, v) # m) d j = (if j = k then v else at0 m d j)"
  by (simp add: at0_def)

lemma map_of_map_vals [simp]: "map_of (map_vals f m) k = map_option f (map_of m k)"
  by (simp add: map_vals_def map_of_map)

lemma keys_map_vals [simp]: "keys (map_vals f m) = keys m"
  by (simp add: map_vals_def case_prod_beta)

lemma cnt_map_vals_zero [simp]: "cnt (map_vals (\<lambda>_. 0) m) n = 0"
  by (simp add: at0_def split: option.split)

lemma cnt_fold_add:
  "distinct (keys e) \<Longrightarrow> cnt (fold (\<lambda>(n, v) m. put n (cnt m n + v) m) e c) k = cnt c k + cnt e k"
proof (induction e arbitrary: c)
  case Nil
  then show ?case by (simp add: at0_def)
next
  case (Cons x e)
  obtain n v where x: "x = (n, v)" by (cases x)
  have "n \<notin> set (keys e)" using Cons.prems x by auto
  then have "map_of e n = None" by (simp add: map_of_eq_None_iff)
  then have "cnt e n = 0" by (simp add: at0_def)
  then show ?case using Cons x by auto
qed

subsection \<open>Counters survive the epochs\<close>

text \<open>Everything that changes the statistics during a run, as a list of calls.\<close>

datatype stat_op =
    Inc string
  | IncVec string int
  | IncVecBy string int int
  | Val string int
  | Epoch

fun stat_step :: "Config \<Rightarrow> stat_op \<Rightarrow> SimpleStats \<Rightarrow> SimpleStats res" where
  "stat_step cfg (Inc n) s = Inr (Increment n s)"
| "stat_step cfg (IncVec n i) s = IncrementVec n i s"
| "stat_step cfg (IncVecBy n i k) s = IncrementVecBy n i k s"
| "stat_step cfg (Val n v) s = Inr (AddValue n v s)"
| "stat_step cfg Epoch s = UpdateEpochStats cfg s"

definition total_count :: "SimpleStats \<Rightarrow> string \<Rightarrow> u64" where
  "total_count s n = cnt (counters s) n + cnt (epoch_counters s) n"

lemma UpdateCounters_sel:
  assumes "UpdateCounters s = Inr s'" and "distinct (keys (epoch_counters s))"
  shows "cnt (counters s') n = total_count s n" "epoch_counters s' = epoch_counters s"
    "doubles s' = doubles s" "epoch_histo_counts s' = epoch_histo_counts s"
    "epoch_vec_counters s' = epoch_vec_counters s"
  using assms by (auto simp: UpdateCounters_def Let_def total_count_def cnt_fold_add elim!: rbindE)

lemma UpdateHistoBins_sel:
  assumes "UpdateHistoBins s = Inr s'"
  shows "counters s' = counters s" "epoch_counters s' = epoch_counters s" "doubles s' = doubles s"
    "epoch_histo_counts s' = epoch_histo_counts s" "epoch_vec_counters s' = epoch_vec_counters s"
  using assms by (auto simp: UpdateHistoBins_def elim!: rbindE)

lemma UpdateEpochStats_sel:
  assumes "UpdateEpochStats cfg s = Inr s'" and "distinct (keys (epoch_counters s))"
  shows "cnt (counters s') n = total_count s n"
    "epoch_counters s' = map_vals (\<lambda>_. 0) (epoch_counters s)"
  using assms(1) UpdateCounters_sel [OF _ assms(2)]
  by (auto simp: UpdateEpochStats_def Let_def UpdateHistoBins_sel elim!: rbindE)

lemma stat_step_total:
  assumes "stat_step cfg op s = Inr s'" and "distinct (keys (epoch_counters s))"
  shows "distinct (keys (epoch_counters s'))"
    and "total_count s' n = total_count s n + (if op = Inc n then 1 else 0)"
proof -
  have "distinct (keys (epoch_counters s')) \<and>
      total_count s' n = total_count s n + (if op = Inc n then 1 else 0)"
  proof (cases op)
    case Epoch
    then show ?thesis
      using assms UpdateEpochStats_sel [of cfg s s'] by (simp add: total_count_def)
  qed (use assms in \<open>auto simp: total_count_def Increment_def IncrementVec_def IncrementVecBy_def
      AddValue_def distinct_update elim!: rbindE\<close>)
  then show "distinct (keys (epoch_counters s'))"
    "total_count s' n = total_count s n + (if op = Inc n then 1 else 0)" by auto
qed

lemma stat_run_total:
  "mfold (stat_step cfg) ops s = Inr s' \<Longrightarrow> distinct (keys (epoch_counters s)) \<Longrightarrow>
   total_count s' n = total_count s n + of_nat (count_list ops (Inc n))"
proof (induction ops arbitrary: s)
  case Nil
  then show ?case by simp
next
  case (Cons op ops)
  from Cons.prems(1) obtain s1 where s1: "stat_step cfg op s = Inr s1" "mfold (stat_step cfg) ops s1 = Inr s'"
    by (auto elim: rbindE)
  show ?case
    using Cons.IH [OF s1(2) stat_step_total(1) [OF s1(1) Cons.prems(2)]]
      stat_step_total(2) [OF s1(1) Cons.prems(2), of n] by auto
qed

subsection \<open>Histograms\<close>

lemma sum_list_update_group:
  "i < length b \<Longrightarrow> sum_list (b[i := x]) = sum_list b - b ! i + (x :: 'a :: ab_group_add)"
  by (induction b arbitrary: i) (auto split: nat.split)

lemma sum_list_vmod:
  fixes b :: "u64 list"
  assumes "vmod b i (\<lambda>x. Inr (x + n)) = Inr b'"
  shows "sum_list b' = sum_list b + n" "length b' = length b"
proof -
  from assms have i: "nat i < length b" and b': "b' = b[nat i := b ! nat i + n]"
    by (auto simp: vmod_Inr)
  show "sum_list b' = sum_list b + n"
    unfolding b' sum_list_update_group [OF i] by simp
  show "length b' = length b" unfolding b' by simp
qed

lemma fill_bins_sum:
  assumes "fill_bins bounds bin_width h bins = Inr b"
  shows "sum_list b = sum_list (map snd h)" "length b = length bins"
proof -
  have "sum_list b' = sum_list b0 + sum_list (map snd h) \<and> length b' = length b0"
    if "mfold (\<lambda>(v, n) b. rbind (bin_index bounds bin_width (length b) v)
        (\<lambda>i. vmod b i (\<lambda>x. Inr (x + n)))) h b0 = Inr b'" for b0 b'
    using that
  proof (induction h arbitrary: b0)
    case (Cons e h)
    obtain v n where e: "e = (v, n)" by (cases e)
    with Cons.prems obtain i b1 where
      "vmod b0 i (\<lambda>x. Inr (x + n)) = Inr b1" and
      "mfold (\<lambda>(v, n) b. rbind (bin_index bounds bin_width (length b) v)
        (\<lambda>i. vmod b i (\<lambda>x. Inr (x + n)))) h b1 = Inr b'"
      by (auto elim!: rbindE)
    with Cons.IH [of b1] sum_list_vmod [of b0 i n b1] e show ?case by simp
  qed simp
  from this [of "map (\<lambda>_. 0) bins" b] assms
  show "sum_list b = sum_list (map snd h)" "length b = length bins"
    by (auto simp: fill_bins_def sum_list_0)
qed

lemma bin_index_ok:
  assumes "0 < w" and "lo \<le> hi" and "(hi - lo) div w + 2 \<le> int num"
  shows "\<exists>i. bin_index (lo, hi) w num v = Inr i \<and> 0 \<le> i \<and> i < int num"
proof -
  have q: "0 \<le> (v - lo) div w \<and> (v - lo) div w \<le> (hi - lo) div w" if "lo \<le> v" "v \<le> hi"
    using that assms(1) by (auto intro: zdiv_mono1 simp: pos_imp_zdiv_nonneg_iff)
  have "0 \<le> (hi - lo) div w" using assms(1,2) by (simp add: pos_imp_zdiv_nonneg_iff)
  then show ?thesis
    using assms q by (auto simp: bin_index_def idiv_def)
qed

lemma fill_bins_ok:
  assumes "0 < w" and "lo \<le> hi" and "(hi - lo) div w + 2 \<le> int (length bins)"
  shows "ok (fill_bins (lo, hi) w h bins)"
proof -
  have "\<exists>b. mfold (\<lambda>(v, n) b. rbind (bin_index (lo, hi) w (length b) v) (\<lambda>i. vmod b i (\<lambda>x. Inr (x + n))))
      h (map (\<lambda>_. 0) bins) = Inr b \<and> length b = length bins"
  proof (rule mfold_invariant)
    fix e :: "int \<times> u64" and b :: "u64 list"
    assume len: "length b = length bins"
    obtain v n where e: "e = (v, n)" by (cases e)
    obtain i where "bin_index (lo, hi) w (length b) v = Inr i" "0 \<le> i" "i < int (length b)"
      using bin_index_ok [OF assms(1,2), of "length b" v] assms(3) len by auto
    with len e show "\<exists>b'. (case e of (v, n) \<Rightarrow> \<lambda>b. rbind (bin_index (lo, hi) w (length b) v)
        (\<lambda>i. vmod b i (\<lambda>x. Inr (x + n)))) b = Inr b' \<and> length b' = length bins"
      by (simp add: vmod_def)
  qed simp
  then show ?thesis by (auto simp: fill_bins_def ok_def)
qed

subsection \<open>Energies of the whole run\<close>

lemma UpdateFinalStats_sel:
  assumes "UpdateFinalStats cfg s = Inr s'" and "distinct (keys (epoch_counters s))"
  shows "at0 (doubles s') 0 ''act_energy'' = real (unat (total_count s ''num_act_cmds'')) * act_energy_inc cfg"
    "at0 (doubles s') 0 ''lh_read_energy'' =
       real (unat (cnt (epoch_counters s) ''num_lh_read_cmds'')) * lh_read_energy_inc cfg"
  using assms(1) UpdateCounters_sel [OF _ assms(2)]
  by (auto simp: UpdateFinalStats_def Let_def UpdateHistoBins_sel put_energies_def energy_def elim!: rbindE)


lemma InitVecStat_sel:
  assumes "InitVecStat n t l s = Inr s'"
  shows "counters s' = counters s" "epoch_counters s' = epoch_counters s"
  using assms by (auto simp: InitVecStat_def split: if_splits)

lemma InitHistoStat_sel:
  assumes "InitHistoStat n a b k s = Inr s'"
  shows "counters s' = counters s" "epoch_counters s' = epoch_counters s"
  using assms by (auto simp: InitHistoStat_def elim!: rbindE split: if_splits)

lemma InitStat_calculated_sel:
  "counters (fold (\<lambda>n. InitStat n ''calculated'') ns s) = counters s"
  "epoch_counters (fold (\<lambda>n. InitStat n ''calculated'') ns s) = epoch_counters s"
  by (induction ns arbitrary: s) (auto simp: InitStat_def)

lemma InitStat_double_sel:
  "counters (fold (\<lambda>n. InitStat n ''double'') ns s) = counters s"
  "epoch_counters (fold (\<lambda>n. InitStat n ''double'') ns s) = epoch_counters s"
  by (induction ns arbitrary: s) (auto simp: InitStat_def)

lemma InitStat_counters:
  "counters (fold (\<lambda>n. InitStat n ''counter'') counter_names stats0) = map (\<lambda>n. (n, 0)) counter_names"
  "epoch_counters (fold (\<lambda>n. InitStat n ''counter'') counter_names stats0) = map (\<lambda>n. (n, 0)) counter_names"
  by code_simp+

lemma mk_stats_counters:
  assumes "mk_stats cfg = Inr s"
  shows "counters s = map (\<lambda>n. (n, 0)) counter_names" "epoch_counters s = map (\<lambda>n. (n, 0)) counter_names"
  using assms
  by (auto simp: mk_stats_def Let_def InitStat_calculated_sel InitStat_double_sel InitStat_counters
      InitVecStat_sel InitHistoStat_sel elim!: rbindE)

lemma distinct_counter_names: "distinct counter_names"
  by code_simp

lemma at0_zeros: "cnt (map (\<lambda>n. (n, 0)) ns) k = 0"
  by (induction ns) (auto simp: at0_def)

lemma mk_stats_total:
  assumes "mk_stats cfg = Inr s"
  shows "total_count s n = 0" "distinct (keys (epoch_counters s))"
  using mk_stats_counters [OF assms] distinct_counter_names
  by (simp_all add: total_count_def at0_zeros o_def)

lemma UpdateFinalStats_counters:
  assumes "UpdateFinalStats cfg s = Inr s'" and "distinct (keys (epoch_counters s))"
  shows "cnt (counters s') n = total_count s n"
  using assms(1) UpdateCounters_sel [OF _ assms(2)]
  by (auto simp: UpdateFinalStats_def Let_def UpdateHistoBins_sel elim!: rbindE)

lemma stat_run_distinct:
  "mfold (stat_step cfg) ops s = Inr s' \<Longrightarrow> distinct (keys (epoch_counters s)) \<Longrightarrow>
   distinct (keys (epoch_counters s'))"
  by (rule mfold_preserves [where P = "\<lambda>s. distinct (keys (epoch_counters s))"])
    (auto intro: stat_step_total(1))

subsection \<open>Properties\<close>

text \<open>
  C37. Counters are exact: after any sequence of recording calls and epoch ends, the counter that
  the final statistics report is its initial value plus the number of increments (modulo the
  64-bit width), whether an increment happened in an epoch already folded in or in the last one.
\<close>

theorem counters_exact:
  assumes "distinct (map fst (epoch_counters s))"
    and "mfold (stat_step cfg) ops s = Inr s1" and "UpdateFinalStats cfg s1 = Inr s2"
  shows "cnt (counters s2) n = total_count s n + of_nat (count_list ops (Inc n))"
  using UpdateFinalStats_counters [OF assms(3) stat_run_distinct [OF assms(2,1)]]
    stat_run_total [OF assms(2,1)] by simp

definition demo_stats :: SimpleStats where
  "demo_stats = stats0\<lparr>epoch_counters := [(''num_act_cmds'', 0)], counters := [(''num_act_cmds'', 0)],
     epoch_histo_counts := [(''read_latency'', []), (''interarrival_latency'', [])],
     histo_counts := [(''read_latency'', []), (''interarrival_latency'', [])]\<rparr>"

definition demo_ops :: "stat_op list" where
  "demo_ops = [Inc ''num_act_cmds'', Val ''read_latency'' 30, Epoch, Inc ''num_act_cmds'',
     Inc ''num_act_cmds'']"

lemmas stats_eval =
  demo_ops_def demo_stats_def stats0_def config0_def Increment_def AddValue_def UpdateEpochStats_def
  UpdateFinalStats_def UpdateCounters_def UpdateHistoBins_def background_def at_key_def at0_def
  histo_add_def add_counts_def put_energies_def vec_add_all_def map_vals_def Let_def

lemma demo_stats_run:
  "ok (rbind (mfold (stat_step config0) demo_ops demo_stats) (UpdateFinalStats config0))"
  by (simp add: stats_eval)

theorem counters_exact_witness:
  "\<exists>s1 s2. mfold (stat_step config0) demo_ops demo_stats = Inr s1 \<and>
     UpdateFinalStats config0 s1 = Inr s2 \<and> cnt (counters s2) ''num_act_cmds'' = 3"
proof -
  obtain s1 s2 where s: "mfold (stat_step config0) demo_ops demo_stats = Inr s1"
    "UpdateFinalStats config0 s1 = Inr s2"
    using demo_stats_run by (auto simp: ok_rbind elim: okE)
  have "cnt (counters s2) ''num_act_cmds'' =
      total_count demo_stats ''num_act_cmds'' + of_nat (count_list demo_ops (Inc ''num_act_cmds''))"
    by (rule counters_exact [OF _ s]) (simp add: demo_stats_def)
  also have "\<dots> = 3" by (simp add: total_count_def demo_stats_def demo_ops_def at0_def)
  finally show ?thesis using s by blast
qed

text \<open>
  Filling the bins of a histogram succeeds and loses nothing: for bounds and a bin width that
  the number of bins covers, every recorded value falls into a bin of the vector and the bins
  together hold as many entries as were recorded.
\<close>

theorem histogram_bins:
  assumes "0 < w" and "lo \<le> hi" and "(hi - lo) div w + 2 \<le> int (length bins)"
  shows "\<exists>b. fill_bins (lo, hi) w h bins = Inr b \<and> length b = length bins \<and>
    sum_list b = sum_list (map snd h)"
  using okE [OF fill_bins_ok [OF assms]] fill_bins_sum by metis

theorem histogram_bins_witness:
  "\<exists>b. fill_bins (0, 200) 20 [(-3, 1), (37, 5), (200, 2), (900, 4)] (replicate 12 0) = Inr b \<and>
     length b = 12 \<and> sum_list b = 12"
  using histogram_bins [of 20 0 200 "replicate 12 0" "[(-3, 1), (37, 5), (200, 2), (900, 4)]"] by simp

text \<open>
  The final statistics lose the in-memory-compute energy: \<^verbatim>\<open>UpdateFinalStats\<close> multiplies the
  epoch counters for the PIM commands where it multiplies the run counters for all others, so after
  an epoch end the reported energy of all LH reads of the run is zero, while the activation energy
  covers the whole run.
\<close>

theorem final_pim_energy_lost:
  assumes "distinct (map fst (epoch_counters s))"
    and "UpdateEpochStats cfg s = Inr s1" and "UpdateFinalStats cfg s1 = Inr s2"
  shows "at0 (doubles s2) 0 ''lh_read_energy'' = 0 \<and>
    at0 (doubles s2) 0 ''act_energy'' = real (unat (total_count s ''num_act_cmds'')) * act_energy_inc cfg"
proof -
  have e: "epoch_counters s1 = map_vals (\<lambda>_. 0) (epoch_counters s)"
    by (rule UpdateEpochStats_sel(2) [OF assms(2,1)])
  have "total_count s1 ''num_act_cmds'' = total_count s ''num_act_cmds''"
    using UpdateEpochStats_sel(1) [OF assms(2,1)] e by (simp add: total_count_def)
  then show ?thesis using UpdateFinalStats_sel [OF assms(3)] assms(1) e by simp
qed

definition pim_stats :: SimpleStats where
  "pim_stats = demo_stats\<lparr>epoch_counters := [(''num_lh_read_cmds'', 7), (''num_act_cmds'', 2)]\<rparr>"

definition pim_config :: Config where
  "pim_config = config0\<lparr>lh_read_energy_inc := 1\<rparr>"

lemma pim_stats_run: "ok (rbind (UpdateEpochStats pim_config pim_stats) (UpdateFinalStats pim_config))"
  by (simp add: stats_eval pim_stats_def pim_config_def)

theorem final_pim_energy_lost_witness:
  "\<exists>s1 s2. UpdateEpochStats pim_config pim_stats = Inr s1 \<and> UpdateFinalStats pim_config s1 = Inr s2 \<and>
     total_count pim_stats ''num_lh_read_cmds'' = 7 \<and> at0 (doubles s2) 0 ''lh_read_energy'' = 0"
proof -
  obtain s1 s2 where s: "UpdateEpochStats pim_config pim_stats = Inr s1"
    "UpdateFinalStats pim_config s1 = Inr s2"
    using pim_stats_run by (auto simp: ok_rbind elim: okE)
  have "at0 (doubles s2) 0 ''lh_read_energy'' = 0"
    using final_pim_energy_lost [OF _ s] by (simp add: pim_stats_def)
  moreover have "total_count pim_stats ''num_lh_read_cmds'' = 7"
    by (simp add: total_count_def pim_stats_def demo_stats_def at0_def)
  ultimately show ?thesis using s by blast
qed

end
