(* ===== verification/Command_Queue.thy ===== *)
theory Command_Queue
  imports Channel_Timing Simple_Stats
begin

section \<open>Command queues\<close>

text \<open>
  Models \<^verbatim>\<open>src/command_queue.h\<close> and \<^verbatim>\<open>src/command_queue.cc\<close>: the queues of pending commands (one per
  bank or one per rank), the round-robin choice of the next command to issue with its arbitration of
  precharges and its write-after-read check, and the sequence of commands that finishes a refresh.
  The references to the configuration and the channel state are arguments. The statistics object is
  passed along, because the arbitration counts the precharges it grants.

  A loop over a queue with iterators keeps the visited part and the rest of the queue, so that
  \<^verbatim>\<open>[begin, cmd_it)\<close> and \<^verbatim>\<open>[cmd_it, end)\<close> are lists.
\<close>

datatype QueueStructure = PER_RANK | PER_BANK | QueueStructure_SIZE

record CommandQueue =
  rank_q_empty :: "bool list"
  queue_structure :: QueueStructure
  queues :: "Command list list"
  ref_q_indices :: "int set"
  is_in_ref :: bool
  num_queues :: int
  queue_size :: u64
  queue_idx :: int
  cq_clk :: u64

definition mk_command_queue :: "Config \<Rightarrow> CommandQueue res" where
  "mk_command_queue cfg =
     (if ranks cfg < 0 then Inl LengthError
      else
        rbind (if queue_structure_name cfg = ''PER_BANK'' then Inr (PER_BANK, banks cfg * ranks cfg)
               else if queue_structure_name cfg = ''PER_RANK'' then Inr (PER_RANK, ranks cfg)
               else Inl (AbruptExit ''command_queue.cc'' 25)) (\<lambda>(qs, n).
          if n < 0 \<or> n > 0 \<and> cmd_queue_size cfg < 0 then Inl LengthError
          else Inr \<lparr>rank_q_empty = replicate (nat (ranks cfg)) True, queue_structure = qs,
                    queues = replicate (nat n) [], ref_q_indices = {}, is_in_ref = False,
                    num_queues = n, queue_size = of_int (cmd_queue_size cfg), queue_idx = 0,
                    cq_clk = 0\<rparr>))"

definition CommandQueue_ClockTick :: "CommandQueue \<Rightarrow> CommandQueue" where
  "CommandQueue_ClockTick cq = cq\<lparr>cq_clk := cq_clk cq + 1\<rparr>"

definition GetQueueIndex :: "Config \<Rightarrow> CommandQueue \<Rightarrow> int \<Rightarrow> int \<Rightarrow> int \<Rightarrow> int" where
  "GetQueueIndex cfg cq r g k =
     (if queue_structure cq = PER_RANK then r
      else r * banks cfg + g * banks_per_group cfg + k)"

definition GetQueue :: "Config \<Rightarrow> CommandQueue \<Rightarrow> int \<Rightarrow> int \<Rightarrow> int \<Rightarrow> Command list res" where
  "GetQueue cfg cq r g k = vget (queues cq) (GetQueueIndex cfg cq r g k)"

definition WillAcceptCommand :: "Config \<Rightarrow> CommandQueue \<Rightarrow> int \<Rightarrow> int \<Rightarrow> int \<Rightarrow> bool res" where
  "WillAcceptCommand cfg cq r g k =
     rbind (vget (queues cq) (GetQueueIndex cfg cq r g k)) (\<lambda>q.
       Inr (of_nat (length q) < queue_size cq))"

definition QueueEmpty :: "CommandQueue \<Rightarrow> bool" where
  "QueueEmpty cq \<longleftrightarrow> list_all (\<lambda>q. q = []) (queues cq)"

definition QueueUsage :: "CommandQueue \<Rightarrow> int" where
  "QueueUsage cq = sum_list (map (\<lambda>q. int (length q)) (queues cq))"

definition AddCommand :: "Config \<Rightarrow> CommandQueue \<Rightarrow> Command \<Rightarrow> (bool \<times> CommandQueue) res" where
  "AddCommand cfg cq c =
     rbind (GetQueue cfg cq (Rank c) (Bankgroup c) (Bank c)) (\<lambda>q.
       if of_nat (length q) < queue_size cq then
         rbind (vset (queues cq) (GetQueueIndex cfg cq (Rank c) (Bankgroup c) (Bank c)) (q @ [c])) (\<lambda>qs.
         rbind (vset (rank_q_empty cq) (Rank c) False) (\<lambda>es.
           Inr (True, cq\<lparr>queues := qs, rank_q_empty := es\<rparr>)))
       else Inr (False, cq))"

definition GetNextQueue :: "CommandQueue \<Rightarrow> (Command list \<times> CommandQueue) res" where
  "GetNextQueue cq =
     (let i = queue_idx cq + 1;
          i = (if i = num_queues cq then 0 else i)
      in rbind (vget (queues cq) i) (\<lambda>q. Inr (q, cq\<lparr>queue_idx := i\<rparr>)))"

subsection \<open>Choosing a command\<close>

definition same_bank_addr :: "Command \<Rightarrow> Command \<Rightarrow> bool" where
  "same_bank_addr c d \<longleftrightarrow> Rank c = Rank d \<and> Bankgroup c = Bankgroup d \<and> Bank c = Bank d"

definition ArbitratePrecharge ::
  "ChannelState \<Rightarrow> Command list \<Rightarrow> Command \<Rightarrow> Command list \<Rightarrow> SimpleStats \<Rightarrow> (bool \<times> SimpleStats) res"
where
  "ArbitratePrecharge cs prev c rest st =
     (if list_ex (\<lambda>p. same_bank_addr p c) prev then Inr (False, st)
      else
        rbind (OpenRow cs (Rank c) (Bankgroup c) (Bank c)) (\<lambda>opn.
        let pending_row_hits_exist = list_ex (\<lambda>p. Row p = opn \<and> same_bank_addr p c) (c # rest) in
        rbind (RowHitCount cs (Rank c) (Bankgroup c) (Bank c)) (\<lambda>hits.
        let rowhit_limit_reached = hits \<ge> 4 in
        if \<not> pending_row_hits_exist \<or> rowhit_limit_reached
        then Inr (True, Increment ''num_ondemand_pres'' st)
        else Inr (False, st))))"

definition HasRWDependency :: "Command list \<Rightarrow> Command \<Rightarrow> bool" where
  "HasRWDependency prev c =
     list_ex (\<lambda>p. IsRead p \<and> Row p = Row c \<and> Column p = Column c \<and> Bank p = Bank c \<and>
                  Bankgroup p = Bankgroup c) prev"

fun first_ready ::
  "Config \<Rightarrow> ChannelState \<Rightarrow> u64 \<Rightarrow> Command list \<Rightarrow> Command list \<Rightarrow> SimpleStats \<Rightarrow>
   (Command \<times> SimpleStats) res"
where
  "first_ready cfg cs clk prev [] st = Inr (no_command, st)"
| "first_ready cfg cs clk prev (c # rest) st =
     rbind (ChannelState_GetReadyCommand cfg cs c clk) (\<lambda>r.
       if \<not> IsValid r then first_ready cfg cs clk (prev @ [c]) rest st
       else if cmd_type r = PRECHARGE then
         rbind (ArbitratePrecharge cs prev c rest st) (\<lambda>(granted, st).
           if \<not> granted then first_ready cfg cs clk (prev @ [c]) rest st else Inr (r, st))
       else if IsWrite r \<and> HasRWDependency prev c then first_ready cfg cs clk (prev @ [c]) rest st
       else Inr (r, st))"

definition GetFirstReadyInQueue ::
  "Config \<Rightarrow> ChannelState \<Rightarrow> CommandQueue \<Rightarrow> Command list \<Rightarrow> SimpleStats \<Rightarrow> (Command \<times> SimpleStats) res"
where
  "GetFirstReadyInQueue cfg cs cq q st = first_ready cfg cs (cq_clk cq) [] q st"

definition EraseRWCommand :: "Config \<Rightarrow> CommandQueue \<Rightarrow> Command \<Rightarrow> CommandQueue res" where
  "EraseRWCommand cfg cq c =
     rbind (GetQueue cfg cq (Rank c) (Bankgroup c) (Bank c)) (\<lambda>q.
       if list_ex (\<lambda>d. hex_addr c = hex_addr d \<and> cmd_type c = cmd_type d) q then
         rbind (vset (queues cq) (GetQueueIndex cfg cq (Rank c) (Bankgroup c) (Bank c))
                  (erase_first (\<lambda>d. hex_addr c = hex_addr d \<and> cmd_type c = cmd_type d) q)) (\<lambda>qs.
           Inr (cq\<lparr>queues := qs\<rparr>))
       else Inl (ExitFailure ''command_queue.cc'' 207))"

text \<open>The loop of \<^verbatim>\<open>GetCommandToIssue\<close>; the first argument counts the rounds that are left.\<close>

fun issue_loop ::
  "nat \<Rightarrow> Config \<Rightarrow> ChannelState \<Rightarrow> CommandQueue \<Rightarrow> SimpleStats \<Rightarrow>
   (Command \<times> CommandQueue \<times> SimpleStats) res"
where
  "issue_loop 0 cfg cs cq st = Inr (no_command, cq, st)"
| "issue_loop (Suc n) cfg cs cq st =
     rbind (GetNextQueue cq) (\<lambda>(q, cq).
       if is_in_ref cq \<and> queue_idx cq \<in> ref_q_indices cq then issue_loop n cfg cs cq st
       else
         rbind (GetFirstReadyInQueue cfg cs cq q st) (\<lambda>(c, st).
           if IsValid c then
             (if IsReadWrite c then rbind (EraseRWCommand cfg cq c) (\<lambda>cq. Inr (c, cq, st))
              else Inr (c, cq, st))
           else issue_loop n cfg cs cq st))"

definition GetCommandToIssue ::
  "Config \<Rightarrow> ChannelState \<Rightarrow> CommandQueue \<Rightarrow> SimpleStats \<Rightarrow> (Command \<times> CommandQueue \<times> SimpleStats) res"
where
  "GetCommandToIssue cfg cs cq st = issue_loop (nat (num_queues cq)) cfg cs cq st"

subsection \<open>Finishing a refresh\<close>

definition GetRefQIndices :: "Config \<Rightarrow> CommandQueue \<Rightarrow> Command \<Rightarrow> CommandQueue" where
  "GetRefQIndices cfg cq ref =
     (if cmd_type ref = REFRESH then
        (if queue_structure cq = PER_BANK then
           cq\<lparr>ref_q_indices := ref_q_indices cq \<union>
                set (filter (\<lambda>i. tdiv i (banks cfg) = Rank ref) [0..num_queues cq - 1])\<rparr>
         else cq\<lparr>ref_q_indices := insert (Rank ref) (ref_q_indices cq)\<rparr>)
      else
        cq\<lparr>ref_q_indices :=
             insert (GetQueueIndex cfg cq (Rank ref) (Bankgroup ref) (Bank ref)) (ref_q_indices cq)\<rparr>)"

definition FinishRefresh ::
  "Config \<Rightarrow> ChannelState \<Rightarrow> CommandQueue \<Rightarrow> (Command \<times> CommandQueue) res"
where
  "FinishRefresh cfg cs cq =
     rbind (PendingRefCommand cs) (\<lambda>ref.
     let cq = (if \<not> is_in_ref cq then (GetRefQIndices cfg cq ref)\<lparr>is_in_ref := True\<rparr> else cq) in
     rbind (ChannelState_GetReadyCommand cfg cs ref (cq_clk cq)) (\<lambda>c.
       Inr (c, if IsRefresh c then cq\<lparr>ref_q_indices := {}, is_in_ref := False\<rparr> else cq)))"

subsection \<open>Invariant\<close>

definition rw_types :: "CommandType set" where
  "rw_types = {READ, READ_PRECHARGE, WRITE, WRITE_PRECHARGE}"

definition cmd_wf :: "Config \<Rightarrow> Command \<Rightarrow> bool" where
  "cmd_wf cfg c \<longleftrightarrow> cmd_type c \<in> rw_types \<and> in_range cfg (Rank c, Bankgroup c, Bank c) \<and>
     addr c = AddressMapping cfg (hex_addr c)"

definition queue_of :: "Config \<Rightarrow> CommandQueue \<Rightarrow> Command \<Rightarrow> int" where
  "queue_of cfg cq c = GetQueueIndex cfg cq (Rank c) (Bankgroup c) (Bank c)"

definition cq_inv :: "Config \<Rightarrow> CommandQueue \<Rightarrow> bool" where
  "cq_inv cfg cq \<longleftrightarrow>
     queue_structure cq \<in> {PER_RANK, PER_BANK} \<and>
     num_queues cq = (if queue_structure cq = PER_RANK then ranks cfg else banks cfg * ranks cfg) \<and>
     length (queues cq) = nat (num_queues cq) \<and> length (rank_q_empty cq) = nat (ranks cfg) \<and>
     0 \<le> queue_idx cq \<and> (0 < num_queues cq \<longrightarrow> queue_idx cq < num_queues cq) \<and>
     (\<forall>i < length (queues cq). length (queues cq ! i) \<le> unat (queue_size cq) \<and>
        (\<forall>c \<in> set (queues cq ! i). cmd_wf cfg c \<and> queue_of cfg cq c = int i))"

lemma cq_invD:
  assumes "cq_inv cfg cq" and "i < length (queues cq)"
  shows "c \<in> set (queues cq ! i) \<Longrightarrow> cmd_wf cfg c"
    "c \<in> set (queues cq ! i) \<Longrightarrow> queue_of cfg cq c = int i"
    "length (queues cq ! i) \<le> unat (queue_size cq)"
  using assms unfolding cq_inv_def by blast+

lemma cmd_wf_request:
  assumes "cmd_wf cfg c"
  shows "cmd_type c \<in> request_types" "request_wf cfg c" "IsReadWrite c" "IsValid c"
  using assms
  by (auto simp: cmd_wf_def rw_types_def request_types_def type_sets request_wf_def cmd_pred_defs)

lemma GetQueueIndex_range:
  assumes "dims_wf cfg" and "in_range cfg (r, g, k)" and "queue_structure cq \<in> {PER_RANK, PER_BANK}"
    and "num_queues cq = (if queue_structure cq = PER_RANK then ranks cfg else banks cfg * ranks cfg)"
  shows "0 \<le> GetQueueIndex cfg cq r g k" "GetQueueIndex cfg cq r g k < num_queues cq"
proof -
  have rng: "0 \<le> r" "r < ranks cfg" "0 \<le> g" "g < bankgroups cfg" "0 \<le> k" "k < banks_per_group cfg"
    and b: "banks cfg = bankgroups cfg * banks_per_group cfg" "0 < banks_per_group cfg" "0 < bankgroups cfg"
    using assms(1,2) by (auto simp: in_range_def dims_wf_def)
  have "(g + 1) * banks_per_group cfg \<le> bankgroups cfg * banks_per_group cfg"
    using rng b by (intro mult_right_mono) auto
  then have gk: "g * banks_per_group cfg + k < banks cfg" using rng b by (simp add: algebra_simps)
  have "(r + 1) * banks cfg \<le> ranks cfg * banks cfg"
    using rng b by (intro mult_right_mono) auto
  then have "r * banks cfg + g * banks_per_group cfg + k < banks cfg * ranks cfg"
    using gk by (simp add: algebra_simps)
  moreover have "0 \<le> r * banks cfg + g * banks_per_group cfg + k" using rng b by simp
  ultimately show "0 \<le> GetQueueIndex cfg cq r g k" "GetQueueIndex cfg cq r g k < num_queues cq"
    using rng assms(3,4) by (auto simp: GetQueueIndex_def)
qed

lemma queue_of_range:
  assumes "cq_inv cfg cq" and "dims_wf cfg" and "cmd_wf cfg c"
  shows "0 \<le> queue_of cfg cq c" "queue_of cfg cq c < int (length (queues cq))"
  using GetQueueIndex_range [OF assms(2), of "Rank c" "Bankgroup c" "Bank c" cq] assms(1,3)
  by (auto simp: queue_of_def cq_inv_def cmd_wf_def)

subsection \<open>The first ready command of a queue\<close>

definition precharge_granted :: "ChannelState \<Rightarrow> Command list \<Rightarrow> Command \<Rightarrow> Command list \<Rightarrow> bool" where
  "precharge_granted cs prev d rest \<longleftrightarrow>
     \<not> list_ex (\<lambda>p. same_bank_addr p d) prev \<and>
     (\<exists>b. bank_at (bank_states cs) (Rank d, Bankgroup d, Bank d) = Inr b \<and>
        (\<not> list_ex (\<lambda>p. Row p = open_row b \<and> same_bank_addr p d) (d # rest) \<or> 4 \<le> row_hit_count b))"

lemma ArbitratePrecharge_Inr:
  assumes "ArbitratePrecharge cs prev d rest st = Inr (g, st')"
  shows "g \<longleftrightarrow> precharge_granted cs prev d rest"
    "st' = (if g then Increment ''num_ondemand_pres'' st else st)"
  using assms
  by (auto simp: ArbitratePrecharge_def precharge_granted_def OpenRow_def RowHitCount_def Let_def
      elim!: rbindE split: if_splits)

lemma ArbitratePrecharge_ok:
  assumes "ok (bank_at (bank_states cs) (Rank d, Bankgroup d, Bank d))"
  shows "ok (ArbitratePrecharge cs prev d rest st)"
  using assms by (auto simp: ArbitratePrecharge_def OpenRow_def RowHitCount_def Let_def elim!: okE)

lemma ready_same_command:
  assumes "ChannelState_GetReadyCommand cfg cs d clk = Inr c" and "IsReadWrite c" and "cmd_wf cfg d"
    and "dims_wf cfg"
  shows "c = d"
proof -
  have "IsValid c" using assms(2) by (auto simp: cmd_pred_defs)
  from assms(1) this assms(4) show ?thesis
  proof (cases rule: ready_cases)
    case (bank b t)
    have "t = cmd_type d"
      using bank assms(2,3)
      by (auto simp: bank_ready_def required_type_def cmd_pred_defs cmd_wf_def rw_types_def
          split: State.splits if_splits)
    with bank(4) show ?thesis by (simp add: mk_command_def)
  qed (use assms(3) in \<open>auto simp: cmd_wf_def rw_types_def IsRankCMD_def\<close>)
qed

definition chosen ::
  "Config \<Rightarrow> ChannelState \<Rightarrow> u64 \<Rightarrow> Command list \<Rightarrow> Command list \<Rightarrow> Command \<Rightarrow> Command list \<Rightarrow> Command \<Rightarrow> bool"
where
  "chosen cfg cs clk q prev d rest c \<longleftrightarrow>
     q = prev @ d # rest \<and> ChannelState_GetReadyCommand cfg cs d clk = Inr c \<and> IsValid c \<and>
     (cmd_type c = PRECHARGE \<longrightarrow> precharge_granted cs prev d rest) \<and>
     (IsWrite c \<longrightarrow> \<not> HasRWDependency prev d)"

lemma first_ready_chosen:
  assumes "first_ready cfg cs clk prev q st = Inr (c, st')"
  shows "if IsValid c then \<exists>prev' d rest. chosen cfg cs clk (prev @ q) prev' d rest c
         else c = no_command \<and> st' = st"
  using assms
proof (induction cfg cs clk prev q st rule: first_ready.induct)
  case (1 cfg cs clk prev st)
  then show ?case by simp
next
  case (2 cfg cs clk prev d rest st)
  from "2.prems" obtain r where r: "ChannelState_GetReadyCommand cfg cs d clk = Inr r"
    by (auto elim: rbindE)
  have here: "chosen cfg cs clk (prev @ d # rest) prev d rest r"
    if "IsValid r" "cmd_type r = PRECHARGE \<Longrightarrow> precharge_granted cs prev d rest"
      "\<not> (IsWrite r \<and> HasRWDependency prev d)"
    using that r by (auto simp: chosen_def)
  consider "\<not> IsValid r" | "IsValid r" "cmd_type r = PRECHARGE"
    | "IsValid r" "cmd_type r \<noteq> PRECHARGE" "IsWrite r \<and> HasRWDependency prev d"
    | "IsValid r" "cmd_type r \<noteq> PRECHARGE" "\<not> (IsWrite r \<and> HasRWDependency prev d)" by blast
  then show ?case
  proof cases
    case 1
    then show ?thesis using "2.IH"(1) [OF r] "2.prems" r by (auto split: if_splits)
  next
    case 2
    with "2.prems" r obtain g st1 where g: "ArbitratePrecharge cs prev d rest st = Inr (g, st1)"
      and next_: "(if \<not> g then first_ready cfg cs clk (prev @ [d]) rest st1 else Inr (r, st1)) = Inr (c, st')"
      by (auto elim: rbindE)
    show ?thesis
    proof (cases g)
      case True
      then show ?thesis
        using here 2 next_ ArbitratePrecharge_Inr(1) [OF g] by (auto simp: cmd_pred_defs)
    next
      case False
      then show ?thesis
        using "2.IH"(2) [OF r _ 2(2) g refl] 2 next_ ArbitratePrecharge_Inr(2) [OF g] by (auto split: if_splits)
    qed
  next
    case 3
    then show ?thesis using "2.IH"(3) [OF r] "2.prems" r by (auto split: if_splits)
  next
    case 4
    then have "c = r" using "2.prems" r by auto
    then show ?thesis using 4 here by auto
  qed
qed

lemma first_ready_ok:
  assumes inv: "channel_inv cfg cs"
  shows "\<forall>d \<in> set q. cmd_wf cfg d \<Longrightarrow> ok (first_ready cfg cs clk prev q st)"
proof (induction q arbitrary: prev st)
  case Nil
  then show ?case by simp
next
  case (Cons d q)
  then have d: "cmd_wf cfg d" by simp
  obtain r where r: "ChannelState_GetReadyCommand cfg cs d clk = Inr r"
    using GetReadyCommand_channel_ok [OF inv cmd_wf_request(2) [OF d]] cmd_wf_request(1) [OF d]
    by (metis okE)
  have "ok (bank_at (bank_states cs) (Rank d, Bankgroup d, Bank d))"
    using channel_invD(5) [OF inv] d unfolding cmd_wf_def by blast
  then obtain g st1 where "ArbitratePrecharge cs prev d q st = Inr (g, st1)"
    using ArbitratePrecharge_ok by (metis okE surj_pair)
  then show ?case using Cons r by simp
qed


subsection \<open>Erasing and adding\<close>

lemma cmd_wf_same:
  assumes "cmd_wf cfg c" "cmd_wf cfg d" "hex_addr c = hex_addr d" "cmd_type c = cmd_type d"
  shows "c = d"
  using assms by (simp add: cmd_wf_def)

lemma erase_first_remove1:
  assumes "\<And>d. d \<in> set q \<Longrightarrow> P d \<longleftrightarrow> d = c"
  shows "erase_first P q = remove1 c q"
  using assms by (induction q) auto

lemma EraseRWCommand_eq:
  assumes inv: "cq_inv cfg cq" and "dims_wf cfg" and i: "i < length (queues cq)" and c: "c \<in> set (queues cq ! i)"
  shows "EraseRWCommand cfg cq c = Inr (cq\<lparr>queues := (queues cq)[i := remove1 c (queues cq ! i)]\<rparr>)"
proof -
  have wf: "cmd_wf cfg d" if "d \<in> set (queues cq ! i)" for d
    using inv i that by (auto simp: cq_inv_def)
  have idx: "GetQueueIndex cfg cq (Rank c) (Bankgroup c) (Bank c) = int i"
    using inv i c by (simp add: cq_inv_def queue_of_def)
  have "erase_first (\<lambda>d. hex_addr c = hex_addr d \<and> cmd_type c = cmd_type d) (queues cq ! i) =
      remove1 c (queues cq ! i)"
  proof (rule erase_first_remove1)
    fix d
    assume "d \<in> set (queues cq ! i)"
    then show "hex_addr c = hex_addr d \<and> cmd_type c = cmd_type d \<longleftrightarrow> d = c"
      using cmd_wf_same [OF wf [OF c] wf] by auto
  qed
  moreover have "list_ex (\<lambda>d. hex_addr c = hex_addr d \<and> cmd_type c = cmd_type d) (queues cq ! i)"
    using c by (auto simp: list_ex_iff)
  ultimately show ?thesis
    using i by (simp add: EraseRWCommand_def GetQueue_def idx vset_def vmod_def)
qed

lemma queue_of_cong: "queue_structure cq' = queue_structure cq \<Longrightarrow> queue_of cfg cq' c = queue_of cfg cq c"
  by (simp add: queue_of_def GetQueueIndex_def)

lemma cq_inv_queues:
  assumes inv: "cq_inv cfg cq" and i: "i < length (queues cq)"
    and q: "length q \<le> unat (queue_size cq)" "\<And>c. c \<in> set q \<Longrightarrow> cmd_wf cfg c \<and> queue_of cfg cq c = int i"
  shows "cq_inv cfg (cq\<lparr>queues := (queues cq)[i := q]\<rparr>)"
  using assms
  by (auto simp: cq_inv_def queue_of_cong [where cq = cq and cq' = "cq\<lparr>queues := (queues cq)[i := q]\<rparr>"]
      nth_list_update)

lemma cq_inv_idx:
  "cq_inv cfg cq \<Longrightarrow> 0 \<le> j \<Longrightarrow> j < num_queues cq \<Longrightarrow> cq_inv cfg (cq\<lparr>queue_idx := j\<rparr>)"
  by (auto simp: cq_inv_def queue_of_cong [where cq = cq and cq' = "cq\<lparr>queue_idx := j\<rparr>"])

lemma GetNextQueue_eq:
  assumes inv: "cq_inv cfg cq" and "0 < num_queues cq"
  obtains j where "j < length (queues cq)" "GetNextQueue cq = Inr (queues cq ! j, cq\<lparr>queue_idx := int j\<rparr>)"
    "int j = (queue_idx cq + 1) mod num_queues cq"
proof -
  let ?k = "if queue_idx cq + 1 = num_queues cq then 0 else queue_idx cq + 1"
  have idx: "0 \<le> queue_idx cq" "queue_idx cq < num_queues cq"
    and len: "length (queues cq) = nat (num_queues cq)"
    using assms unfolding cq_inv_def by blast+
  then have k: "0 \<le> ?k" "?k < num_queues cq" using assms(2) by auto
  have "?k = (queue_idx cq + 1) mod num_queues cq" using idx by simp
  with k len that [of "nat ?k"] show thesis by (simp add: GetNextQueue_def Let_def)
qed

text \<open>
  The outcome of one call of \<^verbatim>\<open>GetCommandToIssue\<close>: nothing is chosen and no queue changes, or a
  command is chosen from a queue that does not wait for a refresh; a read or write leaves its queue,
  any other command changes no queue.
\<close>

definition issue_outcome ::
  "Config \<Rightarrow> ChannelState \<Rightarrow> CommandQueue \<Rightarrow> Command \<Rightarrow> CommandQueue \<Rightarrow> bool"
where
  "issue_outcome cfg cs cq c cq' \<longleftrightarrow>
     (if IsValid c then
        \<exists>i prev d rest. i < length (queues cq) \<and> \<not> (is_in_ref cq \<and> int i \<in> ref_q_indices cq) \<and>
          chosen cfg cs (cq_clk cq) (queues cq ! i) prev d rest c \<and>
          cq' = cq\<lparr>queue_idx := int i,
                   queues := (if IsReadWrite c then (queues cq)[i := remove1 c (queues cq ! i)] else queues cq)\<rparr>
      else cq' = cq\<lparr>queue_idx := queue_idx cq'\<rparr>)"

lemma issue_outcomeI:
  assumes "IsValid c" "i < length (queues cq)" "\<not> (is_in_ref cq \<and> int i \<in> ref_q_indices cq)"
    "chosen cfg cs (cq_clk cq) (queues cq ! i) prev d rest c"
    "qs = (if IsReadWrite c then (queues cq)[i := remove1 c (queues cq ! i)] else queues cq)"
  shows "issue_outcome cfg cs cq c (cq\<lparr>queue_idx := int i, queues := qs\<rparr>)"
  unfolding issue_outcome_def using assms by (simp only: if_True) blast

lemma issue_loop_spec:
  assumes ch: "channel_inv cfg cs" and dims: "dims_wf cfg"
  shows "cq_inv cfg cq \<Longrightarrow> 0 < num_queues cq \<or> n = 0 \<Longrightarrow>
    \<exists>c cq' st'. issue_loop n cfg cs cq st = Inr (c, cq', st') \<and> cq_inv cfg cq' \<and>
      issue_outcome cfg cs cq c cq'"
proof (induction n arbitrary: cq st)
  case 0
  then show ?case by (simp add: issue_outcome_def)
next
  case (Suc n)
  note inv = Suc.prems(1)
  obtain j where j: "j < length (queues cq)" "int j = (queue_idx cq + 1) mod num_queues cq"
    "GetNextQueue cq = Inr (queues cq ! j, cq\<lparr>queue_idx := int j\<rparr>)"
    using GetNextQueue_eq [OF inv] Suc.prems(2) by blast
  let ?cq = "cq\<lparr>queue_idx := int j\<rparr>" and ?q = "queues cq ! j"
  have inv1: "cq_inv cfg ?cq" using inv j(1) by (intro cq_inv_idx) (auto simp: cq_inv_def)
  have wf: "\<forall>d \<in> set ?q. cmd_wf cfg d" using inv j(1) by (auto simp: cq_inv_def)
  have later: ?case if "issue_loop (Suc n) cfg cs cq st = issue_loop n cfg cs ?cq st1" for st1
  proof -
    obtain c cq' st' where r: "issue_loop n cfg cs ?cq st1 = Inr (c, cq', st')" "cq_inv cfg cq'"
      "issue_outcome cfg cs ?cq c cq'"
      using Suc.IH [OF inv1, of st1] Suc.prems(2) by auto
    have "issue_outcome cfg cs cq c cq'"
      using r(3) by (auto simp: issue_outcome_def split: if_splits)
    then show ?thesis using r that by auto
  qed
  show ?case
  proof (cases "is_in_ref cq \<and> int j \<in> ref_q_indices cq")
    case True
    then show ?thesis by (intro later [of st]) (simp add: j(3))
  next
    case go: False
    obtain c st1 where c: "first_ready cfg cs (cq_clk cq) [] ?q st = Inr (c, st1)"
      using first_ready_ok [OF ch wf] by (metis okE surj_pair)
    show ?thesis
    proof (cases "IsValid c")
      case False
      with c go show ?thesis
        by (intro later [of st1]) (auto simp: j(3) GetFirstReadyInQueue_def)
    next
      case True
      then obtain prev d rest where ch: "chosen cfg cs (cq_clk cq) ?q prev d rest c"
        using first_ready_chosen [OF c] by auto
      show ?thesis
      proof (cases "IsReadWrite c")
        case False
        have "issue_outcome cfg cs cq c (cq\<lparr>queue_idx := int j, queues := queues cq\<rparr>)"
          by (rule issue_outcomeI [OF True j(1) go ch]) (simp add: False)
        then show ?thesis
          using True False c go j(3) inv1 by (auto simp: GetFirstReadyInQueue_def)
      next
        case rw: True
        have "d \<in> set ?q" using ch by (simp add: chosen_def)
        moreover have "c = d"
          using ready_same_command [OF _ rw _ dims] ch wf \<open>d \<in> set ?q\<close> by (auto simp: chosen_def)
        ultimately have er: "EraseRWCommand cfg ?cq c = Inr (?cq\<lparr>queues := (queues cq)[j := remove1 c ?q]\<rparr>)"
          using EraseRWCommand_eq [OF inv1 dims, of j c] j(1) by simp
        have "cq_inv cfg (?cq\<lparr>queues := (queues ?cq)[j := remove1 c ?q]\<rparr>)"
        proof (rule cq_inv_queues [OF inv1])
          show "length (remove1 c ?q) \<le> unat (queue_size ?cq)"
            using inv j(1) by (auto simp: cq_inv_def length_remove1 intro: le_trans [OF diff_le_self])
          show "cmd_wf cfg x \<and> queue_of cfg ?cq x = int j" if "x \<in> set (remove1 c ?q)" for x
            using inv1 j(1) notin_set_remove1 that by (fastforce simp: cq_inv_def)
        qed (use j in simp)
        moreover have "issue_outcome cfg cs cq c
            (cq\<lparr>queue_idx := int j, queues := (queues cq)[j := remove1 c ?q]\<rparr>)"
          by (rule issue_outcomeI [OF True j(1) go ch]) (simp add: rw)
        ultimately show ?thesis
          using True rw c go j(3) er by (auto simp: GetFirstReadyInQueue_def)
      qed
    qed
  qed
qed

lemma GetCommandToIssue_spec:
  assumes "channel_inv cfg cs" and "dims_wf cfg" and "cq_inv cfg cq"
  obtains c cq' st' where "GetCommandToIssue cfg cs cq st = Inr (c, cq', st')" "cq_inv cfg cq'"
    "issue_outcome cfg cs cq c cq'"
  using issue_loop_spec [OF assms, of "nat (num_queues cq)" st]
  by (cases "0 < num_queues cq") (auto simp: GetCommandToIssue_def)

lemma cq_inv_init [inv_intros]:
  assumes "mk_command_queue cfg = Inr cq" shows "cq_inv cfg cq"
  using assms
  by (auto simp: mk_command_queue_def cq_inv_def mult.commute elim!: rbindE split: if_splits prod.splits)

lemma cq_inv_flags:
  assumes "cq_inv cfg cq" and "length es = nat (ranks cfg)"
  shows "cq_inv cfg (cq\<lparr>rank_q_empty := es\<rparr>)"
  using assms
  by (auto simp: cq_inv_def queue_of_cong [where cq = cq and cq' = "cq\<lparr>rank_q_empty := es\<rparr>"])

lemma AddCommand_spec:
  assumes inv: "cq_inv cfg cq" and dims: "dims_wf cfg" and c: "cmd_wf cfg c"
  obtains w cq' where "WillAcceptCommand cfg cq (Rank c) (Bankgroup c) (Bank c) = Inr w"
    "AddCommand cfg cq c = Inr (w, cq')" "cq_inv cfg cq'"
    "queues cq' = (if w then (queues cq)[nat (queue_of cfg cq c) := queues cq ! nat (queue_of cfg cq c) @ [c]]
                   else queues cq)"
    "rank_q_empty cq' = (if w then (rank_q_empty cq)[nat (Rank c) := False] else rank_q_empty cq)"
proof -
  let ?i = "nat (queue_of cfg cq c)" and ?q = "queues cq ! nat (queue_of cfg cq c)"
  note rng = queue_of_range [OF inv dims c]
  have i: "?i < length (queues cq)" and idx: "int ?i = queue_of cfg cq c" using rng by auto
  have len: "length ?q \<le> unat (queue_size cq)" by (rule cq_invD(3) [OF inv i])
  define w where "w \<longleftrightarrow> length ?q < unat (queue_size cq)"
  have "length ?q < 2 ^ 64" using len unsigned_less [of "queue_size cq", where ?'a = nat] by simp
  then have "unat (of_nat (length ?q) :: u64) = length ?q"
    by (simp add: unsigned_of_nat take_bit_nat_eq_self)
  then have lt: "of_nat (length ?q) < queue_size cq \<longleftrightarrow> w" by (simp add: word_less_nat_alt w_def)
  have q: "vget (queues cq) (GetQueueIndex cfg cq (Rank c) (Bankgroup c) (Bank c)) = Inr ?q"
    using rng by (simp add: queue_of_def)
  have will: "WillAcceptCommand cfg cq (Rank c) (Bankgroup c) (Bank c) = Inr w"
    by (simp add: WillAcceptCommand_def q lt)
  have r: "0 \<le> Rank c" "Rank c < int (length (rank_q_empty cq))"
    using c inv by (auto simp: cmd_wf_def in_range_def cq_inv_def)
  let ?cq = "cq\<lparr>queues := (queues cq)[?i := ?q @ [c]], rank_q_empty := (rank_q_empty cq)[nat (Rank c) := False]\<rparr>"
  have add: "AddCommand cfg cq c = Inr (w, if w then ?cq else cq)"
    using rng r lt
    by (simp add: AddCommand_def GetQueue_def q vset_def vmod_def queue_of_def)
  have "cq_inv cfg ?cq" if w
  proof -
    have "cq_inv cfg (cq\<lparr>queues := (queues cq)[?i := ?q @ [c]]\<rparr>)"
    proof (rule cq_inv_queues [OF inv i])
      show "length (?q @ [c]) \<le> unat (queue_size cq)" using that by (simp add: w_def)
      show "cmd_wf cfg x \<and> queue_of cfg cq x = int ?i" if "x \<in> set (?q @ [c])" for x
      proof (cases "x \<in> set ?q")
        case True
        then show ?thesis by (intro conjI cq_invD(1,2) [OF inv i])
      next
        case False
        then have "x = c" using that by simp
        then show ?thesis by (simp only: c idx simp_thms)
      qed
    qed
    from cq_inv_flags [OF this, of "(rank_q_empty cq)[nat (Rank c) := False]"] inv
    show ?thesis by (simp add: cq_inv_def)
  qed
  with will add inv show thesis by (intro that [of w "if w then ?cq else cq"]) auto
qed

subsection \<open>Commands in the queues\<close>

definition pending :: "CommandQueue \<Rightarrow> Command multiset" where
  "pending cq = mset (concat (queues cq))"

lemma mset_concat_update:
  "i < length qs \<Longrightarrow> mset (concat (qs[i := q])) + mset (qs ! i) = mset (concat qs) + mset q"
  by (induction qs arbitrary: i) (auto simp: nth_Cons ac_simps split: nat.splits)

lemma pending_outcome:
  assumes "issue_outcome cfg cs cq c cq'" and "cq_inv cfg cq" and "dims_wf cfg"
  shows "pending cq = pending cq' + (if IsReadWrite c then {#c#} else {#})"
proof (cases "IsValid c")
  case False
  then have "queues cq' = queues cq" "\<not> IsReadWrite c"
    using assms(1) by (auto simp: issue_outcome_def cmd_pred_defs dest: arg_cong [of _ _ queues])
  then show ?thesis by (simp add: pending_def)
next
  case True
  then obtain i prev d rest where i: "i < length (queues cq)"
    "chosen cfg cs (cq_clk cq) (queues cq ! i) prev d rest c"
    "queues cq' = (if IsReadWrite c then (queues cq)[i := remove1 c (queues cq ! i)] else queues cq)"
    using assms(1) by (auto simp: issue_outcome_def)
  show ?thesis
  proof (cases "IsReadWrite c")
    case rw: True
    have d: "d \<in> set (queues cq ! i)" using i(2) by (simp add: chosen_def)
    have "cmd_wf cfg d" using assms(2) i(1) d by (auto simp: cq_inv_def)
    then have "c = d" using ready_same_command [OF _ rw _ assms(3)] i(2) by (auto simp: chosen_def)
    define R where "R = mset (queues cq ! i) - {#c#}"
    have R: "mset (remove1 c (queues cq ! i)) = R" "mset (queues cq ! i) = add_mset c R"
      using d \<open>c = d\<close> by (simp_all add: R_def)
    have "mset (concat (queues cq')) + add_mset c R = mset (concat (queues cq)) + R"
      using mset_concat_update [OF i(1), of "remove1 c (queues cq ! i)"] i(3) rw by (simp only: R if_True)
    then show ?thesis using rw by (simp add: pending_def)
  qed (use i(3) in \<open>simp add: pending_def\<close>)
qed

text \<open>
  The interface of a component that stores commands or transactions: what is put in and not refused stays
  there until it is taken out, several at a time. \<open>'e\<close> is what the choice depends on.
\<close>

fun buffer_run ::
  "('c \<Rightarrow> 's \<Rightarrow> (bool \<times> 's) res) \<Rightarrow> ('e \<Rightarrow> 's \<Rightarrow> ('c list \<times> 's) res) \<Rightarrow> ('c + 'e) list \<Rightarrow> 's \<Rightarrow>
   ('c list \<times> 'c list \<times> 's) res"
where
  "buffer_run put_in take_out [] s = Inr ([], [], s)"
| "buffer_run put_in take_out (Inl c # ops) s =
     rbind (put_in c s) (\<lambda>(accepted, s).
     rbind (buffer_run put_in take_out ops s) (\<lambda>(ins, outs, s).
       Inr (if accepted then c # ins else ins, outs, s)))"
| "buffer_run put_in take_out (Inr e # ops) s =
     rbind (take_out e s) (\<lambda>(r, s).
     rbind (buffer_run put_in take_out ops s) (\<lambda>(ins, outs, s).
       Inr (ins, r @ outs, s)))"

locale bag_buffer =
  fixes inv :: "'s \<Rightarrow> bool" and content :: "'s \<Rightarrow> 'c multiset"
    and legal :: "'c \<Rightarrow> bool" and env_ok :: "'e \<Rightarrow> bool"
    and put_in :: "'c \<Rightarrow> 's \<Rightarrow> (bool \<times> 's) res" and take_out :: "'e \<Rightarrow> 's \<Rightarrow> ('c list \<times> 's) res"
  assumes put_law: "inv s \<Longrightarrow> legal c \<Longrightarrow> \<exists>b s'. put_in c s = Inr (b, s') \<and> inv s' \<and>
      content s' = content s + (if b then {#c#} else {#})"
    and take_law: "inv s \<Longrightarrow> env_ok e \<Longrightarrow> \<exists>r s'. take_out e s = Inr (r, s') \<and> inv s' \<and>
      content s = content s' + mset r"
begin

lemma conserved:
  assumes "inv s" and "\<forall>c \<in> projl ` set (filter isl ops). legal c"
    and "\<forall>e \<in> projr ` set (filter (\<lambda>x. \<not> isl x) ops). env_ok e"
  shows "\<exists>ins outs s'. buffer_run put_in take_out ops s = Inr (ins, outs, s') \<and> inv s' \<and>
    content s + mset ins = content s' + mset outs"
  using assms
proof (induction ops arbitrary: s)
  case Nil
  then show ?case by simp
next
  case (Cons x ops)
  show ?case
  proof (cases x)
    case (Inl c)
    then obtain b s1 where b: "put_in c s = Inr (b, s1)" "inv s1"
      "content s1 = content s + (if b then {#c#} else {#})"
      using put_law [OF Cons.prems(1), of c] Cons.prems(2) by auto
    obtain ins outs s' where "buffer_run put_in take_out ops s1 = Inr (ins, outs, s')" "inv s'"
      "content s1 + mset ins = content s' + mset outs"
      using Cons.IH [OF b(2)] Cons.prems(2,3) Inl by auto
    with b Inl show ?thesis by auto
  next
    case (Inr e)
    then obtain r s1 where r: "take_out e s = Inr (r, s1)" "inv s1"
      "content s = content s1 + mset r"
      using take_law [OF Cons.prems(1), of e] Cons.prems(3) by auto
    obtain ins outs s' where "buffer_run put_in take_out ops s1 = Inr (ins, outs, s')" "inv s'"
      "content s1 + mset ins = content s' + mset outs"
      using Cons.IH [OF r(2)] Cons.prems(2,3) Inr by auto
    with r Inr show ?thesis by auto
  qed
qed

end

definition cq_take ::
  "Config \<Rightarrow> ChannelState \<times> SimpleStats \<Rightarrow> CommandQueue \<Rightarrow> (Command list \<times> CommandQueue) res"
where
  "cq_take cfg e cq =
     (case e of (cs, st) \<Rightarrow> rbind (GetCommandToIssue cfg cs cq st) (\<lambda>(c, cq, st).
        Inr (if IsReadWrite c then [c] else [], cq)))"

interpretation cmd_buffer: bag_buffer
  "\<lambda>cq. dims_wf cfg \<and> cq_inv cfg cq" pending "cmd_wf cfg" "\<lambda>(cs, st). channel_inv cfg cs"
  "\<lambda>c cq. AddCommand cfg cq c" "cq_take cfg" for cfg
proof (unfold_locales, goal_cases)
  case (1 cq c)
  then have inv: "cq_inv cfg cq" and dims: "dims_wf cfg" by auto
  obtain w cq' where a: "AddCommand cfg cq c = Inr (w, cq')" "cq_inv cfg cq'"
    "queues cq' = (if w then (queues cq)[nat (queue_of cfg cq c) := queues cq ! nat (queue_of cfg cq c) @ [c]]
                   else queues cq)"
    by (rule AddCommand_spec [OF inv dims 1(2)])
  have "nat (queue_of cfg cq c) < length (queues cq)" using queue_of_range [OF inv dims 1(2)] by auto
  from mset_concat_update [OF this, of "queues cq ! nat (queue_of cfg cq c) @ [c]"] a(3)
  have "pending cq' = pending cq + (if w then {#c#} else {#})" by (simp add: pending_def)
  with a(1,2) dims show ?case by blast
next
  case (2 cq e)
  then have inv: "cq_inv cfg cq" and dims: "dims_wf cfg" by auto
  obtain cs st where e: "e = (cs, st)" by (cases e)
  then have ch: "channel_inv cfg cs" using 2(2) by simp
  obtain c cq' st' where g: "GetCommandToIssue cfg cs cq st = Inr (c, cq', st')" "cq_inv cfg cq'"
    "issue_outcome cfg cs cq c cq'" by (rule GetCommandToIssue_spec [OF ch dims inv])
  then show ?case using pending_outcome [OF g(3) inv dims] e dims by (simp add: cq_take_def)
qed

subsection \<open>Queue indices\<close>

lemma mixed_radix:
  assumes "0 \<le> k" "k < n" "0 \<le> g" "g < m"
  shows "g * n + k < m * n" "(g * n + k) div n = g" "(g * n + k) mod n = (k :: int)" "0 \<le> g * n + k"
proof -
  have "(g + 1) * n \<le> m * n" using assms by (intro mult_right_mono) auto
  then show "g * n + k < m * n" using assms by (simp add: algebra_simps)
qed (use assms in auto)

lemma queue_index_bij:
  assumes dims: "dims_wf cfg" and "queue_structure cq = PER_BANK" and "num_queues cq = banks cfg * ranks cfg"
  shows "bij_betw (\<lambda>(r, g, k). GetQueueIndex cfg cq r g k) {p. in_range cfg p} {0..<num_queues cq}"
proof -
  let ?B = "banks cfg" and ?n = "banks_per_group cfg"
  let ?idx = "\<lambda>(r, g, k). GetQueueIndex cfg cq r g k"
  let ?inv = "\<lambda>x. (x div ?B, x mod ?B div ?n, x mod ?B mod ?n)"
  have B: "?B = bankgroups cfg * ?n" "0 < ?n" "0 < ?B" using dims by (auto simp: dims_wf_def)
  show ?thesis
  proof (rule bij_betw_byWitness [where f' = ?inv])
    show "\<forall>p \<in> {p. in_range cfg p}. ?inv (?idx p) = p"
    proof (intro ballI)
      fix p
      assume "p \<in> {p. in_range cfg p}"
      then obtain r g k where p: "p = (r, g, k)" "0 \<le> r" "r < ranks cfg" "0 \<le> g" "g < bankgroups cfg"
        "0 \<le> k" "k < ?n" by (cases p) (auto simp: in_range_def)
      note gk = mixed_radix [OF p(6,7,4,5)]
      note rgk = mixed_radix [of "g * ?n + k" ?B r "ranks cfg"]
      have "?idx p = r * ?B + (g * ?n + k)" using p(1) assms(2) by (simp add: GetQueueIndex_def)
      then show "?inv (?idx p) = p" using gk rgk p B by (simp add: add.assoc)
    qed
    show "\<forall>x \<in> {0..<num_queues cq}. ?idx (?inv x) = x"
      using assms(2) by (simp add: GetQueueIndex_def add.assoc)
    show "?idx ` {p. in_range cfg p} \<subseteq> {0..<num_queues cq}"
    proof clarify
      fix r g k
      assume "in_range cfg (r, g, k)"
      then show "GetQueueIndex cfg cq r g k \<in> {0..<num_queues cq}"
        using GetQueueIndex_range [OF dims, of r g k cq] assms(2,3) by simp
    qed
    show "?inv ` {0..<num_queues cq} \<subseteq> {p. in_range cfg p}"
    proof clarify
      fix x
      assume x: "x \<in> {0..<num_queues cq}"
      then have "x div ?B < ranks cfg"
        using B(3) assms(3) by (intro div_lt_mult) (auto simp: mult.commute)
      moreover have "x mod ?B div ?n < bankgroups cfg"
        by (rule div_lt_mult) (use B pos_mod_bound [OF B(3), of x] in auto)
      ultimately show "in_range cfg (?inv x)"
        using x B by (auto simp: in_range_def pos_imp_zdiv_nonneg_iff)
    qed
  qed
qed

subsection \<open>Properties\<close>

text \<open>
  One queue per bank: in the per-bank structure the index computed from rank, bank group and
  bank is a bijection between the banks of the channel and the queues, so no two banks share a queue
  and no index leaves the vector.
\<close>

lemma queue_per_bank:
  assumes "dims_wf cfg" and "mk_command_queue cfg = Inr cq" and "queue_structure_name cfg = ''PER_BANK''"
  shows "bij_betw (\<lambda>(r, g, k). GetQueueIndex cfg cq r g k) {p. in_range cfg p} {0..<int (length (queues cq))}"
proof -
  have "queue_structure cq = PER_BANK" "num_queues cq = banks cfg * ranks cfg"
    "int (length (queues cq)) = num_queues cq"
    using assms(2,3) by (auto simp: mk_command_queue_def split: if_splits)
  then show ?thesis using queue_index_bij [OF assms(1)] by simp
qed

definition demo_config :: Config where
  "demo_config = config0\<lparr>ranks := 2, bankgroups := 2, banks_per_group := 2, banks := 4,
     cmd_queue_size := 8, queue_structure_name := ''PER_BANK''\<rparr>"

lemma demo_config_dims: "dims_wf demo_config"
  by (simp add: dims_wf_def demo_config_def)

lemma demo_config_ok: "ok (mk_command_queue demo_config)" "ok (mk_channel_state demo_config)"
  by (simp_all add: mk_command_queue_def mk_channel_state_def demo_config_def config0_def)

text \<open>
  C8. \<^verbatim>\<open>GetCommandToIssue\<close> always returns: no bank, queue or activation window is indexed outside its
  vector, no bank aborts and the search for the command to erase never ends in \<^verbatim>\<open>exit(1)\<close>. It keeps the
  queue invariant, and its result is as \<open>issue_outcome\<close> says: no command and unchanged queues, or a
  command that the channel offers for an entry of a queue that does not wait for a refresh, with
  exactly that entry removed if it is a read or a write.
\<close>

theorem get_command_outcome:
  assumes "channel_inv cfg cs" and "dims_wf cfg" and "cq_inv cfg cq"
  shows "\<exists>c cq' st'. GetCommandToIssue cfg cs cq st = Inr (c, cq', st') \<and> cq_inv cfg cq' \<and>
    issue_outcome cfg cs cq c cq'"
  using GetCommandToIssue_spec [OF assms] by metis

theorem get_command_outcome_witness:
  "\<exists>cs cq c cq' st'. mk_channel_state demo_config = Inr cs \<and> mk_command_queue demo_config = Inr cq \<and>
     GetCommandToIssue demo_config cs cq stats0 = Inr (c, cq', st') \<and>
     issue_outcome demo_config cs cq c cq'"
proof -
  obtain cq where cq: "mk_command_queue demo_config = Inr cq" by (rule okE [OF demo_config_ok(1)])
  obtain cs where cs: "mk_channel_state demo_config = Inr cs" by (rule okE [OF demo_config_ok(2)])
  show ?thesis
    using get_command_outcome [OF channel_inv_init [OF cs] demo_config_dims cq_inv_init [OF cq], of stats0]
      cs cq by blast
qed

text \<open>
  C9. No command is lost or duplicated: for every sequence of \<^verbatim>\<open>AddCommand\<close> and \<^verbatim>\<open>GetCommandToIssue\<close>
  calls, with any channel states in between, the commands in the queues at the start together with
  those that were accepted are the commands in the queues at the end together with the reads and
  writes that were handed out.
\<close>

theorem command_queue_conserves:
  assumes "dims_wf cfg" and "cq_inv cfg cq"
    and "\<forall>c \<in> projl ` set (filter isl ops). cmd_wf cfg c"
    and "\<forall>e \<in> projr ` set (filter (\<lambda>x. \<not> isl x) ops). channel_inv cfg (fst e)"
  shows "\<exists>ins outs cq'. buffer_run (\<lambda>c cq. AddCommand cfg cq c) (cq_take cfg) ops cq = Inr (ins, outs, cq') \<and>
    cq_inv cfg cq' \<and> pending cq + mset ins = pending cq' + mset outs"
  using cmd_buffer.conserved [of cfg cq ops] assms by (auto simp: case_prod_beta)

definition demo_read :: Command where
  "demo_read = mk_command READ (AddressMapping demo_config 0) 0"

lemma demo_read_wf: "cmd_wf demo_config demo_read"
  by (simp add: cmd_wf_def demo_read_def rw_types_def in_range_def AddressMapping_def Let_def
      mk_address_def demo_config_def config0_def u64_to_int_def)

theorem command_queue_conserves_witness:
  "\<exists>cs cq ins outs cq'. mk_channel_state demo_config = Inr cs \<and> mk_command_queue demo_config = Inr cq \<and>
     buffer_run (\<lambda>c cq. AddCommand demo_config cq c) (cq_take demo_config)
       [Inl demo_read, Inr (cs, stats0), Inl demo_read] cq = Inr (ins, outs, cq') \<and>
     pending cq + mset ins = pending cq' + mset outs"
proof -
  obtain cq where cq: "mk_command_queue demo_config = Inr cq" by (rule okE [OF demo_config_ok(1)])
  obtain cs where cs: "mk_channel_state demo_config = Inr cs" by (rule okE [OF demo_config_ok(2)])
  show ?thesis
    using command_queue_conserves [OF demo_config_dims cq_inv_init [OF cq],
        of "[Inl demo_read, Inr (cs, stats0), Inl demo_read]"]
      cs cq demo_read_wf channel_inv_init [OF cs] by fastforce
qed

text \<open>A small run: one bank, row 0 activated, one command queued.\<close>

definition tiny_config :: Config where
  "tiny_config = config0\<lparr>ranks := 1, bankgroups := 1, banks_per_group := 1, banks := 1,
     ro_mask := 1, cmd_queue_size := 8, trans_queue_size := 4, tREFI := 100,
     refresh_policy := RANK_LEVEL_STAGGERED, queue_structure_name := ''PER_BANK''\<rparr>"

definition tiny_command :: "CommandType \<Rightarrow> u64 \<Rightarrow> Command" where
  "tiny_command t h = mk_command t (AddressMapping tiny_config h) h"

definition tiny_scenario :: "Command \<Rightarrow> (ChannelState \<times> CommandQueue \<times> Command) res" where
  "tiny_scenario c =
     rbind (mk_channel_state tiny_config) (\<lambda>cs.
     rbind (mk_command_queue tiny_config) (\<lambda>cq.
     rbind (UpdateTimingAndStates tiny_config (mk_timing tiny_config) cs (tiny_command ACTIVATE 0) 0) (\<lambda>cs.
     rbind (AddCommand tiny_config cq c) (\<lambda>(b, cq).
     rbind (GetCommandToIssue tiny_config cs cq stats0) (\<lambda>(c, cq', st). Inr (cs, cq, c))))))"

lemma tiny_scenario_inv:
  assumes "tiny_scenario c = Inr (cs, cq, r)" and "cmd_wf tiny_config c"
  shows "channel_inv tiny_config cs" "dims_wf tiny_config" "cq_inv tiny_config cq"
    "\<exists>cq' st'. GetCommandToIssue tiny_config cs cq stats0 = Inr (r, cq', st')"
proof -
  show dims: "dims_wf tiny_config" by (simp add: dims_wf_def tiny_config_def)
  from assms(1) obtain cs0 cq0 b cq' st' where s: "mk_channel_state tiny_config = Inr cs0"
    "mk_command_queue tiny_config = Inr cq0"
    "UpdateTimingAndStates tiny_config (mk_timing tiny_config) cs0 (tiny_command ACTIVATE 0) 0 = Inr cs"
    "AddCommand tiny_config cq0 c = Inr (b, cq)"
    "GetCommandToIssue tiny_config cs cq stats0 = Inr (r, cq', st')"
    by (auto simp: tiny_scenario_def elim!: rbindE)
  show "channel_inv tiny_config cs" by (rule channel_inv_issue [OF s(3) channel_inv_init [OF s(1)]])
  show "cq_inv tiny_config cq"
    by (rule AddCommand_spec [OF cq_inv_init [OF s(2)] dims assms(2)]) (use s(4) in simp)
  show "\<exists>cq' st'. GetCommandToIssue tiny_config cs cq stats0 = Inr (r, cq', st')" using s(5) by blast
qed

lemma tiny_command_wf: "t \<in> rw_types \<Longrightarrow> cmd_wf tiny_config (tiny_command t h)"
  by (simp add: cmd_wf_def tiny_command_def in_range_def AddressMapping_def Let_def
      mk_address_def tiny_config_def config0_def u64_to_int_def)

lemma tiny_scenario_write:
  "case tiny_scenario (tiny_command WRITE 0) of Inr (cs, cq, c) \<Rightarrow> cmd_type c = WRITE | _ \<Rightarrow> False"
  by code_simp

lemma tiny_scenario_precharge:
  "case tiny_scenario (tiny_command READ 1) of Inr (cs, cq, c) \<Rightarrow> cmd_type c = PRECHARGE | _ \<Rightarrow> False"
  by code_simp

text \<open>
  C33. Order of accesses to one location: when a write is handed out, no read of the same row,
  column, bank and bank group stands before it in its queue, so a write never overtakes an older read
  of the location it overwrites.
\<close>

theorem write_does_not_overtake_read:
  assumes "channel_inv cfg cs" and "dims_wf cfg" and "cq_inv cfg cq"
    and "GetCommandToIssue cfg cs cq st = Inr (c, cq', st')" and "IsWrite c"
  shows "\<exists>i prev rest. i < length (queues cq) \<and> queues cq ! i = prev @ c # rest \<and>
    list_all (\<lambda>p. \<not> (IsRead p \<and> Row p = Row c \<and> Column p = Column c \<and> Bank p = Bank c \<and>
      Bankgroup p = Bankgroup c)) prev"
proof -
  have out: "issue_outcome cfg cs cq c cq'"
    using GetCommandToIssue_spec [OF assms(1-3), of st] assms(4) by auto
  have "IsValid c" "IsReadWrite c" using assms(5) by (auto simp: cmd_pred_defs)
  then obtain i prev d rest where i: "i < length (queues cq)"
    "chosen cfg cs (cq_clk cq) (queues cq ! i) prev d rest c"
    using out by (auto simp: issue_outcome_def)
  have "d \<in> set (queues cq ! i)" using i(2) by (simp add: chosen_def)
  then have "c = d"
    using ready_same_command [OF _ \<open>IsReadWrite c\<close> cq_invD(1) [OF assms(3) i(1)] assms(2)] i(2)
    by (auto simp: chosen_def)
  then show ?thesis
    using i assms(5) by (auto simp: chosen_def HasRWDependency_def list_all_iff list_ex_iff)
qed

theorem write_does_not_overtake_read_witness:
  "\<exists>cs cq c cq' st' i prev rest.
     GetCommandToIssue tiny_config cs cq stats0 = Inr (c, cq', st') \<and> IsWrite c \<and>
     queues cq ! i = prev @ c # rest \<and> list_all (\<lambda>p. \<not> (IsRead p \<and> Row p = Row c \<and>
       Column p = Column c \<and> Bank p = Bank c \<and> Bankgroup p = Bankgroup c)) prev"
proof -
  obtain cs cq c where s: "tiny_scenario (tiny_command WRITE 0) = Inr (cs, cq, c)" "cmd_type c = WRITE"
    using tiny_scenario_write by (auto split: sum.splits)
  then have w: "IsWrite c" by (simp add: IsWrite_def)
  have "cmd_wf tiny_config (tiny_command WRITE 0)" by (simp add: tiny_command_wf rw_types_def)
  note inv = tiny_scenario_inv [OF s(1) this]
  obtain cq' st' where g: "GetCommandToIssue tiny_config cs cq stats0 = Inr (c, cq', st')"
    using inv(4) by blast
  show ?thesis
    using write_does_not_overtake_read [OF inv(1-3) g w] g w by blast
qed



text \<open>
  The empty flags are never set again: \<^verbatim>\<open>AddCommand\<close> clears the flag of a rank and nothing sets it,
  so after a command has been accepted for a rank and every queue has drained, the rank still counts
  as having commands, and the controller never sends it into self-refresh.
\<close>

theorem rank_q_empty_sticky:
  assumes "GetCommandToIssue cfg cs cq st = Inr (c, cq', st')"
  shows "rank_q_empty cq' = rank_q_empty cq"
proof -
  have "rank_q_empty cq' = rank_q_empty cq" if "issue_loop n cfg cs cq st = Inr (c, cq', st')" for n
    using that
  proof (induction n arbitrary: cq st)
    case (Suc n)
    from Suc.prems obtain q cq1 where n: "GetNextQueue cq = Inr (q, cq1)" by (auto elim: rbindE)
    then have "rank_q_empty cq1 = rank_q_empty cq" by (auto simp: GetNextQueue_def Let_def elim!: rbindE)
    with Suc n show ?case
      by (auto simp: EraseRWCommand_def elim!: rbindE split: if_splits)
  qed simp
  then show ?thesis using assms by (simp add: GetCommandToIssue_def)
qed

theorem rank_q_empty_sticky_witness:
  "\<exists>cs cq c cq' st'. mk_channel_state demo_config = Inr cs \<and> mk_command_queue demo_config = Inr cq \<and>
     GetCommandToIssue demo_config cs cq stats0 = Inr (c, cq', st') \<and> rank_q_empty cq' = rank_q_empty cq"
proof -
  obtain cq where cq: "mk_command_queue demo_config = Inr cq" by (rule okE [OF demo_config_ok(1)])
  obtain cs where cs: "mk_channel_state demo_config = Inr cs" by (rule okE [OF demo_config_ok(2)])
  obtain c cq' st' where "GetCommandToIssue demo_config cs cq stats0 = Inr (c, cq', st')"
    by (rule GetCommandToIssue_spec [OF channel_inv_init [OF cs] demo_config_dims cq_inv_init [OF cq]])
  then show ?thesis using rank_q_empty_sticky cs cq by blast
qed

end
