(* ===== verification/Controller.thy ===== *)
theory Controller
  imports Refresh Command_Queue
begin

section \<open>The memory controller\<close>

text \<open>
  Models \<^verbatim>\<open>src/controller.h\<close> and \<^verbatim>\<open>src/controller.cc\<close> (without the parts compiled only with
  \<^verbatim>\<open>THERMAL\<close> or \<^verbatim>\<open>CMD_TRACE\<close>): the queues of transactions, their translation to commands, the commands
  of the in-memory processing units, and one clock cycle, which composes refresh scheduler, command
  queue, channel state and statistics.

  The record \<open>Controller\<close> has the members of the class under their names. A \<^verbatim>\<open>std::multimap\<close> is a
  list of pairs in the order of insertion: elements with equal keys keep that order, and \<^verbatim>\<open>find\<close>
  yields the first of them. A vector whose \<^verbatim>\<open>capacity()\<close> the code reads is a \<open>Buffer\<close>; as in the
  GNU library, \<^verbatim>\<open>reserve\<close> allocates what is asked for and a full vector doubles. A loop that erases
  through an iterator keeps the elements it has passed and the rest.
\<close>

datatype RowBufPolicy = OPEN_PAGE | CLOSE_PAGE | RowBufPolicy_SIZE

record Buffer =
  items :: "Transaction list"
  capacity :: nat

type_synonym pending_map = "(u64 \<times> Transaction) list"

record Controller =
  channel_id :: int
  rd_in_cmds :: "Command list"
  rd_w_cmds :: "Command list"
  wr_cmds :: "Command list"
  release_time :: "int list"
  wr_multitenant :: bool
  ctrl_in_pim :: bool
  ctrl_clk :: u64
  simple_stats :: SimpleStats
  channel_state :: ChannelState
  cmd_queue :: CommandQueue
  refresh :: Refresh
  is_unified_queue :: bool
  unified_queue :: Buffer
  read_queue :: Buffer
  write_buffer :: Buffer
  pending_rd_q :: pending_map
  pending_wr_q :: pending_map
  return_queue :: "Transaction list"
  row_buf_policy :: RowBufPolicy
  last_trans_clk :: u64
  write_draining :: int

subsection \<open>Containers\<close>

definition empty_buffer :: Buffer where
  "empty_buffer = \<lparr>items = [], capacity = 0\<rparr>"

definition reserve :: "int \<Rightarrow> Buffer \<Rightarrow> Buffer res" where
  "reserve n b =
     (if n < 0 then Inl LengthError else Inr (b\<lparr>capacity := max (capacity b) (nat n)\<rparr>))"

definition buf_push :: "Transaction \<Rightarrow> Buffer \<Rightarrow> Buffer" where
  "buf_push t b =
     b\<lparr>items := items b @ [t],
       capacity := (if length (items b) < capacity b then capacity b else max 1 (2 * length (items b)))\<rparr>"

definition buf_full :: "Buffer \<Rightarrow> bool" where
  "buf_full b \<longleftrightarrow> capacity b \<le> length (items b)"

definition mm_count :: "pending_map \<Rightarrow> u64 \<Rightarrow> nat" where
  "mm_count m a = length (filter (\<lambda>(k, _). k = a) m)"

definition mm_find :: "pending_map \<Rightarrow> u64 \<Rightarrow> Transaction option" where
  "mm_find m a = map_of m a"

definition mm_erase :: "u64 \<Rightarrow> pending_map \<Rightarrow> pending_map" where
  "mm_erase a m = erase_first (\<lambda>(k, _). k = a) m"

text \<open>
  The copy constructor of \<^verbatim>\<open>Transaction\<close> leaves \<^verbatim>\<open>active\<close> at its initial value; passing a transaction
  by value and storing it in a container copies it.
\<close>

definition copy_transaction :: "Transaction \<Rightarrow> Transaction" where
  "copy_transaction t = t\<lparr>active := False\<rparr>"

subsection \<open>Construction, completed transactions\<close>

definition mk_controller :: "Config \<Rightarrow> int \<Rightarrow> Controller res" where
  "mk_controller cfg ch =
     rbind (mk_stats cfg) (\<lambda>st. rbind (mk_channel_state cfg) (\<lambda>cs.
     rbind (mk_command_queue cfg) (\<lambda>cq. rbind (mk_refresh cfg) (\<lambda>rf.
     rbind (if unified_queue_enabled cfg
            then rbind (reserve (trans_queue_size cfg) empty_buffer) (\<lambda>u.
                   Inr (u, empty_buffer, empty_buffer))
            else rbind (reserve (trans_queue_size cfg) empty_buffer) (\<lambda>r.
                 rbind (reserve (trans_queue_size cfg) empty_buffer) (\<lambda>w.
                   Inr (empty_buffer, r, w)))) (\<lambda>(u, r, w).
       Inr \<lparr>channel_id = ch, rd_in_cmds = [], rd_w_cmds = [], wr_cmds = [], release_time = [],
            wr_multitenant = False, ctrl_in_pim = False, ctrl_clk = 0, simple_stats = st,
            channel_state = cs, cmd_queue = cq, refresh = rf,
            is_unified_queue = unified_queue_enabled cfg,
            unified_queue = u, read_queue = r, write_buffer = w,
            pending_rd_q = [], pending_wr_q = [], return_queue = [],
            row_buf_policy = (if row_buf_policy_name cfg = ''CLOSE_PAGE'' then CLOSE_PAGE else OPEN_PAGE),
            last_trans_clk = 0, write_draining = 0\<rparr>)))))"

text \<open>The pair \<^verbatim>\<open>(-1, -1)\<close> says that no transaction is done; otherwise 1 stands for a write, 0 for a read.\<close>

definition ReturnDoneTrans :: "u64 \<Rightarrow> Controller \<Rightarrow> (u64 \<times> int) \<times> Controller" where
  "ReturnDoneTrans clk c =
     (case find (\<lambda>t. complete_cycle t \<le> clk) (return_queue c) of
        None \<Rightarrow> ((-1, -1), c)
      | Some t \<Rightarrow>
          let st = simple_stats c;
              st = (if is_write t then Increment ''num_writes_done'' st
                    else AddValue ''read_latency'' (u64_to_int (ctrl_clk c - added_cycle t))
                           (Increment ''num_reads_done'' st))
          in ((trans_addr t, if is_write t then 1 else 0),
              c\<lparr>simple_stats := st,
                return_queue := erase_first (\<lambda>t. complete_cycle t \<le> clk) (return_queue c)\<rparr>))"

definition Controller_GetReadyCommand :: "Config \<Rightarrow> Controller \<Rightarrow> Command \<Rightarrow> u64 \<Rightarrow> Command res" where
  "Controller_GetReadyCommand cfg c cmd clk = ChannelState_GetReadyCommand cfg (channel_state c) cmd clk"

definition Controller_pim_refresh_coming :: "Config \<Rightarrow> Controller \<Rightarrow> bool res" where
  "Controller_pim_refresh_coming cfg c = pim_refresh_coming cfg (refresh c)"

definition Controller_pim_refresh_coming2 :: "Controller \<Rightarrow> bool res" where
  "Controller_pim_refresh_coming2 c = pim_refresh_coming2 (refresh c)"

definition IsInRef :: "Controller \<Rightarrow> bool" where
  "IsInRef c = is_in_ref (cmd_queue c)"

definition Controller_QueueUsage :: "Controller \<Rightarrow> int" where
  "Controller_QueueUsage c = QueueUsage (cmd_queue c)"

definition ResetStats :: "Controller \<Rightarrow> Controller" where
  "ResetStats c = c\<lparr>simple_stats := Reset (simple_stats c)\<rparr>"

text \<open>The statistics part of \<^verbatim>\<open>PrintEpochStats\<close> and \<^verbatim>\<open>PrintFinalStats\<close>; the output is not modelled.\<close>

definition Controller_PrintEpochStats :: "Config \<Rightarrow> Controller \<Rightarrow> Controller res" where
  "Controller_PrintEpochStats cfg c =
     rbind (UpdateEpochStats cfg (Increment ''epoch_num'' (simple_stats c))) (\<lambda>st.
       Inr (c\<lparr>simple_stats := st\<rparr>))"

definition Controller_PrintFinalStats :: "Config \<Rightarrow> Controller \<Rightarrow> Controller res" where
  "Controller_PrintFinalStats cfg c =
     rbind (UpdateFinalStats cfg (simple_stats c)) (\<lambda>st. Inr (c\<lparr>simple_stats := st\<rparr>))"

subsection \<open>Accepting transactions\<close>

definition WillAcceptTransaction :: "Controller \<Rightarrow> u64 \<Rightarrow> bool \<Rightarrow> bool" where
  "WillAcceptTransaction c a w =
     (if is_unified_queue c then \<not> buf_full (unified_queue c)
      else if \<not> w then \<not> buf_full (read_queue c)
      else \<not> buf_full (write_buffer c))"

definition enqueue_write :: "Transaction \<Rightarrow> Controller \<Rightarrow> Controller" where
  "enqueue_write t c =
     (if is_unified_queue c then c\<lparr>unified_queue := buf_push t (unified_queue c)\<rparr>
      else c\<lparr>write_buffer := buf_push t (write_buffer c)\<rparr>)"

definition enqueue_read :: "Transaction \<Rightarrow> Controller \<Rightarrow> Controller" where
  "enqueue_read t c =
     (if is_unified_queue c then c\<lparr>unified_queue := buf_push t (unified_queue c)\<rparr>
      else c\<lparr>read_queue := buf_push t (read_queue c)\<rparr>)"

definition AddTransaction :: "Transaction \<Rightarrow> Controller \<Rightarrow> bool \<times> Controller" where
  "AddTransaction tr c =
     (let t = (copy_transaction tr)\<lparr>added_cycle := ctrl_clk c\<rparr>;
          c = c\<lparr>simple_stats := AddValue ''interarrival_latency''
                  (u64_to_int (ctrl_clk c - last_trans_clk c)) (simple_stats c),
                last_trans_clk := ctrl_clk c\<rparr>
      in if is_write t then
           let c = (if mm_count (pending_wr_q c) (trans_addr t) = 0
                    then enqueue_write t (c\<lparr>pending_wr_q := pending_wr_q c @ [(trans_addr t, t)]\<rparr>)
                    else c)
           in (True, c\<lparr>return_queue := return_queue c @ [t\<lparr>complete_cycle := ctrl_clk c + 1\<rparr>]\<rparr>)
         else if mm_count (pending_wr_q c) (trans_addr t) > 0 then
           (True, c\<lparr>return_queue := return_queue c @ [t\<lparr>complete_cycle := ctrl_clk c + 1\<rparr>]\<rparr>)
         else
           let c = c\<lparr>pending_rd_q := pending_rd_q c @ [(trans_addr t, t)]\<rparr>
           in (True, if mm_count (pending_rd_q c) (trans_addr t) = 1 then enqueue_read t c else c))"

subsection \<open>Scheduling transactions\<close>

definition TransToCommand :: "Config \<Rightarrow> Controller \<Rightarrow> Transaction \<Rightarrow> Command" where
  "TransToCommand cfg c t =
     mk_command
       (if row_buf_policy c = OPEN_PAGE then (if is_write t then WRITE else READ)
        else (if is_write t then WRITE_PRECHARGE else READ_PRECHARGE))
       (AddressMapping cfg (trans_addr t)) (trans_addr t)"

datatype trans_source = Unified | Writes | Reads

definition set_items :: "trans_source \<Rightarrow> Transaction list \<Rightarrow> Controller \<Rightarrow> Controller" where
  "set_items s ts c =
     (case s of
        Unified \<Rightarrow> c\<lparr>unified_queue := (unified_queue c)\<lparr>items := ts\<rparr>\<rparr>
      | Writes \<Rightarrow> c\<lparr>write_buffer := (write_buffer c)\<lparr>items := ts\<rparr>\<rparr>
      | Reads \<Rightarrow> c\<lparr>read_queue := (read_queue c)\<lparr>items := ts\<rparr>\<rparr>)"

definition get_items :: "trans_source \<Rightarrow> Controller \<Rightarrow> Transaction list" where
  "get_items s c =
     (case s of
        Unified \<Rightarrow> items (unified_queue c)
      | Writes \<Rightarrow> items (write_buffer c)
      | Reads \<Rightarrow> items (read_queue c))"

fun schedule_loop ::
  "Config \<Rightarrow> trans_source \<Rightarrow> Transaction list \<Rightarrow> Transaction list \<Rightarrow> Controller \<Rightarrow> Controller res"
where
  "schedule_loop cfg s prev [] c = Inr c"
| "schedule_loop cfg s prev (t # rest) c =
     (let cmd = TransToCommand cfg c t in
      rbind (WillAcceptCommand cfg (cmd_queue c) (Rank cmd) (Bankgroup cmd) (Bank cmd)) (\<lambda>w.
        if w then
          (if \<not> is_unified_queue c \<and> IsWrite cmd \<and> mm_count (pending_rd_q c) (trans_addr t) > 0
           then Inr (c\<lparr>write_draining := 0\<rparr>)
           else
             rbind (AddCommand cfg (cmd_queue c) cmd) (\<lambda>(_, cq).
               Inr (set_items s (prev @ rest)
                 (c\<lparr>write_draining := (if \<not> is_unified_queue c \<and> IsWrite cmd then write_draining c - 1
                                      else write_draining c),
                    cmd_queue := cq\<rparr>))))
        else schedule_loop cfg s (prev @ [t]) rest c))"

definition ScheduleTransaction :: "Config \<Rightarrow> Controller \<Rightarrow> Controller res" where
  "ScheduleTransaction cfg c =
     (let n = length (items (write_buffer c));
          c = (if write_draining c = 0 \<and> \<not> is_unified_queue c \<and>
                  (buf_full (write_buffer c) \<or> (n > 8 \<and> QueueEmpty (cmd_queue c)))
               then c\<lparr>write_draining := int n\<rparr> else c);
          s = (if is_unified_queue c then Unified else if write_draining c > 0 then Writes else Reads)
      in schedule_loop cfg s [] (get_items s c) c)"

subsection \<open>Issuing a command\<close>

definition row_hit :: "string \<Rightarrow> Controller \<Rightarrow> Command \<Rightarrow> SimpleStats \<Rightarrow> SimpleStats res" where
  "row_hit name c cmd st =
     rbind (RowHitCount (channel_state c) (Rank cmd) (Bankgroup cmd) (Bank cmd)) (\<lambda>n.
       Inr (if n \<noteq> 0 then Increment name st else st))"

definition command_stats :: "Command \<Rightarrow> Controller \<Rightarrow> SimpleStats res" where
  "command_stats cmd c =
     (let st = simple_stats c;
          hits = (\<lambda>cmds name. row_hit name c cmd (Increment cmds st))
      in (case cmd_type cmd of
             READ \<Rightarrow> hits ''num_read_cmds'' ''num_read_row_hits''
           | READ_PRECHARGE \<Rightarrow> hits ''num_read_cmds'' ''num_read_row_hits''
           | WRITE \<Rightarrow> hits ''num_write_cmds'' ''num_write_row_hits''
           | WRITE_PRECHARGE \<Rightarrow> hits ''num_write_cmds'' ''num_write_row_hits''
           | ACTIVATE \<Rightarrow> Inr (Increment ''num_act_cmds'' st)
           | LH_READ \<Rightarrow> hits ''num_lh_read_cmds'' ''num_lh_read_row_hits''
           | LH_READ_PRECHARGE \<Rightarrow> hits ''num_lh_read_cmds'' ''num_lh_read_row_hits''
           | GH_READ \<Rightarrow> hits ''num_gh_read_cmds'' ''num_gh_read_row_hits''
           | GH_READ_PRECHARGE \<Rightarrow> hits ''num_gh_read_cmds'' ''num_gh_read_row_hits''
           | PIM_WRITE \<Rightarrow> hits ''num_pim_write_cmds'' ''num_pim_write_row_hits''
           | PIM_WRITE_PRECHARGE \<Rightarrow> hits ''num_pim_write_cmds'' ''num_pim_write_row_hits''
           | PIM_ACTIVATE \<Rightarrow> Inr (Increment ''num_act_cmds'' st)
           | PRECHARGE \<Rightarrow> Inr (Increment ''num_pre_cmds'' st)
           | REFRESH \<Rightarrow> Inr (Increment ''num_ref_cmds'' st)
           | REFRESH_BANK \<Rightarrow> Inr (Increment ''num_refb_cmds'' st)
           | SREF_ENTER \<Rightarrow> Inr (Increment ''num_srefe_cmds'' st)
           | SREF_EXIT \<Rightarrow> Inr (Increment ''num_srefx_cmds'' st)
           | CommandType_SIZE \<Rightarrow> Inl (AbruptExit ''controller.cc'' 486)))"

definition UpdateCommandStats :: "Command \<Rightarrow> Controller \<Rightarrow> Controller res" where
  "UpdateCommandStats cmd c = rbind (command_stats cmd c) (\<lambda>st. Inr (c\<lparr>simple_stats := st\<rparr>))"

text \<open>The loop that completes all pending reads of one address; the first argument is \<^verbatim>\<open>num_reads\<close>.\<close>

fun return_reads :: "nat \<Rightarrow> u64 \<Rightarrow> u64 \<Rightarrow> Controller \<Rightarrow> Controller res" where
  "return_reads 0 a done c = Inr c"
| "return_reads (Suc n) a done c =
     (case mm_find (pending_rd_q c) a of
        None \<Rightarrow> Inl OutOfRange
      | Some t \<Rightarrow>
          return_reads n a done
            (c\<lparr>return_queue := return_queue c @ [t\<lparr>complete_cycle := done\<rparr>],
               pending_rd_q := mm_erase a (pending_rd_q c)\<rparr>))"

definition complete_pending :: "Config \<Rightarrow> Command \<Rightarrow> Controller \<Rightarrow> Controller res" where
  "complete_pending cfg cmd c =
     (if IsRead cmd then
        (let num_reads = mm_count (pending_rd_q c) (hex_addr cmd) in
         if \<not> ctrl_in_pim c \<and> num_reads = 0 then Inl (ExitFailure ''controller.cc'' 354)
         else return_reads num_reads (hex_addr cmd) (ctrl_clk c + of_int (read_delay cfg)) c)
      else if IsWrite cmd then
        (case mm_find (pending_wr_q c) (hex_addr cmd) of
           None \<Rightarrow> Inl (ExitFailure ''controller.cc'' 370)
         | Some t \<Rightarrow>
             let wr_lat = ctrl_clk c - added_cycle t + of_int (write_delay cfg)
             in Inr (c\<lparr>simple_stats := AddValue ''write_latency'' (u64_to_int wr_lat) (simple_stats c),
                       pending_wr_q := mm_erase (hex_addr cmd) (pending_wr_q c)\<rparr>))
      else Inr c)"

definition IssueCommand :: "Config \<Rightarrow> Command \<Rightarrow> Controller \<Rightarrow> Controller res" where
  "IssueCommand cfg cmd c =
     rbind (complete_pending cfg cmd c) (\<lambda>c.
     rbind (UpdateCommandStats cmd c) (\<lambda>c.
     rbind (UpdateTimingAndStates cfg (mk_timing cfg) (channel_state c) cmd (ctrl_clk c)) (\<lambda>cs.
       Inr (c\<lparr>channel_state := cs\<rparr>))))"

subsection \<open>A clock cycle\<close>

text \<open>The command the queues offer: a refresh that is waiting comes first.\<close>

definition next_command :: "Config \<Rightarrow> Controller \<Rightarrow> (Command \<times> Controller) res" where
  "next_command cfg c =
     rbind (if IsRefreshWaiting (channel_state c)
            then rbind (FinishRefresh cfg (channel_state c) (cmd_queue c)) (\<lambda>(cmd, cq).
                   Inr (cmd, c\<lparr>cmd_queue := cq\<rparr>))
            else Inr (no_command, c)) (\<lambda>(cmd, c).
       if \<not> IsValid cmd
       then rbind (GetCommandToIssue cfg (channel_state c) (cmd_queue c) (simple_stats c)) (\<lambda>(cmd, cq, st).
              Inr (cmd, c\<lparr>cmd_queue := cq, simple_stats := st\<rparr>))
       else Inr (cmd, c))"

text \<open>Issues the command, and a second one on the other command bus of an HBM device.\<close>

definition issue_general :: "Config \<Rightarrow> Command \<Rightarrow> Controller \<Rightarrow> (bool \<times> Controller) res" where
  "issue_general cfg cmd c =
     (if IsValid cmd then
        rbind (IssueCommand cfg cmd c) (\<lambda>c.
          if enable_hbm_dual_cmd cfg then
            rbind (GetCommandToIssue cfg (channel_state c) (cmd_queue c) (simple_stats c))
              (\<lambda>(second_cmd, cq, st).
                let c = c\<lparr>cmd_queue := cq, simple_stats := st\<rparr> in
                if IsValid second_cmd \<and> IsReadWrite second_cmd \<noteq> IsReadWrite cmd
                then rbind (IssueCommand cfg second_cmd c) (\<lambda>c.
                       Inr (True, c\<lparr>simple_stats := Increment ''hbm_dual_cmds'' (simple_stats c)\<rparr>))
                else Inr (True, c))
          else Inr (True, c))
      else Inr (False, c))"

definition is_pim_act :: "Command \<Rightarrow> bool" where
  "is_pim_act cmd \<longleftrightarrow> cmd_type cmd = PIM_ACTIVATE"

text \<open>The answer to the access a pending activation prepares, or to the pending command itself.\<close>

definition pim_ready :: "Config \<Rightarrow> Controller \<Rightarrow> CommandType \<Rightarrow> Command \<Rightarrow> Command res" where
  "pim_ready cfg c access it =
     Controller_GetReadyCommand cfg c
       (if is_pim_act it then mk_command access (addr it) (hex_addr it) else it) (ctrl_clk c)"

fun rd_w_loop :: "Config \<Rightarrow> Command list \<Rightarrow> Command list \<Rightarrow> Controller \<Rightarrow> Controller res" where
  "rd_w_loop cfg kept [] c = Inr (c\<lparr>rd_w_cmds := kept\<rparr>)"
| "rd_w_loop cfg kept (it # rest) c =
     rbind (if cmd_type it = PRECHARGE then Inr it else pim_ready cfg c GH_READ it) (\<lambda>ready_cmd.
       if IsValid ready_cmd \<and> cmd_type ready_cmd = cmd_type it then
         rbind (if \<not> (IsRefreshWaiting (channel_state c) \<and> is_pim_act it)
                then IssueCommand cfg it c else Inr c) (\<lambda>c. rd_w_loop cfg kept rest c)
       else rd_w_loop cfg (kept @ [it]) rest c)"

text \<open>Every pending input read has its release time at the same index.\<close>

fun rd_in_loop ::
  "Config \<Rightarrow> Command list \<Rightarrow> Command list \<Rightarrow> int list \<Rightarrow> Controller \<Rightarrow> Controller res"
where
  "rd_in_loop cfg kept [] rel c = Inr (c\<lparr>rd_in_cmds := kept, release_time := rel\<rparr>)"
| "rd_in_loop cfg kept (it # rest) rel c =
     rbind (pim_ready cfg c GH_READ it) (\<lambda>ready_cmd.
     rbind (if IsValid ready_cmd \<and> cmd_type ready_cmd = cmd_type it
            then rbind (vget rel (int (length kept))) (\<lambda>t. Inr (of_int t \<le> ctrl_clk c))
            else Inr False) (\<lambda>go.
       if go then
         rbind (if \<not> (IsRefreshWaiting (channel_state c) \<and> is_pim_act it)
                then IssueCommand cfg it c else Inr c) (\<lambda>c.
           rd_in_loop cfg kept rest (take (length kept) rel @ drop (Suc (length kept)) rel) c)
       else rd_in_loop cfg (kept @ [it]) rest rel c))"

fun wr_loop :: "Config \<Rightarrow> Command list \<Rightarrow> Command list \<Rightarrow> Controller \<Rightarrow> Controller res" where
  "wr_loop cfg kept [] c = Inr (c\<lparr>wr_cmds := kept\<rparr>)"
| "wr_loop cfg kept (it # rest) c =
     rbind (pim_ready cfg c PIM_WRITE it) (\<lambda>ready_cmd.
       if IsValid ready_cmd \<and> cmd_type ready_cmd = cmd_type it then
         (if \<not> (IsRefreshWaiting (channel_state c) \<and> is_pim_act it) then
            rbind (IssueCommand cfg it c) (\<lambda>c.
              if wr_multitenant c then Inr (c\<lparr>wr_cmds := kept @ rest\<rparr>) else wr_loop cfg kept rest c)
          else wr_loop cfg kept rest c)
       else wr_loop cfg (kept @ [it]) rest c)"

definition issue_pim :: "Config \<Rightarrow> Controller \<Rightarrow> Controller res" where
  "issue_pim cfg c =
     rbind (rd_w_loop cfg [] (rd_w_cmds c) c) (\<lambda>c.
     rbind (rd_in_loop cfg [] (rd_in_cmds c) (release_time c) c) (\<lambda>c.
       wr_loop cfg [] (wr_cmds c) c))"

definition issue_phase :: "Config \<Rightarrow> Command \<Rightarrow> Controller \<Rightarrow> (bool \<times> Controller) res" where
  "issue_phase cfg cmd c =
     (if IsRefresh cmd \<or> rd_w_cmds c = [] \<and> rd_in_cmds c = [] \<and> wr_cmds c = []
      then issue_general cfg cmd c
      else rbind (issue_pim cfg c) (\<lambda>c. Inr (True, c)))"

definition idle_step :: "Config \<Rightarrow> int \<Rightarrow> Controller \<Rightarrow> Controller res" where
  "idle_step cfg i c =
     (let cs = channel_state c in
      rbind (IsRankSelfRefreshing cs i) (\<lambda>sref.
        if sref then
          rbind (IncrementVec ''sref_cycles'' i (simple_stats c)) (\<lambda>st. Inr (c\<lparr>simple_stats := st\<rparr>))
        else
          rbind (IsAllBankIdleInRank cfg cs i) (\<lambda>idle.
            if idle then
              rbind (IncrementVec ''all_bank_idle_cycles'' i (simple_stats c)) (\<lambda>st.
              rbind (vmod (rank_idle_cycles cs) i (\<lambda>n. Inr (n + 1))) (\<lambda>v.
                Inr (c\<lparr>simple_stats := st, channel_state := cs\<lparr>rank_idle_cycles := v\<rparr>\<rparr>)))
            else
              rbind (IncrementVec ''rank_active_cycles'' i (simple_stats c)) (\<lambda>st.
              rbind (vset (rank_idle_cycles cs) i 0) (\<lambda>v.
                Inr (c\<lparr>simple_stats := st, channel_state := cs\<lparr>rank_idle_cycles := v\<rparr>\<rparr>))))))"

definition rank_command :: "CommandType \<Rightarrow> int \<Rightarrow> Command" where
  "rank_command t i = mk_command t (no_address\<lparr>rank := i\<rparr>) (-1)"

fun sref_loop :: "Config \<Rightarrow> int list \<Rightarrow> Controller \<Rightarrow> Controller res" where
  "sref_loop cfg [] c = Inr c"
| "sref_loop cfg (i # is) c =
     rbind (IsRankSelfRefreshing (channel_state c) i) (\<lambda>sref.
     rbind (vget (rank_q_empty (cmd_queue c)) i) (\<lambda>empty.
     rbind (if sref then Inr (if \<not> empty then Some (rank_command SREF_EXIT i) else None)
            else if empty then
              rbind (vget (rank_idle_cycles (channel_state c)) i) (\<lambda>n.
                Inr (if n \<ge> sref_threshold cfg then Some (rank_command SREF_ENTER i) else None))
            else Inr None) (\<lambda>wanted.
       case wanted of
         None \<Rightarrow> sref_loop cfg is c
       | Some cmd \<Rightarrow>
           rbind (ChannelState_GetReadyCommand cfg (channel_state c) cmd (ctrl_clk c)) (\<lambda>cmd.
             if IsValid cmd then IssueCommand cfg cmd c else sref_loop cfg is c))))"

definition Controller_ClockTick :: "Config \<Rightarrow> Controller \<Rightarrow> Controller res" where
  "Controller_ClockTick cfg c =
     rbind (Refresh_ClockTick cfg (refresh c) (channel_state c)) (\<lambda>(rf, cs).
     rbind (next_command cfg (c\<lparr>refresh := rf, channel_state := cs\<rparr>)) (\<lambda>(cmd, c).
     rbind (issue_phase cfg cmd c) (\<lambda>(cmd_issued, c).
     rbind (mfold (idle_step cfg) [0..ranks cfg - 1] c) (\<lambda>c.
     rbind (if enable_self_refresh cfg \<and> \<not> cmd_issued then sref_loop cfg [0..ranks cfg - 1] c
            else Inr c) (\<lambda>c.
     rbind (ScheduleTransaction cfg c) (\<lambda>c.
       Inr (c\<lparr>ctrl_clk := ctrl_clk c + 1, cmd_queue := CommandQueue_ClockTick (cmd_queue c),
              simple_stats := Increment ''num_cycles'' (simple_stats c)\<rparr>)))))))"

end
