(* ===== verification/Stats_Safety.thy ===== *)
theory Stats_Safety
  imports Simple_Stats
begin

section \<open>Statistics: the shape of the maps, and that no update fails\<close>

text \<open>
  The constructor of \<^verbatim>\<open>SimpleStats\<close> enters all names; from then on the vectors and histograms are only
  accessed under these names. \<open>stats_ok\<close> states that shape: the vector statistics have one entry per
  rank, and the histograms have the bins that their bounds and bin widths need. Every recording call and the
  updates at the end of an epoch and of the run keep the shape, and no access of them is out of range.
\<close>

subsection \<open>Maps to vectors\<close>

definition shape :: "('k \<times> 'a list) list \<Rightarrow> ('k \<times> nat) list" where
  "shape m = map_vals length m"

lemma shape_Nil [simp]: "shape [] = []"
  by (simp add: shape_def map_vals_def)

lemma shape_Cons [simp]: "shape ((k, v) # m) = (k, length v) # shape m"
  by (simp add: shape_def map_vals_def)

lemma keys_shape: "keys (shape m) = keys m"
  by (simp add: shape_def)

lemma length_at0: "length (at0 m [] n) = at0 (shape m) 0 n"
  by (simp add: at0_def shape_def split: option.split)

lemma shape_map_vals [simp]: "(\<And>v. length (f v) = length v) \<Longrightarrow> shape (map_vals f m) = shape m"
  by (simp add: shape_def map_vals_def case_prod_beta)

lemma shape_put:
  "n \<in> set (keys m) \<Longrightarrow> length v = length (at0 m [] n) \<Longrightarrow> shape (put n v m) = shape m"
  by (induction m) (auto simp: at0_def rev_image_eqI)

lemma shape_entry: "distinct (keys m) \<Longrightarrow> (n, w) \<in> set m \<Longrightarrow> at0 (shape m) 0 n = length w"
  by (simp add: at0_def shape_def)

lemma keys_put: "n \<in> set (keys m) \<Longrightarrow> keys (put n v m) = keys m"
  by (simp add: update_keys)

lemma keys_entry: "(n, v) \<in> set m \<Longrightarrow> keys m = ns \<Longrightarrow> n \<in> set ns"
  by force

lemma at_key_ok: "keys m = ns \<Longrightarrow> n \<in> set ns \<Longrightarrow> \<exists>v. at_key m n = Inr v"
  by (cases "map_of m n") (auto simp: at_key_def map_of_eq_None_iff)

subsection \<open>The invariant\<close>

definition cycle_names :: "string list" where
  "cycle_names = [''all_bank_idle_cycles'', ''rank_active_cycles'', ''sref_cycles'']"

definition background_names :: "string list" where
  "background_names = [''act_stb_energy'', ''pre_stb_energy'', ''sref_energy'']"

definition histo_names :: "string list" where
  "histo_names = [''read_latency'', ''write_latency'', ''interarrival_latency'']"

definition per_rank :: "Config \<Rightarrow> string list \<Rightarrow> (string \<times> nat) list" where
  "per_rank cfg ns = map (\<lambda>n. (n, nat (ranks cfg))) ns"

definition histo_ok :: "SimpleStats \<Rightarrow> bool" where
  "histo_ok s \<longleftrightarrow>
     histo_bounds s = [(''read_latency'', 0, 200), (''write_latency'', 0, 200), (''interarrival_latency'', 0, 100)] \<and>
     bin_widths s = [(''read_latency'', 20), (''write_latency'', 20), (''interarrival_latency'', 10)] \<and>
     shape (histo_bins s) = map (\<lambda>n. (n, 12)) histo_names \<and>
     shape (epoch_histo_bins s) = map (\<lambda>n. (n, 12)) histo_names \<and>
     keys (histo_counts s) = histo_names \<and> keys (epoch_histo_counts s) = histo_names"

definition stats_ok :: "Config \<Rightarrow> SimpleStats \<Rightarrow> bool" where
  "stats_ok cfg s \<longleftrightarrow>
     shape (vec_counters s) = per_rank cfg cycle_names \<and>
     shape (epoch_vec_counters s) = per_rank cfg cycle_names \<and>
     shape (vec_doubles s) = per_rank cfg background_names \<and> histo_ok s"

lemma at0_per_rank: "n \<in> set ns \<Longrightarrow> at0 (per_rank cfg ns) 0 n = nat (ranks cfg)"
  by (induction ns) (auto simp: per_rank_def at0_def)

lemma keys_per_rank: "keys (per_rank cfg ns) = ns"
  by (simp add: per_rank_def o_def)

lemma shape_per_rank:
  assumes "shape m = per_rank cfg ns"
  shows "keys m = ns" "n \<in> set ns \<Longrightarrow> length (at0 m [] n) = nat (ranks cfg)"
  using assms keys_shape [of m] by (simp_all add: keys_per_rank length_at0 at0_per_rank)

lemma distinct_names: "distinct cycle_names" "distinct background_names" "distinct histo_names"
  by (simp_all add: cycle_names_def background_names_def histo_names_def)

subsection \<open>Recording\<close>

lemma stats_ok_counters [simp]:
  "stats_ok cfg (s\<lparr>counters := m\<rparr>) = stats_ok cfg s"
  "stats_ok cfg (s\<lparr>epoch_counters := m\<rparr>) = stats_ok cfg s"
  "stats_ok cfg (s\<lparr>doubles := ds\<rparr>) = stats_ok cfg s"
  "stats_ok cfg (s\<lparr>calculated := cs\<rparr>) = stats_ok cfg s"
  by (simp_all add: stats_ok_def histo_ok_def)

lemma stats_ok_Increment [simp]: "stats_ok cfg (Increment n s) = stats_ok cfg s"
  by (simp add: Increment_def)

lemma histo_names_mem [simp]:
  "''read_latency'' \<in> set histo_names" "''write_latency'' \<in> set histo_names"
  "''interarrival_latency'' \<in> set histo_names"
  by (simp_all add: histo_names_def)

lemma stats_ok_AddValue [simp, intro]:
  "stats_ok cfg s \<Longrightarrow> n \<in> set histo_names \<Longrightarrow> stats_ok cfg (AddValue n v s)"
  by (simp add: stats_ok_def histo_ok_def AddValue_def keys_put)

lemma IncrementVecBy_ok:
  assumes "stats_ok cfg s" and "n \<in> set cycle_names" and "0 \<le> i" "i < ranks cfg"
  obtains s' where "IncrementVecBy n i k s = Inr s'" "stats_ok cfg s'"
proof -
  note e = shape_per_rank [of "epoch_vec_counters s" cfg cycle_names]
  have len: "length (at0 (epoch_vec_counters s) [] n) = nat (ranks cfg)"
    using assms(1,2) e by (simp add: stats_ok_def)
  then obtain v where v: "vmod (at0 (epoch_vec_counters s) [] n) i (\<lambda>x. Inr (x + of_int k)) = Inr v"
    "length v = nat (ranks cfg)"
    using assms(3,4) by (auto simp: vmod_def vget_def)
  have "stats_ok cfg (s\<lparr>epoch_vec_counters := put n v (epoch_vec_counters s)\<rparr>)"
    using assms(1,2) v(2) e len by (simp add: stats_ok_def histo_ok_def shape_put)
  with v that show thesis by (simp add: IncrementVecBy_def)
qed

lemma IncrementVec_By: "IncrementVec n i s = IncrementVecBy n i 1 s"
  by (simp add: IncrementVec_def IncrementVecBy_def)

lemma IncrementVec_ok:
  assumes "stats_ok cfg s" and "n \<in> set cycle_names" and "0 \<le> i" "i < ranks cfg"
  obtains s' where "IncrementVec n i s = Inr s'" "stats_ok cfg s'"
  using IncrementVecBy_ok [OF assms] IncrementVec_By by metis

subsection \<open>End of an epoch\<close>

lemma vec_add_ok: "length w = length v \<Longrightarrow> \<exists>u. vec_add v w = Inr u \<and> length u = length v"
  by (simp add: vec_add_def)

lemma vec_add_all_ok: "length w = length v \<Longrightarrow> \<exists>u. vec_add_all v w = Inr u \<and> length u = length v"
  by (simp add: vec_add_all_def)

lemma UpdateCounters_ok:
  assumes "stats_ok cfg s"
  obtains s' where "UpdateCounters s = Inr s'" "stats_ok cfg s'"
proof -
  let ?f = "\<lambda>(n :: string, w) (m :: u64 list smap). rbind (vec_add (at0 m [] n) w) (\<lambda>v. Inr (put n v m))"
  have sh: "shape (epoch_vec_counters s) = per_rank cfg cycle_names"
    "shape (vec_counters s) = per_rank cfg cycle_names"
    using assms by (simp_all add: stats_ok_def)
  have "\<exists>vs. mfold ?f (epoch_vec_counters s) (vec_counters s) = Inr vs \<and> shape vs = per_rank cfg cycle_names"
  proof (rule mfold_invariant)
    fix x and m :: "u64 list smap"
    assume x: "x \<in> set (epoch_vec_counters s)" and m: "shape m = per_rank cfg cycle_names"
    obtain n w where nw: "x = (n, w)" by (cases x)
    have "at0 (shape (epoch_vec_counters s)) 0 n = length w"
      using shape_entry [of "epoch_vec_counters s" n w] x nw shape_per_rank(1) [OF sh(1)] distinct_names by simp
    then have len: "length w = length (at0 m [] n)" using sh(1) m by (simp add: length_at0)
    obtain u where u: "vec_add (at0 m [] n) w = Inr u" "length u = length (at0 m [] n)"
      using vec_add_ok [OF len] by blast
    have "n \<in> set (keys m)"
      using keys_entry [OF _ shape_per_rank(1) [OF sh(1)]] x nw shape_per_rank(1) [OF m] by simp
    with u m nw show "\<exists>m'. ?f x m = Inr m' \<and> shape m' = per_rank cfg cycle_names"
      by (simp add: shape_put)
  qed (rule sh(2))
  then obtain vs where "mfold ?f (epoch_vec_counters s) (vec_counters s) = Inr vs"
    "shape vs = per_rank cfg cycle_names" by blast
  with assms that show thesis
    by (simp add: UpdateCounters_def Let_def stats_ok_def histo_ok_def)
qed

lemma background_ok:
  assumes "shape vc = per_rank cfg cycle_names" and "shape vd = per_rank cfg background_names"
  shows "\<exists>e vd'. background cfg vc vd = Inr (e, vd') \<and> shape vd' = per_rank cfg background_names"
proof -
  have "\<exists>r. background cfg vc vd = Inr r \<and> shape (snd r) = per_rank cfg background_names"
    unfolding background_def
  proof (rule mfold_invariant)
    fix i :: int and r :: "real \<times> real list smap"
    assume i: "i \<in> set [0..ranks cfg - 1]" and r: "shape (snd r) = per_rank cfg background_names"
    obtain e m where em: "r = (e, m)" by (cases r)
    note c = shape_per_rank [OF assms(1)]
    note b = shape_per_rank [OF r]
    have names: "''rank_active_cycles'' \<in> set cycle_names" "''all_bank_idle_cycles'' \<in> set cycle_names"
      "''sref_cycles'' \<in> set cycle_names" "''act_stb_energy'' \<in> set background_names"
      "''pre_stb_energy'' \<in> set background_names" "''sref_energy'' \<in> set background_names"
      by (simp_all add: cycle_names_def background_names_def)
    have set: "vset (at0 m [] n) i x = Inr ((at0 m [] n)[nat i := x])" if "n \<in> set background_names" for n x
      using b(2) [OF that] i em by (simp add: vset_def vmod_def)
    have get: "vget (at0 vc [] n) i = Inr (at0 vc [] n ! nat i)" if "n \<in> set cycle_names" for n
      using c(2) [OF that] i by simp
    have sh: "shape (put n (v[j := x]) m') = per_rank cfg background_names"
      if "shape m' = per_rank cfg background_names" "n \<in> set background_names" "length v = nat (ranks cfg)"
      for n v j x and m' :: "real list smap"
      using that shape_per_rank [OF that(1)] by (simp add: shape_put)
    have len: "length (at0 m [] n) = nat (ranks cfg)" if "n \<in> set background_names" for n
      using b(2) [OF that] em by simp
    show "\<exists>r'. (case r of (background_energy, vd) \<Rightarrow>
         rbind (vget (at0 vc [] ''rank_active_cycles'') i) (\<lambda>act.
         rbind (vget (at0 vc [] ''all_bank_idle_cycles'') i) (\<lambda>idle.
         rbind (vget (at0 vc [] ''sref_cycles'') i) (\<lambda>sref.
           let act_stb = real (unat act) * act_stb_energy_inc cfg;
               pre_stb = real (unat idle) * pre_stb_energy_inc cfg;
               sref_e = real (unat sref) * sref_energy_inc cfg
           in rbind (vset (at0 vd [] ''act_stb_energy'') i act_stb) (\<lambda>a.
              rbind (vset (at0 vd [] ''pre_stb_energy'') i pre_stb) (\<lambda>p.
              rbind (vset (at0 vd [] ''sref_energy'') i sref_e) (\<lambda>r.
                Inr (background_energy + (act_stb + pre_stb + sref_e),
                     put ''sref_energy'' r (put ''pre_stb_energy'' p (put ''act_stb_energy'' a vd)))))))))) = Inr r' \<and>
       shape (snd r') = per_rank cfg background_names"
      using names get set r em sh len by (simp add: Let_def)
  qed (simp add: assms(2))
  then show ?thesis by auto
qed

lemma histo_layout:
  assumes "histo_ok s" and "n \<in> set histo_names"
  obtains hi w where "at0 (histo_bounds s) (0, 0) n = (0, hi)" "at0 (bin_widths s) 0 n = w"
    "0 < w" "0 \<le> hi" "hi div w + 2 \<le> 12"
proof -
  have "\<exists>hi w. at0 (histo_bounds s) (0, 0) n = (0, hi) \<and> at0 (bin_widths s) 0 n = w \<and>
      0 < w \<and> 0 \<le> hi \<and> hi div w + 2 \<le> 12"
    using assms by (auto simp: histo_ok_def histo_names_def)
  then show thesis using that by blast
qed

lemma UpdateHistoBins_ok:
  assumes "stats_ok cfg s"
  obtains s' where "UpdateHistoBins s = Inr s'" "stats_ok cfg s'"
proof -
  let ?sh = "map (\<lambda>n. (n, 12)) histo_names :: (string \<times> nat) list"
  let ?f = "\<lambda>(n, bins) eb. rbind (fill_bins (at0 (histo_bounds s) (0, 0) n) (at0 (bin_widths s) 0 n)
                         (at0 (epoch_histo_counts s) [] n) bins) (\<lambda>bins'. Inr (put n bins' eb))"
  let ?g = "\<lambda>eb (n, epoch_counts) (hc, hb). rbind (vec_add_all (at0 hb [] n) (at0 eb [] n)) (\<lambda>final_bins.
                  Inr (put n (add_counts epoch_counts (at0 hc [] n)) hc, put n final_bins hb))"
  have h: "histo_ok s" using assms by (simp add: stats_ok_def)
  then have sh: "shape (histo_bins s) = ?sh" "shape (epoch_histo_bins s) = ?sh" by (simp_all add: histo_ok_def)
  have keys: "keys ?sh = histo_names" by (simp add: o_def)
  have at0_sh: "n \<in> set histo_names \<Longrightarrow> at0 ?sh 0 n = 12" for n
    by (auto simp: histo_names_def at0_def)
  have "\<exists>eb. mfold ?f (epoch_histo_bins s) (epoch_histo_bins s) = Inr eb \<and> shape eb = ?sh"
  proof (rule mfold_invariant)
    fix x and m :: "u64 list smap"
    assume x: "x \<in> set (epoch_histo_bins s)" and m: "shape m = ?sh"
    obtain n bins where nw: "x = (n, bins)" by (cases x)
    have km: "keys m = histo_names" "keys (epoch_histo_bins s) = histo_names"
      using keys_shape [of m] keys_shape [of "epoch_histo_bins s"] m sh(2) keys by simp_all
    then have n: "n \<in> set histo_names" using keys_entry [OF _ km(2)] x nw by simp
    have "length bins = 12"
      using shape_entry [of "epoch_histo_bins s" n bins] x nw km(2) sh(2) at0_sh [OF n] distinct_names by simp
    moreover obtain hi w where l: "at0 (histo_bounds s) (0, 0) n = (0, hi)" "at0 (bin_widths s) 0 n = w"
      "0 < w" "0 \<le> hi" "hi div w + 2 \<le> 12" by (rule histo_layout [OF h n])
    ultimately have "ok (fill_bins (0, hi) w (at0 (epoch_histo_counts s) [] n) bins)"
      by (intro fill_bins_ok) simp_all
    then obtain b where b: "fill_bins (0, hi) w (at0 (epoch_histo_counts s) [] n) bins = Inr b" by (rule okE)
    then have "length b = length (at0 m [] n)"
      using fill_bins_sum(2) [OF b] \<open>length bins = 12\<close> m at0_sh [OF n] by (simp add: length_at0)
    with b l nw km n m show "\<exists>m'. ?f x m = Inr m' \<and> shape m' = ?sh" by (simp add: shape_put)
  qed (rule sh(2))
  then obtain eb where eb: "mfold ?f (epoch_histo_bins s) (epoch_histo_bins s) = Inr eb" "shape eb = ?sh" by blast
  have "\<exists>p. mfold (?g eb) (epoch_histo_counts s) (histo_counts s, histo_bins s) = Inr p \<and>
      (shape (snd p) = ?sh \<and> keys (fst p) = histo_names)"
  proof (rule mfold_invariant)
    fix x and p :: "histo smap \<times> u64 list smap"
    assume x: "x \<in> set (epoch_histo_counts s)" and p: "shape (snd p) = ?sh \<and> keys (fst p) = histo_names"
    obtain n e where ne: "x = (n, e)" by (cases x)
    obtain hc hb where hp: "p = (hc, hb)" by (cases p)
    have n: "n \<in> set histo_names" using keys_entry [of n e] x ne h by (auto simp: histo_ok_def)
    have hb: "keys hb = histo_names" using keys_shape [of hb] p hp keys by simp
    obtain u where "vec_add_all (at0 hb [] n) (at0 eb [] n) = Inr u" "length u = length (at0 hb [] n)"
      using vec_add_all_ok [of "at0 eb [] n" "at0 hb [] n"] eb(2) p hp by (auto simp: length_at0)
    then show "\<exists>q. ?g eb x p = Inr q \<and> (shape (snd q) = ?sh \<and> keys (fst q) = histo_names)"
      using ne hp p n hb by (simp add: shape_put keys_put)
  qed (use h sh(1) in \<open>simp add: histo_ok_def\<close>)
  then obtain hc hb where "mfold (?g eb) (epoch_histo_counts s) (histo_counts s, histo_bins s) = Inr (hc, hb)"
    "shape hb = ?sh" "keys hc = histo_names" by auto
  with assms eb that show thesis
    by (simp add: UpdateHistoBins_def stats_ok_def histo_ok_def)
qed

lemma UpdateEpochStats_ok:
  assumes "stats_ok cfg s"
  obtains s' where "UpdateEpochStats cfg s = Inr s'" "stats_ok cfg s'"
proof -
  obtain s1 where s1: "UpdateCounters s = Inr s1" "stats_ok cfg s1" by (rule UpdateCounters_ok [OF assms])
  obtain e vd where vd: "background cfg (epoch_vec_counters s1) (vec_doubles s1) = Inr (e, vd)"
    "shape vd = per_rank cfg background_names"
    using background_ok [of "epoch_vec_counters s1" cfg "vec_doubles s1"] s1(2) by (auto simp: stats_ok_def)
  let ?ds = "put_energies cfg (epoch_counters s1) (epoch_counters s1) (doubles s1)"
  have "stats_ok cfg (s1\<lparr>doubles := ?ds, vec_doubles := vd\<rparr>)"
    using s1(2) vd(2) by (simp add: stats_ok_def histo_ok_def)
  then obtain s2 where s2: "UpdateHistoBins (s1\<lparr>doubles := ?ds, vec_doubles := vd\<rparr>) = Inr s2" "stats_ok cfg s2"
    by (rule UpdateHistoBins_ok)
  have at: "\<exists>h. at_key (epoch_histo_counts s2) n = Inr h" if "n \<in> set histo_names" for n
    using s2(2) that by (intro at_key_ok) (simp_all add: stats_ok_def histo_ok_def)
  obtain rl il where "at_key (epoch_histo_counts s2) ''read_latency'' = Inr rl"
    "at_key (epoch_histo_counts s2) ''interarrival_latency'' = Inr il"
    using at [OF histo_names_mem(1)] at [OF histo_names_mem(3)] by blast
  then show thesis
    using s1(1) vd(1) s2 that by (simp add: UpdateEpochStats_def Let_def stats_ok_def histo_ok_def)
qed

lemma UpdateFinalStats_ok:
  assumes "stats_ok cfg s"
  obtains s' where "UpdateFinalStats cfg s = Inr s'" "stats_ok cfg s'"
proof -
  obtain s1 where s1: "UpdateCounters s = Inr s1" "stats_ok cfg s1" by (rule UpdateCounters_ok [OF assms])
  obtain e vd where vd: "background cfg (vec_counters s1) (vec_doubles s1) = Inr (e, vd)"
    "shape vd = per_rank cfg background_names"
    using background_ok [of "vec_counters s1" cfg "vec_doubles s1"] s1(2) by (auto simp: stats_ok_def)
  let ?ds = "put_energies cfg (counters s1) (epoch_counters s1) (doubles s1)"
  have "stats_ok cfg (s1\<lparr>doubles := ?ds, vec_doubles := vd\<rparr>)"
    using s1(2) vd(2) by (simp add: stats_ok_def histo_ok_def)
  then obtain s2 where s2: "UpdateHistoBins (s1\<lparr>doubles := ?ds, vec_doubles := vd\<rparr>) = Inr s2" "stats_ok cfg s2"
    by (rule UpdateHistoBins_ok)
  have at: "\<exists>h. at_key (histo_counts s2) n = Inr h" if "n \<in> set histo_names" for n
    using s2(2) that by (intro at_key_ok) (simp_all add: stats_ok_def histo_ok_def)
  obtain rl il where "at_key (histo_counts s2) ''read_latency'' = Inr rl"
    "at_key (histo_counts s2) ''interarrival_latency'' = Inr il"
    using at [OF histo_names_mem(1)] at [OF histo_names_mem(3)] by blast
  then show thesis
    using s1(1) vd(1) s2 that by (simp add: UpdateFinalStats_def Let_def stats_ok_def histo_ok_def)
qed

subsection \<open>Construction\<close>

lemma InitStat_frame [simp]:
  "vec_counters (InitStat n ty s) = vec_counters s" "epoch_vec_counters (InitStat n ty s) = epoch_vec_counters s"
  "vec_doubles (InitStat n ty s) = vec_doubles s" "histo_bounds (InitStat n ty s) = histo_bounds s"
  "bin_widths (InitStat n ty s) = bin_widths s" "histo_counts (InitStat n ty s) = histo_counts s"
  "epoch_histo_counts (InitStat n ty s) = epoch_histo_counts s" "histo_bins (InitStat n ty s) = histo_bins s"
  "epoch_histo_bins (InitStat n ty s) = epoch_histo_bins s"
  by (simp_all add: InitStat_def)

lemma stats_ok_InitStat [simp]: "stats_ok cfg (InitStat n ty s) = stats_ok cfg s"
  by (simp add: stats_ok_def histo_ok_def)

lemma stats_ok_InitStats [simp]: "stats_ok cfg (fold (\<lambda>n. InitStat n ty) ns s) = stats_ok cfg s"
  by (induction ns arbitrary: s) simp_all

lemma mk_stats_ok:
  assumes "0 \<le> ranks cfg"
  obtains s where "mk_stats cfg = Inr s" "stats_ok cfg s"
proof -
  let ?s = "fold (\<lambda>n. InitStat n ''double'') double_names (fold (\<lambda>n. InitStat n ''counter'') counter_names stats0)"
  define s where "s = ?s"
  have empty: "vec_counters s = [] \<and> epoch_vec_counters s = [] \<and> vec_doubles s = [] \<and> histo_bounds s = [] \<and>
      bin_widths s = [] \<and> histo_counts s = [] \<and> epoch_histo_counts s = [] \<and> histo_bins s = [] \<and> epoch_histo_bins s = []"
    unfolding s_def by (simp add: counter_names_def double_names_def stats0_def)
  let ?z = "replicate (nat (ranks cfg)) 0" and ?r = "replicate (nat (ranks cfg)) 0"
  let ?b = "replicate 12 0"
  let ?vc = "[(''all_bank_idle_cycles'', ?z), (''rank_active_cycles'', ?z), (''sref_cycles'', ?z)]"
  define s1 where "s1 = s\<lparr>vec_counters := ?vc, epoch_vec_counters := ?vc\<rparr>"
  have s1: "mfold (\<lambda>n. InitVecStat n ''vec_counter'' (ranks cfg))
      [''all_bank_idle_cycles'', ''rank_active_cycles'', ''sref_cycles''] s = Inr s1"
    using assms empty by (simp add: InitVecStat_def emplace_def s1_def)
  define s2 where "s2 = s1\<lparr>vec_doubles := [(''act_stb_energy'', ?r), (''pre_stb_energy'', ?r), (''sref_energy'', ?r)]\<rparr>"
  have s2: "mfold (\<lambda>n. InitVecStat n ''vec_double'' (ranks cfg))
      [''act_stb_energy'', ''pre_stb_energy'', ''sref_energy''] s1 = Inr s2"
    using assms empty by (simp add: InitVecStat_def emplace_def s2_def s1_def)
  have histo: "InitHistoStat n 0 (10 * w) 10 t = Inr (t\<lparr>bin_widths := emplace n w (bin_widths t),
      histo_bounds := emplace n (0, 10 * w) (histo_bounds t), histo_counts := emplace n [] (histo_counts t),
      epoch_histo_counts := emplace n [] (epoch_histo_counts t), histo_bins := emplace n ?b (histo_bins t),
      epoch_histo_bins := emplace n ?b (epoch_histo_bins t)\<rparr>)" if "0 \<le> w" for n w t
    using that by (simp add: InitHistoStat_def idiv_def)
  obtain s5 where s5: "rbind (InitHistoStat ''read_latency'' 0 200 10 s2) (\<lambda>s.
      rbind (InitHistoStat ''write_latency'' 0 200 10 s) (InitHistoStat ''interarrival_latency'' 0 100 10)) = Inr s5"
    and ok: "stats_ok cfg s5"
    using histo [of 20 "''read_latency''"] histo [of 20 "''write_latency''"] histo [of 10 "''interarrival_latency''"] empty
    by (simp add: emplace_def s2_def s1_def stats_ok_def histo_ok_def per_rank_def cycle_names_def
        background_names_def histo_names_def)
  have "mk_stats cfg = Inr (fold (\<lambda>n. InitStat n ''calculated'') calculated_names s5)"
    unfolding mk_stats_def Let_def s_def [symmetric] s1 rbind_Inr s2
    using s5 by (auto elim!: rbindE)
  then show thesis using that ok by simp
qed

subsection \<open>Properties\<close>

text \<open>The calls the program makes: known names, and ranks of the configuration.\<close>

fun stat_op_ok :: "Config \<Rightarrow> stat_op \<Rightarrow> bool" where
  "stat_op_ok cfg (Inc n) \<longleftrightarrow> True"
| "stat_op_ok cfg (IncVec n i) \<longleftrightarrow> n \<in> set cycle_names \<and> 0 \<le> i \<and> i < ranks cfg"
| "stat_op_ok cfg (IncVecBy n i k) \<longleftrightarrow> n \<in> set cycle_names \<and> 0 \<le> i \<and> i < ranks cfg"
| "stat_op_ok cfg (Val n v) \<longleftrightarrow> n \<in> set histo_names"
| "stat_op_ok cfg Epoch \<longleftrightarrow> True"

lemma stat_step_ok:
  assumes "stat_op_ok cfg op" and "stats_ok cfg s"
  shows "\<exists>s'. stat_step cfg op s = Inr s' \<and> stats_ok cfg s'"
proof (cases op)
  case (IncVec n i)
  then show ?thesis using IncrementVec_ok [OF assms(2), of n i] assms(1) by auto
next
  case (IncVecBy n i k)
  then show ?thesis using IncrementVecBy_ok [OF assms(2), of n i k] assms(1) by auto
next
  case Epoch
  then show ?thesis using UpdateEpochStats_ok [OF assms(2)] by auto
qed (use assms in auto)

text \<open>
  C27. No statistics call fails: on the statistics the constructor builds, every sequence of increments,
  vector increments for the ranks of the configuration, recorded values and epoch ends returns, and so does
  the final update. In particular every vector and histogram access stays in range and every name that
  \<^verbatim>\<open>at\<close> looks up is present.
\<close>

theorem statistics_never_fail:
  assumes "mk_stats cfg = Inr s" and "0 \<le> ranks cfg" and "list_all (stat_op_ok cfg) ops"
  shows "\<exists>s1 s2. mfold (stat_step cfg) ops s = Inr s1 \<and> UpdateFinalStats cfg s1 = Inr s2"
proof -
  have "stats_ok cfg s" using mk_stats_ok [OF assms(2)] assms(1) by fastforce
  then have "\<exists>s1. mfold (stat_step cfg) ops s = Inr s1 \<and> stats_ok cfg s1"
    using stat_step_ok assms(3) by (intro mfold_invariant) (auto simp: list_all_iff)
  then show ?thesis using UpdateFinalStats_ok by metis
qed

definition long_run :: "stat_op list" where
  "long_run = [IncVec ''rank_active_cycles'' 0, Val ''read_latency'' 30, Epoch, Inc ''num_act_cmds'',
     IncVecBy ''sref_cycles'' 1 7, Val ''interarrival_latency'' (-4), Epoch, Val ''write_latency'' 900]"

theorem statistics_never_fail_witness:
  "\<exists>s s1 s2. mk_stats (config0\<lparr>ranks := 2\<rparr>) = Inr s \<and> mfold (stat_step (config0\<lparr>ranks := 2\<rparr>)) long_run s = Inr s1 \<and>
     UpdateFinalStats (config0\<lparr>ranks := 2\<rparr>) s1 = Inr s2"
proof -
  obtain s where s: "mk_stats (config0\<lparr>ranks := 2\<rparr>) = Inr s"
    by (rule mk_stats_ok [of "config0\<lparr>ranks := 2\<rparr>"]) simp_all
  have "list_all (stat_op_ok (config0\<lparr>ranks := 2\<rparr>)) long_run"
    by (simp add: long_run_def cycle_names_def)
  with s statistics_never_fail [OF s] show ?thesis by simp
qed

end
