(* ===== verification/Controller_Safety.thy ===== *)
theory Controller_Safety
  imports Controller Stats_Safety
begin

section \<open>The controller: invariant, absence of aborts, conservation of transactions\<close>

text \<open>
  Properties of the model of \<^verbatim>\<open>src/controller.cc\<close>. The invariant \<open>ctrl_inv\<close> ties the parts of the
  controller together: the invariants of channel state, command queue and refresh scheduler, and that
  the addresses waiting in transaction and command queues (\<open>reads_of\<close>, \<open>writes_of\<close>) occur once and are
  pending. Every phase of a clock cycle is shown to return, to keep the invariant and to keep the
  transactions in flight (\<open>in_flight\<close>); \<open>issuable\<close> is what the phases promise about a command they
  hand to \<^verbatim>\<open>IssueCommand\<close>. The controller is an instance of the locale \<open>bag_buffer\<close>.
\<close>

subsection \<open>Statistics\<close>

lemma first_ready_stats:
  "first_ready cfg cs clk prev q st = Inr (c, st') \<Longrightarrow> stats_ok cfg' st' = stats_ok cfg' st"
proof (induction cfg cs clk prev q st rule: first_ready.induct)
  case (2 cfg cs clk prev d rest st)
  from "2.prems" obtain r where r: "ChannelState_GetReadyCommand cfg cs d clk = Inr r"
    by (auto elim: rbindE)
  show ?case
  proof (cases "IsValid r \<and> cmd_type r = PRECHARGE")
    case True
    with "2.prems" r obtain g st1 where g: "ArbitratePrecharge cs prev d rest st = Inr (g, st1)"
      and rest: "(if \<not> g then first_ready cfg cs clk (prev @ [d]) rest st1 else Inr (r, st1)) = Inr (c, st')"
      by (auto elim: rbindE)
    have "stats_ok cfg' st1 = stats_ok cfg' st"
      using ArbitratePrecharge_Inr(2) [OF g] by simp
    then show ?thesis using rest 2(2) [OF r _ _ g refl] True by (auto split: if_splits)
  next
    case False
    then show ?thesis using "2.prems" r 2(1,3) by (auto split: if_splits)
  qed
qed simp

lemma issue_loop_stats:
  "issue_loop n cfg cs cq st = Inr (c, cq', st') \<Longrightarrow> stats_ok cfg' st' = stats_ok cfg' st"
proof (induction n arbitrary: cq st)
  case (Suc n)
  then obtain q cq1 where q: "GetNextQueue cq = Inr (q, cq1)" by (auto elim: rbindE)
  show ?case
  proof (cases "is_in_ref cq1 \<and> queue_idx cq1 \<in> ref_q_indices cq1")
    case True
    then show ?thesis using Suc q by auto
  next
    case False
    with Suc.prems q obtain d st1 where d: "first_ready cfg cs (cq_clk cq1) [] q st = Inr (d, st1)"
      by (auto simp: GetFirstReadyInQueue_def elim: rbindE)
    note frame = first_ready_stats [OF d, of cfg']
    show ?thesis
    proof (cases "IsValid d")
      case True
      then show ?thesis
        using Suc.prems q d \<open>\<not> _\<close> frame by (auto simp: GetFirstReadyInQueue_def elim!: rbindE split: if_splits)
    next
      case False
      then show ?thesis
        using Suc.prems q d \<open>\<not> (_ \<and> _)\<close> frame Suc.IH by (auto simp: GetFirstReadyInQueue_def)
    qed
  qed
qed simp

lemma GetCommandToIssue_stats:
  "GetCommandToIssue cfg cs cq st = Inr (c, cq', st') \<Longrightarrow> stats_ok cfg' st' = stats_ok cfg' st"
  unfolding GetCommandToIssue_def by (rule issue_loop_stats)

subsection \<open>Invariant\<close>

definition config_ok :: "Config \<Rightarrow> bool" where
  "config_ok cfg \<longleftrightarrow> dims_wf cfg \<and>
     (\<forall>h. in_range cfg (rank (AddressMapping cfg h), bankgroup (AddressMapping cfg h),
                        bank (AddressMapping cfg h)))"

text \<open>The transactions that wait to be translated, and the addresses that are read or written by them
  or by the commands made from them.\<close>

definition trans_items :: "Controller \<Rightarrow> Transaction list" where
  "trans_items c = items (unified_queue c) @ items (read_queue c) @ items (write_buffer c)"

definition reads_of :: "Controller \<Rightarrow> u64 multiset" where
  "reads_of c = mset (map trans_addr (filter (\<lambda>t. \<not> is_write t) (trans_items c))) +
     image_mset hex_addr (filter_mset IsRead (pending (cmd_queue c)))"

definition writes_of :: "Controller \<Rightarrow> u64 multiset" where
  "writes_of c = mset (map trans_addr (filter is_write (trans_items c))) +
     image_mset hex_addr (filter_mset IsWrite (pending (cmd_queue c)))"

definition rd_keys :: "Controller \<Rightarrow> u64 set" where
  "rd_keys c = fst ` set (pending_rd_q c)"

definition wr_keys :: "Controller \<Rightarrow> u64 set" where
  "wr_keys c = fst ` set (pending_wr_q c)"

text \<open>The commands of the processing units: accesses and activations of a bank that exists.\<close>

definition pim_types :: "CommandType set" where
  "pim_types = {LH_READ, LH_READ_PRECHARGE, GH_READ, GH_READ_PRECHARGE, PIM_WRITE, PIM_WRITE_PRECHARGE,
     PIM_ACTIVATE}"

definition pim_wf :: "Config \<Rightarrow> Command \<Rightarrow> bool" where
  "pim_wf cfg d \<longleftrightarrow> cmd_type d \<in> pim_types \<and> in_range cfg (Rank d, Bankgroup d, Bank d)"

definition queues_inv :: "Controller \<Rightarrow> bool" where
  "queues_inv c \<longleftrightarrow> reads_of c \<subseteq># mset_set (rd_keys c) \<and> writes_of c \<subseteq># mset_set (wr_keys c) \<and>
     distinct (map fst (pending_wr_q c)) \<and>
     list_all (\<lambda>t. \<not> is_write t) (items (read_queue c)) \<and> list_all is_write (items (write_buffer c)) \<and>
     0 \<le> write_draining c \<and> write_draining c \<le> int (length (items (write_buffer c)))"

definition pim_inv :: "Config \<Rightarrow> Controller \<Rightarrow> bool" where
  "pim_inv cfg c \<longleftrightarrow> list_all (pim_wf cfg) (rd_w_cmds c @ rd_in_cmds c @ wr_cmds c) \<and>
     length (release_time c) = length (rd_in_cmds c)"

definition ctrl_inv :: "Config \<Rightarrow> Controller \<Rightarrow> bool" where
  "ctrl_inv cfg c \<longleftrightarrow> channel_inv cfg (channel_state c) \<and> True \<notin> set (rank_is_sref (channel_state c)) \<and>
     cq_inv cfg (cmd_queue c) \<and> refresh_inv cfg (refresh c) \<and> 0 < refresh_interval (refresh c) \<and>
     refresh_interval (refresh c) < 2 ^ 63 \<and> stats_ok cfg (simple_stats c) \<and> queues_inv c \<and> pim_inv cfg c"

text \<open>The transactions a controller holds for its caller.\<close>

definition in_flight :: "Controller \<Rightarrow> (u64 \<times> bool) multiset" where
  "in_flight c = image_mset (\<lambda>t. (trans_addr t, is_write t))
     (mset (map snd (pending_rd_q c)) + mset (return_queue c))"

subsection \<open>Multimaps\<close>

lemma mm_find_Some: "mm_find m a = Some t \<Longrightarrow> a \<in> fst ` set m"
  by (force simp: mm_find_def dest: map_of_SomeD)

lemma mm_find_None: "mm_find m a = None \<longleftrightarrow> a \<notin> fst ` set m"
  by (simp add: mm_find_def map_of_eq_None_iff)

lemma mm_count_0: "mm_count m a = 0 \<longleftrightarrow> a \<notin> fst ` set m"
  by (force simp: mm_count_def filter_empty_conv)

lemma mm_erase_find:
  "mm_find m a = Some t \<Longrightarrow> mset m = add_mset (a, t) (mset (mm_erase a m))"
  by (induction m) (auto simp: mm_find_def mm_erase_def split: if_splits)

lemma mm_count_erase: "mm_find m a = Some t \<Longrightarrow> mm_count m a = Suc (mm_count (mm_erase a m) a)"
  by (induction m) (auto simp: mm_find_def mm_erase_def mm_count_def split: if_splits)

lemma mm_erase_keys: "fst ` set (mm_erase a m) - {a} = fst ` set m - {a}"
  by (induction m) (auto simp: mm_erase_def split: if_splits)

lemma mm_erase_distinct:
  "distinct (map fst m) \<Longrightarrow> distinct (map fst (mm_erase a m)) \<and> fst ` set (mm_erase a m) = fst ` set m - {a}"
  by (induction m) (auto simp: mm_erase_def intro: rev_image_eqI split: if_splits)

lemma subset_mset_set_drop:
  "M \<subseteq># mset_set K \<Longrightarrow> a \<notin># M \<Longrightarrow> finite K \<Longrightarrow> K' - {a} = K - {a} \<Longrightarrow> M \<subseteq># mset_set K'"
proof -
  assume M: "M \<subseteq># mset_set K" and a: "a \<notin># M" and K: "finite K" "K' - {a} = K - {a}"
  have fin: "finite K'" by (rule finite_subset [of _ "insert a K"]) (use K in auto)
  show "M \<subseteq># mset_set K'"
  proof (rule mset_subset_eqI)
    fix x
    show "count M x \<le> count (mset_set K') x"
    proof (cases "x = a")
      case True
      then show ?thesis using a by (simp add: not_in_iff)
    next
      case False
      have "count M x \<le> count (mset_set K) x" using M by (rule mset_subset_eq_count)
      then show ?thesis using False K fin by (auto simp: count_mset_set' split: if_splits)
    qed
  qed
qed

lemma subset_mset_set_unique:
  assumes "add_mset a M \<subseteq># mset_set K" and "finite K"
  shows "a \<in> K" "a \<notin># M" "M \<subseteq># mset_set K"
proof -
  have c: "count (add_mset a M) x \<le> count (mset_set K) x" for x
    using assms(1) by (rule mset_subset_eq_count)
  show "a \<in> K" using c [of a] assms(2) by (auto simp: count_mset_set' split: if_splits)
  show "a \<notin># M" using c [of a] assms(2) by (auto simp: count_mset_set' count_eq_zero_iff [symmetric] split: if_splits)
  show "M \<subseteq># mset_set K" by (rule subset_mset.order_trans [OF _ assms(1)]) simp
qed

lemma return_reads_spec:
  assumes "mm_count (pending_rd_q c) a = n"
  shows "\<exists>m q. return_reads n a t c = Inr (c\<lparr>return_queue := q, pending_rd_q := m\<rparr>) \<and>
    a \<notin> fst ` set m \<and> fst ` set m - {a} = rd_keys c - {a} \<and>
    in_flight (c\<lparr>return_queue := q, pending_rd_q := m\<rparr>) = in_flight c"
  using assms
proof (induction n arbitrary: c)
  case 0
  then have "a \<notin> fst ` set (pending_rd_q c)" by (simp add: mm_count_0)
  then show ?case
    by (intro exI [of _ "pending_rd_q c"] exI [of _ "return_queue c"]) (simp add: rd_keys_def)
next
  case (Suc n)
  then have "a \<in> fst ` set (pending_rd_q c)" using mm_count_0 [of "pending_rd_q c" a] by fastforce
  then obtain tr where tr: "mm_find (pending_rd_q c) a = Some tr"
    using mm_find_None [of "pending_rd_q c" a] by fastforce
  let ?c = "c\<lparr>return_queue := return_queue c @ [tr\<lparr>complete_cycle := t\<rparr>],
              pending_rd_q := mm_erase a (pending_rd_q c)\<rparr>"
  have n: "mm_count (pending_rd_q ?c) a = n" using mm_count_erase [OF tr] Suc.prems by simp
  have keys: "rd_keys ?c - {a} = rd_keys c - {a}" by (simp add: rd_keys_def mm_erase_keys)
  have "mset (map snd (pending_rd_q c)) = add_mset tr (mset (map snd (mm_erase a (pending_rd_q c))))"
    using mm_erase_find [OF tr] by simp
  then have fl: "in_flight ?c = in_flight c" by (simp add: in_flight_def)
  from Suc.IH [OF n] obtain m q where
    "return_reads n a t ?c = Inr (?c\<lparr>return_queue := q, pending_rd_q := m\<rparr>)" "a \<notin> fst ` set m"
    "fst ` set m - {a} = rd_keys ?c - {a}"
    "in_flight (?c\<lparr>return_queue := q, pending_rd_q := m\<rparr>) = in_flight ?c" by blast
  then show ?case using tr keys fl
    by (intro exI [of _ m] exI [of _ q]) (simp add: in_flight_def)
qed

subsection \<open>Issuing a command\<close>

text \<open>A command that may be issued: the channel offers it, and a read or write is pending and no longer queued.\<close>

definition offered :: "Config \<Rightarrow> ChannelState \<Rightarrow> Command \<Rightarrow> bool" where
  "offered cfg cs r \<longleftrightarrow> IsValid r \<and>
     (\<exists>d clk. request_wf cfg d \<and> cmd_type d \<noteq> SREF_ENTER \<and> ChannelState_GetReadyCommand cfg cs d clk = Inr r)"

definition issuable :: "Config \<Rightarrow> Controller \<Rightarrow> Command \<Rightarrow> bool" where
  "issuable cfg c r \<longleftrightarrow> offered cfg (channel_state c) r \<and>
     (IsRead r \<longrightarrow> hex_addr r \<in> rd_keys c \<and> hex_addr r \<notin># reads_of c) \<and>
     (IsWrite r \<longrightarrow> hex_addr r \<in> wr_keys c \<and> hex_addr r \<notin># writes_of c)"

text \<open>What issuing a command leaves alone.\<close>

definition ctrl_frame :: "Controller \<Rightarrow> Controller \<Rightarrow> bool" where
  "ctrl_frame c c' \<longleftrightarrow>
     cmd_queue c' = cmd_queue c \<and> refresh c' = refresh c \<and> rd_w_cmds c' = rd_w_cmds c \<and>
     rd_in_cmds c' = rd_in_cmds c \<and> wr_cmds c' = wr_cmds c \<and> release_time c' = release_time c \<and>
     trans_items c' = trans_items c \<and> ctrl_clk c' = ctrl_clk c \<and> wr_multitenant c' = wr_multitenant c"

text \<open>What issuing commands of the processing units leaves alone.\<close>

definition pim_frame :: "Controller \<Rightarrow> Controller \<Rightarrow> bool" where
  "pim_frame c c' \<longleftrightarrow> cmd_queue c' = cmd_queue c \<and> trans_items c' = trans_items c \<and>
     pending_rd_q c' = pending_rd_q c \<and> in_flight c' = in_flight c \<and> ctrl_clk c' = ctrl_clk c"

lemma pim_frame_trans: "pim_frame a b \<Longrightarrow> pim_frame b c \<Longrightarrow> pim_frame a c"
  by (simp add: pim_frame_def)

lemma offered_type:
  assumes "offered cfg cs r" and "dims_wf cfg"
  shows "cmd_type r \<noteq> SREF_ENTER" "cmd_type r \<noteq> CommandType_SIZE"
proof -
  from assms(1) obtain d clk where d: "IsValid r" "cmd_type d \<noteq> SREF_ENTER"
    "ChannelState_GetReadyCommand cfg cs d clk = Inr r" by (auto simp: offered_def)
  from d(3,1) assms(2) show "cmd_type r \<noteq> SREF_ENTER"
  proof (cases rule: ready_cases)
    case (bank b t)
    then show ?thesis using d(2)
      by (auto simp: bank_ready_def required_type_def split: State.splits if_splits CommandType.splits)
  qed (use d(2) in auto)
  show "cmd_type r \<noteq> CommandType_SIZE" using d(1) by (simp add: IsValid_def)
qed

lemma UpdateState_sref:
  assumes "UpdateTimingAndStates cfg tm cs r clk = Inr cs'" and "cmd_type r \<noteq> SREF_ENTER"
    and "True \<notin> set (rank_is_sref cs)"
  shows "True \<notin> set (rank_is_sref cs')"
proof -
  from assms(1) obtain cs1 where cs1: "ChannelState_UpdateState cfg cs r = Inr cs1"
    "ChannelState_UpdateTiming cfg tm cs1 r clk = Inr cs'"
    by (auto simp: UpdateTimingAndStates_def elim: rbindE)
  have "True \<notin> set (rank_is_sref cs1)"
    using cs1(1) assms(2,3)
    by (auto simp: ChannelState_UpdateState_def Let_def vset_def vmod_Inr elim!: rbindE split: if_splits
        dest!: subsetD [OF set_update_subset_insert])
  then show ?thesis using UpdateTiming_frame(2) [OF cs1(2)] by simp
qed

lemma UpdateCommandStats_ok:
  assumes "channel_inv cfg (channel_state c)" and "request_wf cfg r" and "cmd_type r \<noteq> CommandType_SIZE"
    and "stats_ok cfg (simple_stats c)"
  obtains st where "UpdateCommandStats r c = Inr (c\<lparr>simple_stats := st\<rparr>)" "stats_ok cfg st"
proof -
  have hit: "\<exists>st'. row_hit n c r st = Inr st' \<and> stats_ok cfg st'"
    if "\<not> IsRankCMD r" "stats_ok cfg st" for n st
  proof -
    have "in_range cfg (Rank r, Bankgroup r, Bank r)" using assms(2) that by (simp add: request_wf_def)
    then obtain b where "bank_at (bank_states (channel_state c)) (Rank r, Bankgroup r, Bank r) = Inr b"
      using channel_invD(3) [OF assms(1)] by blast
    then show ?thesis using that(2) by (simp add: row_hit_def RowHitCount_def)
  qed
  have "\<exists>st. command_stats r c = Inr st \<and> stats_ok cfg st"
  proof (cases "IsRankCMD r")
    case True
    then show ?thesis using assms(4) by (auto simp: command_stats_def IsRankCMD_def)
  next
    case False
    have "\<forall>n m. \<exists>st'. row_hit n c r (Increment m (simple_stats c)) = Inr st' \<and> stats_ok cfg st'"
      using hit [OF False] assms(4) by simp
    then obtain f where f: "\<And>n m. row_hit n c r (Increment m (simple_stats c)) = Inr (f n m)"
      "\<And>n m. stats_ok cfg (f n m)" by metis
    then show ?thesis
      using assms(3,4) False by (cases "cmd_type r") (simp_all add: command_stats_def IsRankCMD_def)
  qed
  then show thesis using that by (auto simp: UpdateCommandStats_def)
qed

lemma complete_pending_ok:
  assumes inv: "queues_inv c"
    and rd: "IsRead r \<Longrightarrow> hex_addr r \<in> rd_keys c \<and> hex_addr r \<notin># reads_of c"
    and wr: "IsWrite r \<Longrightarrow> hex_addr r \<in> wr_keys c \<and> hex_addr r \<notin># writes_of c"
    and st: "stats_ok cfg' (simple_stats c)"
  obtains c' where "complete_pending cfg r c = Inr c'" "queues_inv c'" "in_flight c' = in_flight c"
    "ctrl_frame c c'" "channel_state c' = channel_state c" "stats_ok cfg' (simple_stats c')"
    "\<not> IsRead r \<longrightarrow> pending_rd_q c' = pending_rd_q c"
proof -
  consider "IsRead r" | "\<not> IsRead r" "IsWrite r" | "\<not> IsRead r" "\<not> IsWrite r" by blast
  then have "\<exists>c'. complete_pending cfg r c = Inr c' \<and> queues_inv c' \<and> in_flight c' = in_flight c \<and>
    ctrl_frame c c' \<and> channel_state c' = channel_state c \<and> stats_ok cfg' (simple_stats c') \<and>
    (\<not> IsRead r \<longrightarrow> pending_rd_q c' = pending_rd_q c)"
  proof cases
    case 1
    let ?n = "mm_count (pending_rd_q c) (hex_addr r)"
    have "?n \<noteq> 0" using rd [OF 1] mm_count_0 by (simp add: rd_keys_def)
    obtain m q where mq: "return_reads ?n (hex_addr r) (ctrl_clk c + of_int (read_delay cfg)) c =
        Inr (c\<lparr>return_queue := q, pending_rd_q := m\<rparr>)"
      "fst ` set m - {hex_addr r} = rd_keys c - {hex_addr r}" "in_flight (c\<lparr>return_queue := q, pending_rd_q := m\<rparr>) = in_flight c"
      using return_reads_spec [OF refl, of c "hex_addr r"] by blast
    let ?c = "c\<lparr>return_queue := q, pending_rd_q := m\<rparr>"
    have "reads_of c \<subseteq># mset_set (fst ` set m)"
      by (rule subset_mset_set_drop [of _ "rd_keys c" "hex_addr r"])
        (use inv rd [OF 1] mq(2) in \<open>auto simp: queues_inv_def rd_keys_def\<close>)
    then have "queues_inv ?c"
      using inv by (simp add: queues_inv_def reads_of_def writes_of_def trans_items_def rd_keys_def wr_keys_def)
    then show ?thesis
      using mq 1 \<open>?n \<noteq> 0\<close> st by (simp add: complete_pending_def ctrl_frame_def trans_items_def)
  next
    case 2
    then obtain t where t: "mm_find (pending_wr_q c) (hex_addr r) = Some t"
      using wr mm_find_None [of "pending_wr_q c" "hex_addr r"] by (fastforce simp: wr_keys_def)
    have d: "distinct (map fst (mm_erase (hex_addr r) (pending_wr_q c)))"
      "fst ` set (mm_erase (hex_addr r) (pending_wr_q c)) = wr_keys c - {hex_addr r}"
      using mm_erase_distinct [of "pending_wr_q c"] inv by (auto simp: queues_inv_def wr_keys_def)
    have "writes_of c \<subseteq># mset_set (fst ` set (mm_erase (hex_addr r) (pending_wr_q c)))"
      by (rule subset_mset_set_drop [of _ "wr_keys c" "hex_addr r"])
        (use inv wr [OF 2(2)] d(2) in \<open>auto simp: queues_inv_def wr_keys_def\<close>)
    then show ?thesis
      using inv 2 t d st
      by (simp add: complete_pending_def Let_def queues_inv_def reads_of_def writes_of_def trans_items_def
          rd_keys_def wr_keys_def ctrl_frame_def in_flight_def)
  next
    case 3
    then show ?thesis using inv st by (simp add: complete_pending_def ctrl_frame_def)
  qed
  then show thesis using that by blast
qed

lemma queues_inv_cong:
  assumes "cmd_queue c' = cmd_queue c" "unified_queue c' = unified_queue c" "read_queue c' = read_queue c"
    "write_buffer c' = write_buffer c" "pending_rd_q c' = pending_rd_q c" "pending_wr_q c' = pending_wr_q c"
    "write_draining c' = write_draining c"
  shows "queues_inv c' = queues_inv c"
  using assms
  by (simp add: queues_inv_def reads_of_def writes_of_def trans_items_def rd_keys_def wr_keys_def)

lemma IssueCommand_ok:
  assumes inv: "ctrl_inv cfg c" and dims: "dims_wf cfg" and r: "issuable cfg c r"
  obtains c' where "IssueCommand cfg r c = Inr c'" "ctrl_inv cfg c'" "in_flight c' = in_flight c"
    "ctrl_frame c c'" "\<not> IsRead r \<longrightarrow> pending_rd_q c' = pending_rd_q c"
proof -
  have ch: "channel_inv cfg (channel_state c)" using inv by (simp add: ctrl_inv_def)
  from r obtain d clk where d: "IsValid r" "request_wf cfg d"
    "ChannelState_GetReadyCommand cfg (channel_state c) d clk = Inr r"
    by (auto simp: issuable_def offered_def)
  have ty: "cmd_type r \<noteq> SREF_ENTER" "cmd_type r \<noteq> CommandType_SIZE"
    using r offered_type [OF _ dims] unfolding issuable_def by blast+
  obtain c1 where c1: "complete_pending cfg r c = Inr c1" "queues_inv c1" "in_flight c1 = in_flight c"
    "ctrl_frame c c1" "channel_state c1 = channel_state c" "stats_ok cfg (simple_stats c1)"
    "\<not> IsRead r \<longrightarrow> pending_rd_q c1 = pending_rd_q c"
    by (rule complete_pending_ok [of c r cfg cfg]) (use inv r in \<open>auto simp: ctrl_inv_def issuable_def\<close>)
  obtain st where st: "UpdateCommandStats r c1 = Inr (c1\<lparr>simple_stats := st\<rparr>)" "stats_ok cfg st"
    by (rule UpdateCommandStats_ok [of cfg c1 r])
      (use c1 ch ty(2) ready_request_wf [OF ch dims d(2,3,1)] in auto)
  obtain cs where cs: "UpdateTimingAndStates cfg (mk_timing cfg) (channel_state c) r (ctrl_clk c1) = Inr cs"
    by (rule okE [OF issue_ready_ok [OF ch dims d(2) timing_wf_mk_timing d(3,1)]])
  let ?c = "c1\<lparr>simple_stats := st, channel_state := cs\<rparr>"
  have "IssueCommand cfg r c = Inr ?c" using c1 st cs by (simp add: IssueCommand_def)
  moreover have "ctrl_inv cfg ?c"
    using inv c1(2,4) st(2) channel_inv_issue [OF cs ch] UpdateState_sref [OF cs ty(1)]
    by (auto simp: ctrl_inv_def queues_inv_cong [of ?c c1] ctrl_frame_def pim_inv_def)
  moreover have "in_flight ?c = in_flight c" "ctrl_frame c ?c"
    using c1(3,4) by (simp_all add: in_flight_def ctrl_frame_def trans_items_def)
  moreover have "\<not> IsRead r \<longrightarrow> pending_rd_q ?c = pending_rd_q c" using c1(7) by simp
  ultimately show thesis using that by blast
qed

subsection \<open>The command the queues offer\<close>

lemma reads_of_split:
  "reads_of c = mset (map trans_addr (filter (\<lambda>t. \<not> is_write t) (trans_items c))) +
     image_mset hex_addr (filter_mset IsRead (pending (cmd_queue c)))"
  "writes_of c = mset (map trans_addr (filter is_write (trans_items c))) +
     image_mset hex_addr (filter_mset IsWrite (pending (cmd_queue c)))"
  by (simp_all add: reads_of_def writes_of_def)

lemma IsRead_not_IsWrite: "IsRead r \<Longrightarrow> \<not> IsWrite r"
  by (auto simp: IsRead_def IsWrite_def)

lemma taken_command:
  assumes inv: "queues_inv c" and pend: "pending (cmd_queue c) = pending cq' + (if IsReadWrite r then {#r#} else {#})"
    and c': "c' = c\<lparr>cmd_queue := cq', simple_stats := st'\<rparr>"
  shows "queues_inv c'"
    "IsRead r \<Longrightarrow> hex_addr r \<in> rd_keys c' \<and> hex_addr r \<notin># reads_of c'"
    "IsWrite r \<Longrightarrow> hex_addr r \<in> wr_keys c' \<and> hex_addr r \<notin># writes_of c'"
proof -
  have keys: "rd_keys c' = rd_keys c" "wr_keys c' = wr_keys c" "trans_items c' = trans_items c"
    "finite (rd_keys c)" "finite (wr_keys c)"
    using c' by (simp_all add: rd_keys_def wr_keys_def trans_items_def)
  have rd: "reads_of c = (if IsRead r then add_mset (hex_addr r) (reads_of c') else reads_of c')"
    using c' keys(3) pend IsRead_not_IsWrite [of r] by (auto simp: reads_of_split IsReadWrite_def)
  have wr: "writes_of c = (if IsWrite r then add_mset (hex_addr r) (writes_of c') else writes_of c')"
    using c' keys(3) pend IsRead_not_IsWrite [of r] by (auto simp: reads_of_split IsReadWrite_def)
  have sub: "reads_of c \<subseteq># mset_set (rd_keys c)" "writes_of c \<subseteq># mset_set (wr_keys c)"
    using inv by (simp_all add: queues_inv_def)
  show r1: "hex_addr r \<in> rd_keys c' \<and> hex_addr r \<notin># reads_of c'" if "IsRead r"
    using subset_mset_set_unique [of "hex_addr r" "reads_of c'" "rd_keys c"] sub(1) rd keys that by simp
  show w1: "hex_addr r \<in> wr_keys c' \<and> hex_addr r \<notin># writes_of c'" if "IsWrite r"
    using subset_mset_set_unique [of "hex_addr r" "writes_of c'" "wr_keys c"] sub(2) wr keys that by simp
  have "reads_of c' \<subseteq># mset_set (rd_keys c')"
    using subset_mset_set_unique(3) [of "hex_addr r" "reads_of c'" "rd_keys c"] sub(1) rd keys
    by (cases "IsRead r") auto
  moreover have "writes_of c' \<subseteq># mset_set (wr_keys c')"
    using subset_mset_set_unique(3) [of "hex_addr r" "writes_of c'" "wr_keys c"] sub(2) wr keys
    by (cases "IsWrite r") auto
  ultimately show "queues_inv c'" using inv c' by (simp add: queues_inv_def)
qed

definition same_frame :: "Controller \<Rightarrow> Controller \<Rightarrow> bool" where
  "same_frame c c' \<longleftrightarrow> rd_w_cmds c' = rd_w_cmds c \<and> rd_in_cmds c' = rd_in_cmds c \<and> wr_cmds c' = wr_cmds c \<and>
     ctrl_clk c' = ctrl_clk c \<and> in_flight c' = in_flight c"

lemma GetCommandToIssue_step:
  assumes inv: "ctrl_inv cfg c" and dims: "dims_wf cfg"
  obtains r cq' st' where
    "GetCommandToIssue cfg (channel_state c) (cmd_queue c) (simple_stats c) = Inr (r, cq', st')"
    "ctrl_inv cfg (c\<lparr>cmd_queue := cq', simple_stats := st'\<rparr>)"
    "IsValid r \<longrightarrow> issuable cfg (c\<lparr>cmd_queue := cq', simple_stats := st'\<rparr>) r"
proof -
  have ch: "channel_inv cfg (channel_state c)" and cq: "cq_inv cfg (cmd_queue c)"
    using inv by (simp_all add: ctrl_inv_def)
  obtain r cq' st' where g: "GetCommandToIssue cfg (channel_state c) (cmd_queue c) (simple_stats c) = Inr (r, cq', st')"
    "cq_inv cfg cq'" "issue_outcome cfg (channel_state c) (cmd_queue c) r cq'"
    by (rule GetCommandToIssue_spec [OF ch dims cq])
  let ?c = "c\<lparr>cmd_queue := cq', simple_stats := st'\<rparr>"
  have q: "queues_inv c" using inv by (simp add: ctrl_inv_def)
  note taken = taken_command [OF q pending_outcome [OF g(3) cq dims] refl, of st']
  have "ctrl_inv cfg ?c"
    using inv g(2) taken(1) GetCommandToIssue_stats [OF g(1)] by (simp add: ctrl_inv_def pim_inv_def)
  moreover have "issuable cfg ?c r" if v: "IsValid r"
  proof -
    from g(3) v obtain i prev d rest where d: "i < length (queues (cmd_queue c))"
      "chosen cfg (channel_state c) (cq_clk (cmd_queue c)) (queues (cmd_queue c) ! i) prev d rest r"
      by (auto simp: issue_outcome_def)
    then have wf: "cmd_wf cfg d" using cq_invD(1) [OF cq d(1)] by (simp add: chosen_def)
    then have "cmd_type d \<noteq> SREF_ENTER" by (auto simp: cmd_wf_def rw_types_def)
    then have "offered cfg (channel_state c) r"
      using d(2) v cmd_wf_request(2) [OF wf] unfolding offered_def chosen_def by blast
    then show ?thesis using taken(2,3) by (simp add: issuable_def)
  qed
  ultimately show thesis using that g(1) by blast
qed

lemma cq_inv_ref:
  "cq_inv cfg cq \<Longrightarrow> cq_inv cfg (cq\<lparr>ref_q_indices := I, is_in_ref := b\<rparr>)"
  by (auto simp: cq_inv_def queue_of_cong [where cq = cq and cq' = "cq\<lparr>ref_q_indices := I, is_in_ref := b\<rparr>"])

lemma FinishRefresh_step:
  assumes inv: "ctrl_inv cfg c" and dims: "dims_wf cfg" and wait: "IsRefreshWaiting (channel_state c)"
  obtains r cq' where "FinishRefresh cfg (channel_state c) (cmd_queue c) = Inr (r, cq')"
    "ctrl_inv cfg (c\<lparr>cmd_queue := cq'\<rparr>)" "IsValid r \<longrightarrow> issuable cfg (c\<lparr>cmd_queue := cq'\<rparr>) r"
proof -
  let ?cs = "channel_state c" and ?cq = "cmd_queue c"
  have ch: "channel_inv cfg ?cs" and sref: "True \<notin> set (rank_is_sref ?cs)" and cq: "cq_inv cfg ?cq"
    using inv by (simp_all add: ctrl_inv_def)
  obtain ref rest where ref: "refresh_q ?cs = ref # rest"
    using wait by (cases "refresh_q ?cs") (auto simp: IsRefreshWaiting_def)
  have wf: "refresh_wf cfg ref" using ch ref by (simp add: channel_inv_def)
  then have rq: "request_wf cfg ref" "cmd_type ref \<noteq> SREF_ENTER" "cmd_type ref \<in> refresh_types"
    "0 \<le> Rank ref" "Rank ref < ranks cfg"
    by (auto simp: refresh_wf_def request_wf_def IsRankCMD_def in_range_def refresh_types_def)
  have "\<not> rank_is_sref ?cs ! nat (Rank ref)"
  proof -
    have "nat (Rank ref) < length (rank_is_sref ?cs)" using ch rq(4,5) by (simp add: channel_inv_def)
    then show ?thesis using sref by (simp add: in_set_conv_nth)
  qed
  then have gr: "ok (ChannelState_GetReadyCommand cfg ?cs ref clk)" for clk
    using GetReadyCommand_channel_ok [OF ch rq(1)] rq(3) by blast
  obtain r where r: "ChannelState_GetReadyCommand cfg ?cs ref (cq_clk ?cq) = Inr r" by (rule okE [OF gr])
  have off: "offered cfg ?cs r" if "IsValid r"
    using that r rq unfolding offered_def by blast
  have nrw: "\<not> IsRead r" "\<not> IsWrite r" if "IsValid r"
  proof -
    from r that dims have "cmd_type r \<in> {PRECHARGE, REFRESH, REFRESH_BANK, SREF_ENTER}"
    proof (cases rule: ready_cases)
      case rank
      then show ?thesis using wf by (auto simp: refresh_wf_def)
    next
      case (bank b t)
      then show ?thesis using wf \<open>\<not> rank_is_sref ?cs ! nat (Rank ref)\<close> channel_invD(4) [OF ch bank(2)]
        by (auto simp: refresh_wf_def bank_ready_def required_type_def split: State.splits)
    qed simp
    then show "\<not> IsRead r" "\<not> IsWrite r" by (auto simp: cmd_pred_defs)
  qed
  obtain I b where fin: "FinishRefresh cfg ?cs ?cq = Inr (r, ?cq\<lparr>ref_q_indices := I, is_in_ref := b\<rparr>)"
  proof (rule that)
    let ?cq1 = "if \<not> is_in_ref ?cq then (GetRefQIndices cfg ?cq ref)\<lparr>is_in_ref := True\<rparr> else ?cq"
    have "?cq1 = ?cq\<lparr>ref_q_indices := ref_q_indices ?cq1, is_in_ref := is_in_ref ?cq1\<rparr>"
      by (auto simp: GetRefQIndices_def)
    then show "FinishRefresh cfg ?cs ?cq = Inr (r, ?cq\<lparr>
        ref_q_indices := (if IsRefresh r then {} else ref_q_indices ?cq1),
        is_in_ref := (if IsRefresh r then False else is_in_ref ?cq1)\<rparr>)"
      using r ref by (auto simp: FinishRefresh_def PendingRefCommand_def Let_def GetRefQIndices_def)
  qed
  let ?c = "c\<lparr>cmd_queue := ?cq\<lparr>ref_q_indices := I, is_in_ref := b\<rparr>\<rparr>"
  have "queues_inv ?c"
    using inv by (simp add: ctrl_inv_def queues_inv_def reads_of_def writes_of_def trans_items_def
        rd_keys_def wr_keys_def pending_def)
  then have "ctrl_inv cfg ?c" using inv cq_inv_ref [OF cq] by (simp add: ctrl_inv_def pim_inv_def)
  moreover have "issuable cfg ?c r" if "IsValid r"
    using off [OF that] nrw [OF that] by (simp add: issuable_def)
  ultimately show thesis using that fin by blast
qed

lemma next_command_step:
  assumes inv: "ctrl_inv cfg c" and dims: "dims_wf cfg"
  obtains r c' where "next_command cfg c = Inr (r, c')" "ctrl_inv cfg c'" "same_frame c c'"
    "IsValid r \<longrightarrow> issuable cfg c' r"
proof -
  have frame: "same_frame c (c\<lparr>cmd_queue := cq, simple_stats := st\<rparr>)" "same_frame c (c\<lparr>cmd_queue := cq\<rparr>)" for cq st
    by (simp_all add: same_frame_def in_flight_def)
  obtain r1 cq1 where r1: "(if IsRefreshWaiting (channel_state c)
            then rbind (FinishRefresh cfg (channel_state c) (cmd_queue c)) (\<lambda>(cmd, cq).
                   Inr (cmd, c\<lparr>cmd_queue := cq\<rparr>))
            else Inr (no_command, c)) = Inr (r1, c\<lparr>cmd_queue := cq1\<rparr>)"
    "ctrl_inv cfg (c\<lparr>cmd_queue := cq1\<rparr>)" "IsValid r1 \<longrightarrow> issuable cfg (c\<lparr>cmd_queue := cq1\<rparr>) r1"
  proof (cases "IsRefreshWaiting (channel_state c)")
    case True
    obtain r cq' where "FinishRefresh cfg (channel_state c) (cmd_queue c) = Inr (r, cq')"
      "ctrl_inv cfg (c\<lparr>cmd_queue := cq'\<rparr>)" "IsValid r \<longrightarrow> issuable cfg (c\<lparr>cmd_queue := cq'\<rparr>) r"
      by (rule FinishRefresh_step [OF inv dims True])
    then show thesis using that [of r cq'] True by simp
  next
    case False
    then show thesis using that [of no_command "cmd_queue c"] inv by simp
  qed
  show thesis
  proof (cases "IsValid r1")
    case True
    then show thesis using that [of r1 "c\<lparr>cmd_queue := cq1\<rparr>"] r1 frame(2) by (simp add: next_command_def)
  next
    case False
    let ?c = "c\<lparr>cmd_queue := cq1\<rparr>"
    obtain r cq st where "GetCommandToIssue cfg (channel_state ?c) (cmd_queue ?c) (simple_stats ?c) = Inr (r, cq, st)"
      "ctrl_inv cfg (?c\<lparr>cmd_queue := cq, simple_stats := st\<rparr>)"
      "IsValid r \<longrightarrow> issuable cfg (?c\<lparr>cmd_queue := cq, simple_stats := st\<rparr>) r"
      by (rule GetCommandToIssue_step [OF r1(2) dims])
    then show thesis
      using that [of r "c\<lparr>cmd_queue := cq, simple_stats := st\<rparr>"] r1(1) False frame(1)
      by (simp add: next_command_def)
  qed
qed

subsection \<open>Issuing from the queues and from the processing units\<close>

lemma same_frame_trans: "same_frame a b \<Longrightarrow> same_frame b c \<Longrightarrow> same_frame a c"
  by (simp add: same_frame_def)

lemma ctrl_frame_same: "ctrl_frame c c' \<Longrightarrow> in_flight c' = in_flight c \<Longrightarrow> same_frame c c'"
  by (simp add: ctrl_frame_def same_frame_def)

lemma ctrl_inv_stats:
  "ctrl_inv cfg c \<Longrightarrow> stats_ok cfg st \<Longrightarrow> ctrl_inv cfg (c\<lparr>simple_stats := st\<rparr>)"
  by (simp add: ctrl_inv_def queues_inv_cong [of "c\<lparr>simple_stats := st\<rparr>" c] pim_inv_def)

lemma issue_general_step:
  assumes inv: "ctrl_inv cfg c" and dims: "dims_wf cfg" and r: "IsValid r \<longrightarrow> issuable cfg c r"
  obtains b c' where "issue_general cfg r c = Inr (b, c')" "ctrl_inv cfg c'" "same_frame c c'"
proof (cases "IsValid r")
  case False
  then show thesis using that [of False c] inv by (simp add: issue_general_def same_frame_def)
next
  case True
  with r have "issuable cfg c r" by simp
  then obtain c1 where c1: "IssueCommand cfg r c = Inr c1" "ctrl_inv cfg c1" "in_flight c1 = in_flight c"
    "ctrl_frame c c1" by (rule IssueCommand_ok [OF inv dims])
  note f1 = ctrl_frame_same [OF c1(4,3)]
  show thesis
  proof (cases "enable_hbm_dual_cmd cfg")
    case False
    then show thesis using that [of True c1] True c1 f1 by (simp add: issue_general_def)
  next
    case dual: True
    obtain s cq st where
      s: "GetCommandToIssue cfg (channel_state c1) (cmd_queue c1) (simple_stats c1) = Inr (s, cq, st)"
      "ctrl_inv cfg (c1\<lparr>cmd_queue := cq, simple_stats := st\<rparr>)"
      "IsValid s \<longrightarrow> issuable cfg (c1\<lparr>cmd_queue := cq, simple_stats := st\<rparr>) s"
      by (rule GetCommandToIssue_step [OF c1(2) dims])
    let ?c = "c1\<lparr>cmd_queue := cq, simple_stats := st\<rparr>"
    have f2: "same_frame c1 ?c" by (simp add: same_frame_def in_flight_def)
    show thesis
    proof (cases "IsValid s \<and> IsReadWrite s \<noteq> IsReadWrite r")
      case False
      then show thesis
        using that [of True ?c] True dual c1 s same_frame_trans [OF f1 f2]
        by (auto simp: issue_general_def Let_def)
    next
      case go: True
      then have "issuable cfg ?c s" using s(3) by simp
      then obtain c2 where c2: "IssueCommand cfg s ?c = Inr c2" "ctrl_inv cfg c2" "in_flight c2 = in_flight ?c"
        "ctrl_frame ?c c2" by (rule IssueCommand_ok [OF s(2) dims])
      let ?c3 = "c2\<lparr>simple_stats := Increment ''hbm_dual_cmds'' (simple_stats c2)\<rparr>"
      have "ctrl_inv cfg ?c3" by (rule ctrl_inv_stats [OF c2(2)]) (use c2(2) in \<open>simp add: ctrl_inv_def\<close>)
      moreover have "same_frame c2 ?c3" by (simp add: same_frame_def in_flight_def)
      ultimately show thesis
        using that [of True ?c3] True dual c1(1) s(1) go c2(1)
          same_frame_trans [OF f1 same_frame_trans [OF f2 same_frame_trans [OF ctrl_frame_same [OF c2(4,3)]]]]
        by (simp add: issue_general_def)
    qed
  qed
qed

lemma pim_wf_request:
  assumes "pim_wf cfg it" and "access \<in> {GH_READ, PIM_WRITE}"
  shows "request_wf cfg (if is_pim_act it then mk_command access (addr it) (hex_addr it) else it)"
    "cmd_type (if is_pim_act it then mk_command access (addr it) (hex_addr it) else it) \<in> request_types"
    "cmd_type (if is_pim_act it then mk_command access (addr it) (hex_addr it) else it) \<noteq> SREF_ENTER"
    "\<not> IsRankCMD (if is_pim_act it then mk_command access (addr it) (hex_addr it) else it)"
    "\<not> IsRead it" "\<not> IsWrite it"
  using assms
  by (auto simp: pim_wf_def pim_types_def is_pim_act_def request_wf_def request_types_def type_sets
      cmd_pred_defs)

lemma pim_ready_step:
  assumes inv: "ctrl_inv cfg c" and dims: "dims_wf cfg" and wf: "pim_wf cfg it"
    and access: "access \<in> {GH_READ, PIM_WRITE}"
  obtains r where "pim_ready cfg c access it = Inr r"
    "IsValid r \<and> cmd_type r = cmd_type it \<longrightarrow> issuable cfg c it"
proof -
  let ?d = "if is_pim_act it then mk_command access (addr it) (hex_addr it) else it"
  have ch: "channel_inv cfg (channel_state c)" using inv by (simp add: ctrl_inv_def)
  note rq = pim_wf_request [OF wf access]
  obtain r where r: "ChannelState_GetReadyCommand cfg (channel_state c) ?d (ctrl_clk c) = Inr r"
    using GetReadyCommand_channel_ok [OF ch rq(1)] rq(2) by (blast elim: okE)
  have "issuable cfg c it" if v: "IsValid r" "cmd_type r = cmd_type it"
  proof -
    from r v(1) dims have "r = mk_command (cmd_type r) (addr ?d) (hex_addr ?d)"
      by (cases rule: ready_cases) (use rq(4) in auto)
    then have "r = it" using v(2) by (auto simp: mk_command_def split: if_splits)
    then have "offered cfg (channel_state c) it" using r v(1) rq(1,3) unfolding offered_def by blast
    then show ?thesis using rq(5,6) by (simp add: issuable_def)
  qed
  then show thesis using that r by (simp add: pim_ready_def Controller_GetReadyCommand_def)
qed

lemma maybe_issue:
  assumes inv: "ctrl_inv cfg c" and dims: "dims_wf cfg" and wf: "pim_wf cfg it" and it: "issuable cfg c it"
  obtains c' where "(if g then IssueCommand cfg it c else Inr c) = Inr c'" "ctrl_inv cfg c'" "pim_frame c c'"
proof (cases g)
  case True
  have "\<not> IsRead it" using wf by (auto simp: pim_wf_def pim_types_def cmd_pred_defs)
  moreover obtain c' where "IssueCommand cfg it c = Inr c'" "ctrl_inv cfg c'" "in_flight c' = in_flight c"
    "ctrl_frame c c'" "\<not> IsRead it \<longrightarrow> pending_rd_q c' = pending_rd_q c"
    by (rule IssueCommand_ok [OF inv dims it])
  ultimately show thesis using that [of c'] True by (simp add: pim_frame_def ctrl_frame_def)
next
  case False
  then show thesis using that [of c] inv by (simp add: pim_frame_def)
qed

lemma rd_w_loop_step:
  assumes dims: "dims_wf cfg" and "ctrl_inv cfg c" and "list_all (pim_wf cfg) (kept @ rest)"
  shows "\<exists>c'. rd_w_loop cfg kept rest c = Inr c' \<and> ctrl_inv cfg c' \<and> pim_frame c c'"
  using assms(2,3)
proof (induction rest arbitrary: kept c)
  case Nil
  then show ?case
    by (simp add: ctrl_inv_def queues_inv_cong [of "c\<lparr>rd_w_cmds := kept\<rparr>" c] pim_inv_def in_flight_def
        pim_frame_def trans_items_def)
next
  case (Cons it rest)
  then have it: "pim_wf cfg it" and np: "cmd_type it \<noteq> PRECHARGE" by (auto simp: pim_wf_def pim_types_def)
  obtain r where r: "pim_ready cfg c GH_READ it = Inr r"
    "IsValid r \<and> cmd_type r = cmd_type it \<longrightarrow> issuable cfg c it"
    by (rule pim_ready_step [OF Cons.prems(1) dims it, of GH_READ]) auto
  show ?case
  proof (cases "IsValid r \<and> cmd_type r = cmd_type it")
    case True
    then have "issuable cfg c it" using r(2) by simp
    then obtain c1 where c1: "(if \<not> (IsRefreshWaiting (channel_state c) \<and> is_pim_act it)
        then IssueCommand cfg it c else Inr c) = Inr c1" "ctrl_inv cfg c1" "pim_frame c c1"
      by (rule maybe_issue [OF Cons.prems(1) dims it])
    obtain c2 where "rd_w_loop cfg kept rest c1 = Inr c2" "ctrl_inv cfg c2" "pim_frame c1 c2"
      using Cons.IH [OF c1(2), of kept] Cons.prems(2) by auto
    then show ?thesis
      using True np r(1) c1 by (simp add: pim_frame_def del: de_Morgan_conj)
  next
    case False
    then show ?thesis using Cons.IH [OF Cons.prems(1), of "kept @ [it]"] Cons.prems(2) np r(1) by auto
  qed
qed

lemma rd_in_loop_step:
  assumes dims: "dims_wf cfg" and "ctrl_inv cfg c" and "list_all (pim_wf cfg) (kept @ rest)"
    and "length rel = length (kept @ rest)"
  shows "\<exists>c'. rd_in_loop cfg kept rest rel c = Inr c' \<and> ctrl_inv cfg c' \<and> pim_frame c c'"
  using assms(2-)
proof (induction rest arbitrary: kept rel c)
  case Nil
  then show ?case
    by (simp add: ctrl_inv_def queues_inv_cong [of "c\<lparr>rd_in_cmds := kept, release_time := rel\<rparr>" c]
        pim_inv_def in_flight_def pim_frame_def trans_items_def)
next
  case (Cons it rest)
  then have it: "pim_wf cfg it" by simp
  obtain r where r: "pim_ready cfg c GH_READ it = Inr r"
    "IsValid r \<and> cmd_type r = cmd_type it \<longrightarrow> issuable cfg c it"
    by (rule pim_ready_step [OF Cons.prems(1) dims it, of GH_READ]) auto
  have v: "vget rel (int (length kept)) = Inr (rel ! length kept)"
    using Cons.prems(3) by (simp add: vget_def)
  show ?case
  proof (cases "IsValid r \<and> cmd_type r = cmd_type it \<and> of_int (rel ! length kept) \<le> ctrl_clk c")
    case True
    then have "issuable cfg c it" using r(2) by simp
    then obtain c1 where c1: "(if \<not> (IsRefreshWaiting (channel_state c) \<and> is_pim_act it)
        then IssueCommand cfg it c else Inr c) = Inr c1" "ctrl_inv cfg c1" "pim_frame c c1"
      by (rule maybe_issue [OF Cons.prems(1) dims it])
    let ?rel = "take (length kept) rel @ drop (Suc (length kept)) rel"
    obtain c2 where "rd_in_loop cfg kept rest ?rel c1 = Inr c2" "ctrl_inv cfg c2" "pim_frame c1 c2"
      using Cons.IH [OF c1(2), of kept ?rel] Cons.prems(2,3) by auto
    then show ?thesis
      using True r(1) c1 v by (simp add: pim_frame_def del: de_Morgan_conj)
  next
    case False
    then show ?thesis
      using Cons.IH [OF Cons.prems(1), of "kept @ [it]" rel] Cons.prems(2,3) r(1) v by auto
  qed
qed

lemma wr_loop_step:
  assumes dims: "dims_wf cfg" and "ctrl_inv cfg c" and "list_all (pim_wf cfg) (kept @ rest)"
  shows "\<exists>c'. wr_loop cfg kept rest c = Inr c' \<and> ctrl_inv cfg c' \<and> pim_frame c c'"
  using assms(2,3)
proof (induction rest arbitrary: kept c)
  case Nil
  then show ?case
    by (simp add: ctrl_inv_def queues_inv_cong [of "c\<lparr>wr_cmds := kept\<rparr>" c] pim_inv_def in_flight_def
        pim_frame_def trans_items_def)
next
  case (Cons it rest)
  then have it: "pim_wf cfg it" by simp
  obtain r where r: "pim_ready cfg c PIM_WRITE it = Inr r"
    "IsValid r \<and> cmd_type r = cmd_type it \<longrightarrow> issuable cfg c it"
    by (rule pim_ready_step [OF Cons.prems(1) dims it, of PIM_WRITE]) auto
  show ?case
  proof (cases "IsValid r \<and> cmd_type r = cmd_type it \<and> \<not> (IsRefreshWaiting (channel_state c) \<and> is_pim_act it)")
    case True
    then have "issuable cfg c it" using r(2) by simp
    then obtain c1 where c1: "(if True then IssueCommand cfg it c else Inr c) = Inr c1" "ctrl_inv cfg c1"
      "pim_frame c c1" by (rule maybe_issue [OF Cons.prems(1) dims it])
    obtain c2 where "wr_loop cfg kept rest c1 = Inr c2" "ctrl_inv cfg c2" "pim_frame c1 c2"
      using Cons.IH [OF c1(2), of kept] Cons.prems(2) by auto
    moreover have "ctrl_inv cfg (c1\<lparr>wr_cmds := kept @ rest\<rparr>)"
      "pim_frame c1 (c1\<lparr>wr_cmds := kept @ rest\<rparr>)"
      using c1(2) Cons.prems(2)
      by (simp_all add: ctrl_inv_def queues_inv_cong [of "c1\<lparr>wr_cmds := kept @ rest\<rparr>" c1] pim_inv_def in_flight_def
        pim_frame_def trans_items_def)
    ultimately show ?thesis
      using True r(1) c1 by (cases "wr_multitenant c1") (simp_all add: pim_frame_def del: de_Morgan_conj)
  next
    case False
    then show ?thesis
      using Cons.IH [OF Cons.prems(1), of "kept @ [it]"] Cons.IH [OF Cons.prems(1), of kept] Cons.prems(2) r(1)
      by auto
  qed
qed

lemma issue_pim_step:
  assumes inv: "ctrl_inv cfg c" and dims: "dims_wf cfg"
  shows "\<exists>c'. issue_pim cfg c = Inr c' \<and> ctrl_inv cfg c' \<and> pim_frame c c'"
proof -
  obtain c1 where c1: "rd_w_loop cfg [] (rd_w_cmds c) c = Inr c1" "ctrl_inv cfg c1" "pim_frame c c1"
    using rd_w_loop_step [OF dims inv, of "[]" "rd_w_cmds c"] inv by (auto simp: ctrl_inv_def pim_inv_def)
  obtain c2 where c2: "rd_in_loop cfg [] (rd_in_cmds c1) (release_time c1) c1 = Inr c2" "ctrl_inv cfg c2" "pim_frame c1 c2"
    using rd_in_loop_step [OF dims c1(2), of "[]" "rd_in_cmds c1" "release_time c1"] c1(2)
    by (auto simp: ctrl_inv_def pim_inv_def)
  obtain c3 where c3: "wr_loop cfg [] (wr_cmds c2) c2 = Inr c3" "ctrl_inv cfg c3" "pim_frame c2 c3"
    using wr_loop_step [OF dims c2(2), of "[]" "wr_cmds c2"] c2(2) by (auto simp: ctrl_inv_def pim_inv_def)
  show ?thesis using c1 c2 c3 by (simp add: issue_pim_def pim_frame_def)
qed

lemma issue_phase_step:
  assumes inv: "ctrl_inv cfg c" and dims: "dims_wf cfg" and r: "IsValid r \<longrightarrow> issuable cfg c r"
  shows "\<exists>b c'. issue_phase cfg r c = Inr (b, c') \<and> ctrl_inv cfg c' \<and> in_flight c' = in_flight c \<and>
    ctrl_clk c' = ctrl_clk c"
proof (cases "IsRefresh r \<or> rd_w_cmds c = [] \<and> rd_in_cmds c = [] \<and> wr_cmds c = []")
  case True
  obtain b c' where "issue_general cfg r c = Inr (b, c')" "ctrl_inv cfg c'" "same_frame c c'"
    by (rule issue_general_step [OF inv dims r])
  then show ?thesis using True by (auto simp: issue_phase_def same_frame_def)
next
  case False
  then show ?thesis using issue_pim_step [OF inv dims] by (auto simp: issue_phase_def pim_frame_def)
qed

subsection \<open>Idle counters and scheduling\<close>

lemma all_idle_ok:
  "(\<And>p. p \<in> set ps \<Longrightarrow> ok (bank_at B p)) \<Longrightarrow> ok (all_idle B ps)"
proof (induction ps)
  case (Cons p ps)
  then obtain b where "bank_at B p = Inr b" by (meson list.set_intros(1) okE)
  with Cons show ?case by simp
qed simp

lemma rank_banks_in_range: "0 \<le> i \<Longrightarrow> i < ranks cfg \<Longrightarrow> p \<in> set (rank_banks cfg i) \<Longrightarrow> in_range cfg p"
  by (auto simp: rank_banks_def in_range_def)

lemma ctrl_inv_idle:
  assumes "ctrl_inv cfg c" and "stats_ok cfg st" and "length v = nat (ranks cfg)"
  shows "ctrl_inv cfg (c\<lparr>simple_stats := st, channel_state := (channel_state c)\<lparr>rank_idle_cycles := v\<rparr>\<rparr>)"
  using assms channel_inv_idle [of cfg "channel_state c" v]
  by (simp add: ctrl_inv_def pim_inv_def queues_inv_cong [of
      "c\<lparr>simple_stats := st, channel_state := (channel_state c)\<lparr>rank_idle_cycles := v\<rparr>\<rparr>" c])

lemma idle_step_ok:
  assumes inv: "ctrl_inv cfg c" and i: "0 \<le> i" "i < ranks cfg"
  shows "\<exists>c'. idle_step cfg i c = Inr c' \<and> ctrl_inv cfg c' \<and> in_flight c' = in_flight c \<and> ctrl_clk c' = ctrl_clk c"
proof -
  let ?cs = "channel_state c"
  have ch: "channel_inv cfg ?cs" and st: "stats_ok cfg (simple_stats c)" using inv by (simp_all add: ctrl_inv_def)
  have len: "length (rank_is_sref ?cs) = nat (ranks cfg)" "length (rank_idle_cycles ?cs) = nat (ranks cfg)"
    using ch by (simp_all add: channel_inv_def)
  have sref: "IsRankSelfRefreshing ?cs i = Inr False"
    using inv i len(1) by (auto simp: ctrl_inv_def IsRankSelfRefreshing_def vget_def in_set_conv_nth)
  have "ok (IsAllBankIdleInRank cfg ?cs i)"
    unfolding IsAllBankIdleInRank_def
    by (rule all_idle_ok) (use rank_banks_in_range [OF i] channel_invD(5) [OF ch] in blast)
  then obtain idle where idle: "IsAllBankIdleInRank cfg ?cs i = Inr idle" by (rule okE)
  obtain s1 where s1: "IncrementVec ''all_bank_idle_cycles'' i (simple_stats c) = Inr s1" "stats_ok cfg s1"
    by (rule IncrementVec_ok [OF st _ i, of "''all_bank_idle_cycles''"]) (simp_all add: cycle_names_def)
  obtain s2 where s2: "IncrementVec ''rank_active_cycles'' i (simple_stats c) = Inr s2" "stats_ok cfg s2"
    by (rule IncrementVec_ok [OF st _ i, of "''rank_active_cycles''"]) (simp_all add: cycle_names_def)
  let ?v = "(rank_idle_cycles ?cs)[nat i := (if idle then rank_idle_cycles ?cs ! nat i + 1 else 0)]"
  let ?c = "c\<lparr>simple_stats := (if idle then s1 else s2), channel_state := ?cs\<lparr>rank_idle_cycles := ?v\<rparr>\<rparr>"
  have "idle_step cfg i c = Inr ?c"
    using sref idle s1(1) s2(1) i len(2) by (simp add: idle_step_def Let_def vmod_def vset_def vget_def)
  moreover have "ctrl_inv cfg ?c" by (rule ctrl_inv_idle [OF inv]) (use s1 s2 len in auto)
  ultimately show ?thesis by (simp add: in_flight_def)
qed

lemma idle_steps_ok:
  assumes "ctrl_inv cfg c" and "\<forall>i \<in> set is. 0 \<le> i \<and> i < ranks cfg"
  shows "\<exists>c'. mfold (idle_step cfg) is c = Inr c' \<and> ctrl_inv cfg c' \<and> in_flight c' = in_flight c \<and>
    ctrl_clk c' = ctrl_clk c"
  using assms
proof (induction "is" arbitrary: c)
  case (Cons i "is")
  obtain c1 where c1: "idle_step cfg i c = Inr c1" "ctrl_inv cfg c1" "in_flight c1 = in_flight c"
    "ctrl_clk c1 = ctrl_clk c" using idle_step_ok [OF Cons.prems(1), of i] Cons.prems(2) by auto
  with Cons.IH [OF c1(2)] Cons.prems(2) show ?case by auto
qed simp

lemma TransToCommand_wf:
  assumes "config_ok cfg"
  shows "cmd_wf cfg (TransToCommand cfg c t)" "hex_addr (TransToCommand cfg c t) = trans_addr t"
    "IsWrite (TransToCommand cfg c t) = is_write t" "IsRead (TransToCommand cfg c t) = (\<not> is_write t)"
  using assms by (simp_all add: TransToCommand_def cmd_wf_def rw_types_def config_ok_def cmd_pred_defs)

lemma filter_append_mid:
  "mset (map f (filter P (xs @ t # ys))) = mset (map f (filter P (xs @ ys))) + (if P t then {#f t#} else {#})"
  by simp

lemma scheduled_reads:
  assumes "items (unified_queue c) @ items (read_queue c) @ items (write_buffer c) = A @ (prev @ t # rest) @ B"
    and "items (unified_queue c') @ items (read_queue c') @ items (write_buffer c') = A @ (prev @ rest) @ B"
    and "pending (cmd_queue c') = add_mset cmd (pending (cmd_queue c))"
    and "hex_addr cmd = trans_addr t" "IsWrite cmd = is_write t" "IsRead cmd = (\<not> is_write t)"
  shows "reads_of c' = reads_of c" "writes_of c' = writes_of c"
  using assms by (auto simp: reads_of_def writes_of_def trans_items_def)

lemma set_items_split:
  assumes "get_items s c = prev @ t # rest"
  obtains A B where "trans_items c = A @ (prev @ t # rest) @ B"
    "\<And>c' ts. unified_queue c' = unified_queue c \<Longrightarrow> read_queue c' = read_queue c \<Longrightarrow>
       write_buffer c' = write_buffer c \<Longrightarrow> trans_items (set_items s ts c') = A @ ts @ B"
proof (cases s)
  case Unified
  then show thesis using assms that [of "[]" "items (read_queue c) @ items (write_buffer c)"]
    by (simp add: get_items_def set_items_def trans_items_def)
next
  case Writes
  then show thesis using assms that [of "items (unified_queue c) @ items (read_queue c)" "[]"]
    by (simp add: get_items_def set_items_def trans_items_def)
next
  case Reads
  then show thesis using assms that [of "items (unified_queue c)" "items (write_buffer c)"]
    by (simp add: get_items_def set_items_def trans_items_def)
qed

definition source_ok :: "Controller \<Rightarrow> trans_source \<Rightarrow> bool" where
  "source_ok c s \<longleftrightarrow> (s = Unified \<longleftrightarrow> is_unified_queue c) \<and> (s = Writes \<longrightarrow> 0 < write_draining c)"

lemma pending_add:
  assumes "cq_inv cfg cq" "dims_wf cfg" "cmd_wf cfg c"
    and "queues cq' = (queues cq)[nat (queue_of cfg cq c) := queues cq ! nat (queue_of cfg cq c) @ [c]]"
  shows "pending cq' = add_mset c (pending cq)"
proof -
  have "nat (queue_of cfg cq c) < length (queues cq)" using queue_of_range [OF assms(1-3)] by auto
  from mset_concat_update [OF this, of "queues cq ! nat (queue_of cfg cq c) @ [c]"] assms(4)
  show ?thesis by (simp add: pending_def)
qed

lemma schedule_loop_ok:
  assumes cfg: "config_ok cfg" and "ctrl_inv cfg c" and "source_ok c s" and "get_items s c = prev @ rest"
  shows "\<exists>c'. schedule_loop cfg s prev rest c = Inr c' \<and> ctrl_inv cfg c' \<and> in_flight c' = in_flight c \<and>
    ctrl_clk c' = ctrl_clk c"
  using assms(4)
proof (induction rest arbitrary: prev)
  case Nil
  then show ?case using assms(2) by simp
next
  case (Cons t rest)
  have dims: "dims_wf cfg" using cfg by (simp add: config_ok_def)
  have cq: "cq_inv cfg (cmd_queue c)" and q: "queues_inv c" using assms(2) by (simp_all add: ctrl_inv_def)
  let ?cmd = "TransToCommand cfg c t"
  note cmd = TransToCommand_wf [OF cfg, of c t]
  obtain w cq' where w: "WillAcceptCommand cfg (cmd_queue c) (Rank ?cmd) (Bankgroup ?cmd) (Bank ?cmd) = Inr w"
    "AddCommand cfg (cmd_queue c) ?cmd = Inr (w, cq')" "cq_inv cfg cq'"
    "queues cq' = (if w then (queues (cmd_queue c))[nat (queue_of cfg (cmd_queue c) ?cmd) :=
       queues (cmd_queue c) ! nat (queue_of cfg (cmd_queue c) ?cmd) @ [?cmd]] else queues (cmd_queue c))"
    by (rule AddCommand_spec [OF cq dims cmd(1)])
  consider "\<not> w" | "w" "\<not> is_unified_queue c \<and> is_write t \<and> mm_count (pending_rd_q c) (trans_addr t) > 0"
    | "w" "\<not> (\<not> is_unified_queue c \<and> is_write t \<and> mm_count (pending_rd_q c) (trans_addr t) > 0)" by blast
  then show ?case
  proof cases
    case 1
    then show ?thesis using Cons w(1) by simp
  next
    case 2
    have "ctrl_inv cfg (c\<lparr>write_draining := 0\<rparr>)"
      using assms(2) by (simp add: ctrl_inv_def pim_inv_def queues_inv_def reads_of_def writes_of_def
          trans_items_def rd_keys_def wr_keys_def)
    then show ?thesis using 2 w(1) cmd(3) by (simp add: in_flight_def)
  next
    case 3
    let ?dr = "if \<not> is_unified_queue c \<and> is_write t then write_draining c - 1 else write_draining c"
    let ?c1 = "c\<lparr>write_draining := ?dr, cmd_queue := cq'\<rparr>"
    let ?c = "set_items s (prev @ rest) ?c1"
    have sel: "cmd_queue ?c = cq'" "rd_keys ?c = rd_keys c" "wr_keys ?c = wr_keys c"
      "pending_wr_q ?c = pending_wr_q c" "write_draining ?c = ?dr" "channel_state ?c = channel_state c"
      "refresh ?c = refresh c" "simple_stats ?c = simple_stats c" "pim_inv cfg ?c = pim_inv cfg c"
      "in_flight ?c = in_flight c" "ctrl_clk ?c = ctrl_clk c"
      by (simp_all add: set_items_def rd_keys_def wr_keys_def pim_inv_def in_flight_def split: trans_source.split)
    obtain A B where AB: "trans_items c = A @ (prev @ t # rest) @ B" "trans_items ?c = A @ (prev @ rest) @ B"
    proof (rule set_items_split [OF Cons.prems])
      fix A B
      assume "trans_items c = A @ (prev @ t # rest) @ B"
        "\<And>c' ts. unified_queue c' = unified_queue c \<Longrightarrow> read_queue c' = read_queue c \<Longrightarrow>
          write_buffer c' = write_buffer c \<Longrightarrow> trans_items (set_items s ts c') = A @ ts @ B"
      then show thesis using that [of A B] by simp
    qed
    have "pending cq' = add_mset ?cmd (pending (cmd_queue c))"
      by (rule pending_add [OF cq dims cmd(1)]) (use w(4) 3 in simp)
    then have same: "reads_of ?c = reads_of c" "writes_of ?c = writes_of c"
      using AB sel(1) cmd(2-4) by (auto simp: reads_of_def writes_of_def)
    have wb: "list_all (\<lambda>t. \<not> is_write t) (items (read_queue ?c))" "list_all is_write (items (write_buffer ?c))"
      "0 \<le> ?dr" "?dr \<le> int (length (items (write_buffer ?c)))"
      using q Cons.prems assms(3)
      by (auto simp: queues_inv_def set_items_def get_items_def source_ok_def split: trans_source.splits)
    have "queues_inv ?c" using q same wb sel(2-5) by (simp add: queues_inv_def)
    then have "ctrl_inv cfg ?c" using assms(2) w(3) sel by (simp add: ctrl_inv_def)
    then show ?thesis using 3 w(1,2) cmd(3) sel(10,11) by auto
  qed
qed

lemma ScheduleTransaction_ok:
  assumes cfg: "config_ok cfg" and inv: "ctrl_inv cfg c"
  shows "\<exists>c'. ScheduleTransaction cfg c = Inr c' \<and> ctrl_inv cfg c' \<and> in_flight c' = in_flight c \<and>
    ctrl_clk c' = ctrl_clk c"
proof -
  let ?n = "length (items (write_buffer c))"
  let ?dr = "if write_draining c = 0 \<and> \<not> is_unified_queue c \<and>
      (buf_full (write_buffer c) \<or> (?n > 8 \<and> QueueEmpty (cmd_queue c))) then int ?n else write_draining c"
  let ?c = "c\<lparr>write_draining := ?dr\<rparr>"
  let ?s = "if is_unified_queue ?c then Unified else if write_draining ?c > 0 then Writes else Reads"
  have "ctrl_inv cfg ?c"
    using inv by (simp add: ctrl_inv_def pim_inv_def queues_inv_def reads_of_def writes_of_def
        trans_items_def rd_keys_def wr_keys_def)
  moreover have "source_ok ?c ?s" by (simp add: source_ok_def)
  ultimately have "\<exists>c'. schedule_loop cfg ?s [] (get_items ?s ?c) ?c = Inr c' \<and> ctrl_inv cfg c' \<and>
      in_flight c' = in_flight ?c \<and> ctrl_clk c' = ctrl_clk ?c"
    by (intro schedule_loop_ok [OF cfg]) simp_all
  moreover have "ScheduleTransaction cfg c = schedule_loop cfg ?s [] (get_items ?s ?c) ?c"
  proof -
    have eq: "(if write_draining c = 0 \<and> \<not> is_unified_queue c \<and>
        (buf_full (write_buffer c) \<or> (?n > 8 \<and> QueueEmpty (cmd_queue c)))
        then c\<lparr>write_draining := int ?n\<rparr> else c) = ?c" by auto
    show ?thesis unfolding ScheduleTransaction_def Let_def eq by (rule refl)
  qed
  ultimately show ?thesis by (simp add: in_flight_def)
qed

subsection \<open>A clock cycle\<close>

lemma Refresh_ClockTick_ok:
  assumes rf: "refresh_inv cfg rf" "0 < refresh_interval rf" "refresh_interval rf < 2 ^ 63"
    and ch: "channel_inv cfg cs" and sref: "True \<notin> set (rank_is_sref cs)"
  obtains rf' cs' where "Refresh_ClockTick cfg rf cs = Inr (rf', cs')" "refresh_inv cfg rf'"
    "refresh_interval rf' = refresh_interval rf" "channel_inv cfg cs'" "rank_is_sref cs' = rank_is_sref cs"
proof -
  have r: "in_range cfg (next_rank rf, next_bg rf, next_bank rf)" using rf(1) by (simp add: refresh_inv_def)
  then have rank0: "0 \<le> next_rank rf" "next_rank rf < ranks cfg" by (auto simp: in_range_def)
  have s: "IsRankSelfRefreshing cs i = Inr False" if "0 \<le> i" "i < ranks cfg" for i
    using that sref ch by (auto simp: channel_inv_def IsRankSelfRefreshing_def vget_def in_set_conv_nth)
  have ins: "\<exists>rf' cs'. InsertRefresh cfg rf cs = Inr (rf', cs') \<and> refresh_inv cfg rf' \<and>
      refresh_interval rf' = refresh_interval rf \<and> channel_inv cfg cs' \<and> rank_is_sref cs' = rank_is_sref cs"
  proof (cases "policy rf")
    case RANK_LEVEL_SIMULTANEOUS
    have "0 < ranks cfg" using rank0 by simp
    then have "[0..ranks cfg - 1] = 0 # [1..ranks cfg - 1]" by (simp add: upto_rec1)
    then have "InsertRefresh cfg rf cs = Inr (rf, RankNeedRefresh cs 0 True)"
      using RANK_LEVEL_SIMULTANEOUS s [of 0] \<open>0 < ranks cfg\<close> by (simp add: InsertRefresh_def)
    then show ?thesis
      using rf(1) channel_inv_RankNeedRefresh [OF ch, of True 0] \<open>0 < ranks cfg\<close> by simp
  next
    case RANK_LEVEL_STAGGERED
    then obtain rf' where rf': "IterateNext cfg rf = Inr rf'" using IterateNext_ok [OF rf(1)] by (auto elim: okE)
    then have "InsertRefresh cfg rf cs = Inr (rf', RankNeedRefresh cs (next_rank rf) True)"
      using RANK_LEVEL_STAGGERED s [OF rank0] by (simp add: InsertRefresh_def)
    then show ?thesis
      using IterateNext_inv [OF rf(1) rf'] IterateNext_sel [OF rf'] channel_inv_RankNeedRefresh [OF ch] rank0 by simp
  next
    case BANK_LEVEL_STAGGERED
    then obtain rf' where rf': "IterateNext cfg rf = Inr rf'" using IterateNext_ok [OF rf(1)] by (auto elim: okE)
    then have "InsertRefresh cfg rf cs =
        Inr (rf', BankNeedRefresh cs (next_rank rf) (next_bg rf) (next_bank rf) True)"
      using BANK_LEVEL_STAGGERED s [OF rank0] by (simp add: InsertRefresh_def)
    then show ?thesis
      using IterateNext_inv [OF rf(1) rf'] IterateNext_sel [OF rf'] channel_inv_BankNeedRefresh [OF ch] r by simp
  qed (use rf(1) in \<open>simp add: refresh_inv_def\<close>)
  then obtain rf1 cs1 where 1: "InsertRefresh cfg rf cs = Inr (rf1, cs1)" "refresh_inv cfg rf1"
    "refresh_interval rf1 = refresh_interval rf" "channel_inv cfg cs1" "rank_is_sref cs1 = rank_is_sref cs"
    by blast
  show thesis
  proof (cases "ref_clk rf mod of_int (refresh_interval rf) = 0 \<and> ref_clk rf > 0")
    case True
    then show thesis
      using that [of "rf1\<lparr>ref_clk := ref_clk rf1 + 1\<rparr>" cs1] 1 rf(2)
      by (simp add: Refresh_ClockTick_def refresh_inv_def)
  next
    case False
    then have "Refresh_ClockTick cfg rf cs = Inr (rf\<lparr>ref_clk := ref_clk rf + 1\<rparr>, cs)"
      using rf(2) by (auto simp: Refresh_ClockTick_def)
    then show thesis
      using that [of "rf\<lparr>ref_clk := ref_clk rf + 1\<rparr>" cs] rf(1) ch by (simp add: refresh_inv_def)
  qed
qed

lemma Controller_ClockTick_ok:
  assumes cfg: "config_ok cfg" "\<not> enable_self_refresh cfg" and inv: "ctrl_inv cfg c"
  shows "\<exists>c'. Controller_ClockTick cfg c = Inr c' \<and> ctrl_inv cfg c' \<and> in_flight c' = in_flight c \<and>
    ctrl_clk c' = ctrl_clk c + 1"
proof -
  have dims: "dims_wf cfg" using cfg(1) by (simp add: config_ok_def)
  obtain rf cs where rf: "Refresh_ClockTick cfg (refresh c) (channel_state c) = Inr (rf, cs)" "refresh_inv cfg rf"
    "refresh_interval rf = refresh_interval (refresh c)" "channel_inv cfg cs"
    "rank_is_sref cs = rank_is_sref (channel_state c)"
    by (rule Refresh_ClockTick_ok [of cfg "refresh c" "channel_state c"]) (use inv in \<open>auto simp: ctrl_inv_def\<close>)
  let ?c1 = "c\<lparr>refresh := rf, channel_state := cs\<rparr>"
  have "ctrl_inv cfg ?c1"
    using inv rf by (simp add: ctrl_inv_def queues_inv_cong [of ?c1 c] pim_inv_def)
  then obtain r c2 where c2: "next_command cfg ?c1 = Inr (r, c2)" "ctrl_inv cfg c2" "same_frame ?c1 c2"
    "IsValid r \<longrightarrow> issuable cfg c2 r" by (rule next_command_step [OF _ dims])
  obtain b c3 where c3: "issue_phase cfg r c2 = Inr (b, c3)" "ctrl_inv cfg c3" "in_flight c3 = in_flight c2"
    "ctrl_clk c3 = ctrl_clk c2" using issue_phase_step [OF c2(2) dims c2(4)] by blast
  obtain c4 where c4: "mfold (idle_step cfg) [0..ranks cfg - 1] c3 = Inr c4" "ctrl_inv cfg c4"
    "in_flight c4 = in_flight c3" "ctrl_clk c4 = ctrl_clk c3" using idle_steps_ok [OF c3(2), of "[0..ranks cfg - 1]"] by auto
  obtain c5 where c5: "ScheduleTransaction cfg c4 = Inr c5" "ctrl_inv cfg c5" "in_flight c5 = in_flight c4"
    "ctrl_clk c5 = ctrl_clk c4" using ScheduleTransaction_ok [OF cfg(1) c4(2)] by blast
  let ?c = "c5\<lparr>ctrl_clk := ctrl_clk c5 + 1, cmd_queue := CommandQueue_ClockTick (cmd_queue c5),
      simple_stats := Increment ''num_cycles'' (simple_stats c5)\<rparr>"
  have fl: "in_flight ?c1 = in_flight c" "in_flight ?c = in_flight c5" by (simp_all add: in_flight_def)
  have "cq_inv cfg (CommandQueue_ClockTick (cmd_queue c5))"
    using c5(2) by (auto simp: ctrl_inv_def cq_inv_def CommandQueue_ClockTick_def
        queue_of_cong [where cq = "cmd_queue c5" and cq' = "(cmd_queue c5)\<lparr>cq_clk := cq_clk (cmd_queue c5) + 1\<rparr>"])
  moreover have "queues_inv ?c"
    using c5(2) by (simp add: ctrl_inv_def queues_inv_def reads_of_def writes_of_def trans_items_def rd_keys_def
        wr_keys_def pending_def CommandQueue_ClockTick_def)
  ultimately have "ctrl_inv cfg ?c" using c5(2) by (simp add: ctrl_inv_def pim_inv_def)
  then show ?thesis
    using rf(1) c2(1,3) c3 c4 c5 cfg(2) fl by (simp add: Controller_ClockTick_def same_frame_def)
qed

subsection \<open>Construction, new and completed transactions\<close>

lemma pending_init: "mk_command_queue cfg = Inr cq \<Longrightarrow> pending cq = {#}"
  by (auto simp: mk_command_queue_def pending_def elim!: rbindE split: if_splits prod.splits)

lemma mk_controller_inv:
  assumes dims: "dims_wf cfg" and c: "mk_controller cfg ch = Inr c" and "0 < ranks cfg"
    and "refresh_policy cfg \<noteq> RefreshPolicy_SIZE"
    and "0 < refresh_interval (refresh c)" "refresh_interval (refresh c) < 2 ^ 63"
  shows "ctrl_inv cfg c" "in_flight c = {#}"
proof -
  from c obtain st cs cq rf where s: "mk_stats cfg = Inr st" "mk_channel_state cfg = Inr cs"
    "mk_command_queue cfg = Inr cq" "mk_refresh cfg = Inr rf" "simple_stats c = st" "channel_state c = cs"
    "cmd_queue c = cq" "refresh c = rf" "trans_items c = []" "pending_rd_q c = []" "pending_wr_q c = []"
    "return_queue c = []" "rd_w_cmds c = []" "rd_in_cmds c = []" "wr_cmds c = []" "release_time c = []"
    "items (read_queue c) = []" "items (write_buffer c) = []" "write_draining c = 0"
    by (auto simp: mk_controller_def reserve_def empty_buffer_def trans_items_def elim!: rbindE split: if_splits prod.splits)
  have "stats_ok cfg st" using mk_stats_ok [of cfg] s(1) assms(3) by fastforce
  moreover have "channel_inv cfg cs" by (rule channel_inv_init [OF s(2)])
  moreover have "cq_inv cfg cq" by (rule cq_inv_init [OF s(3)])
  moreover have "True \<notin> set (rank_is_sref cs)"
    using s(2) by (auto simp: mk_channel_state_def split: if_splits)
  moreover have "refresh_inv cfg rf"
    using s(4) assms(3,4) dims
    by (auto simp: mk_refresh_def refresh_inv_def in_range_def dims_wf_def elim!: rbindE)
  moreover have "pending cq = {#}" by (rule pending_init [OF s(3)])
  ultimately show "ctrl_inv cfg c" "in_flight c = {#}"
    using assms(5,6) s
    by (simp_all add: ctrl_inv_def queues_inv_def reads_of_def writes_of_def pim_inv_def in_flight_def)
qed

lemma mset_set_insert_sub:
  "M \<subseteq># mset_set K \<Longrightarrow> finite K \<Longrightarrow> a \<notin> K \<Longrightarrow> add_mset a M \<subseteq># mset_set (insert a K)"
  by simp

lemma mset_set_mono_sub: "M \<subseteq># mset_set K \<Longrightarrow> finite K' \<Longrightarrow> K \<subseteq> K' \<Longrightarrow> M \<subseteq># mset_set K'"
  by (meson subset_imp_msubset_mset_set subset_mset.order_trans)

lemma buf_push_items [simp]: "items (buf_push t b) = items b @ [t]"
  by (simp add: buf_push_def)

lemma enqueue_sel [simp]:
  "cmd_queue (enqueue_write t c) = cmd_queue c" "cmd_queue (enqueue_read t c) = cmd_queue c"
  "pending_rd_q (enqueue_write t c) = pending_rd_q c" "pending_rd_q (enqueue_read t c) = pending_rd_q c"
  "pending_wr_q (enqueue_write t c) = pending_wr_q c" "pending_wr_q (enqueue_read t c) = pending_wr_q c"
  "return_queue (enqueue_write t c) = return_queue c" "return_queue (enqueue_read t c) = return_queue c"
  "channel_state (enqueue_write t c) = channel_state c" "channel_state (enqueue_read t c) = channel_state c"
  "refresh (enqueue_write t c) = refresh c" "refresh (enqueue_read t c) = refresh c"
  "simple_stats (enqueue_write t c) = simple_stats c" "simple_stats (enqueue_read t c) = simple_stats c"
  "pim_inv cfg (enqueue_write t c) = pim_inv cfg c" "pim_inv cfg (enqueue_read t c) = pim_inv cfg c"
  "write_draining (enqueue_write t c) = write_draining c" "write_draining (enqueue_read t c) = write_draining c"
  "ctrl_clk (enqueue_write t c) = ctrl_clk c" "ctrl_clk (enqueue_read t c) = ctrl_clk c"
  by (simp_all add: enqueue_write_def enqueue_read_def pim_inv_def)

lemma enqueue_trans_items:
  "mset (trans_items (enqueue_write t c)) = add_mset t (mset (trans_items c))"
  "mset (trans_items (enqueue_read t c)) = add_mset t (mset (trans_items c))"
  by (simp_all add: enqueue_write_def enqueue_read_def trans_items_def)

lemma enqueue_reads_of:
  "reads_of (enqueue_read t c) = (if is_write t then reads_of c else add_mset (trans_addr t) (reads_of c))"
  "reads_of (enqueue_write t c) = (if is_write t then reads_of c else add_mset (trans_addr t) (reads_of c))"
  "writes_of (enqueue_read t c) = (if is_write t then add_mset (trans_addr t) (writes_of c) else writes_of c)"
  "writes_of (enqueue_write t c) = (if is_write t then add_mset (trans_addr t) (writes_of c) else writes_of c)"
  by (simp_all add: reads_of_def writes_of_def mset_filter enqueue_trans_items)

lemma enqueue_buffers:
  "is_write t \<Longrightarrow> list_all is_write (items (write_buffer c)) \<Longrightarrow> list_all is_write (items (write_buffer (enqueue_write t c)))"
  "items (read_queue (enqueue_write t c)) = items (read_queue c)"
  "\<not> is_write t \<Longrightarrow> list_all (\<lambda>t. \<not> is_write t) (items (read_queue c)) \<Longrightarrow>
     list_all (\<lambda>t. \<not> is_write t) (items (read_queue (enqueue_read t c)))"
  "items (write_buffer (enqueue_read t c)) = items (write_buffer c)"
  "length (items (write_buffer c)) \<le> length (items (write_buffer (enqueue_write t c)))"
  by (simp_all add: enqueue_write_def enqueue_read_def)

text \<open>The controller with the time of the last transaction noted.\<close>

definition arrived :: "Controller \<Rightarrow> Controller" where
  "arrived c = c\<lparr>simple_stats := AddValue ''interarrival_latency''
     (u64_to_int (ctrl_clk c - last_trans_clk c)) (simple_stats c), last_trans_clk := ctrl_clk c\<rparr>"

lemma arrived_inv: "ctrl_inv cfg c \<Longrightarrow> ctrl_inv cfg (arrived c)"
  by (simp add: ctrl_inv_def pim_inv_def arrived_def queues_inv_def reads_of_def writes_of_def trans_items_def
      rd_keys_def wr_keys_def)

lemma arrived_sel [simp]:
  "pending_wr_q (arrived c) = pending_wr_q c" "pending_rd_q (arrived c) = pending_rd_q c"
  "return_queue (arrived c) = return_queue c" "ctrl_clk (arrived c) = ctrl_clk c"
  "in_flight (arrived c) = in_flight c" "cmd_queue (arrived c) = cmd_queue c"
  "rd_keys (arrived c) = rd_keys c" "wr_keys (arrived c) = wr_keys c" "reads_of (arrived c) = reads_of c"
  "trans_items (arrived c) = trans_items c"
  by (simp_all add: arrived_def in_flight_def rd_keys_def wr_keys_def reads_of_def trans_items_def)

definition stamped :: "Transaction \<Rightarrow> Controller \<Rightarrow> Transaction" where
  "stamped tr c = (copy_transaction tr)\<lparr>added_cycle := ctrl_clk c\<rparr>"

lemma stamped_sel [simp]: "trans_addr (stamped tr c) = trans_addr tr" "is_write (stamped tr c) = is_write tr"
  by (simp_all add: stamped_def copy_transaction_def)

definition answer :: "Transaction \<Rightarrow> Controller \<Rightarrow> Controller" where
  "answer t c = c\<lparr>return_queue := return_queue c @ [t\<lparr>complete_cycle := ctrl_clk c + 1\<rparr>]\<rparr>"

lemma answer_inv: "ctrl_inv cfg (answer t c) = ctrl_inv cfg c"
  by (simp add: ctrl_inv_def pim_inv_def answer_def queues_inv_cong [of "answer t c" c, unfolded answer_def])

lemma AddTransaction_cases:
  "AddTransaction tr c = (True,
     if is_write tr then
       answer (stamped tr c)
         (if trans_addr tr \<notin> wr_keys c
          then enqueue_write (stamped tr c)
                 ((arrived c)\<lparr>pending_wr_q := pending_wr_q c @ [(trans_addr tr, stamped tr c)]\<rparr>)
          else arrived c)
     else if trans_addr tr \<in> wr_keys c then answer (stamped tr c) (arrived c)
     else (let c1 = (arrived c)\<lparr>pending_rd_q := pending_rd_q c @ [(trans_addr tr, stamped tr c)]\<rparr>
           in if trans_addr tr \<notin> rd_keys c then enqueue_read (stamped tr c) c1 else c1))"
proof -
  have w: "mm_count (pending_wr_q c) a = 0 \<longleftrightarrow> a \<notin> wr_keys c" "0 < mm_count (pending_wr_q c) a \<longleftrightarrow> a \<in> wr_keys c" for a
    using mm_count_0 [of "pending_wr_q c" a] by (auto simp: wr_keys_def)
  have "mm_count (pending_rd_q c @ [(a, t)]) a = Suc (mm_count (pending_rd_q c) a)" for a t
    by (simp add: mm_count_def)
  then have r: "mm_count (pending_rd_q c @ [(a, t)]) a = Suc 0 \<longleftrightarrow> a \<notin> rd_keys c" for a t
    by (simp add: mm_count_0 rd_keys_def)
  show ?thesis
    by (simp add: AddTransaction_def Let_def stamped_def arrived_def w r answer_def copy_transaction_def
        del: not_gr_zero)
qed

lemma queued_sel:
  "reads_of (c\<lparr>pending_rd_q := m\<rparr>) = reads_of c" "rd_keys (c\<lparr>pending_rd_q := m\<rparr>) = fst ` set m"
  "rd_keys (enqueue_read t c) = rd_keys c" "fst ` set (pending_rd_q c) = rd_keys c"
  by (simp_all add: reads_of_def rd_keys_def trans_items_def)

lemma answer_sel:
  "reads_of (answer t c) = reads_of c" "rd_keys (answer t c) = rd_keys c"
  "pending_rd_q (answer t c) = pending_rd_q c"
  "return_queue (answer t c) = return_queue c @ [t\<lparr>complete_cycle := ctrl_clk c + 1\<rparr>]"
  by (simp_all add: answer_def reads_of_def rd_keys_def trans_items_def)

lemma ctrl_inv_add_write:
  assumes inv: "ctrl_inv cfg c" and t: "is_write t" "trans_addr t \<notin> wr_keys c"
  shows "ctrl_inv cfg (enqueue_write t (c\<lparr>pending_wr_q := pending_wr_q c @ [(trans_addr t, t)]\<rparr>))"
    (is "ctrl_inv cfg (enqueue_write t ?c)")
proof -
  have q: "queues_inv c" using inv by (simp add: ctrl_inv_def)
  have k: "wr_keys ?c = insert (trans_addr t) (wr_keys c)" "rd_keys ?c = rd_keys c" "reads_of ?c = reads_of c"
    "writes_of ?c = writes_of c" "finite (wr_keys c)"
    by (auto simp: wr_keys_def rd_keys_def reads_of_def writes_of_def trans_items_def)
  have k2: "rd_keys (enqueue_write t ?c) = rd_keys c" "wr_keys (enqueue_write t ?c) = insert (trans_addr t) (wr_keys c)"
    using k(1,2) by (simp_all add: rd_keys_def wr_keys_def)
  have "distinct (map fst (pending_wr_q ?c))" using q t(2) by (simp add: queues_inv_def wr_keys_def)
  then have "queues_inv (enqueue_write t ?c)"
    using q t k k2 enqueue_buffers(1) [OF t(1), of ?c] enqueue_buffers(5) [of ?c t]
    by (auto simp: queues_inv_def enqueue_reads_of enqueue_buffers(2) wr_keys_def)
  then show ?thesis using inv by (simp add: ctrl_inv_def) (simp add: pim_inv_def)
qed

lemma ctrl_inv_add_read:
  assumes inv: "ctrl_inv cfg c" and t: "\<not> is_write t"
  shows "ctrl_inv cfg (let c1 = c\<lparr>pending_rd_q := pending_rd_q c @ [(trans_addr t, t)]\<rparr>
    in if trans_addr t \<notin> rd_keys c then enqueue_read t c1 else c1)"
proof -
  let ?c = "c\<lparr>pending_rd_q := pending_rd_q c @ [(trans_addr t, t)]\<rparr>"
  have q: "queues_inv c" using inv by (simp add: ctrl_inv_def)
  have k: "rd_keys ?c = insert (trans_addr t) (rd_keys c)" "wr_keys ?c = wr_keys c" "reads_of ?c = reads_of c"
    "writes_of ?c = writes_of c" "finite (rd_keys c)"
    by (auto simp: wr_keys_def rd_keys_def reads_of_def writes_of_def trans_items_def)
  have k2: "wr_keys (enqueue_read t ?c) = wr_keys c" "rd_keys (enqueue_read t ?c) = insert (trans_addr t) (rd_keys c)"
    using k(1,2) by (simp_all add: rd_keys_def wr_keys_def)
  have "queues_inv (enqueue_read t ?c)" if "trans_addr t \<notin> rd_keys c"
    using q t k k2 that enqueue_buffers(3) [OF t(1), of ?c]
    by (auto simp: queues_inv_def enqueue_reads_of enqueue_buffers(4))
  moreover have "queues_inv ?c" if "trans_addr t \<in> rd_keys c"
    using q k that by (simp add: queues_inv_def insert_absorb)
  ultimately show ?thesis using inv by (simp add: ctrl_inv_def Let_def) (simp add: pim_inv_def)
qed

lemma AddTransaction_step:
  assumes inv: "ctrl_inv cfg c"
  shows "fst (AddTransaction tr c)" "ctrl_inv cfg (snd (AddTransaction tr c))"
    "in_flight (snd (AddTransaction tr c)) = add_mset (trans_addr tr, is_write tr) (in_flight c)"
proof -
  let ?t = "stamped tr c"
  note a = arrived_inv [OF inv]
  show "fst (AddTransaction tr c)" by (simp add: AddTransaction_cases)
  show "ctrl_inv cfg (snd (AddTransaction tr c))"
    using ctrl_inv_add_write [OF a, of ?t] ctrl_inv_add_read [OF a, of ?t] a
    by (simp add: AddTransaction_cases answer_inv)
  show "in_flight (snd (AddTransaction tr c)) = add_mset (trans_addr tr, is_write tr) (in_flight c)"
    by (auto simp: AddTransaction_cases answer_def in_flight_def Let_def stamped_def copy_transaction_def arrived_def)
qed

lemma erase_first_find:
  "find P xs = Some x \<Longrightarrow> mset xs = add_mset x (mset (erase_first P xs))"
  by (induction xs) (auto split: if_splits)

definition done_answer :: "u64 \<times> int \<Rightarrow> (u64 \<times> bool) list" where
  "done_answer r = (case r of (a, w) \<Rightarrow> if w = 1 then [(a, True)] else if w = 0 then [(a, False)] else [])"

lemma ReturnDoneTrans_step:
  assumes inv: "ctrl_inv cfg c" and r: "ReturnDoneTrans clk c = (r, c')"
  shows "ctrl_inv cfg c'"
    "in_flight c = in_flight c' + mset (done_answer r)"
proof -
  have "ctrl_inv cfg (c\<lparr>simple_stats := st, return_queue := q\<rparr>)" if "stats_ok cfg st" for st q
    using inv that by (simp add: ctrl_inv_def pim_inv_def queues_inv_cong [of "c\<lparr>simple_stats := st, return_queue := q\<rparr>" c])
  moreover have "stats_ok cfg (simple_stats c)" using inv by (simp add: ctrl_inv_def)
  ultimately show "ctrl_inv cfg c'"
    using r inv by (auto simp: ReturnDoneTrans_def Let_def split: option.splits)
  show "in_flight c = in_flight c' + mset (done_answer r)"
    using r erase_first_find [of "\<lambda>t. complete_cycle t \<le> clk" "return_queue c"]
    by (auto simp: ReturnDoneTrans_def Let_def in_flight_def done_answer_def split: option.splits if_splits)
qed

subsection \<open>The controller as a buffer of transactions\<close>

datatype ctrl_event = Tick | Collect u64

definition ctrl_put :: "u64 \<times> bool \<Rightarrow> Controller \<Rightarrow> (bool \<times> Controller) res" where
  "ctrl_put x c = (case x of (a, w) \<Rightarrow> Inr (AddTransaction (mk_transaction a w) c))"

definition ctrl_take :: "Config \<Rightarrow> ctrl_event \<Rightarrow> Controller \<Rightarrow> ((u64 \<times> bool) list \<times> Controller) res" where
  "ctrl_take cfg e c =
     (case e of
        Tick \<Rightarrow> rbind (Controller_ClockTick cfg c) (\<lambda>c. Inr ([], c))
      | Collect clk \<Rightarrow> (case ReturnDoneTrans clk c of (r, c) \<Rightarrow> Inr (done_answer r, c)))"

interpretation ctrl_buffer: bag_buffer
  "\<lambda>c. config_ok cfg \<and> \<not> enable_self_refresh cfg \<and> ctrl_inv cfg c" in_flight "\<lambda>_. True" "\<lambda>_. True"
  ctrl_put "ctrl_take cfg" for cfg
proof (unfold_locales, goal_cases)
  case (1 c x)
  obtain a w where x: "x = (a, w)" by (cases x)
  obtain b c' where b: "AddTransaction (mk_transaction a w) c = (b, c')" by (cases "AddTransaction (mk_transaction a w) c")
  show ?case
    using AddTransaction_step [of cfg c "mk_transaction a w"] 1 b x
    by (auto simp: ctrl_put_def mk_transaction_def)
next
  case (2 c e)
  show ?case
  proof (cases e)
    case Tick
    then show ?thesis using Controller_ClockTick_ok [of cfg c] 2 by (auto simp: ctrl_take_def)
  next
    case (Collect clk)
    obtain r c' where r: "ReturnDoneTrans clk c = (r, c')" by (cases "ReturnDoneTrans clk c")
    then show ?thesis using ReturnDoneTrans_step [OF _ r] 2 Collect by (auto simp: ctrl_take_def)
  qed
qed

subsection \<open>Properties\<close>


text \<open>
  C11. A clock cycle with in-memory processing commands returns as well: with well-formed accesses and
  activations of the processing units waiting in the three lists, in any mixture with ordinary
  commands and refreshes, \<^verbatim>\<open>ClockTick\<close> neither aborts nor exits, and keeps the controller invariant.
\<close>

theorem clock_tick_returns:
  assumes "config_ok cfg" and "\<not> enable_self_refresh cfg" and "ctrl_inv cfg c"
  shows "\<exists>c'. Controller_ClockTick cfg c = Inr c' \<and> ctrl_inv cfg c' \<and> ctrl_clk c' = ctrl_clk c + 1"
  using Controller_ClockTick_ok [OF assms] by blast

text \<open>
  C13. Reads see pending writes: a read of an address with a write that was not issued yet is answered in
  the next cycle without any command; otherwise the read is pending, and it is queued exactly when no
  earlier read of the address is, so that equal reads share one command.
\<close>

theorem read_forwarding:
  assumes "\<not> is_write tr"
  shows "if trans_addr tr \<in> wr_keys c
    then \<exists>t. return_queue (snd (AddTransaction tr c)) = return_queue c @ [t] \<and> trans_addr t = trans_addr tr \<and>
           complete_cycle t = ctrl_clk c + 1 \<and> reads_of (snd (AddTransaction tr c)) = reads_of c \<and>
           pending_rd_q (snd (AddTransaction tr c)) = pending_rd_q c
    else return_queue (snd (AddTransaction tr c)) = return_queue c \<and>
      rd_keys (snd (AddTransaction tr c)) = insert (trans_addr tr) (rd_keys c) \<and>
      reads_of (snd (AddTransaction tr c)) =
        (if trans_addr tr \<in> rd_keys c then reads_of c else add_mset (trans_addr tr) (reads_of c))"
  using assms by (auto simp: AddTransaction_cases answer_sel Let_def enqueue_reads_of queued_sel)

lemma mm_erase_filter: "filter (\<lambda>(k, _). k \<noteq> a) (mm_erase a m) = filter (\<lambda>(k, _). k \<noteq> a) m"
  by (induction m) (auto simp: mm_erase_def)

lemma mm_erase_filter_eq:
  "mm_find m a = Some t \<Longrightarrow> filter (\<lambda>(k, _). k = a) m = (a, t) # filter (\<lambda>(k, _). k = a) (mm_erase a m)"
  by (induction m) (auto simp: mm_erase_def mm_find_def split: if_splits)

lemma return_reads_exact:
  assumes "mm_count (pending_rd_q c) a = n"
  shows "return_reads n a t c = Inr (c\<lparr>
    return_queue := return_queue c @ map (\<lambda>(_, tr). tr\<lparr>complete_cycle := t\<rparr>) (filter (\<lambda>(k, _). k = a) (pending_rd_q c)),
    pending_rd_q := filter (\<lambda>(k, _). k \<noteq> a) (pending_rd_q c)\<rparr>)"
  using assms
proof (induction n arbitrary: c)
  case 0
  then have e: "filter (\<lambda>(k, _). k = a) (pending_rd_q c) = []" by (simp add: mm_count_def)
  then have "filter (\<lambda>(k, _). k \<noteq> a) (pending_rd_q c) = pending_rd_q c"
    by (auto simp: filter_empty_conv intro!: filter_True)
  with e show ?case by simp
next
  case (Suc n)
  then have "a \<in> fst ` set (pending_rd_q c)" using mm_count_0 [of "pending_rd_q c" a] by fastforce
  then obtain tr where tr: "mm_find (pending_rd_q c) a = Some tr"
    using mm_find_None [of "pending_rd_q c" a] by fastforce
  have "mm_count (mm_erase a (pending_rd_q c)) a = n" using mm_count_erase [OF tr] Suc.prems by simp
  then show ?case
    using Suc.IH [of "c\<lparr>return_queue := return_queue c @ [tr\<lparr>complete_cycle := t\<rparr>],
        pending_rd_q := mm_erase a (pending_rd_q c)\<rparr>"] tr mm_erase_filter_eq [OF tr]
    by (simp add: mm_erase_filter)
qed

lemma schedule_loop_spec:
  assumes "schedule_loop cfg s prev rest c = Inr c'" and "config_ok cfg" and "cq_inv cfg (cmd_queue c)"
  shows "pending (cmd_queue c') = pending (cmd_queue c) \<or>
    (\<exists>t \<in> set rest. pending (cmd_queue c') = add_mset (TransToCommand cfg c t) (pending (cmd_queue c)) \<and>
       (\<not> is_unified_queue c \<and> is_write t \<longrightarrow> trans_addr t \<notin> rd_keys c))"
  using assms(1)
proof (induction rest arbitrary: prev)
  case (Cons t rest)
  have dims: "dims_wf cfg" using assms(2) by (simp add: config_ok_def)
  let ?cmd = "TransToCommand cfg c t"
  note cmd = TransToCommand_wf [OF assms(2), of c t]
  obtain w cq' where w: "WillAcceptCommand cfg (cmd_queue c) (Rank ?cmd) (Bankgroup ?cmd) (Bank ?cmd) = Inr w"
    "AddCommand cfg (cmd_queue c) ?cmd = Inr (w, cq')"
    "queues cq' = (if w then (queues (cmd_queue c))[nat (queue_of cfg (cmd_queue c) ?cmd) :=
       queues (cmd_queue c) ! nat (queue_of cfg (cmd_queue c) ?cmd) @ [?cmd]] else queues (cmd_queue c))"
    by (rule AddCommand_spec [OF assms(3) dims cmd(1)])
  show ?case
  proof (cases w)
    case False
    then show ?thesis using Cons w(1) by auto
  next
    case True
    have p: "pending cq' = add_mset ?cmd (pending (cmd_queue c))"
      by (rule pending_add [OF assms(3) dims cmd(1)]) (use w(3) True in simp)
    have q: "cmd_queue (set_items s xs d) = cmd_queue d" for xs d
      by (simp add: set_items_def split: trans_source.split)
    show ?thesis
    proof (cases "\<not> is_unified_queue c \<and> is_write t \<and> mm_count (pending_rd_q c) (trans_addr t) > 0")
      case True
      then show ?thesis using Cons.prems w(1) \<open>w\<close> cmd(3) by auto
    next
      case False
      then have "pending (cmd_queue c') = add_mset ?cmd (pending (cmd_queue c))"
        using Cons.prems w(1,2) \<open>w\<close> cmd(3) p q by (auto split: if_splits)
      moreover have "\<not> is_unified_queue c \<and> is_write t \<longrightarrow> trans_addr t \<notin> rd_keys c"
        using False mm_count_0 [of "pending_rd_q c" "trans_addr t"] by (auto simp: rd_keys_def)
      ultimately show ?thesis by auto
    qed
  qed
qed simp

text \<open>
  C14. A write waits for the reads before it: with separate queues, when \<^verbatim>\<open>ScheduleTransaction\<close> moves a write
  into the command queue, no read of the same address is pending, so the read cannot see the new value.
\<close>

theorem write_waits_for_reads:
  assumes "config_ok cfg" and "ctrl_inv cfg c" and "\<not> is_unified_queue c"
    and "ScheduleTransaction cfg c = Inr c'"
    and "pending (cmd_queue c') = add_mset cmd (pending (cmd_queue c))" and "IsWrite cmd"
  shows "hex_addr cmd \<notin> rd_keys c"
proof -
  from assms(4) obtain s d where s: "schedule_loop cfg s [] (get_items s (c\<lparr>write_draining := d\<rparr>)) (c\<lparr>write_draining := d\<rparr>) = Inr c'"
    by (auto simp: ScheduleTransaction_def Let_def split: if_splits)
      (metis Controller.surjective Controller.update_convs(22))+
  let ?c = "c\<lparr>write_draining := d\<rparr>"
  have "cq_inv cfg (cmd_queue ?c)" using assms(2) by (simp add: ctrl_inv_def)
  from schedule_loop_spec [OF s assms(1) this] assms(5)
  obtain t where "TransToCommand cfg ?c t = cmd" "is_write t \<longrightarrow> trans_addr t \<notin> rd_keys c"
    using assms(3) by (auto simp: rd_keys_def)
  then show ?thesis using TransToCommand_wf(2,3) [OF assms(1), of ?c t] assms(6) by auto
qed

text \<open>
  C12. Issuing a read completes all merged reads: every pending read of the address, in the order of arrival
  and no other, moves to the return queue with the completion time \<open>clk + read_delay\<close>, and the
  command reaches the channel state.
\<close>

theorem merged_reads_complete:
  assumes "IssueCommand cfg r c = Inr c'" and "IsRead r"
  shows "return_queue c' = return_queue c @
      map (\<lambda>(_, t). t\<lparr>complete_cycle := ctrl_clk c + of_int (read_delay cfg)\<rparr>)
        (filter (\<lambda>(k, _). k = hex_addr r) (pending_rd_q c)) \<and>
    pending_rd_q c' = filter (\<lambda>(k, _). k \<noteq> hex_addr r) (pending_rd_q c) \<and>
    UpdateTimingAndStates cfg (mk_timing cfg) (channel_state c) r (ctrl_clk c) = Inr (channel_state c')"
  using assms
  by (auto simp: IssueCommand_def complete_pending_def return_reads_exact Let_def UpdateCommandStats_def
      elim!: rbindE split: if_splits)


text \<open>
  C40. Waking a rank aborts: when a rank is in self-refresh and has a command queued that cannot be issued
  yet, the self-refresh step of \<^verbatim>\<open>ClockTick\<close> asks the channel for \<^verbatim>\<open>SREF_EXIT\<close>, which the banks do not know as
  a request, and the program aborts.
\<close>

theorem self_refresh_wakeup_aborts:
  assumes "channel_inv cfg (channel_state c)" and "dims_wf cfg" and "0 \<le> i" and "i < ranks cfg"
    and "rank_is_sref (channel_state c) ! nat i"
    and "vget (rank_q_empty (cmd_queue c)) i = Inr False"
  shows "sref_loop cfg (i # is) c = Inl (AbruptExit ''bankstate.cc'' 105)"
proof -
  let ?cs = "channel_state c"
  have sref: "IsRankSelfRefreshing ?cs i = Inr True"
    using assms(1,3-5) by (simp add: channel_inv_def IsRankSelfRefreshing_def vget_def)
  have "[0..bankgroups cfg - 1] \<noteq> []" "[0..banks_per_group cfg - 1] \<noteq> []"
    using assms(2) by (simp_all add: dims_wf_def)
  then obtain p ps where ps: "rank_banks cfg i = p # ps"
    by (cases "rank_banks cfg i") (auto simp: rank_banks_def)
  then have mem: "p \<in> set (rank_banks cfg i)" by simp
  then have p: "in_range cfg p" "fst p = i"
    using rank_banks_in_range [OF assms(3,4) mem] by (auto simp: rank_banks_def)
  then obtain b where b: "bank_at (bank_states ?cs) p = Inr b" using channel_invD(3) [OF assms(1)] by blast
  then have "state b = SREF" using channel_invD(4) [OF assms(1) b] assms(5) p(2) by simp
  then have "BankState_GetReadyCommand b (rank_command SREF_EXIT i) clk = Inl (AbruptExit ''bankstate.cc'' 105)" for clk
    by (simp add: BankState_GetReadyCommand_def required_type_def rank_command_def)
  then show ?thesis
    using sref assms(6) ps b by (simp add: ChannelState_GetReadyCommand_def rank_command_def IsRankCMD_def)
qed

subsection \<open>Example runs\<close>

lemma tiny_config_ok: "config_ok tiny_config" "\<not> enable_self_refresh tiny_config"
  by (simp_all add: config_ok_def dims_wf_def in_range_def AddressMapping_def Let_def tiny_config_def
      config0_def u64_to_int_def)

lemma tiny_controller:
  obtains c where "mk_controller tiny_config 0 = Inr c" "ctrl_inv tiny_config c" "in_flight c = {#}"
    "refresh_interval (refresh c) = 100" "trans_items c = []" "\<not> is_unified_queue c"
    "row_buf_policy c = OPEN_PAGE" "ctrl_clk c = 0" "pending_wr_q c = []" "pending_rd_q c = []"
    "rd_in_cmds c = []" "wr_cmds c = []" "release_time c = []" "return_queue c = []"
    "items (read_queue c) = []" "items (write_buffer c) = []" "write_draining c = 0"
    "mk_channel_state tiny_config = Inr (channel_state c)" "mk_command_queue tiny_config = Inr (cmd_queue c)"
proof -
  obtain st where st: "mk_stats tiny_config = Inr st"
    by (rule mk_stats_ok [of tiny_config]) (simp_all add: tiny_config_def)
  obtain cs where cs: "mk_channel_state tiny_config = Inr cs"
    by (simp add: mk_channel_state_def tiny_config_def)
  obtain cq where cq: "mk_command_queue tiny_config = Inr cq"
    by (simp add: mk_command_queue_def tiny_config_def config0_def)
  obtain rf where rf: "mk_refresh tiny_config = Inr rf" "refresh_interval rf = 100"
    by (simp add: mk_refresh_def tiny_config_def idiv_def)
  obtain c where c: "mk_controller tiny_config 0 = Inr c" and sel: "refresh c = rf" "trans_items c = []"
    "\<not> is_unified_queue c" "row_buf_policy c = OPEN_PAGE" "ctrl_clk c = 0" "pending_wr_q c = []"
    "pending_rd_q c = []" "rd_in_cmds c = []" "wr_cmds c = []" "release_time c = []"
    "return_queue c = []" "items (read_queue c) = []" "items (write_buffer c) = []" "write_draining c = 0"
    "channel_state c = cs" "cmd_queue c = cq"
    using st cs cq rf(1)
    by (simp add: mk_controller_def reserve_def empty_buffer_def trans_items_def tiny_config_def config0_def)
  have "dims_wf tiny_config" using tiny_config_ok by (simp add: config_ok_def)
  from mk_controller_inv [OF this c] sel(1) rf(2)
  have "ctrl_inv tiny_config c" "in_flight c = {#}" by (simp_all add: tiny_config_def)
  then show thesis using that c sel rf(2) cs cq by simp
qed


definition tiny_pim :: Command where
  "tiny_pim = mk_command PIM_ACTIVATE (mk_address 0 0 0 0 0 0) 0"

definition idle_stats :: SimpleStats where
  "idle_stats =
     (let vc = [(''all_bank_idle_cycles'', [0]), (''rank_active_cycles'', [0]), (''sref_cycles'', [0])];
          b = replicate 12 0;
          hb = [(''read_latency'', b), (''write_latency'', b), (''interarrival_latency'', b)];
          hc = [(''read_latency'', []), (''write_latency'', []), (''interarrival_latency'', [])]
      in stats0\<lparr>vec_counters := vc, epoch_vec_counters := vc,
           vec_doubles := [(''act_stb_energy'', [0]), (''pre_stb_energy'', [0]), (''sref_energy'', [0])],
           histo_bounds := [(''read_latency'', 0, 200), (''write_latency'', 0, 200), (''interarrival_latency'', 0, 100)],
           bin_widths := [(''read_latency'', 20), (''write_latency'', 20), (''interarrival_latency'', 10)],
           histo_counts := hc, epoch_histo_counts := hc, histo_bins := hb, epoch_histo_bins := hb\<rparr>)"

text \<open>A controller whose command queue offers a read, and with a processing command waiting.\<close>

lemma tiny_pim_controller:
  obtains c c1 where "ctrl_inv tiny_config c" "rd_w_cmds c = [tiny_pim]"
    "next_command tiny_config c = Inr (tiny_command READ 0, c1)"
proof -
  have wf: "cmd_wf tiny_config (tiny_command READ 0)" by (simp add: tiny_command_wf rw_types_def)
  have "case tiny_scenario (tiny_command READ 0) of Inr (cs, cq, c) \<Rightarrow>
      refresh_q cs = [] \<and> rank_is_sref cs = [False] \<and> queues cq = [[tiny_command READ 0]] \<and>
      (case GetCommandToIssue tiny_config cs cq idle_stats of
         Inr (r, _, _) \<Rightarrow> r = tiny_command READ 0 | _ \<Rightarrow> False) | _ \<Rightarrow> False"
    by code_simp
  then obtain cs cq r cq' st' where s: "tiny_scenario (tiny_command READ 0) = Inr (cs, cq, r)"
    and sel: "refresh_q cs = []" "rank_is_sref cs = [False]" "queues cq = [[tiny_command READ 0]]"
    and g: "GetCommandToIssue tiny_config cs cq idle_stats = Inr (tiny_command READ 0, cq', st')"
    by (auto split: sum.splits)
  note inv = tiny_scenario_inv [OF s wf]
  obtain c where c: "ctrl_inv tiny_config c" "trans_items c = []" "rd_in_cmds c = []" "wr_cmds c = []"
    "release_time c = []" "items (read_queue c) = []" "items (write_buffer c) = []" "write_draining c = 0"
    "pending_wr_q c = []"
    by (rule tiny_controller)
  let ?c = "c\<lparr>channel_state := cs, cmd_queue := cq, simple_stats := idle_stats,
      pending_rd_q := [(0, mk_transaction 0 False)], rd_w_cmds := [tiny_pim]\<rparr>"
  have "IsRead (tiny_command READ 0)" "\<not> IsWrite (tiny_command READ 0)" "hex_addr (tiny_command READ 0) = 0"
    by (simp_all add: tiny_command_def cmd_pred_defs)
  then have "reads_of ?c = {#0#}" "writes_of ?c = {#}"
    using c(2) sel(3) by (simp_all add: reads_of_def writes_of_def pending_def trans_items_def)
  then have "queues_inv ?c"
    using c by (simp add: queues_inv_def rd_keys_def wr_keys_def)
  moreover have "pim_wf tiny_config tiny_pim"
    by (simp add: pim_wf_def tiny_pim_def pim_types_def in_range_def tiny_config_def)
  moreover have "stats_ok tiny_config idle_stats"
    by (simp add: stats_ok_def histo_ok_def idle_stats_def Let_def per_rank_def cycle_names_def background_names_def
        histo_names_def tiny_config_def)
  ultimately have "ctrl_inv tiny_config ?c"
    using c inv sel by (simp add: ctrl_inv_def pim_inv_def)
  moreover have "next_command tiny_config ?c =
      Inr (tiny_command READ 0, ?c\<lparr>cmd_queue := cq', simple_stats := st'\<rparr>)"
    using sel(1) g by (simp add: next_command_def IsRefreshWaiting_def)
  ultimately show thesis by (intro that [of ?c]) simp_all
qed

lemma tiny_dims: "dims_wf tiny_config"
  using tiny_config_ok(1) by (simp add: config_ok_def)

theorem clock_tick_returns_witness:
  "\<exists>c c'. rd_w_cmds c = [tiny_pim] \<and> Controller_ClockTick tiny_config c = Inr c' \<and> ctrl_inv tiny_config c'"
proof -
  obtain c c1 where c: "ctrl_inv tiny_config c" "rd_w_cmds c = [tiny_pim]"
    "next_command tiny_config c = Inr (tiny_command READ 0, c1)" by (rule tiny_pim_controller)
  show ?thesis using clock_tick_returns [OF tiny_config_ok c(1)] c(2) by blast
qed


theorem read_forwarding_witness:
  "\<exists>c. mk_controller tiny_config 0 = Inr c \<and>
     (\<exists>t. return_queue (snd (AddTransaction (mk_transaction 8 False) (snd (AddTransaction (mk_transaction 8 True) c)))) =
        return_queue (snd (AddTransaction (mk_transaction 8 True) c)) @ [t] \<and> trans_addr t = 8 \<and> complete_cycle t = 1)"
proof -
  obtain c where c: "mk_controller tiny_config 0 = Inr c" "ctrl_clk c = 0" "pending_wr_q c = []"
    by (rule tiny_controller)
  let ?c = "snd (AddTransaction (mk_transaction 8 True) c)"
  have "8 \<in> wr_keys ?c" "ctrl_clk ?c = 0"
    using c(2,3) by (simp_all add: AddTransaction_cases mk_transaction_def wr_keys_def answer_def)
  then show ?thesis using read_forwarding [of "mk_transaction 8 False" ?c] c(1) by (auto simp: mk_transaction_def)
qed

theorem write_waits_for_reads_witness:
  "\<exists>c c'. ScheduleTransaction tiny_config c = Inr c' \<and> cmd_type (tiny_command WRITE 0) = WRITE \<and>
     pending (cmd_queue c') = add_mset (tiny_command WRITE 0) (pending (cmd_queue c)) \<and> 0 \<notin> rd_keys c"
proof -
  obtain c0 where c0: "mk_controller tiny_config 0 = Inr c0" "ctrl_inv tiny_config c0" "trans_items c0 = []"
    "\<not> is_unified_queue c0" "row_buf_policy c0 = OPEN_PAGE" "pending_rd_q c0 = []" "write_draining c0 = 0"
    "items (read_queue c0) = []" "items (write_buffer c0) = []" "pending_wr_q c0 = []"
    "mk_command_queue tiny_config = Inr (cmd_queue c0)"
    by (rule tiny_controller)
  let ?t = "mk_transaction 0 True"
  let ?c = "c0\<lparr>write_buffer := \<lparr>items = [?t], capacity = 1\<rparr>, pending_wr_q := [(0, ?t)]\<rparr>"
  have p: "pending (cmd_queue c0) = {#}" by (rule pending_init [OF c0(11)])
  have inv: "ctrl_inv tiny_config ?c"
    using c0 p by (simp add: ctrl_inv_def queues_inv_def reads_of_def writes_of_def trans_items_def rd_keys_def
        wr_keys_def pim_inv_def mk_transaction_def)
  have cmd: "TransToCommand tiny_config (c0\<lparr>write_buffer := b, pending_wr_q := q, write_draining := d\<rparr>) ?t =
      tiny_command WRITE 0" for b q d
    using c0(5) by (simp add: TransToCommand_def tiny_command_def mk_transaction_def)
  have wf: "cmd_wf tiny_config (tiny_command WRITE 0)" by (simp add: tiny_command_wf rw_types_def)
  have "case mk_command_queue tiny_config of Inr cq \<Rightarrow>
      WillAcceptCommand tiny_config cq (Rank (tiny_command WRITE 0)) (Bankgroup (tiny_command WRITE 0))
        (Bank (tiny_command WRITE 0)) = Inr True | _ \<Rightarrow> False"
    by code_simp
  with c0(11) have will: "WillAcceptCommand tiny_config (cmd_queue c0) (Rank (tiny_command WRITE 0))
      (Bankgroup (tiny_command WRITE 0)) (Bank (tiny_command WRITE 0)) = Inr True" by simp
  have cq: "cq_inv tiny_config (cmd_queue c0)" using c0(2) by (simp add: ctrl_inv_def)
  obtain w cq' where w: "WillAcceptCommand tiny_config (cmd_queue c0) (Rank (tiny_command WRITE 0))
      (Bankgroup (tiny_command WRITE 0)) (Bank (tiny_command WRITE 0)) = Inr w"
    "AddCommand tiny_config (cmd_queue c0) (tiny_command WRITE 0) = Inr (w, cq')"
    "queues cq' = (if w then (queues (cmd_queue c0))[nat (queue_of tiny_config (cmd_queue c0) (tiny_command WRITE 0)) :=
       queues (cmd_queue c0) ! nat (queue_of tiny_config (cmd_queue c0) (tiny_command WRITE 0)) @ [tiny_command WRITE 0]]
       else queues (cmd_queue c0))"
    by (rule AddCommand_spec [OF cq tiny_dims wf])
  have pend: "pending cq' = add_mset (tiny_command WRITE 0) (pending (cmd_queue c0))"
    by (rule pending_add [OF cq tiny_dims wf]) (use w will in simp)
  obtain c' where c': "ScheduleTransaction tiny_config ?c = Inr c'" "cmd_queue c' = cq'"
    using c0 w will cmd
    by (simp add: ScheduleTransaction_def Let_def buf_full_def get_items_def mm_count_def set_items_def
        mk_transaction_def)
  have "hex_addr (tiny_command WRITE 0) \<notin> rd_keys ?c"
    by (rule write_waits_for_reads [OF tiny_config_ok(1) inv _ c'(1)])
      (use c0(4) c'(2) pend in \<open>simp_all add: tiny_command_def cmd_pred_defs\<close>)
  then show ?thesis using c' pend by (intro exI [of _ ?c] exI [of _ c']) (simp add: tiny_command_def)
qed

theorem merged_reads_complete_witness:
  "\<exists>c c'. IssueCommand tiny_config (tiny_command READ 0) c = Inr c' \<and>
     pending_rd_q c' = filter (\<lambda>(k, _). k \<noteq> 0) (pending_rd_q c)"
proof -
  obtain c c1 where c: "ctrl_inv tiny_config c" "next_command tiny_config c = Inr (tiny_command READ 0, c1)"
    by (rule tiny_pim_controller)
  have rd: "IsRead (tiny_command READ 0)" "IsValid (tiny_command READ 0)" "hex_addr (tiny_command READ 0) = 0"
    by (simp_all add: tiny_command_def cmd_pred_defs)
  obtain r' c' where "next_command tiny_config c = Inr (r', c')" "ctrl_inv tiny_config c'"
    "IsValid r' \<longrightarrow> issuable tiny_config c' r'" by (rule next_command_step [OF c(1) tiny_dims])
  with c(2) rd(2) have c1: "ctrl_inv tiny_config c1" "issuable tiny_config c1 (tiny_command READ 0)" by auto
  obtain c2 where c2: "IssueCommand tiny_config (tiny_command READ 0) c1 = Inr c2"
    by (rule IssueCommand_ok [OF c1(1) tiny_dims c1(2)])
  show ?thesis using merged_reads_complete [OF c2 rd(1)] c2 rd(3) by auto
qed

theorem self_refresh_wakeup_aborts_witness:
  "\<exists>c. rank_is_sref (channel_state c) = [True] \<and> rank_q_empty (cmd_queue c) = [False] \<and>
     sref_loop tiny_config [0] c = Inl (AbruptExit ''bankstate.cc'' 105)"
proof -
  obtain c where "mk_controller tiny_config 0 = Inr c" and c: "mk_channel_state tiny_config = Inr (channel_state c)"
    by (rule tiny_controller)
  have "case mk_channel_state tiny_config of Inr cs \<Rightarrow>
      (case UpdateTimingAndStates tiny_config (mk_timing tiny_config) cs (rank_command SREF_ENTER 0) 0 of
         Inr cs' \<Rightarrow> rank_is_sref cs' = [True] | _ \<Rightarrow> False) | _ \<Rightarrow> False"
    by code_simp
  with c obtain cs where cs: "UpdateTimingAndStates tiny_config (mk_timing tiny_config) (channel_state c)
      (rank_command SREF_ENTER 0) 0 = Inr cs" "rank_is_sref cs = [True]"
    by (auto split: sum.splits)
  let ?c = "c\<lparr>channel_state := cs, cmd_queue := (cmd_queue c)\<lparr>rank_q_empty := [False]\<rparr>\<rparr>"
  have "sref_loop tiny_config [0] ?c = Inl (AbruptExit ''bankstate.cc'' 105)"
    by (rule self_refresh_wakeup_aborts)
      (use channel_inv_issue [OF cs(1) channel_inv_init [OF c]] cs(2) tiny_dims in
        \<open>simp_all add: tiny_config_def vget_def\<close>)
  then show ?thesis using cs(2) by (intro exI [of _ ?c]) simp
qed

end
