(* ===== verification/Dram_System.thy ===== *)
theory Dram_System
  imports Controller_Safety
begin

section \<open>The memory system and its scheduler of in-memory processing\<close>

text \<open>
  Models \<^verbatim>\<open>src/dram_system.h\<close> and \<^verbatim>\<open>src/dram_system.cc\<close>: the system of several controllers
  (\<^verbatim>\<open>JedecDRAMSystem\<close>) with its queue of processing transactions, their decoding, and the scheduler that
  turns a matrix multiplication into commands for the banks; and the system with a fixed latency
  (\<^verbatim>\<open>IdealDRAMSystem\<close>).

  The class keeps one vector for each variable of a partition ("cut") of the array. All of them are
  cleared and filled together with the same length and only indexed afterwards, so the model keeps
  one list \<open>cuts\<close> of records. Calls of the read and write callbacks are the events a clock cycle
  returns: address, and whether it was a write. Not modelled: address traces, console output and the
  printing of statistics.
\<close>

record Cut =
  base_row_in :: u64
  base_row_w :: u64
  base_row_out :: u64
  cut_M :: int
  cut_N :: int
  cut_K :: int
  M_it :: int
  N_it :: int
  K_tile_it :: int
  M_out_it :: int
  N_out_tile_it :: int
  cut_in_pim :: bool
  iw_status :: int
  in_act_placed :: bool
  w_act_placed :: bool
  out_act_placed :: bool
  output_valid :: int
  in_cnt :: int
  out_cnt :: int
  vpu_cnt :: int

record JedecDRAMSystem =
  last_req_clk :: u64
  sys_clk :: u64
  ctrls :: "Controller list"
  turn_off :: bool
  vcuts :: int
  hcuts :: int
  mcf :: int
  ucf :: int
  mc :: int
  dataflow :: int
  vcuts_next :: int
  hcuts_next :: int
  M_tile_size :: int
  stride :: int
  kernel_size :: int
  cuts :: "Cut list"
  bank_occupancy :: "bool list list"
  pim_trans_queue :: "Transaction list"

type_synonym event = "u64 \<times> bool"

subsection \<open>Base class\<close>

definition GetChannel :: "Config \<Rightarrow> u64 \<Rightarrow> int" where
  "GetChannel cfg a =
     u64_to_int (drop_bit (nat (ch_pos cfg)) (drop_bit (nat (shift_bits cfg)) a) AND ch_mask cfg)"

definition Base_PrintEpochStats :: "Config \<Rightarrow> Controller list \<Rightarrow> Controller list res" where
  "Base_PrintEpochStats cfg cs =
     mfold (\<lambda>c acc. rbind (Controller_PrintEpochStats cfg c) (\<lambda>c. Inr (acc @ [c]))) cs []"

definition Base_PrintStats :: "Config \<Rightarrow> Controller list \<Rightarrow> Controller list res" where
  "Base_PrintStats cfg cs =
     mfold (\<lambda>c acc. rbind (Controller_PrintFinalStats cfg c) (\<lambda>c. Inr (acc @ [c]))) cs []"

definition Base_ResetStats :: "Controller list \<Rightarrow> Controller list" where
  "Base_ResetStats cs = map ResetStats cs"

subsection \<open>Construction and transactions\<close>

definition mk_jedec :: "Config \<Rightarrow> JedecDRAMSystem res" where
  "mk_jedec cfg =
     (if IsHMC cfg then Inl (AbruptExit ''dram_system.cc'' 103)
      else if channels cfg < 0 then Inl LengthError
      else
        rbind (mfold (\<lambda>i acc. rbind (mk_controller cfg i) (\<lambda>c. Inr (acc @ [c]))) [0..channels cfg - 1] [])
          (\<lambda>cs.
            let n = ranks cfg * bankgroups cfg * banks_per_group cfg in
            if channels cfg > 0 \<and> n < 0 then Inl LengthError
            else Inr \<lparr>last_req_clk = 0, sys_clk = 0, ctrls = cs, turn_off = False, vcuts = -1, hcuts = -1,
                      mcf = 1, ucf = 1, mc = 1, dataflow = -1, vcuts_next = -1, hcuts_next = -1,
                      M_tile_size = 0, stride = 0, kernel_size = 0, cuts = [],
                      bank_occupancy = replicate (nat (channels cfg)) (replicate (nat n) False),
                      pim_trans_queue = []\<rparr>))"

definition pim_trans_queue_depth :: nat where
  "pim_trans_queue_depth = 32"

definition WillAcceptPim :: "JedecDRAMSystem \<Rightarrow> bool" where
  "WillAcceptPim s \<longleftrightarrow> length (pim_trans_queue s) < pim_trans_queue_depth"

definition AddPim :: "u64 \<Rightarrow> JedecDRAMSystem \<Rightarrow> (bool \<times> JedecDRAMSystem) res" where
  "AddPim a s =
     (if WillAcceptPim s
      then Inr (True, s\<lparr>pim_trans_queue := pim_trans_queue s @ [copy_transaction (mk_pim_transaction a)],
                        last_req_clk := sys_clk s\<rparr>)
      else Inl (AssertFail ''dram_system.cc'' 144))"

definition Jedec_WillAccept :: "Config \<Rightarrow> JedecDRAMSystem \<Rightarrow> u64 \<Rightarrow> bool \<Rightarrow> bool res" where
  "Jedec_WillAccept cfg s a w =
     rbind (vget (ctrls s) (GetChannel cfg a)) (\<lambda>c. Inr (WillAcceptTransaction c a w))"

definition Jedec_AddTransaction ::
  "Config \<Rightarrow> u64 \<Rightarrow> bool \<Rightarrow> JedecDRAMSystem \<Rightarrow> (bool \<times> JedecDRAMSystem) res"
where
  "Jedec_AddTransaction cfg a w s =
     (let ch = GetChannel cfg a in
      rbind (vget (ctrls s) ch) (\<lambda>c.
        if WillAcceptTransaction c a w then
          rbind (vset (ctrls s) ch (snd (AddTransaction (mk_transaction a w) c))) (\<lambda>cs.
            Inr (True, s\<lparr>ctrls := cs, last_req_clk := sys_clk s\<rparr>))
        else Inl (AssertFail ''dram_system.cc'' 170)))"

subsection \<open>Completed transactions\<close>

text \<open>Every round that hands a transaction back shortens the return queue.\<close>

lemma ReturnDoneTrans_length:
  "ReturnDoneTrans clk c = ((a, w), c') \<Longrightarrow> w = 0 \<or> w = 1 \<Longrightarrow>
   length (return_queue c') < length (return_queue c)"
proof -
  assume r: "ReturnDoneTrans clk c = ((a, w), c')" and w: "w = 0 \<or> w = 1"
  then obtain t where t: "find (\<lambda>t. complete_cycle t \<le> clk) (return_queue c) = Some t"
    by (auto simp: ReturnDoneTrans_def split: option.splits)
  from arg_cong [OF erase_first_find [OF t], of size]
  show ?thesis using r t by (auto simp: ReturnDoneTrans_def Let_def)
qed

function collect_done :: "u64 \<Rightarrow> Controller \<Rightarrow> event list \<times> Controller" where
  "collect_done clk c =
     (case ReturnDoneTrans clk c of ((a, w), c') \<Rightarrow>
        if w = 1 then (case collect_done clk c' of (es, d) \<Rightarrow> ((a, True) # es, d))
        else if w = 0 then (case collect_done clk c' of (es, d) \<Rightarrow> ((a, False) # es, d))
        else ([], c'))"
  by pat_completeness auto
termination
  by (relation "measure (\<lambda>(clk, c). length (return_queue c))") (auto dest: ReturnDoneTrans_length [OF sym])

declare collect_done.simps [simp del]

fun collect_all :: "u64 \<Rightarrow> Controller list \<Rightarrow> event list \<times> Controller list" where
  "collect_all clk [] = ([], [])"
| "collect_all clk (c # cs) =
     (case collect_done clk c of (es, c) \<Rightarrow>
      case collect_all clk cs of (es', cs) \<Rightarrow> (es @ es', c # cs))"

subsection \<open>Waiting for a refresh\<close>

definition clear_acts :: "Cut \<Rightarrow> Cut" where
  "clear_acts k = k\<lparr>in_act_placed := False, w_act_placed := False, out_act_placed := False\<rparr>"

definition configured :: "JedecDRAMSystem \<Rightarrow> bool" where
  "configured s \<longleftrightarrow> vcuts s \<noteq> -1 \<and> hcuts s \<noteq> -1"

definition refresh_wait_step ::
  "Config \<Rightarrow> Controller \<Rightarrow> bool \<times> JedecDRAMSystem \<Rightarrow> (bool \<times> JedecDRAMSystem) res"
where
  "refresh_wait_step cfg c ws =
     (case ws of (wait, s) \<Rightarrow>
        rbind (Controller_pim_refresh_coming cfg c) (\<lambda>coming.
          if coming \<and> configured s then
            rbind (mfold (\<lambda>j ks. vmod ks j (\<lambda>k. Inr (clear_acts k))) [0..vcuts s * hcuts s - 1] (cuts s)) (\<lambda>ks.
              Inr (True, s\<lparr>cuts := ks\<rparr>))
          else Inr (wait, s)))"

definition refresh_wait :: "Config \<Rightarrow> JedecDRAMSystem \<Rightarrow> (bool \<times> JedecDRAMSystem) res" where
  "refresh_wait cfg s = mfold (refresh_wait_step cfg) (ctrls s) (False, s)"

definition in_ref_step :: "Controller \<Rightarrow> bool \<Rightarrow> bool res" where
  "in_ref_step c b =
     (if IsInRef c then Inr True
      else rbind (Controller_pim_refresh_coming2 c) (\<lambda>coming. Inr (if coming then True else b)))"

definition system_in_ref :: "JedecDRAMSystem \<Rightarrow> bool res" where
  "system_in_ref s = mfold in_ref_step (ctrls s) False"

subsection \<open>Decoding processing transactions\<close>

text \<open>\<^verbatim>\<open>address & ((1 << n) - 1)\<close>, and \<^verbatim>\<open>address & (1 << i)\<close> with an \<^verbatim>\<open>int\<close> shift.\<close>

definition low_bits :: "nat \<Rightarrow> u64 \<Rightarrow> u64" where
  "low_bits n a = a AND of_int (2 ^ n - 1)"

definition int_bit :: "u64 \<Rightarrow> int \<Rightarrow> bool res" where
  "int_bit a i = (if 0 \<le> i \<and> i < 31 then Inr (bit a (nat i)) else Inl BadShift)"

definition shift_one :: "u64 \<Rightarrow> int" where
  "shift_one n = 2 ^ unat n"

definition launch_ready :: "u64 \<Rightarrow> JedecDRAMSystem \<Rightarrow> bool res" where
  "launch_ready a s =
     mfold (\<lambda>i ok.
       rbind (int_bit a i) (\<lambda>b.
         if b then rbind (vget (cuts s) i) (\<lambda>k.
                     Inr (ok \<and> cut_M k \<noteq> 0 \<and> cut_N k \<noteq> 0 \<and> cut_K k \<noteq> 0))
         else Inr False)) [0..vcuts s * hcuts s - 1] True"

definition launch :: "u64 \<Rightarrow> JedecDRAMSystem \<Rightarrow> JedecDRAMSystem res" where
  "launch a s =
     (let a = drop_bit 1 a in
      rbind (launch_ready a s) (\<lambda>ready.
      rbind (if ready then
               rbind (mfold (\<lambda>i ks.
                        rbind (int_bit a i) (\<lambda>b.
                          if b then vmod ks i (\<lambda>k. Inr (k\<lparr>cut_in_pim := True\<rparr>)) else Inr ks))
                        [0..vcuts s * hcuts s - 1] (cuts s)) (\<lambda>ks.
                 Inr (s\<lparr>cuts := ks, pim_trans_queue := tl (pim_trans_queue s)\<rparr>))
             else Inr s) (\<lambda>s.
        Inr (s\<lparr>ctrls := map (\<lambda>c. c\<lparr>ctrl_in_pim := True\<rparr>) (ctrls s)\<rparr>))))"

definition fresh_cut :: Cut where
  "fresh_cut = \<lparr>base_row_in = 0, base_row_w = 0, base_row_out = 0, cut_M = 0, cut_N = 0, cut_K = 0,
     M_it = 0, N_it = 0, K_tile_it = 0, M_out_it = 0, N_out_tile_it = 0, cut_in_pim = False, iw_status = 0,
     in_act_placed = False, w_act_placed = False, out_act_placed = False, output_valid = 0, in_cnt = 0,
     out_cnt = -1, vpu_cnt = 0\<rparr>"

definition load_dataflow :: "u64 \<Rightarrow> JedecDRAMSystem \<Rightarrow> JedecDRAMSystem" where
  "load_dataflow a s =
     (let a = drop_bit 2 (drop_bit 4 (drop_bit 1 a));
          v = shift_one (low_bits 3 a); a = drop_bit 3 a;
          h = shift_one (low_bits 1 a); a = drop_bit 1 a;
          m = shift_one (low_bits 3 a); a = drop_bit 3 a;
          u = shift_one (low_bits 3 a); a = drop_bit 3 a;
          d = u64_to_int (low_bits 1 a); a = drop_bit 1 a;
          cs = (if v * h > 1 then map (\<lambda>c. c\<lparr>wr_multitenant := True\<rparr>) (ctrls s) else ctrls s);
          t = shift_one (low_bits 4 a); a = drop_bit 4 a;
          vn = shift_one (low_bits 3 a); a = drop_bit 3 a;
          hn = shift_one (low_bits 1 a); a = drop_bit 1 a;
          ks = u64_to_int (low_bits 5 a); a = drop_bit 5 a;
          st = u64_to_int (low_bits 5 a)
      in s\<lparr>vcuts := v, hcuts := h, mcf := m, ucf := u, dataflow := d, mc := m * u, ctrls := cs,
           M_tile_size := t, vcuts_next := vn, hcuts_next := hn, kernel_size := ks, stride := st,
           cuts := replicate (nat (v * h)) fresh_cut,
           pim_trans_queue := tl (pim_trans_queue s)\<rparr>)"

definition load_workload :: "u64 \<Rightarrow> JedecDRAMSystem \<Rightarrow> JedecDRAMSystem res" where
  "load_workload a s =
     (let a = drop_bit 1 a;
          cut_no = u64_to_int (low_bits 4 a); a = drop_bit 4 a;
          loadType = u64_to_int (low_bits 2 a); a = drop_bit 2 a;
          dim_value = u64_to_int (low_bits 32 a); a = drop_bit 32 a;
          base_row = low_bits 22 a
      in rbind
          (if loadType = 0 then vmod (cuts s) cut_no (\<lambda>k. Inr (k\<lparr>base_row_w := base_row, cut_M := dim_value\<rparr>))
           else if loadType = 1 then
             vmod (cuts s) cut_no (\<lambda>k. Inr (k\<lparr>base_row_out := base_row, cut_K := dim_value\<rparr>))
           else if loadType = 2 then
             vmod (cuts s) cut_no (\<lambda>k. Inr (k\<lparr>base_row_in := base_row, cut_N := dim_value\<rparr>))
           else Inl (AbruptExit ''dram_system.cc'' 360)) (\<lambda>ks.
        Inr (s\<lparr>cuts := ks, pim_trans_queue := tl (pim_trans_queue s)\<rparr>)))"

definition process_pim :: "JedecDRAMSystem \<Rightarrow> JedecDRAMSystem res" where
  "process_pim s =
     (case pim_trans_queue s of
        [] \<Rightarrow> Inr s
      | t # _ \<Rightarrow>
          let a = trans_addr t in
          if bit a 0 then launch a s
          else if bit a 6 \<and> bit a 5 then Inr (load_dataflow a s)
          else load_workload a s)"

subsection \<open>Geometry of a cut and requests to the channels\<close>

record Tile =
  vcut_no :: int
  cut_height :: int
  hcut_no :: int
  cut_width :: int
  N_tile_size :: int
  N_tile_no :: int
  M_tile_no :: int
  M_current_tile_size :: int
  K_tile_size :: int

definition mk_tile :: "Config \<Rightarrow> JedecDRAMSystem \<Rightarrow> int \<Rightarrow> Cut \<Rightarrow> Tile res" where
  "mk_tile cfg s i k =
     rbind (imod i (vcuts s)) (\<lambda>vc.
     rbind (idiv (channels cfg) (hcuts s)) (\<lambda>height.
     rbind (idiv i (vcuts s)) (\<lambda>hc.
     rbind (idiv (banks cfg) (vcuts s)) (\<lambda>width.
     rbind (idiv 128 (vcuts s)) (\<lambda>n_size.
     rbind (idiv (N_it k) n_size) (\<lambda>n_no.
     rbind (idiv (M_it k) (M_tile_size s)) (\<lambda>m_no.
     rbind (if cut_M k < M_tile_size s * (m_no + 1) then imod (cut_M k) (M_tile_size s)
            else Inr (M_tile_size s)) (\<lambda>m_cur.
       Inr \<lparr>vcut_no = vc, cut_height = height, hcut_no = hc, cut_width = width, N_tile_size = n_size,
            N_tile_no = n_no, M_tile_no = m_no, M_current_tile_size = m_cur,
            K_tile_size = min (height * 16) (cut_K k)\<rparr>))))))))"

text \<open>The address of column number \<open>col\<close> behind a base row, in the bank with number \<open>bk\<close> of a channel.\<close>

definition pim_address :: "Config \<Rightarrow> int \<Rightarrow> int \<Rightarrow> int \<Rightarrow> u64 \<Rightarrow> int \<Rightarrow> Address res" where
  "pim_address cfg ch bk extra base col =
     rbind (idiv bk (banks_per_group cfg)) (\<lambda>bg.
     rbind (imod bk (banks_per_group cfg)) (\<lambda>ba.
     rbind (idiv (columns cfg) (BL cfg)) (\<lambda>per_row.
     rbind (idiv col per_row) (\<lambda>r.
     rbind (imod col per_row) (\<lambda>co.
       Inr (mk_address ch 0 bg (ba + extra) (u64_to_int (base + of_int r)) co))))))"

definition ask :: "Config \<Rightarrow> JedecDRAMSystem \<Rightarrow> Command \<Rightarrow> Command res" where
  "ask cfg s cmd =
     rbind (vget (ctrls s) (Channel cmd)) (\<lambda>c. Controller_GetReadyCommand cfg c cmd (sys_clk s))"

definition index_pairs :: "int \<Rightarrow> int \<Rightarrow> (int \<times> int) list" where
  "index_pairs m n = [(j, k). j \<leftarrow> [0..m - 1], k \<leftarrow> [0..n - 1]]"

text \<open>
  The loops of the weight reads and the output writes: one request after the other; a channel that is
  not ready or offers another type of command than the first empties the list and ends both loops.
\<close>

fun gather_same ::
  "(int \<times> int \<Rightarrow> Command res) \<Rightarrow> (Command \<Rightarrow> Command res) \<Rightarrow> (int \<times> int) list \<Rightarrow> Command list \<Rightarrow>
   Command list res"
where
  "gather_same request ready [] acc = Inr acc"
| "gather_same request ready (p # ps) acc =
     rbind (request p) (\<lambda>cmd.
     rbind (ready cmd) (\<lambda>ready_cmd.
       if \<not> IsValid ready_cmd then Inr []
       else if cmd_type (hd (acc @ [ready_cmd])) \<noteq> cmd_type ready_cmd then Inr []
       else gather_same request ready ps (acc @ [ready_cmd])))"

subsection \<open>Loading weights\<close>

definition weight_banks_reduce :: "JedecDRAMSystem \<Rightarrow> int" where
  "weight_banks_reduce s = (if dataflow s = 0 then 8 else 16)"

definition w_request ::
  "Config \<Rightarrow> JedecDRAMSystem \<Rightarrow> Tile \<Rightarrow> Cut \<Rightarrow> int \<Rightarrow> int \<Rightarrow> int \<times> int \<Rightarrow> Command res"
where
  "w_request cfg s t k per_bank col jk =
     (case jk of (j, m) \<Rightarrow>
        rbind (pim_address cfg (hcut_no t * cut_height t + j)
                 (vcut_no t * cut_width t + m * weight_banks_reduce s) 0 (base_row_w k) col) (\<lambda>a.
        rbind (imod (N_it k + 1) per_bank) (\<lambda>e1.
        rbind (imod (N_it k + 1) (N_tile_size t)) (\<lambda>e2.
        rbind (idiv 128 (banks cfg)) (\<lambda>q.
        rbind (imod (column a + 1) (min (cut_N k) (q * weight_banks_reduce s))) (\<lambda>l1.
        rbind (idiv (columns cfg) (BL cfg)) (\<lambda>per_row.
        rbind (imod (column a + 1) per_row) (\<lambda>l2.
          let leave = (e1 = 0 \<and> (N_tile_size t = per_bank \<or> e2 \<noteq> 0))
          in Inr (mk_command (if l1 = 0 \<or> l2 = 0 \<or> leave then GH_READ_PRECHARGE else GH_READ) a
                    (AddressUnmapping cfg a))))))))))"

definition w_layout :: "JedecDRAMSystem \<Rightarrow> Tile \<Rightarrow> Cut \<Rightarrow> (int \<times> int \<times> int) res" where
  "w_layout s t k =
     rbind (idiv (cut_width t) (weight_banks_reduce s)) (\<lambda>n_banks.
     rbind (idiv (N_tile_size t - 1) n_banks) (\<lambda>q.
     let per_bank = min (cut_N k) (q + 1) in
     rbind (idiv (cut_K k - 1) (K_tile_size t)) (\<lambda>kt.
     rbind (imod (N_it k) (N_tile_size t)) (\<lambda>r.
       Inr (n_banks, per_bank, N_tile_no t * (per_bank * (kt + 1)) + K_tile_it k * per_bank + r)))))"

definition advance_weight :: "Tile \<Rightarrow> int \<Rightarrow> Cut \<Rightarrow> Cut res" where
  "advance_weight t per_bank k =
     (let k = k\<lparr>N_it := N_it k + 1\<rparr> in
      rbind (imod (N_it k) per_bank) (\<lambda>e1.
      rbind (imod (N_it k) (N_tile_size t)) (\<lambda>e2.
        Inr (if e1 = 0 \<and> (N_tile_size t = per_bank \<or> e2 \<noteq> 0)
             then k\<lparr>N_it := N_tile_size t * N_tile_no t, iw_status := iw_status k + 1\<rparr> else k))))"

definition load_weights ::
  "Config \<Rightarrow> JedecDRAMSystem \<Rightarrow> bool \<Rightarrow> Tile \<Rightarrow> Cut \<Rightarrow> (Command list \<times> Cut) res"
where
  "load_weights cfg s wait t k =
     rbind (w_layout s t k) (\<lambda>(n_banks, per_bank, col).
     rbind (gather_same (w_request cfg s t k per_bank col) (ask cfg s)
              (index_pairs (cut_height t) n_banks) []) (\<lambda>cmds.
       if cmds = [] then Inr ([], k)
       else if cmd_type (hd cmds) = PIM_ACTIVATE then
         Inr (if w_act_placed k \<or> wait then ([], k) else (cmds, k\<lparr>w_act_placed := True\<rparr>))
       else
         let k = (if cmd_type (hd cmds) = GH_READ_PRECHARGE then k\<lparr>w_act_placed := False\<rparr> else k) in
         if dataflow s = 1 \<and> cmd_type (hd cmds) = PRECHARGE then Inr (cmds, k)
         else
           rbind (advance_weight t per_bank k) (\<lambda>k. Inr (cmds, k))))"

definition finish_loading :: "JedecDRAMSystem \<Rightarrow> int \<Rightarrow> Cut \<Rightarrow> Cut" where
  "finish_loading s i k =
     (let k = k\<lparr>iw_status := iw_status k + 1, vpu_cnt := 1\<rparr> in
      if vcuts s * hcuts s = 1 \<and>
         list_ex (\<lambda>k. iw_status k = 0 \<or> iw_status k = 3) ((cuts s)[nat i := k])
      then k\<lparr>iw_status := iw_status k - 1\<rparr> else k)"

subsection \<open>Streaming inputs\<close>

definition in_read :: "JedecDRAMSystem \<Rightarrow> CommandType" where
  "in_read s = (if dataflow s = 0 then GH_READ else LH_READ)"

definition in_readp :: "JedecDRAMSystem \<Rightarrow> CommandType" where
  "in_readp s = (if dataflow s = 0 then GH_READ_PRECHARGE else LH_READ_PRECHARGE)"

definition in_request ::
  "Config \<Rightarrow> JedecDRAMSystem \<Rightarrow> Tile \<Rightarrow> Cut \<Rightarrow> int \<Rightarrow> int \<Rightarrow> int \<Rightarrow> Command res"
where
  "in_request cfg s t k col j m =
     rbind (idiv (cut_width t) (mc s)) (\<lambda>w.
     let bk = vcut_no t * cut_width t + m * w;
         bk = (if dataflow s = 0 then bk + 1 else bk) in
     rbind (pim_address cfg (hcut_no t * cut_height t + j) bk 0 (base_row_in k) col) (\<lambda>a.
     rbind (idiv (columns cfg) (BL cfg)) (\<lambda>per_row.
       let close = (M_it k + 1 = cut_M k);
           close2 = ((K_tile_it k + 1) * K_tile_size t \<ge> cut_K k);
           close3 = (if dataflow s = 0 then close2 \<and> close else close)
       in Inr (mk_command (if close3 \<or> column a = per_row - 1 then in_readp s else in_read s) a
                 (AddressUnmapping cfg a)))))"

text \<open>
  The inner loop over the banks of one channel, and the outer loop over the channels: a channel that is
  not ready empties the list and ends the inner loop only. The flag tells that two types were mixed.
\<close>

fun gather_banks ::
  "(int \<Rightarrow> Command res) \<Rightarrow> (Command \<Rightarrow> Command res) \<Rightarrow> int list \<Rightarrow> Command list \<times> bool \<Rightarrow>
   (Command list \<times> bool) res"
where
  "gather_banks request ready [] st = Inr st"
| "gather_banks request ready (m # ms) st =
     (case st of (acc, mixed) \<Rightarrow>
        rbind (request m) (\<lambda>cmd.
        rbind (ready cmd) (\<lambda>ready_cmd.
          if \<not> IsValid ready_cmd then Inr ([], mixed)
          else
            let acc = acc @ [ready_cmd]
            in gather_banks request ready ms
                 (acc, mixed \<or> cmd_type (hd acc) \<noteq> cmd_type ready_cmd))))"

definition gather_inputs ::
  "(int \<Rightarrow> int \<Rightarrow> Command res) \<Rightarrow> (Command \<Rightarrow> Command res) \<Rightarrow> int \<Rightarrow> int \<Rightarrow> (Command list \<times> bool) res"
where
  "gather_inputs request ready height n =
     mfold (\<lambda>j st. gather_banks (request j) ready [0..n - 1] st) [0..height - 1] ([], False)"

definition start_output :: "Config \<Rightarrow> JedecDRAMSystem \<Rightarrow> Tile \<Rightarrow> Cut \<Rightarrow> Cut res" where
  "start_output cfg s t k =
     rbind (imod (M_it k) (M_tile_size s)) (\<lambda>r.
       Inr (if (K_tile_it k + 1) * K_tile_size t \<ge> cut_K k \<and> r = 0
            then k\<lparr>out_cnt := max 1 (tCCD_L cfg * (3 + 16) - tRCDWR cfg)\<rparr> else k))"

definition finish_input_tile :: "Config \<Rightarrow> JedecDRAMSystem \<Rightarrow> Tile \<Rightarrow> Cut \<Rightarrow> Cut res" where
  "finish_input_tile cfg s t k =
     rbind (idiv 128 (vcuts s * mc s)) (\<lambda>w.
     let k = k\<lparr>in_cnt := max 1 (tCCD_L cfg * max w 16 - tRCDRD cfg), iw_status := iw_status k + 1,
               M_it := M_tile_size s * M_tile_no t, K_tile_it := K_tile_it k + 1\<rparr> in
     if K_tile_it k * K_tile_size t \<ge> cut_K k then
       let k = k\<lparr>K_tile_it := 0, N_it := N_tile_size t * (N_tile_no t + 1)\<rparr> in
       if N_it k \<ge> cut_N k then
         let k = k\<lparr>N_it := 0, M_it := M_tile_size s * (M_tile_no t + 1)\<rparr>
         in Inr (if M_it k \<ge> cut_M k then k\<lparr>in_cnt := -1\<rparr> else k)
       else Inr k
     else Inr k)"

definition advance_input :: "Config \<Rightarrow> JedecDRAMSystem \<Rightarrow> Tile \<Rightarrow> Cut \<Rightarrow> Cut res" where
  "advance_input cfg s t k =
     rbind (start_output cfg s t k) (\<lambda>k.
     let k = k\<lparr>M_it := M_it k + 1\<rparr> in
     rbind (imod (M_it k) (M_tile_size s)) (\<lambda>r.
       if r = 0 \<or> M_it k = cut_M k then finish_input_tile cfg s t k else Inr k))"

definition in_layout :: "JedecDRAMSystem \<Rightarrow> Tile \<Rightarrow> Cut \<Rightarrow> int res" where
  "in_layout s t k =
     rbind (idiv (cut_K k - 1) (K_tile_size t)) (\<lambda>kt.
     rbind (imod (M_it k) (M_tile_size s)) (\<lambda>r.
       Inr (M_tile_no t * (M_tile_size s * (kt + 1)) + K_tile_it k * M_current_tile_size t + r)))"

definition stream_inputs ::
  "Config \<Rightarrow> JedecDRAMSystem \<Rightarrow> bool \<Rightarrow> Tile \<Rightarrow> Cut \<Rightarrow> (Command list \<times> Cut) res"
where
  "stream_inputs cfg s wait t k =
     (let k = k\<lparr>vpu_cnt := max 0 (vpu_cnt k - 1)\<rparr> in
      rbind (in_layout s t k) (\<lambda>col.
      rbind (gather_inputs (in_request cfg s t k col) (ask cfg s) (cut_height t) (mc s)) (\<lambda>(cmds, mixed).
        if vcuts s * hcuts s > 1 \<and> int (length cmds) \<noteq> cut_height t then Inr ([], k)
        else
          let cmds = (if mixed then filter (\<lambda>c. cmd_type c \<noteq> in_read s \<and> cmd_type c \<noteq> in_readp s) cmds
                      else cmds) in
          if cmds = [] then Inr ([], k)
          else if cmd_type (hd cmds) = PIM_ACTIVATE then
            Inr (if in_act_placed k \<or> wait then ([], k) else (cmds, k\<lparr>in_act_placed := True\<rparr>))
          else
            let k = (if cmd_type (hd cmds) = in_readp s then k\<lparr>in_act_placed := False\<rparr> else k) in
            if vpu_cnt k \<noteq> 0 then Inr ([], k)
            else
              rbind (idiv 128 (vcuts s)) (\<lambda>w.
                if M_tile_size s > w then rbind (advance_input cfg s t k) (\<lambda>k. Inr (cmds, k))
                else Inl (AssertFail ''dram_system.cc'' 582)))))"

definition finish_inputs :: "Cut \<Rightarrow> Cut" where
  "finish_inputs k =
     (if in_cnt k = -1 then k
      else
        let k = k\<lparr>in_cnt := max 0 (in_cnt k - 1)\<rparr>
        in if in_cnt k = 0 \<and> output_valid k = 0 then k\<lparr>iw_status := 0\<rparr> else k)"

text \<open>The switch over the phase of the cut: the weight reads, the input reads, and the new state.\<close>

definition phase_step ::
  "Config \<Rightarrow> JedecDRAMSystem \<Rightarrow> bool \<Rightarrow> int \<Rightarrow> Tile \<Rightarrow> Cut \<Rightarrow> (Command list \<times> Command list \<times> Cut) res"
where
  "phase_step cfg s wait i t k =
     (if iw_status k = 0 then rbind (load_weights cfg s wait t k) (\<lambda>(ws, k). Inr (ws, [], k))
      else if iw_status k = 1 then Inr ([], [], finish_loading s i k)
      else if iw_status k = 2 then rbind (stream_inputs cfg s wait t k) (\<lambda>(ins, k). Inr ([], ins, k))
      else if iw_status k = 3 then Inr ([], [], finish_inputs k)
      else Inr ([], [], k))"

definition npu_tick :: "Cut \<Rightarrow> Cut" where
  "npu_tick k =
     (let k = (if out_cnt k = 0 then k\<lparr>output_valid := output_valid k + 1\<rparr> else k)
      in if out_cnt k \<noteq> -1 then k\<lparr>out_cnt := out_cnt k - 1\<rparr> else k)"

subsection \<open>Writing outputs\<close>

record OutTile =
  vcut_out_no :: int
  M_tile_size_out :: int
  M_out_tile_no :: int
  M_out :: int
  N_out :: int
  N_tile_size_out :: int
  out_col :: int
  cut_height_out :: int

definition mk_out_tile :: "JedecDRAMSystem \<Rightarrow> Tile \<Rightarrow> Cut \<Rightarrow> OutTile res" where
  "mk_out_tile s t k =
     rbind (if cut_M k = 1 then Inr (vcut_no t)
            else if vcuts s = 16 then Inr (tdiv (vcut_no t) 2)
            else imod (vcut_no t + N_out_tile_it k) (vcuts s)) (\<lambda>v_out.
     let mts = (if dataflow s = 1 then tdiv (M_tile_size s) 128 * mcf s else M_tile_size s) in
     rbind (idiv (M_out_it k) mts) (\<lambda>m_no.
     let m_out = (if dataflow s = 1 then max 1 (tdiv (cut_M k * mcf s) 128) else cut_M k) in
     rbind (if m_out < mts * (m_no + 1) then imod m_out mts else Inr mts) (\<lambda>m_cur.
     let n_out = (if dataflow s = 1 then 128 else cut_N k);
         nts = (if dataflow s = 1 then 128 else N_tile_size t) in
     rbind (idiv (cut_N k - 1) nts) (\<lambda>q.
     let n_num = q + 1 in
     rbind (idiv n_num (vcuts s)) (\<lambda>per_ch.
     rbind (imod n_num (vcuts s)) (\<lambda>r1.
     rbind (imod (N_out_tile_it k) (vcuts s)) (\<lambda>r2.
     let n_num_ch = per_ch + (if r1 > r2 then 1 else 0) in
     rbind (idiv (N_out_tile_it k) (vcuts s)) (\<lambda>n_it_ch.
     rbind (imod (M_out_it k) mts) (\<lambda>r3.
     rbind (if cut_height t < vcuts s then Inr 1 else idiv (cut_height t) (vcuts s)) (\<lambda>h_out.
       Inr \<lparr>vcut_out_no = v_out, M_tile_size_out = mts, M_out_tile_no = m_no, M_out = m_out, N_out = n_out,
            N_tile_size_out = nts, out_col = m_no * (mts * n_num_ch) + n_it_ch * m_cur + r3,
            cut_height_out = h_out\<rparr>))))))))))"

definition out_request ::
  "Config \<Rightarrow> JedecDRAMSystem \<Rightarrow> Tile \<Rightarrow> OutTile \<Rightarrow> Cut \<Rightarrow> int \<times> int \<Rightarrow> Command res"
where
  "out_request cfg s t ot k jk =
     (case jk of (j, m) \<Rightarrow>
        rbind (idiv (cut_width t) (mc s)) (\<lambda>w.
        let bk = vcut_no t * cut_width t + m * w;
            bk = (if dataflow s \<noteq> 1 then bk + 1 else bk) in
        rbind (pim_address cfg (hcut_no t * cut_height t + vcut_out_no ot * cut_height_out ot + j) bk
                 (if dataflow s = 0 then 2 else 0) (base_row_out k) (out_col ot)) (\<lambda>a.
        rbind (idiv (columns cfg) (BL cfg)) (\<lambda>per_row.
          let close = (M_out_it k + 1 = M_out ot)
          in Inr (mk_command (if close \<or> column a = per_row - 1 then PIM_WRITE_PRECHARGE else PIM_WRITE) a
                    (AddressUnmapping cfg a))))))"

text \<open>The end of the last output tile: processing stops, and the system can be turned off.\<close>

definition output_exhausted :: "Tile \<Rightarrow> int \<Rightarrow> Cut \<Rightarrow> JedecDRAMSystem \<Rightarrow> JedecDRAMSystem res" where
  "output_exhausted t i k s =
     (if in_cnt k \<noteq> -1 then Inl (AssertFail ''dram_system.cc'' 725)
      else
        rbind (vmod (cuts s) i (\<lambda>k. Inr (k\<lparr>cut_in_pim := False\<rparr>))) (\<lambda>ks.
        rbind (if cut_height t < vcuts s then vmod ks (i + 1) (\<lambda>k. Inr (k\<lparr>cut_in_pim := False\<rparr>))
               else Inr ks) (\<lambda>ks.
          Inr (s\<lparr>cuts := ks, turn_off := \<not> list_ex cut_in_pim ks\<rparr>))))"

definition advance_output ::
  "Tile \<Rightarrow> OutTile \<Rightarrow> int \<Rightarrow> Cut \<Rightarrow> JedecDRAMSystem \<Rightarrow> JedecDRAMSystem res"
where
  "advance_output t ot i k s =
     (let k = k\<lparr>M_out_it := M_out_it k + 1\<rparr> in
      rbind (imod (M_out_it k) (M_tile_size_out ot)) (\<lambda>r.
        if r = 0 \<or> M_out_it k = M_out ot then
          let k = k\<lparr>M_out_it := M_tile_size_out ot * M_out_tile_no ot, N_out_tile_it := N_out_tile_it k + 1\<rparr>;
              last_n = (N_out_tile_it k * N_tile_size_out ot \<ge> N_out ot);
              k = (if last_n then k\<lparr>N_out_tile_it := 0, M_out_it := M_tile_size_out ot * (M_out_tile_no ot + 1)\<rparr>
                   else k) in
          rbind (vset (cuts s) i k) (\<lambda>ks.
          rbind (if last_n \<and> M_out_it k \<ge> M_out ot then output_exhausted t i k (s\<lparr>cuts := ks\<rparr>)
                 else Inr (s\<lparr>cuts := ks\<rparr>)) (\<lambda>s.
          rbind (vmod (cuts s) i (\<lambda>k. Inr (k\<lparr>output_valid := output_valid k - 1\<rparr>))) (\<lambda>ks.
          rbind (if cut_height t < vcuts s
                 then vmod ks (i + 1) (\<lambda>k. Inr (k\<lparr>output_valid := output_valid k - 1\<rparr>)) else Inr ks) (\<lambda>ks.
            Inr (s\<lparr>cuts := ks\<rparr>)))))
        else rbind (vset (cuts s) i k) (\<lambda>ks. Inr (s\<lparr>cuts := ks\<rparr>))))"

definition write_outputs ::
  "Config \<Rightarrow> bool \<Rightarrow> bool \<Rightarrow> int \<Rightarrow> Tile \<Rightarrow> Cut \<Rightarrow> JedecDRAMSystem \<Rightarrow> (Command list \<times> JedecDRAMSystem) res"
where
  "write_outputs cfg wait output_ready i t k s =
     rbind (idiv (cut_height t) (vcuts s)) (\<lambda>q.
     let out_enable = (q > 0 \<or> tmod (vcut_no t) 2 = 0) in
     if output_valid k > 0 \<and> output_ready \<and> out_enable then
       rbind (mk_out_tile s t k) (\<lambda>ot.
       rbind (gather_same (out_request cfg s t ot k) (ask cfg s)
                (index_pairs (cut_height_out ot) (if dataflow s = 1 then 1 else mc s)) []) (\<lambda>cmds.
         if cmds = [] then rbind (vset (cuts s) i k) (\<lambda>ks. Inr ([], s\<lparr>cuts := ks\<rparr>))
         else if cmd_type (hd cmds) = PIM_ACTIVATE then
           (if out_act_placed k \<or> wait then rbind (vset (cuts s) i k) (\<lambda>ks. Inr ([], s\<lparr>cuts := ks\<rparr>))
            else rbind (vset (cuts s) i (k\<lparr>out_act_placed := True\<rparr>)) (\<lambda>ks. Inr (cmds, s\<lparr>cuts := ks\<rparr>)))
         else
           let k = (if cmd_type (hd cmds) = PIM_WRITE_PRECHARGE then k\<lparr>out_act_placed := False\<rparr> else k) in
           rbind (advance_output t ot i k s) (\<lambda>s. Inr (cmds, s))))
     else rbind (vset (cuts s) i k) (\<lambda>ks. Inr ([], s\<lparr>cuts := ks\<rparr>)))"

subsection \<open>A clock cycle\<close>

definition push_w :: "Command \<Rightarrow> Controller list \<Rightarrow> Controller list res" where
  "push_w cmd cs = vmod cs (Channel cmd) (\<lambda>c. Inr (c\<lparr>rd_w_cmds := rd_w_cmds c @ [cmd]\<rparr>))"

definition push_in :: "u64 \<Rightarrow> Command \<Rightarrow> Controller list \<Rightarrow> Controller list res" where
  "push_in clk cmd cs =
     vmod cs (Channel cmd) (\<lambda>c. Inr (c\<lparr>rd_in_cmds := rd_in_cmds c @ [cmd],
                                     release_time := release_time c @ [u64_to_int clk]\<rparr>))"

definition push_out :: "Command \<Rightarrow> Controller list \<Rightarrow> Controller list res" where
  "push_out cmd cs = vmod cs (Channel cmd) (\<lambda>c. Inr (c\<lparr>wr_cmds := wr_cmds c @ [cmd]\<rparr>))"

definition schedule_cut ::
  "Config \<Rightarrow> bool \<Rightarrow> bool \<Rightarrow> int \<Rightarrow> JedecDRAMSystem \<Rightarrow> JedecDRAMSystem res"
where
  "schedule_cut cfg wait in_ref i s =
     rbind (vget (cuts s) i) (\<lambda>k.
       if \<not> cut_in_pim k \<or> in_ref then Inr s
       else
         rbind (mk_tile cfg s i k) (\<lambda>t.
         let output_ready = (iw_status k = 3) in
         rbind (phase_step cfg s wait i t k) (\<lambda>(ws, ins, k).
         rbind (write_outputs cfg wait output_ready i t (npu_tick k) s) (\<lambda>(outs, s).
         rbind (mfold push_w ws (ctrls s)) (\<lambda>cs.
         rbind (mfold (push_in (sys_clk s)) ins cs) (\<lambda>cs.
         rbind (mfold push_out outs cs) (\<lambda>cs.
           Inr (s\<lparr>ctrls := cs\<rparr>))))))))"

definition schedule_pim :: "Config \<Rightarrow> bool \<Rightarrow> JedecDRAMSystem \<Rightarrow> JedecDRAMSystem res" where
  "schedule_pim cfg wait s =
     rbind (system_in_ref s) (\<lambda>in_ref.
       mfold (schedule_cut cfg wait in_ref)
         [0..(if configured s then vcuts s * hcuts s else 0) - 1] s)"

definition tick_ctrls :: "Config \<Rightarrow> Controller list \<Rightarrow> Controller list res" where
  "tick_ctrls cfg cs = mfold (\<lambda>c acc. rbind (Controller_ClockTick cfg c) (\<lambda>c. Inr (acc @ [c]))) cs []"

definition Jedec_ClockTick :: "Config \<Rightarrow> JedecDRAMSystem \<Rightarrow> (event list \<times> JedecDRAMSystem) res" where
  "Jedec_ClockTick cfg s =
     (case collect_all (sys_clk s) (ctrls s) of (events, cs) \<Rightarrow>
      rbind (refresh_wait cfg (s\<lparr>ctrls := cs\<rparr>)) (\<lambda>(wait, s).
      rbind (process_pim s) (\<lambda>s.
      rbind (schedule_pim cfg wait s) (\<lambda>s.
      rbind (tick_ctrls cfg (ctrls s)) (\<lambda>cs.
      let s = s\<lparr>ctrls := cs, sys_clk := sys_clk s + 1\<rparr> in
      if epoch_period cfg = 0 then Inl DivByZero
      else if sys_clk s mod of_int (epoch_period cfg) = 0 then
        rbind (Base_PrintEpochStats cfg (ctrls s)) (\<lambda>cs. Inr (events, s\<lparr>ctrls := cs\<rparr>))
      else Inr (events, s))))))"

subsection \<open>The system with a fixed latency\<close>

record IdealDRAMSystem =
  ideal_clk :: u64
  latency :: int
  infinite_buffer_q :: "Transaction list"

definition mk_ideal :: "Config \<Rightarrow> IdealDRAMSystem" where
  "mk_ideal cfg = \<lparr>ideal_clk = 0, latency = ideal_memory_latency cfg, infinite_buffer_q = []\<rparr>"

definition Ideal_AddTransaction :: "u64 \<Rightarrow> bool \<Rightarrow> IdealDRAMSystem \<Rightarrow> bool \<times> IdealDRAMSystem" where
  "Ideal_AddTransaction a w s =
     (True, s\<lparr>infinite_buffer_q := infinite_buffer_q s @ [(mk_transaction a w)\<lparr>added_cycle := ideal_clk s\<rparr>]\<rparr>)"

text \<open>
  The loop over the buffer: erasing yields the iterator of the next element, and the increment at the
  end of the body moves past that one, too.
\<close>

fun ideal_loop :: "u64 \<Rightarrow> int \<Rightarrow> Transaction list \<Rightarrow> event list \<times> Transaction list" where
  "ideal_loop clk lat [] = ([], [])"
| "ideal_loop clk lat (t # ts) =
     (if clk - added_cycle t \<ge> of_int lat then
        (case ts of
           [] \<Rightarrow> ([(trans_addr t, is_write t)], [])
         | u # us \<Rightarrow>
             (case ideal_loop clk lat us of (es, q) \<Rightarrow> ((trans_addr t, is_write t) # es, u # q)))
      else (case ideal_loop clk lat ts of (es, q) \<Rightarrow> (es, t # q)))"

definition Ideal_ClockTick :: "IdealDRAMSystem \<Rightarrow> event list \<times> IdealDRAMSystem" where
  "Ideal_ClockTick s =
     (case ideal_loop (ideal_clk s) (latency s) (infinite_buffer_q s) of (es, q) \<Rightarrow>
        (es, s\<lparr>infinite_buffer_q := q, ideal_clk := ideal_clk s + 1\<rparr>))"

end
