(* ===== verification/Pim_Decode.thy ===== *)
theory Pim_Decode
  imports Dram_System
begin

section \<open>Processing transactions: decoding and launching\<close>

text \<open>
  The transactions that configure and start in-memory processing (\<^verbatim>\<open>src/dram_system.cc\<close>, lines 213 to 366) carry
  their fields in the bits of an address. \<open>fields_word\<close> packs a list of fields, least significant first;
  \<open>field_at\<close> shows that masking and shifting recovers each of them. With it, the decoder is inverse to the
  encoders \<open>workload_word\<close> and \<open>dataflow_word\<close>; \<open>launch_ready_spec\<close> says when a launch is carried out.
\<close>

subsection \<open>Encoding of processing transactions\<close>

fun encode_fields :: "(nat \<times> nat) list \<Rightarrow> nat" where
  "encode_fields [] = 0"
| "encode_fields ((n, x) # fs) = x + 2 ^ n * encode_fields fs"

fun fields_fit :: "(nat \<times> nat) list \<Rightarrow> bool" where
  "fields_fit [] \<longleftrightarrow> True"
| "fields_fit ((n, x) # fs) \<longleftrightarrow> x < 2 ^ n \<and> fields_fit fs"

definition fields_word :: "(nat \<times> nat) list \<Rightarrow> u64" where
  "fields_word fs = of_nat (encode_fields fs)"

lemma encode_fields_bound: "fields_fit fs \<Longrightarrow> encode_fields fs < 2 ^ sum_list (map fst fs)"
proof (induction fs rule: encode_fields.induct)
  case (2 n x fs)
  then have "x < 2 ^ n" "encode_fields fs + 1 \<le> 2 ^ sum_list (map fst fs)" by auto
  then have "x + 2 ^ n * encode_fields fs < 2 ^ n * (encode_fields fs + 1)" by simp
  also have "\<dots> \<le> 2 ^ n * 2 ^ sum_list (map fst fs)"
    using \<open>encode_fields fs + 1 \<le> _\<close> by (rule mult_left_mono) simp
  finally show ?case by (simp add: power_add)
qed simp

lemma encode_fields_64: "fields_fit fs \<Longrightarrow> sum_list (map fst fs) \<le> 64 \<Longrightarrow> encode_fields fs < 2 ^ 64"
  using encode_fields_bound [of fs] power_increasing [of "sum_list (map fst fs)" 64 "2 :: nat"] by simp

lemma low_bits_take: "low_bits n a = take_bit n a"
proof -
  have "of_int (2 ^ n - 1) = (mask n :: u64)" by (simp add: mask_eq_exp_minus_1)
  then show ?thesis by (simp add: low_bits_def take_bit_eq_mask)
qed

lemma unat_of_nat_64: "x < 2 ^ 64 \<Longrightarrow> unat (of_nat x :: u64) = x"
  by (simp add: unsigned_of_nat take_bit_nat_eq_self)

lemma first_field:
  assumes "fields_fit ((n, x) # fs)" and "sum_list (map fst ((n, x) # fs)) \<le> 64"
  shows "low_bits n (fields_word ((n, x) # fs)) = of_nat x" "drop_bit n (fields_word ((n, x) # fs)) = fields_word fs"
proof -
  let ?z = "encode_fields ((n, x) # fs)"
  have z: "?z < 2 ^ 64" by (rule encode_fields_64 [OF assms])
  then have u: "unat (of_nat ?z :: u64) = ?z" by (rule unat_of_nat_64)
  have x: "x < 2 ^ n" "?z div 2 ^ n = encode_fields fs" "?z mod 2 ^ n = x" using assms(1) by auto
  have "1 * encode_fields fs \<le> 2 ^ n * encode_fields fs" by (rule mult_le_mono1) simp
  then have "x \<le> ?z" "encode_fields fs \<le> ?z" unfolding encode_fields.simps mult_1 by linarith+
  then have small: "x < 2 ^ 64" "encode_fields fs < 2 ^ 64" using z by simp_all
  have "unat (drop_bit n (of_nat ?z :: u64)) = encode_fields fs"
    unfolding unat_drop_bit_eq u by (simp only: drop_bit_eq_div x)
  then show "drop_bit n (fields_word ((n, x) # fs)) = fields_word fs"
    using small by (intro word_unat_eq_iff [THEN iffD2]) (simp add: fields_word_def unat_of_nat_64)
  have "unat (take_bit n (of_nat ?z :: u64)) = x"
    unfolding unsigned_take_bit_eq u by (simp only: take_bit_eq_mod x)
  then show "low_bits n (fields_word ((n, x) # fs)) = of_nat x"
    using small by (intro word_unat_eq_iff [THEN iffD2]) (simp add: fields_word_def low_bits_take unat_of_nat_64)
qed

lemma field_at:
  assumes "fields_fit (pre @ (n, x) # post)" and "sum_list (map fst (pre @ (n, x) # post)) \<le> 64"
  shows "low_bits n (drop_bit (sum_list (map fst pre)) (fields_word (pre @ (n, x) # post))) = of_nat x"
  using assms
proof (induction pre)
  case Nil
  then show ?case using first_field(1) [of n x post] by simp
next
  case (Cons f pre)
  obtain m y where f: "f = (m, y)" by (cases f)
  have eq: "drop_bit m (fields_word ((f # pre) @ (n, x) # post)) = fields_word (pre @ (n, x) # post)"
    using first_field(2) [of m y "pre @ (n, x) # post"] Cons.prems f by simp
  have d: "drop_bit (sum_list (map fst (f # pre))) w = drop_bit (sum_list (map fst pre)) (drop_bit m w)" for w :: u64
    by (simp add: f add.commute)
  show ?case unfolding d eq using Cons.IH Cons.prems f by simp
qed

lemma field_int: "x < 2 ^ 31 \<Longrightarrow> u64_to_int (of_nat x) = int x"
  using u64_to_int_small [of "of_nat x"] by (simp add: uint_nat unat_of_nat_64)

lemma shift_one_field: "x < 2 ^ 31 \<Longrightarrow> shift_one (of_nat x) = 2 ^ x"
  by (simp add: shift_one_def unat_of_nat_64)

lemma bit_0_low: "bit a 0 \<longleftrightarrow> low_bits 1 a = 1"
  by (simp add: low_bits_take bit_0 odd_iff_mod_2_eq_one take_bit_eq_mod)

lemma load_bits: "bit a 6 \<and> bit a 5 \<longleftrightarrow> low_bits 2 (drop_bit 4 (drop_bit 1 a)) = 3"
proof -
  have "(3 :: u64) = mask 2" by (simp add: mask_eq_exp_minus_1)
  moreover have "take_bit 2 b = mask 2 \<longleftrightarrow> bit b 0 \<and> bit b 1" for b :: u64
  proof
    assume "take_bit 2 b = mask 2"
    then have "bit (take_bit 2 b) n = bit (mask 2 :: u64) n" for n by simp
    from this [of 0] this [of 1] show "bit b 0 \<and> bit b 1" by (simp add: bit_take_bit_iff bit_mask_iff)
  next
    assume "bit b 0 \<and> bit b 1"
    then show "take_bit 2 b = mask 2"
      by (intro bit_eqI) (auto simp: bit_take_bit_iff bit_mask_iff less_2_cases_iff)
  qed
  ultimately show ?thesis by (auto simp: low_bits_take bit_simps)
qed

text \<open>
  The transactions as the decoder reads them, from the least significant bit: a zero, the number of the cut,
  the type of the load, and then the payload.
\<close>

datatype load_type = WeightsM | OutputK | InputN

fun load_code :: "load_type \<Rightarrow> nat" where
  "load_code WeightsM = 0"
| "load_code OutputK = 1"
| "load_code InputN = 2"

definition workload_word :: "nat \<Rightarrow> load_type \<Rightarrow> nat \<Rightarrow> nat \<Rightarrow> u64" where
  "workload_word cut_no ty dim_value base_row =
     fields_word [(1, 0), (4, cut_no), (2, load_code ty), (32, dim_value), (22, base_row)]"

definition load_cut :: "load_type \<Rightarrow> int \<Rightarrow> u64 \<Rightarrow> Cut \<Rightarrow> Cut" where
  "load_cut ty d r k =
     (case ty of
        WeightsM \<Rightarrow> k\<lparr>base_row_w := r, cut_M := d\<rparr>
      | OutputK \<Rightarrow> k\<lparr>base_row_out := r, cut_K := d\<rparr>
      | InputN \<Rightarrow> k\<lparr>base_row_in := r, cut_N := d\<rparr>)"

definition dataflow_word ::
  "nat \<Rightarrow> nat \<Rightarrow> nat \<Rightarrow> nat \<Rightarrow> nat \<Rightarrow> nat \<Rightarrow> nat \<Rightarrow> nat \<Rightarrow> nat \<Rightarrow> nat \<Rightarrow> nat \<Rightarrow> u64"
where
  "dataflow_word cut_no v h m u d t vn hn ks st =
     fields_word [(1, 0), (4, cut_no), (2, 3), (3, v), (1, h), (3, m), (3, u), (1, d), (4, t), (3, vn), (1, hn),
       (5, ks), (5, st)]"

subsection \<open>Launching\<close>

lemma mfold_const:
  "(\<And>x. x \<in> set xs \<Longrightarrow> f x s = Inr s) \<Longrightarrow> mfold f xs s = Inr s"
  by (induction xs) simp_all

lemma launch_ready_spec:
  assumes "vcuts s * hcuts s = int (length (cuts s))" and "length (cuts s) \<le> 30"
  shows "launch_ready a s = Inr (\<forall>i < length (cuts s). bit a i \<and> cut_M (cuts s ! i) \<noteq> 0 \<and>
    cut_N (cuts s ! i) \<noteq> 0 \<and> cut_K (cuts s ! i) \<noteq> 0)"
proof -
  let ?good = "\<lambda>i. bit a i \<and> cut_M (cuts s ! i) \<noteq> 0 \<and> cut_N (cuts s ! i) \<noteq> 0 \<and> cut_K (cuts s ! i) \<noteq> 0"
  let ?f = "\<lambda>i ok. rbind (int_bit a i) (\<lambda>b. if b then rbind (vget (cuts s) i) (\<lambda>k.
      Inr (ok \<and> cut_M k \<noteq> 0 \<and> cut_N k \<noteq> 0 \<and> cut_K k \<noteq> 0)) else Inr False)"
  have "mfold ?f [0..int n - 1] ok = Inr (ok \<and> (\<forall>i < n. ?good i))" if "n \<le> length (cuts s)" for n ok
    using that
  proof (induction n)
    case (Suc n)
    have "[0..int (Suc n) - 1] = [0..int n - 1] @ [int n]" by (simp add: upto_rec2)
    then show ?case
      using Suc assms(2) by (auto simp: mfold_append int_bit_def less_Suc_eq)
  qed simp
  from this [of "length (cuts s)" True] show ?thesis unfolding launch_ready_def assms(1) by simp
qed

lemma launch_cuts_spec:
  assumes "length (ks :: Cut list) \<le> 30" and "\<And>i. i < length ks \<Longrightarrow> bit a i"
  shows "mfold (\<lambda>i ks. rbind (int_bit a i) (\<lambda>b. if b then vmod ks i (\<lambda>k. Inr (k\<lparr>cut_in_pim := True\<rparr>)) else Inr ks))
    [0..int (length ks) - 1] ks = Inr (map (cut_in_pim_update (\<lambda>_. True)) ks)"
proof -
  let ?f = "\<lambda>i ks. rbind (int_bit a i) (\<lambda>b. if b then vmod ks i (\<lambda>k. Inr (k\<lparr>cut_in_pim := True\<rparr>)) else Inr ks)"
  have "mfold ?f [0..int n - 1] ks = Inr (map (cut_in_pim_update (\<lambda>_. True)) (take n ks) @ drop n ks)"
    if "n \<le> length ks" for n
    using that
  proof (induction n)
    case (Suc n)
    have "[0..int (Suc n) - 1] = [0..int n - 1] @ [int n]" by (simp add: upto_rec2)
    moreover have "drop n ks = ks ! n # drop (Suc n) ks" using Suc.prems by (simp add: Cons_nth_drop_Suc)
    ultimately show ?case
      using Suc assms by (simp add: mfold_append int_bit_def vmod_def take_Suc_conv_app_nth nth_append list_update_append)
  qed simp
  from this [of "length ks"] show ?thesis by simp
qed

subsection \<open>Properties\<close>

definition demo_system :: JedecDRAMSystem where
  "demo_system = \<lparr>last_req_clk = 0, sys_clk = 0, ctrls = [], turn_off = False, vcuts = -1, hcuts = -1, mcf = 1, ucf = 1,
     mc = 1, dataflow = -1, vcuts_next = -1, hcuts_next = -1, M_tile_size = 0, stride = 0, kernel_size = 0, cuts = [],
     bank_occupancy = [], pim_trans_queue = []\<rparr>"

definition with_word :: "u64 \<Rightarrow> JedecDRAMSystem \<Rightarrow> JedecDRAMSystem" where
  "with_word a s = s\<lparr>pim_trans_queue := [mk_pim_transaction a]\<rparr>"

lemma with_word_queue [simp]:
  "pim_trans_queue (with_word a s) = [mk_pim_transaction a]" "trans_addr (mk_pim_transaction a) = a"
  "cuts (with_word a s) = cuts s" "vcuts (with_word a s) = vcuts s" "hcuts (with_word a s) = hcuts s"
  by (simp_all add: with_word_def mk_pim_transaction_def)

text \<open>
  C20. The decoder of workload transactions inverts their encoding: a transaction that carries the number of a cut,
  the type of the operand, its dimension and its base row sets exactly that dimension and that base row of that
  cut, leaves everything else as it is, and is removed from the queue.
\<close>

theorem workload_roundtrip:
  assumes "pim_trans_queue s = t # q" and "trans_addr t = workload_word cut_no ty d r"
    and "cut_no < 16" "cut_no < length (cuts s)" "d < 2 ^ 31" "r < 2 ^ 22"
  shows "process_pim s = Inr (s\<lparr>cuts := (cuts s)[cut_no := load_cut ty (int d) (of_nat r) (cuts s ! cut_no)],
    pim_trans_queue := q\<rparr>)"
proof -
  let ?n = "load_code ty"
  have n: "?n < 3" by (cases ty) simp_all
  let ?a = "workload_word cut_no ty d r"
  have fit: "fields_fit [(1, 0), (4, cut_no), (2, ?n), (32, d), (22, r)]" using assms(3-6) n by simp
  note f = field_at [of "[]" 1 0 "[(4, cut_no), (2, ?n), (32, d), (22, r)]"]
    field_at [of "[(1, 0)]" 4 cut_no "[(2, ?n), (32, d), (22, r)]"]
    field_at [of "[(1, 0), (4, cut_no)]" 2 ?n "[(32, d), (22, r)]"]
    field_at [of "[(1, 0), (4, cut_no), (2, ?n)]" 32 d "[(22, r)]"]
    field_at [of "[(1, 0), (4, cut_no), (2, ?n), (32, d)]" 22 r "[]"]
  have "\<not> bit ?a 0" using f fit by (simp add: workload_word_def bit_0_low)
  moreover have "\<not> (bit ?a 6 \<and> bit ?a 5)"
    unfolding load_bits using f fit n by (cases ty) (simp_all add: workload_word_def)
  moreover have "u64_to_int (low_bits 4 (drop_bit 1 ?a)) = int cut_no"
    "u64_to_int (low_bits 2 (drop_bit 4 (drop_bit 1 ?a))) = int ?n"
    "u64_to_int (low_bits 32 (drop_bit 2 (drop_bit 4 (drop_bit 1 ?a)))) = int d"
    "low_bits 22 (drop_bit 32 (drop_bit 2 (drop_bit 4 (drop_bit 1 ?a)))) = of_nat r"
    using f fit assms(3-6) n by (simp_all add: workload_word_def field_int)
  ultimately show ?thesis
    using assms(1,2,4)
    by (cases ty) (auto simp: process_pim_def Let_def load_workload_def vmod_def load_cut_def)
qed

definition demo_cuts :: JedecDRAMSystem where
  "demo_cuts = demo_system\<lparr>vcuts := 2, hcuts := 1, cuts := [fresh_cut, fresh_cut]\<rparr>"

theorem workload_roundtrip_witness:
  "\<exists>s. process_pim (with_word (workload_word 1 OutputK 4096 77) demo_cuts) = Inr s \<and>
     cut_K (cuts s ! 1) = 4096 \<and> base_row_out (cuts s ! 1) = 77 \<and> cuts s ! 0 = fresh_cut"
  using workload_roundtrip [of "with_word (workload_word 1 OutputK 4096 77) demo_cuts" _ _ 1 OutputK 4096 77]
  by (simp add: demo_cuts_def load_cut_def)

text \<open>
  C21. The decoder of dataflow transactions inverts their encoding: the exponents of the numbers of cuts, of the
  column and unrolling factors and of the tile size, and the dataflow, kernel size and stride, are stored as
  sent; every cut starts afresh; and the channels switch to several tenants exactly if there is more than
  one cut.
\<close>

theorem dataflow_roundtrip:
  assumes "pim_trans_queue s = tr # q" and "trans_addr tr = dataflow_word cut_no v h m u d t vn hn ks st"
    and "cut_no < 16" "v < 8" "h < 2" "m < 8" "u < 8" "d < 2" "t < 16" "vn < 8" "hn < 2" "ks < 32" "st < 32"
  shows "process_pim s = Inr (s\<lparr>vcuts := 2 ^ v, hcuts := 2 ^ h, mcf := 2 ^ m, ucf := 2 ^ u, dataflow := int d,
    mc := 2 ^ (m + u), M_tile_size := 2 ^ t, vcuts_next := 2 ^ vn, hcuts_next := 2 ^ hn, kernel_size := int ks,
    stride := int st,
    ctrls := (if v + h = 0 then ctrls s else map (\<lambda>c. c\<lparr>wr_multitenant := True\<rparr>) (ctrls s)),
    cuts := replicate (2 ^ (v + h)) fresh_cut, pim_trans_queue := q\<rparr>)"
proof -
  let ?a = "dataflow_word cut_no v h m u d t vn hn ks st"
  let ?fs = "[(1, 0), (4, cut_no), (2, 3), (3, v), (1, h), (3, m), (3, u), (1, d), (4, t), (3, vn), (1, hn),
       (5, ks), (5, st)] :: (nat \<times> nat) list"
  have fit: "fields_fit ?fs" using assms(3-) by simp
  have at: "low_bits (fst (?fs ! i)) (drop_bit (sum_list (map fst (take i ?fs))) ?a) = of_nat (snd (?fs ! i))"
    if "i < length ?fs" for i
    using field_at [of "take i ?fs" "fst (?fs ! i)" "snd (?fs ! i)" "drop (Suc i) ?fs"] fit
    unfolding dataflow_word_def prod.collapse id_take_nth_drop [OF that, symmetric] by simp
  have fields:
    "low_bits 1 (drop_bit 0 ?a) = of_nat 0"
    "low_bits 4 (drop_bit 1 ?a) = of_nat cut_no"
    "low_bits 2 (drop_bit 5 ?a) = of_nat 3"
    "low_bits 3 (drop_bit 7 ?a) = of_nat v"
    "low_bits 1 (drop_bit 10 ?a) = of_nat h"
    "low_bits 3 (drop_bit 11 ?a) = of_nat m"
    "low_bits 3 (drop_bit 14 ?a) = of_nat u"
    "low_bits 1 (drop_bit 17 ?a) = of_nat d"
    "low_bits 4 (drop_bit 18 ?a) = of_nat t"
    "low_bits 3 (drop_bit 22 ?a) = of_nat vn"
    "low_bits 1 (drop_bit 25 ?a) = of_nat hn"
    "low_bits 5 (drop_bit 26 ?a) = of_nat ks"
    "low_bits 5 (drop_bit 31 ?a) = of_nat st"
    using at [of 0] at [of 1] at [of 2] at [of 3] at [of 4] at [of 5] at [of 6] at [of 7] at [of 8] at [of 9]
      at [of 10] at [of 11] at [of 12] by simp_all
  have "\<not> bit ?a 0" unfolding bit_0_low using fields(1) by simp
  moreover have "bit ?a 6 \<and> bit ?a 5" unfolding load_bits using fields(3) by simp
  moreover have "(1 :: int) < 2 ^ v * 2 ^ h \<longleftrightarrow> v + h \<noteq> 0"
    using one_less_power [of "2 :: int" "v + h"] by (cases "v + h = 0") (auto simp: power_add)
  moreover have "nat (2 ^ v * 2 ^ h) = 2 ^ (v + h)" by (simp add: power_add [symmetric])
  ultimately show ?thesis
    using assms fields
    by (simp add: process_pim_def Let_def load_dataflow_def field_int shift_one_field power_add)
qed

theorem dataflow_roundtrip_witness:
  "\<exists>s. process_pim (with_word (dataflow_word 0 1 0 0 0 1 8 0 0 3 1) demo_system) = Inr s \<and>
     vcuts s = 2 \<and> hcuts s = 1 \<and> dataflow s = 1 \<and> M_tile_size s = 256 \<and> cuts s = [fresh_cut, fresh_cut]"
  using dataflow_roundtrip [of "with_word (dataflow_word 0 1 0 0 0 1 8 0 0 3 1) demo_system" _ _ 0 1 0 0 0 1 8 0 0 3 1]
  by (simp add: numeral_2_eq_2)

text \<open>
  C22. A launch is carried out for all cuts or not at all: it starts every cut and leaves the queue exactly if
  it selects every cut and all dimensions of all cuts are set. Otherwise the queue, the cuts and all other state
  stay as they are, only the channels are marked as processing - so a launch that selects some of the cuts stays
  at the head of the queue and blocks it for ever.
\<close>

theorem launch_all_or_nothing:
  assumes "pim_trans_queue s = t # q" and "bit (trans_addr t) 0"
    and "vcuts s * hcuts s = int (length (cuts s))" and "length (cuts s) \<le> 30"
  shows "process_pim s = Inr (
    if \<forall>i < length (cuts s). bit (trans_addr t) (i + 1) \<and> cut_M (cuts s ! i) \<noteq> 0 \<and> cut_N (cuts s ! i) \<noteq> 0 \<and>
         cut_K (cuts s ! i) \<noteq> 0
    then s\<lparr>cuts := map (cut_in_pim_update (\<lambda>_. True)) (cuts s), pim_trans_queue := q,
           ctrls := map (ctrl_in_pim_update (\<lambda>_. True)) (ctrls s)\<rparr>
    else s\<lparr>ctrls := map (ctrl_in_pim_update (\<lambda>_. True)) (ctrls s)\<rparr>)"
proof -
  let ?a = "drop_bit 1 (trans_addr t)"
  let ?good = "\<forall>i < length (cuts s). bit ?a i \<and> cut_M (cuts s ! i) \<noteq> 0 \<and> cut_N (cuts s ! i) \<noteq> 0 \<and> cut_K (cuts s ! i) \<noteq> 0"
  have bits: "bit ?a i = bit (trans_addr t) (i + 1)" for i by (simp add: bit_drop_bit_eq)
  have "process_pim s = Inr (if ?good
    then s\<lparr>cuts := map (cut_in_pim_update (\<lambda>_. True)) (cuts s), pim_trans_queue := q,
           ctrls := map (ctrl_in_pim_update (\<lambda>_. True)) (ctrls s)\<rparr>
    else s\<lparr>ctrls := map (ctrl_in_pim_update (\<lambda>_. True)) (ctrls s)\<rparr>)"
    using assms(1,2) launch_ready_spec [OF assms(3,4), of ?a] launch_cuts_spec [OF assms(4), of ?a] assms(3)
    by (auto simp: process_pim_def launch_def Let_def)
  then show ?thesis unfolding bits .
qed

definition loaded_cuts :: JedecDRAMSystem where
  "loaded_cuts = demo_cuts\<lparr>cuts := replicate 2 (fresh_cut\<lparr>cut_M := 8, cut_N := 16, cut_K := 32\<rparr>)\<rparr>"

theorem launch_all_or_nothing_witness:
  "process_pim (with_word 3 loaded_cuts) = Inr (with_word 3 loaded_cuts)"
proof -
  let ?s = "with_word 3 loaded_cuts"
  have sel: "length (cuts ?s) = 2" "vcuts ?s * hcuts ?s = 2" "ctrls ?s = []"
    by (simp_all add: loaded_cuts_def demo_cuts_def demo_system_def with_word_def)
  have word: "trans_addr (mk_pim_transaction 3) = 3" "\<not> bit (3 :: u64) (1 + 1)" by simp_all
  have no: "\<not> (\<forall>i < length (cuts ?s). bit (trans_addr (mk_pim_transaction 3)) (i + 1) \<and> cut_M (cuts ?s ! i) \<noteq> 0 \<and>
      cut_N (cuts ?s ! i) \<noteq> 0 \<and> cut_K (cuts ?s ! i) \<noteq> 0)"
    using word(2) unfolding word(1) sel(1) by (metis one_less_numeral_iff semiring_norm(76))
  have "process_pim ?s = Inr (?s\<lparr>ctrls := map (ctrl_in_pim_update (\<lambda>_. True)) (ctrls ?s)\<rparr>)"
    using launch_all_or_nothing [of ?s "mk_pim_transaction 3" "[]"] sel(1,2) unfolding if_not_P [OF no] by simp
  then show ?thesis unfolding sel(3) by (simp add: loaded_cuts_def demo_cuts_def demo_system_def with_word_def)
qed

text \<open>
  A launch before the first dataflow transaction reads outside the vectors: the numbers of cuts are both
  initialised with -1, their product is 1, and the loop over the cuts accesses the first element of vectors
  that are still empty.
\<close>

theorem launch_before_configuration:
  assumes "pim_trans_queue s = t # q" and "bit (trans_addr t) 0" "bit (trans_addr t) 1"
    and "vcuts s = -1" "hcuts s = -1" "cuts s = []"
  shows "process_pim s = Inl OutOfRange"
  using assms by (simp add: process_pim_def launch_def launch_ready_def int_bit_def bit_drop_bit_eq Let_def vget_def)

theorem launch_before_configuration_witness:
  "process_pim (with_word 3 demo_system) = Inl OutOfRange"
  by (rule launch_before_configuration [where t = "mk_pim_transaction 3"]) (simp_all add: demo_system_def)

end
