(* ===== verification/Pim_Order.thy ===== *)
theory Pim_Order
  imports Pim_Decode
begin

section \<open>Processing: the order of weights and inputs\<close>

text \<open>
  The scheduler of in-memory processing (\<^verbatim>\<open>src/dram_system.cc\<close>, lines 376 to 632) keeps the position in the
  matrix multiplication in iterators. \<open>stream_visits\<close> and \<open>weight_visits\<close> run the steps of the model that
  move the iterators and collect the columns that are read; they are shown equal to nested loops over
  the tiles (\<open>input_columns\<close>) and to consecutive columns. The number of steps is bounded by the length of the
  reference, so the loops end. \<open>gather_same_spec\<close> is the specification of the loop that asks all channels
  of a cut for a command.
\<close>

subsection \<open>Commands for a row of banks\<close>

text \<open>What \<open>gather_same\<close> collects: nothing, or one command for each request, all ready and of one type.\<close>

definition one_each :: "('p \<Rightarrow> Command res) \<Rightarrow> (Command \<Rightarrow> Command res) \<Rightarrow> CommandType \<Rightarrow> 'p list \<Rightarrow> Command list \<Rightarrow> bool" where
  "one_each request ready ty ps cmds \<longleftrightarrow>
     list_all2 (\<lambda>p c. IsValid c \<and> cmd_type c = ty \<and> (\<exists>d. request p = Inr d \<and> ready d = Inr c)) ps cmds"

lemma gather_same_spec:
  assumes "gather_same request ready ps acc = Inr cmds" and "\<forall>c \<in> set acc. cmd_type c = cmd_type (hd acc)"
  shows "cmds = [] \<or> (\<exists>ds. cmds = acc @ ds \<and> one_each request ready (cmd_type (hd cmds)) ps ds)"
  using assms
proof (induction request ready ps acc rule: gather_same.induct)
  case (2 request ready p ps acc)
  from "2.prems"(1) obtain d c where d: "request p = Inr d" "ready d = Inr c"
    by (auto elim!: rbindE)
  show ?case
  proof (cases "IsValid c \<and> cmd_type (hd (acc @ [c])) = cmd_type c")
    case True
    have g: "gather_same request ready ps (acc @ [c]) = Inr cmds" using "2.prems"(1) d True by simp
    have same: "\<forall>e \<in> set (acc @ [c]). cmd_type e = cmd_type (hd (acc @ [c]))"
      using "2.prems"(2) True by (cases acc) auto
    have "cmds = [] \<or> (\<exists>ds. cmds = (acc @ [c]) @ ds \<and> one_each request ready (cmd_type (hd cmds)) ps ds)"
      using "2.IH" [OF d _ _ g same] True by simp
    then show ?thesis
    proof
      assume "\<exists>ds. cmds = (acc @ [c]) @ ds \<and> one_each request ready (cmd_type (hd cmds)) ps ds"
      then obtain ds where ds: "cmds = acc @ c # ds" "one_each request ready (cmd_type (hd cmds)) ps ds" by auto
      have "cmd_type c = cmd_type (hd cmds)" using True ds(1) by (cases acc) auto
      then have "one_each request ready (cmd_type (hd cmds)) (p # ps) (c # ds)"
        using ds(2) d True by (auto simp: one_each_def)
      with ds(1) show ?thesis by blast
    qed simp
  next
    case False
    then show ?thesis using "2.prems"(1) d by (auto split: if_splits)
  qed
qed (auto simp: one_each_def)

lemma gather_same_all:
  "gather_same request ready ps [] = Inr cmds \<Longrightarrow> cmds \<noteq> [] \<Longrightarrow> one_each request ready (cmd_type (hd cmds)) ps cmds"
  using gather_same_spec [of request ready ps "[]" cmds] by auto

subsection \<open>The order of the input vectors\<close>

text \<open>
  The input vectors of a cut in the order in which they are streamed, as the number of the N tile and the column
  behind the base row: \<open>stream_step\<close> is what a cycle with input reads does to the iterators.
\<close>

definition stream_step :: "Config \<Rightarrow> JedecDRAMSystem \<Rightarrow> int \<Rightarrow> Cut \<Rightarrow> ((int \<times> int) \<times> Cut) res" where
  "stream_step cfg s i k =
     rbind (mk_tile cfg s i k) (\<lambda>t.
     rbind (in_layout s t k) (\<lambda>col.
     rbind (advance_input cfg s t k) (\<lambda>k'. Inr ((N_tile_no t, col), k'))))"

fun stream_visits ::
  "nat \<Rightarrow> Config \<Rightarrow> JedecDRAMSystem \<Rightarrow> int \<Rightarrow> Cut \<Rightarrow> ((int \<times> int) list \<times> Cut) res"
where
  "stream_visits 0 cfg s i k = Inr ([], k)"
| "stream_visits (Suc n) cfg s i k =
     (if in_cnt k = -1 then Inr ([], k)
      else rbind (stream_step cfg s i k) (\<lambda>(v, k).
           rbind (stream_visits n cfg s i k) (\<lambda>(vs, k). Inr (v # vs, k))))"

text \<open>The reference: for every M tile and every N tile, the columns of the M tile one after the other.\<close>

definition tile_columns :: "int \<Rightarrow> int \<Rightarrow> int \<Rightarrow> int \<Rightarrow> int list" where
  "tile_columns T M KT mt = [T * mt * KT..min (T * (mt + 1)) M * KT - 1]"

definition input_columns :: "int \<Rightarrow> int \<Rightarrow> int \<Rightarrow> int \<Rightarrow> int \<Rightarrow> (int \<times> int) list" where
  "input_columns T M KT NT MT =
     [(nt, c). mt \<leftarrow> [0..MT - 1], nt \<leftarrow> [0..NT - 1], c \<leftarrow> tile_columns T M KT mt]"

text \<open>What is left of it from a position on: M tile, N tile, and the next column.\<close>

definition rest_columns :: "int \<Rightarrow> int \<Rightarrow> int \<Rightarrow> int \<Rightarrow> int \<Rightarrow> int \<Rightarrow> int \<Rightarrow> int \<Rightarrow> (int \<times> int) list" where
  "rest_columns T M KT NT MT mt nt c =
     [(nt, c'). c' \<leftarrow> [c..min (T * (mt + 1)) M * KT - 1]] @
     [(nt', c'). nt' \<leftarrow> [nt + 1..NT - 1], c' \<leftarrow> tile_columns T M KT mt] @
     [(nt', c'). mt' \<leftarrow> [mt + 1..MT - 1], nt' \<leftarrow> [0..NT - 1], c' \<leftarrow> tile_columns T M KT mt']"

lemma rest_columns_start:
  assumes "0 < NT" "0 < MT"
  shows "rest_columns T M KT NT MT 0 0 0 = input_columns T M KT NT MT"
proof -
  have "[0..MT - 1] = 0 # [1..MT - 1]" "[0..NT - 1] = 0 # [1..NT - 1]" using assms upto_rec1 [of 0] by simp_all
  then show ?thesis by (simp add: rest_columns_def input_columns_def tile_columns_def)
qed

lemma rest_columns_next:
  assumes "0 < NT" and "c < min (T * (mt + 1)) M * KT"
  shows "rest_columns T M KT NT MT mt nt c = (nt, c) #
    (if c + 1 < min (T * (mt + 1)) M * KT then rest_columns T M KT NT MT mt nt (c + 1)
     else if nt + 1 < NT then rest_columns T M KT NT MT mt (nt + 1) (T * mt * KT)
     else if mt + 1 < MT then rest_columns T M KT NT MT (mt + 1) 0 (T * (mt + 1) * KT)
     else [])"
proof -
  let ?hi = "min (T * (mt + 1)) M * KT"
  have c: "[c..?hi - 1] = c # [c + 1..?hi - 1]" using assms(2) by (intro upto_rec1) simp
  have n: "[nt + 1..NT - 1] = (nt + 1) # [nt + 1 + 1..NT - 1]" if "nt + 1 < NT" using that by (intro upto_rec1) simp
  have m: "[mt + 1..MT - 1] = (mt + 1) # [mt + 1 + 1..MT - 1]" if "mt + 1 < MT" using that by (intro upto_rec1) simp
  have z: "[0..NT - 1] = 0 # [1..NT - 1]" using \<open>0 < NT\<close> upto_rec1 [of 0 "NT - 1"] by simp
  consider "c + 1 < ?hi" | "?hi \<le> c + 1" "nt + 1 < NT" | "?hi \<le> c + 1" "NT \<le> nt + 1" "mt + 1 < MT"
    | "?hi \<le> c + 1" "NT \<le> nt + 1" "MT \<le> mt + 1" by linarith
  then show ?thesis
  proof cases
    case 1
    then show ?thesis unfolding rest_columns_def c by simp
  next
    case 2
    then have "[c + 1..?hi - 1] = []" by simp
    with 2 show ?thesis unfolding rest_columns_def c n [OF 2(2)] by (simp add: tile_columns_def)
  next
    case 3
    then have "[c + 1..?hi - 1] = []" "[nt + 1..NT - 1] = []" by simp_all
    with 3 show ?thesis unfolding rest_columns_def c m [OF 3(3)] by (simp add: tile_columns_def z)
  next
    case 4
    then have "[c + 1..?hi - 1] = []" "[nt + 1..NT - 1] = []" "[mt + 1..MT - 1] = []" by simp_all
    with 4 show ?thesis unfolding rest_columns_def c by simp
  qed
qed

text \<open>The number of tiles, and the position of the iterators.\<close>

definition k_tile :: "Config \<Rightarrow> JedecDRAMSystem \<Rightarrow> Cut \<Rightarrow> int" where
  "k_tile cfg s k = min (channels cfg div hcuts s * 16) (cut_K k)"

definition tiles :: "int \<Rightarrow> int \<Rightarrow> int" where
  "tiles n b = (n - 1) div b + 1"

definition stream_wf :: "Config \<Rightarrow> JedecDRAMSystem \<Rightarrow> Cut \<Rightarrow> bool" where
  "stream_wf cfg s k \<longleftrightarrow> 0 < vcuts s \<and> vcuts s \<le> 128 \<and> 0 < hcuts s \<and> hcuts s \<le> channels cfg \<and>
     0 < M_tile_size s \<and> 0 < mc s \<and> 0 < cut_M k \<and> 0 < cut_N k \<and> 0 < cut_K k"

definition at_position ::
  "Config \<Rightarrow> JedecDRAMSystem \<Rightarrow> Cut \<Rightarrow> int \<Rightarrow> int \<Rightarrow> int \<Rightarrow> int \<Rightarrow> bool"
where
  "at_position cfg s k mt nt kt m \<longleftrightarrow> stream_wf cfg s k \<and> in_cnt k \<noteq> -1 \<and>
     M_it k = m \<and> 0 \<le> mt \<and> M_tile_size s * mt \<le> m \<and> m < min (M_tile_size s * (mt + 1)) (cut_M k) \<and>
     N_it k = 128 div vcuts s * nt \<and> 0 \<le> nt \<and> nt < tiles (cut_N k) (128 div vcuts s) \<and>
     K_tile_it k = kt \<and> 0 \<le> kt \<and> kt < tiles (cut_K k) (k_tile cfg s k)"

definition column_of :: "Config \<Rightarrow> JedecDRAMSystem \<Rightarrow> Cut \<Rightarrow> int \<Rightarrow> int \<Rightarrow> int \<Rightarrow> int" where
  "column_of cfg s k mt kt m =
     M_tile_size s * mt * tiles (cut_K k) (k_tile cfg s k) +
     kt * (min (M_tile_size s * (mt + 1)) (cut_M k) - M_tile_size s * mt) + (m - M_tile_size s * mt)"

lemma tiles_pos: "0 < n \<Longrightarrow> 0 < b \<Longrightarrow> 0 < tiles n b"
  by (simp add: tiles_def pos_imp_zdiv_nonneg_iff)

lemma last_tile:
  assumes "0 < b"
  shows "n \<le> b * (q + 1) \<longleftrightarrow> tiles n b \<le> q + 1"
proof -
  define d r where "d = (n - 1) div b" and "r = (n - 1) mod b"
  have n: "n - 1 = b * d + r" "0 \<le> r" "r < b" using assms by (simp_all add: d_def r_def)
  have "n \<le> b * (q + 1) \<longleftrightarrow> d \<le> q"
  proof
    assume "n \<le> b * (q + 1)"
    then have "b * d < b * (q + 1)" using n by linarith
    then show "d \<le> q" using assms by (simp only: mult_less_cancel_left_pos)
  next
    assume "d \<le> q"
    then have "b * d \<le> b * q" using assms by simp
    moreover have "b * (q + 1) = b * q + b" by (simp add: distrib_left)
    ultimately show "n \<le> b * (q + 1)" using n by linarith
  qed
  then show ?thesis by (simp add: tiles_def d_def)
qed

lemma mod_in_tile:
  assumes "0 < (b :: int)" and "b * q \<le> m" "m < b * (q + 1)"
  shows "m div b = q" "m mod b = m - b * q" "(m + 1) mod b = 0 \<longleftrightarrow> m + 1 = b * (q + 1)"
proof -
  show q: "m div b = q" using assms by (intro div_pos_pos_trivial int_div_pos_eq [where r = "m - b * q"]) (auto simp: algebra_simps)
  then show "m mod b = m - b * q" by (metis minus_mult_div_eq_mod)
  show "(m + 1) mod b = 0 \<longleftrightarrow> m + 1 = b * (q + 1)"
  proof
    assume "(m + 1) mod b = 0"
    then obtain p where p: "m + 1 = b * p" by auto
    then have "b * q < b * p" "b * p \<le> b * (q + 1)" using assms(2,3) by linarith+
    then have "p = q + 1" using assms(1) by (simp add: mult_less_cancel_left_pos mult_le_cancel_left_pos)
    with p show "m + 1 = b * (q + 1)" by simp
  qed simp
qed

lemma mk_tile_at:
  assumes "at_position cfg s k mt nt kt m" and "0 \<le> i"
  obtains t where "mk_tile cfg s i k = Inr t" "N_tile_size t = 128 div vcuts s" "N_tile_no t = nt" "M_tile_no t = mt"
    "M_current_tile_size t = min (M_tile_size s * (mt + 1)) (cut_M k) - M_tile_size s * mt" "K_tile_size t = k_tile cfg s k"
    "0 < k_tile cfg s k" "0 < N_tile_size t"
proof -
  let ?T = "M_tile_size s" and ?M = "cut_M k"
  have wf: "0 < vcuts s" "vcuts s \<le> 128" "0 < hcuts s" "hcuts s \<le> channels cfg" "0 < ?T" "0 < cut_K k"
    and m: "M_it k = m" "0 \<le> mt" "?T * mt \<le> m" "m < ?T * (mt + 1)" "m < ?M"
    and n: "N_it k = 128 div vcuts s * nt" "0 \<le> nt"
    using assms(1) by (auto simp: at_position_def stream_wf_def)
  have "0 \<le> ?T * mt" using wf(5) m(2) by simp
  then have m0: "0 \<le> m" using m(3) by linarith
  have S: "0 < 128 div vcuts s" using wf(1,2) by (simp add: pos_imp_zdiv_pos_iff)
  have h: "0 < channels cfg div hcuts s" using wf(3,4) by (simp add: pos_imp_zdiv_pos_iff)
  have cur: "(if ?M < ?T * (mt + 1) then Inr (?M mod ?T) else Inr ?T :: int res) =
      Inr (min (?T * (mt + 1)) ?M - ?T * mt)"
    using mod_in_tile(2) [of ?T mt ?M] wf(5) m by (auto simp: min_def algebra_simps)
  have md: "m div ?T = mt" by (rule mod_in_tile(1)) (use wf m in auto)
  have "\<exists>t. mk_tile cfg s i k = Inr t \<and> N_tile_size t = 128 div vcuts s \<and> N_tile_no t = nt \<and> M_tile_no t = mt \<and>
      M_current_tile_size t = min (?T * (mt + 1)) ?M - ?T * mt \<and> K_tile_size t = k_tile cfg s k"
    using wf m m0 n S h cur md assms(2)
    by (cases "?M < ?T * (mt + 1)") (simp_all add: mk_tile_def imod_def idiv_def k_tile_def)
  moreover have "0 < k_tile cfg s k" using h wf(6) by (simp add: k_tile_def)
  ultimately show thesis using that S by metis
qed

text \<open>One step: the vector it reads, and the next position.\<close>

lemma in_layout_at:
  assumes "at_position cfg s k mt nt kt m" and "M_tile_no t = mt" "K_tile_size t = k_tile cfg s k" "0 < k_tile cfg s k"
    "M_current_tile_size t = min (M_tile_size s * (mt + 1)) (cut_M k) - M_tile_size s * mt"
  shows "in_layout s t k = Inr (column_of cfg s k mt kt m)"
proof -
  let ?T = "M_tile_size s"
  have p: "0 < ?T" "0 < cut_K k" "M_it k = m" "0 \<le> mt" "?T * mt \<le> m" "m < ?T * (mt + 1)" "K_tile_it k = kt"
    using assms(1) by (auto simp: at_position_def stream_wf_def)
  have "0 \<le> ?T * mt" using p(1,4) by simp
  then have "0 \<le> m" using p(5) by linarith
  with p assms(2-5) mod_in_tile(2) [OF p(1,5,6)] show ?thesis
    by (simp add: in_layout_def imod_def idiv_def column_of_def tiles_def mult_ac)
qed

definition next_position ::
  "Config \<Rightarrow> JedecDRAMSystem \<Rightarrow> Cut \<Rightarrow> int \<Rightarrow> int \<Rightarrow> int \<Rightarrow> int \<Rightarrow> Cut \<Rightarrow> bool"
where
  "next_position cfg s k mt nt kt m k' \<longleftrightarrow>
     (if m + 1 < min (M_tile_size s * (mt + 1)) (cut_M k) then at_position cfg s k' mt nt kt (m + 1)
      else if kt + 1 < tiles (cut_K k) (k_tile cfg s k) then at_position cfg s k' mt nt (kt + 1) (M_tile_size s * mt)
      else if nt + 1 < tiles (cut_N k) (128 div vcuts s) then at_position cfg s k' mt (nt + 1) 0 (M_tile_size s * mt)
      else if mt + 1 < tiles (cut_M k) (M_tile_size s) then at_position cfg s k' (mt + 1) 0 0 (M_tile_size s * (mt + 1))
      else in_cnt k' = -1)"

lemma advance_input_at:
  assumes p: "at_position cfg s k mt nt kt m" and t: "M_tile_no t = mt" "N_tile_no t = nt" "N_tile_size t = 128 div vcuts s"
    "0 < N_tile_size t" "K_tile_size t = k_tile cfg s k" "0 < k_tile cfg s k"
  obtains k' where "advance_input cfg s t k = Inr k'" "next_position cfg s k mt nt kt m k'"
    "cut_M k' = cut_M k" "cut_N k' = cut_N k" "cut_K k' = cut_K k"
proof -
  let ?T = "M_tile_size s" and ?S = "128 div vcuts s" and ?Ks = "k_tile cfg s k"
  have wf: "stream_wf cfg s k" "0 < ?T" "0 < vcuts s" "0 < mc s" "0 < cut_N k" "0 < cut_K k"
    and m: "M_it k = m" "0 \<le> mt" "?T * mt \<le> m" "m < ?T * (mt + 1)" "m < cut_M k"
    and n: "N_it k = ?S * nt" "0 \<le> nt" "nt < tiles (cut_N k) ?S"
    and kt: "K_tile_it k = kt" "0 \<le> kt" "kt < tiles (cut_K k) ?Ks" and ic: "in_cnt k \<noteq> -1"
    using p by (auto simp: at_position_def stream_wf_def)
  have "0 \<le> ?T * mt" using wf(2) m(2) by simp
  then have m0: "0 \<le> m" using m(3) by linarith
  have endM: "(m + 1) mod ?T = 0 \<or> m + 1 = cut_M k \<longleftrightarrow> \<not> m + 1 < min (?T * (mt + 1)) (cut_M k)"
    using mod_in_tile(3) [OF wf(2) m(3,4)] m(4,5) by auto
  have endK: "cut_K k \<le> (kt + 1) * ?Ks \<longleftrightarrow> \<not> kt + 1 < tiles (cut_K k) ?Ks"
    using last_tile [OF t(6), of "cut_K k" kt] by (auto simp: mult.commute)
  have endN: "cut_N k \<le> ?S * (nt + 1) \<longleftrightarrow> \<not> nt + 1 < tiles (cut_N k) ?S"
    using last_tile [of ?S "cut_N k" nt] t(3,4) by auto
  have lastM: "cut_M k \<le> ?T * (mt + 1) \<longleftrightarrow> \<not> mt + 1 < tiles (cut_M k) ?T"
    using last_tile [OF wf(2), of "cut_M k" mt] by auto
  define k1 where "k1 = (if cut_K k \<le> (kt + 1) * ?Ks \<and> m mod ?T = 0
      then k\<lparr>out_cnt := max 1 (tCCD_L cfg * (3 + 16) - tRCDWR cfg)\<rparr> else k)\<lparr>M_it := m + 1\<rparr>"
  have k1: "M_it k1 = m + 1" "K_tile_it k1 = kt" "N_it k1 = ?S * nt" "in_cnt k1 = in_cnt k" "cut_M k1 = cut_M k"
    "cut_N k1 = cut_N k" "cut_K k1 = cut_K k" "k_tile cfg s k1 = ?Ks" "stream_wf cfg s k1"
    using m(1) n(1) kt(1) wf(1) by (auto simp: k1_def k_tile_def stream_wf_def)
  define k2 where "k2 = k1\<lparr>in_cnt := max 1 (tCCD_L cfg * max (128 div (vcuts s * mc s)) 16 - tRCDRD cfg),
      iw_status := iw_status k1 + 1, M_it := ?T * mt, K_tile_it := kt + 1\<rparr>"
  have adv: "advance_input cfg s t k = Inr (
      if m + 1 < min (?T * (mt + 1)) (cut_M k) then k1
      else if kt + 1 < tiles (cut_K k) ?Ks then k2
      else if nt + 1 < tiles (cut_N k) ?S then k2\<lparr>K_tile_it := 0, N_it := ?S * (nt + 1)\<rparr>
      else if mt + 1 < tiles (cut_M k) ?T then k2\<lparr>K_tile_it := 0, N_it := 0, M_it := ?T * (mt + 1)\<rparr>
      else k2\<lparr>K_tile_it := 0, N_it := 0, M_it := ?T * (mt + 1), in_cnt := -1\<rparr>)"
  proof -
    have mods: "imod m ?T = Inr (m mod ?T)" "imod (m + 1) ?T = Inr ((m + 1) mod ?T)"
      using m0 wf(2) by (simp_all add: imod_def)
    have q: "idiv 128 (vcuts s * mc s) = Inr (128 div (vcuts s * mc s))" using wf(3,4) by (simp add: idiv_def)
    have so: "rbind (start_output cfg s t k) (\<lambda>k. Inr (k\<lparr>M_it := M_it k + 1\<rparr>)) = Inr k1"
      using m(1) kt(1) t(5) mods by (simp add: start_output_def k1_def)
    have "advance_input cfg s t k = (if (m + 1) mod ?T = 0 \<or> m + 1 = cut_M k then finish_input_tile cfg s t k1 else Inr k1)"
      using so k1(1,5) mods(2) by (auto simp: advance_input_def Let_def elim!: rbindE)
    moreover have "finish_input_tile cfg s t k1 = Inr (if cut_K k \<le> (kt + 1) * ?Ks
          then if cut_N k \<le> ?S * (nt + 1)
            then if cut_M k \<le> ?T * (mt + 1)
              then k2\<lparr>K_tile_it := 0, N_it := 0, M_it := ?T * (mt + 1), in_cnt := -1\<rparr>
              else k2\<lparr>K_tile_it := 0, N_it := 0, M_it := ?T * (mt + 1)\<rparr>
            else k2\<lparr>K_tile_it := 0, N_it := ?S * (nt + 1)\<rparr>
          else k2)"
      using t k1 by (simp add: finish_input_tile_def q k2_def Let_def)
    ultimately have "advance_input cfg s t k = (if (m + 1) mod ?T = 0 \<or> m + 1 = cut_M k
        then Inr (if cut_K k \<le> (kt + 1) * ?Ks
          then if cut_N k \<le> ?S * (nt + 1)
            then if cut_M k \<le> ?T * (mt + 1)
              then k2\<lparr>K_tile_it := 0, N_it := 0, M_it := ?T * (mt + 1), in_cnt := -1\<rparr>
              else k2\<lparr>K_tile_it := 0, N_it := 0, M_it := ?T * (mt + 1)\<rparr>
            else k2\<lparr>K_tile_it := 0, N_it := ?S * (nt + 1)\<rparr>
          else k2) else Inr k1)" by (simp only:)
    then show ?thesis unfolding endM endK endN lastM by (simp split: if_split)
  qed
  have lo: "?T * mt < min (?T * (mt + 1)) (cut_M k)" using m wf(2) by (auto simp: distrib_left)
  have hi: "?T * (mt + 1) < min (?T * (mt + 1 + 1)) (cut_M k)" if "mt + 1 < tiles (cut_M k) ?T"
    using lastM that wf(2) by (auto simp: distrib_left)
  have pos: "0 < tiles (cut_K k) ?Ks" "0 < tiles (cut_N k) ?S"
    using tiles_pos wf(5,6) t(3,4,6) by auto
  let ?k3 = "k2\<lparr>K_tile_it := 0, N_it := ?S * (nt + 1)\<rparr>"
  let ?k4 = "k2\<lparr>K_tile_it := 0, N_it := 0, M_it := ?T * (mt + 1)\<rparr>"
  have k2: "stream_wf cfg s k2" "in_cnt k2 \<noteq> -1" "k_tile cfg s k2 = ?Ks" "M_it k2 = ?T * mt" "K_tile_it k2 = kt + 1"
    "N_it k2 = ?S * nt" "cut_M k2 = cut_M k" "cut_N k2 = cut_N k" "cut_K k2 = cut_K k"
    using k1 by (auto simp: k2_def k_tile_def stream_wf_def max_def)
  have k34: "stream_wf cfg s ?k3" "stream_wf cfg s ?k4" "k_tile cfg s ?k3 = ?Ks" "k_tile cfg s ?k4 = ?Ks"
    using k2(1,3) by (simp_all add: stream_wf_def k_tile_def)
  have p1: "m + 1 < min (?T * (mt + 1)) (cut_M k) \<Longrightarrow> at_position cfg s k1 mt nt kt (m + 1)"
    unfolding at_position_def using k1 m n kt ic by simp
  have p2: "kt + 1 < tiles (cut_K k) ?Ks \<Longrightarrow> at_position cfg s k2 mt nt (kt + 1) (?T * mt)"
    unfolding at_position_def using k2 m n kt lo by simp
  have p3: "nt + 1 < tiles (cut_N k) ?S \<Longrightarrow> at_position cfg s ?k3 mt (nt + 1) 0 (?T * mt)"
    unfolding at_position_def k34 using k2 k34 m n kt lo pos by simp
  have p4: "mt + 1 < tiles (cut_M k) ?T \<Longrightarrow> at_position cfg s ?k4 (mt + 1) 0 0 (?T * (mt + 1))"
    unfolding at_position_def k34 using k2 k34 m hi pos by simp
  have "next_position cfg s k mt nt kt m (projr (advance_input cfg s t k))"
    unfolding adv next_position_def sum.sel using p1 p2 p3 p4 by simp
  with adv show thesis
    by (intro that [of "projr (advance_input cfg s t k)"]) (auto simp: k2 k1)
qed

lemma column_of_next:
  assumes p: "at_position cfg s k mt nt kt m"
  defines "hi \<equiv> min (M_tile_size s * (mt + 1)) (cut_M k)" and "KT \<equiv> tiles (cut_K k) (k_tile cfg s k)"
  shows "column_of cfg s k mt kt m < hi * KT"
    and "column_of cfg s k mt kt m + 1 < hi * KT \<longleftrightarrow> m + 1 < hi \<or> kt + 1 < KT"
    and "column_of cfg s k mt kt (m + 1) = column_of cfg s k mt kt m + 1"
    and "\<not> m + 1 < hi \<Longrightarrow> column_of cfg s k mt (kt + 1) (M_tile_size s * mt) = column_of cfg s k mt kt m + 1"
    and "column_of cfg s k mt 0 (M_tile_size s * mt) = M_tile_size s * mt * KT"
proof -
  let ?T = "M_tile_size s"
  define cur r where "cur = hi - ?T * mt" and "r = m - ?T * mt"
  have r: "0 \<le> r" "r < cur" "m + 1 < hi \<longleftrightarrow> r + 1 < cur" and kt: "0 \<le> kt" "kt < KT"
    using p by (auto simp: at_position_def r_def cur_def hi_def KT_def)
  have c: "column_of cfg s k mt kt' m' = ?T * mt * KT + kt' * cur + (m' - ?T * mt)" for kt' m'
    by (simp add: column_of_def cur_def hi_def KT_def)
  have h: "hi * KT = ?T * mt * KT + cur * KT" by (simp add: cur_def algebra_simps)
  have "kt * cur + r < (kt + 1) * cur" using r by (simp add: distrib_right)
  moreover have "(kt + 1) * cur \<le> KT * cur" using r kt by (intro mult_right_mono) auto
  ultimately show "column_of cfg s k mt kt m < hi * KT" unfolding c h r_def by (simp add: mult.commute)
  show "column_of cfg s k mt kt m + 1 < hi * KT \<longleftrightarrow> m + 1 < hi \<or> kt + 1 < KT"
  proof (cases "kt + 1 < KT")
    case True
    then have "(kt + 1 + 1) * cur \<le> KT * cur" using r by (intro mult_right_mono) auto
    then have "kt * cur + r + 1 < KT * cur" using r by (simp add: distrib_right)
    with True show ?thesis unfolding c h r_def by (simp add: mult.commute)
  next
    case False
    then have "KT = kt + 1" using kt by simp
    then have "KT * cur = kt * cur + cur" by (simp add: distrib_right)
    with False show ?thesis unfolding c h r(3) r_def by (auto simp: mult.commute)
  qed
  show "column_of cfg s k mt kt (m + 1) = column_of cfg s k mt kt m + 1" unfolding c by simp
  show "column_of cfg s k mt (kt + 1) (?T * mt) = column_of cfg s k mt kt m + 1" if "\<not> m + 1 < hi"
    using that r(2,3) unfolding c by (simp add: distrib_right r_def)
  show "column_of cfg s k mt 0 (?T * mt) = ?T * mt * KT" unfolding c by simp
qed

definition rest_of :: "Config \<Rightarrow> JedecDRAMSystem \<Rightarrow> Cut \<Rightarrow> int \<Rightarrow> int \<Rightarrow> int \<Rightarrow> (int \<times> int) list" where
  "rest_of cfg s k = rest_columns (M_tile_size s) (cut_M k) (tiles (cut_K k) (k_tile cfg s k))
     (tiles (cut_N k) (128 div vcuts s)) (tiles (cut_M k) (M_tile_size s))"

lemma rest_of_cong: "cut_M k' = cut_M k \<Longrightarrow> cut_N k' = cut_N k \<Longrightarrow> cut_K k' = cut_K k \<Longrightarrow> rest_of cfg s k' = rest_of cfg s k"
  by (simp add: rest_of_def k_tile_def)

lemma column_of_cong:
  "cut_M k' = cut_M k \<Longrightarrow> cut_K k' = cut_K k \<Longrightarrow> column_of cfg s k' = column_of cfg s k"
  by (simp add: column_of_def k_tile_def fun_eq_iff)

text \<open>A step reads the first column of what is left, and leaves the others.\<close>

definition reads_first ::
  "Config \<Rightarrow> JedecDRAMSystem \<Rightarrow> Cut \<Rightarrow> int \<Rightarrow> int \<Rightarrow> int \<Rightarrow> int \<Rightarrow> Cut \<Rightarrow> bool"
where
  "reads_first cfg s k mt nt kt m k' \<longleftrightarrow>
     (let c = column_of cfg s k mt kt m in
      in_cnt k' = -1 \<and> rest_of cfg s k mt nt c = [(nt, c)] \<or>
      (\<exists>mt' nt' kt' m'. at_position cfg s k' mt' nt' kt' m' \<and>
        rest_of cfg s k mt nt c = (nt, c) # rest_of cfg s k' mt' nt' (column_of cfg s k' mt' kt' m')))"

lemma next_position_reads_first:
  assumes p: "at_position cfg s k mt nt kt m" and nx: "next_position cfg s k mt nt kt m k'"
    and same: "cut_M k' = cut_M k" "cut_N k' = cut_N k" "cut_K k' = cut_K k"
  shows "reads_first cfg s k mt nt kt m k'"
proof -
  let ?T = "M_tile_size s" and ?c = "column_of cfg s k mt kt m"
  let ?KT = "tiles (cut_K k) (k_tile cfg s k)" and ?NT = "tiles (cut_N k) (128 div vcuts s)" and ?MT = "tiles (cut_M k) ?T"
  note col = column_of_next [OF p]
  have NT: "0 < ?NT" using p by (auto simp: at_position_def)
  note rest = rest_columns_next [OF NT col(1), of ?MT nt, folded rest_of_def]
  note cong = rest_of_cong [OF same, of cfg s] column_of_cong [OF same(1,3), of cfg s]
  note pos = nx [unfolded next_position_def]
  have intro: "reads_first cfg s k mt nt kt m k'"
    if "at_position cfg s k' mt' nt' kt' m'" "rest_of cfg s k mt nt ?c = (nt, ?c) # rest_of cfg s k mt' nt' (column_of cfg s k mt' kt' m')"
    for mt' nt' kt' m'
    using that unfolding reads_first_def Let_def cong by blast
  consider "m + 1 < min (?T * (mt + 1)) (cut_M k)"
    | "\<not> m + 1 < min (?T * (mt + 1)) (cut_M k)" "kt + 1 < ?KT"
    | "\<not> m + 1 < min (?T * (mt + 1)) (cut_M k)" "\<not> kt + 1 < ?KT" "nt + 1 < ?NT"
    | "\<not> m + 1 < min (?T * (mt + 1)) (cut_M k)" "\<not> kt + 1 < ?KT" "\<not> nt + 1 < ?NT" "mt + 1 < ?MT"
    | "\<not> m + 1 < min (?T * (mt + 1)) (cut_M k)" "\<not> kt + 1 < ?KT" "\<not> nt + 1 < ?NT" "\<not> mt + 1 < ?MT" by blast
  then show ?thesis
  proof cases
    case 1
    show ?thesis
      by (rule intro [of mt nt kt "m + 1"]) (use 1 pos rest col(2,3) in \<open>simp_all only: simp_thms if_True\<close>)
  next
    case 2
    show ?thesis
      by (rule intro [of mt nt "kt + 1" "?T * mt"])
        (use 2 pos rest col(2) col(4) [OF 2(1)] in \<open>simp_all only: simp_thms if_True if_False\<close>)
  next
    case 3
    show ?thesis
      by (rule intro [of mt "nt + 1" 0 "?T * mt"])
        (use 3 pos rest col(2,5) in \<open>simp_all only: simp_thms if_True if_False\<close>)
  next
    case 4
    then have a: "at_position cfg s k' (mt + 1) 0 0 (?T * (mt + 1))" using pos by (simp only: if_True if_False)
    have "column_of cfg s k (mt + 1) 0 (?T * (mt + 1)) = ?T * (mt + 1) * ?KT"
      using column_of_next(5) [OF a] cong(2) same(3) by (simp add: k_tile_def)
    then show ?thesis
      by (intro intro [OF a]) (use 4 rest col(2) in \<open>simp_all only: simp_thms if_True if_False\<close>)
  next
    case 5
    then show ?thesis
      using pos rest col(2) unfolding reads_first_def Let_def by (simp only: simp_thms if_True if_False)
  qed
qed

lemma stream_step_at:
  assumes p: "at_position cfg s k mt nt kt m" and i: "0 \<le> i"
  obtains k' where "stream_step cfg s i k = Inr ((nt, column_of cfg s k mt kt m), k')"
    and "reads_first cfg s k mt nt kt m k'"
proof -
  let ?T = "M_tile_size s"
  obtain t where t: "mk_tile cfg s i k = Inr t" "N_tile_size t = 128 div vcuts s" "N_tile_no t = nt" "M_tile_no t = mt"
    "M_current_tile_size t = min (?T * (mt + 1)) (cut_M k) - ?T * mt" "K_tile_size t = k_tile cfg s k"
    "0 < k_tile cfg s k" "0 < N_tile_size t" by (rule mk_tile_at [OF p i])
  obtain k' where k': "advance_input cfg s t k = Inr k'" "next_position cfg s k mt nt kt m k'"
    "cut_M k' = cut_M k" "cut_N k' = cut_N k" "cut_K k' = cut_K k"
    by (rule advance_input_at [OF p t(4,3,2,8,6,7)])
  have "stream_step cfg s i k = Inr ((nt, column_of cfg s k mt kt m), k')"
    using t(1,3) k'(1) in_layout_at [OF p t(4,6,7,5)] by (simp add: stream_step_def)
  then show thesis using that next_position_reads_first [OF p k'(2-5)] by blast
qed

lemma stream_visits_done: "in_cnt k = -1 \<Longrightarrow> stream_visits n cfg s i k = Inr ([], k)"
  by (cases n) simp_all

lemma stream_visits_at:
  assumes "at_position cfg s k mt nt kt m" and "0 \<le> i"
    and "length (rest_of cfg s k mt nt (column_of cfg s k mt kt m)) \<le> n"
  shows "\<exists>k'. stream_visits n cfg s i k = Inr (rest_of cfg s k mt nt (column_of cfg s k mt kt m), k') \<and> in_cnt k' = -1"
  using assms
proof (induction n arbitrary: k mt nt kt m)
  case 0
  obtain k' where "reads_first cfg s k mt nt kt m k'" by (rule stream_step_at [OF "0.prems"(1,2)])
  with "0.prems"(3) show ?case by (auto simp: reads_first_def Let_def)
next
  case (Suc n)
  have "in_cnt k \<noteq> -1" using Suc.prems(1) by (simp add: at_position_def)
  obtain k' where k': "stream_step cfg s i k = Inr ((nt, column_of cfg s k mt kt m), k')"
    and first: "reads_first cfg s k mt nt kt m k'"
    by (rule stream_step_at [OF Suc.prems(1,2)])
  from first [unfolded reads_first_def Let_def] show ?case
    using Suc.IH [OF _ Suc.prems(2)] Suc.prems(3) k' \<open>in_cnt k \<noteq> -1\<close> by (fastforce simp: stream_visits_done)
qed

subsection \<open>The weights of a tile\<close>

definition weight_step :: "Config \<Rightarrow> JedecDRAMSystem \<Rightarrow> int \<Rightarrow> Cut \<Rightarrow> (int \<times> Cut) res" where
  "weight_step cfg s i k =
     rbind (mk_tile cfg s i k) (\<lambda>t.
     rbind (w_layout s t k) (\<lambda>(n_banks, per_bank, col).
     rbind (advance_weight t per_bank k) (\<lambda>k'. Inr (col, k'))))"

fun weight_visits :: "nat \<Rightarrow> Config \<Rightarrow> JedecDRAMSystem \<Rightarrow> int \<Rightarrow> Cut \<Rightarrow> (int list \<times> Cut) res" where
  "weight_visits 0 cfg s i k = Inr ([], k)"
| "weight_visits (Suc n) cfg s i k =
     (if iw_status k \<noteq> 0 then Inr ([], k)
      else rbind (weight_step cfg s i k) (\<lambda>(c, k).
           rbind (weight_visits n cfg s i k) (\<lambda>(cs, k). Inr (c # cs, k))))"

text \<open>The banks that deliver weights, and the columns of a tile in each of them.\<close>

definition weight_banks :: "Config \<Rightarrow> JedecDRAMSystem \<Rightarrow> int" where
  "weight_banks cfg s = banks cfg div vcuts s div weight_banks_reduce s"

definition per_weight_bank :: "Config \<Rightarrow> JedecDRAMSystem \<Rightarrow> Cut \<Rightarrow> int" where
  "per_weight_bank cfg s k = min (cut_N k) ((128 div vcuts s - 1) div weight_banks cfg s + 1)"

definition weights_wf :: "Config \<Rightarrow> JedecDRAMSystem \<Rightarrow> Cut \<Rightarrow> int \<Rightarrow> bool" where
  "weights_wf cfg s k nt \<longleftrightarrow> stream_wf cfg s k \<and> 0 \<le> banks cfg \<and> 0 < weight_banks cfg s \<and> 0 \<le> M_it k \<and> 0 \<le> nt \<and>
     per_weight_bank cfg s k dvd 128 div vcuts s * nt"

lemma weight_step_at:
  assumes wf: "weights_wf cfg s k nt" and i: "0 \<le> i"
    and j: "N_it k = 128 div vcuts s * nt + j" "0 \<le> j" "j < per_weight_bank cfg s k"
  shows "weight_step cfg s i k = Inr (
    (nt * tiles (cut_K k) (k_tile cfg s k) + K_tile_it k) * per_weight_bank cfg s k + j,
    if j + 1 = per_weight_bank cfg s k then k\<lparr>N_it := 128 div vcuts s * nt, iw_status := iw_status k + 1\<rparr>
    else k\<lparr>N_it := 128 div vcuts s * nt + (j + 1)\<rparr>)"
proof -
  let ?S = "128 div vcuts s" and ?pb = "per_weight_bank cfg s k" and ?KT = "tiles (cut_K k) (k_tile cfg s k)"
  have w: "0 < vcuts s" "vcuts s \<le> 128" "0 < hcuts s" "hcuts s \<le> channels cfg" "0 < M_tile_size s" "0 < cut_N k"
    "0 < cut_K k" "0 \<le> banks cfg" "0 < weight_banks cfg s" "0 \<le> M_it k" "0 \<le> nt" "?pb dvd ?S * nt" "0 < cut_M k"
    using wf by (auto simp: weights_wf_def stream_wf_def)
  have S: "0 < ?S" using w(1,2) by (simp add: pos_imp_zdiv_pos_iff)
  have h: "0 < channels cfg div hcuts s" using w(3,4) by (simp add: pos_imp_zdiv_pos_iff)
  have "(?S - 1) div weight_banks cfg s \<le> ?S - 1" using zdiv_mono2 [of "?S - 1" 1 "weight_banks cfg s"] S w(9) by simp
  then have pb: "?pb \<le> ?S" by (simp add: per_weight_bank_def)
  have "0 \<le> ?S * nt" using S w(11) by simp
  then have n0: "0 \<le> N_it k" using j by linarith
  have div: "N_it k div ?S = nt" "N_it k mod ?S = j"
    using mod_in_tile(1,2) [OF S, of nt "N_it k"] j pb by (auto simp: distrib_left)
  obtain m_cur where "(if cut_M k < M_tile_size s * (M_it k div M_tile_size s + 1) then imod (cut_M k) (M_tile_size s)
      else Inr (M_tile_size s)) = Inr m_cur"
    using w(5) by (cases "cut_M k < M_tile_size s * (M_it k div M_tile_size s + 1)") (simp_all add: imod_def)
  then obtain t where t: "mk_tile cfg s i k = Inr t" "N_tile_size t = ?S" "N_tile_no t = nt"
    "cut_width t = banks cfg div vcuts s" "K_tile_size t = k_tile cfg s k"
    using w S h n0 div(1) i by (simp add: mk_tile_def imod_def idiv_def k_tile_def)
  have k0: "0 < k_tile cfg s k" using h w(7) by (simp add: k_tile_def)
  have r: "weight_banks_reduce s \<noteq> 0" "0 \<le> weight_banks_reduce s" by (simp_all add: weight_banks_reduce_def)
  have width: "0 \<le> banks cfg div vcuts s" using w(1,8) by (simp add: pos_imp_zdiv_nonneg_iff)
  have "w_layout s t k = Inr (weight_banks cfg s, ?pb, nt * (?pb * ?KT) + K_tile_it k * ?pb + j)"
    using w S t r width n0 div k0
    by (simp add: w_layout_def idiv_def imod_def Let_def tiles_def weight_banks_def per_weight_bank_def)
  then have lay: "w_layout s t k = Inr (weight_banks cfg s, ?pb, (nt * ?KT + K_tile_it k) * ?pb + j)"
    by (simp add: algebra_simps)
  have pb0: "0 < ?pb" using j by simp
  have "(?S * nt + (j + 1)) mod ?pb = (j + 1) mod ?pb" using w(12) by (simp add: mod_add_left_eq [symmetric, of "?S * nt"])
  then have e1: "(N_it k + 1) mod ?pb = 0 \<longleftrightarrow> j + 1 = ?pb"
    using mod_in_tile(3) [OF pb0, of 0 j] j by (simp add: add.assoc)
  have e2: "?S = ?pb \<or> (N_it k + 1) mod ?S \<noteq> 0" if "j + 1 = ?pb"
  proof -
    have "N_it k + 1 = ?pb + nt * ?S" using j(1) that by (simp add: mult.commute)
    then have "(N_it k + 1) mod ?S = ?pb mod ?S" by simp
    then show ?thesis using pb pb0 by (cases "?pb = ?S") simp_all
  qed
  have "advance_weight t ?pb k = Inr (if j + 1 = ?pb then k\<lparr>N_it := ?S * nt, iw_status := iw_status k + 1\<rparr>
    else k\<lparr>N_it := ?S * nt + (j + 1)\<rparr>)"
    using t e1 e2 S j n0 by (auto simp: advance_weight_def Let_def imod_def)
  with t(1) lay show ?thesis by (simp add: weight_step_def)
qed

lemma weight_visits_at:
  assumes "weights_wf cfg s k nt" and "0 \<le> i" and "iw_status k = 0"
    and "N_it k = 128 div vcuts s * nt + j" "0 \<le> j" "j < per_weight_bank cfg s k" and "nat (per_weight_bank cfg s k - j) \<le> n"
  defines "base \<equiv> (nt * tiles (cut_K k) (k_tile cfg s k) + K_tile_it k) * per_weight_bank cfg s k"
  shows "weight_visits n cfg s i k =
    Inr ([base + j..base + per_weight_bank cfg s k - 1], k\<lparr>N_it := 128 div vcuts s * nt, iw_status := 1\<rparr>)"
  using assms(1-7) unfolding base_def
proof (induction n arbitrary: k j)
  case (Suc n)
  let ?S = "128 div vcuts s" and ?pb = "per_weight_bank cfg s k"
  let ?b = "(nt * tiles (cut_K k) (k_tile cfg s k) + K_tile_it k) * ?pb"
  note step = weight_step_at [OF Suc.prems(1,2,4-6)]
  have up: "[?b + j..?b + ?pb - 1] = (?b + j) # [?b + (j + 1)..?b + ?pb - 1]"
    using upto_rec1 [of "?b + j" "?b + ?pb - 1"] Suc.prems(6) by (simp add: add.assoc)
  show ?case
  proof (cases "j + 1 = ?pb")
    case True
    then show ?thesis using step Suc.prems(3) up by (cases n) simp_all
  next
    case False
    let ?k = "k\<lparr>N_it := ?S * nt + (j + 1)\<rparr>"
    have same: "per_weight_bank cfg s ?k = ?pb" "k_tile cfg s ?k = k_tile cfg s k" "weights_wf cfg s ?k nt"
      using Suc.prems(1) by (simp_all add: per_weight_bank_def k_tile_def weights_wf_def stream_wf_def)
    have "weight_visits n cfg s i ?k = Inr ([?b + (j + 1)..?b + ?pb - 1], ?k\<lparr>N_it := ?S * nt, iw_status := 1\<rparr>)"
      using Suc.IH [OF same(3) Suc.prems(2), of "j + 1"] Suc.prems(3-) False by (simp add: same)
    then show ?thesis using step False Suc.prems(3) up by simp
  qed
qed simp

subsection \<open>Properties\<close>


definition stream_system :: JedecDRAMSystem where
  "stream_system = demo_system\<lparr>vcuts := 1, hcuts := 1, M_tile_size := 2, dataflow := 0\<rparr>"

definition stream_config :: Config where
  "stream_config = config0\<lparr>channels := 2, banks := 16\<rparr>"

definition stream_cut :: Cut where
  "stream_cut = fresh_cut\<lparr>cut_M := 3, cut_N := 200, cut_K := 40\<rparr>"

lemma stream_cut_wf: "stream_wf stream_config stream_system stream_cut"
  by (simp add: stream_wf_def stream_config_def stream_system_def demo_system_def stream_cut_def)

lemma stream_cut_order:
  "input_columns 2 3 2 2 2 =
    [(0, 0), (0, 1), (0, 2), (0, 3), (1, 0), (1, 1), (1, 2), (1, 3), (0, 4), (0, 5), (1, 4), (1, 5)]"
  by code_simp




text \<open>
  C19. Weights are requested from all channels and banks of a cut or from none: either no command is issued and
  the state of the cut does not change, or there is exactly one command for each bank in order, each one is what
  its channel offers for the request at this moment, and all have the same type.
\<close>

theorem weights_all_or_nothing:
  assumes "load_weights cfg s wait t k = Inr (cmds, k')" and "w_layout s t k = Inr (n_banks, per_bank, col)"
  shows "if cmds = [] then k' = k
    else one_each (w_request cfg s t k per_bank col) (ask cfg s) (cmd_type (hd cmds)) (index_pairs (cut_height t) n_banks) cmds"
proof -
  from assms obtain g where g: "gather_same (w_request cfg s t k per_bank col) (ask cfg s) (index_pairs (cut_height t) n_banks) [] = Inr g"
    and r: "(if g = [] then Inr ([], k)
       else if cmd_type (hd g) = PIM_ACTIVATE then
         Inr (if w_act_placed k \<or> wait then ([], k) else (g, k\<lparr>w_act_placed := True\<rparr>))
       else
         let k = (if cmd_type (hd g) = GH_READ_PRECHARGE then k\<lparr>w_act_placed := False\<rparr> else k) in
         if dataflow s = 1 \<and> cmd_type (hd g) = PRECHARGE then Inr (g, k)
         else rbind (advance_weight t per_bank k) (\<lambda>k. Inr (g, k))) = Inr (cmds, k')"
    unfolding load_weights_def by (auto elim!: rbindE)
  from r have "cmds = [] \<and> k' = k \<or> cmds = g"
    by (auto simp: Let_def elim!: rbindE split: if_splits)
  then show ?thesis
  proof
    assume "cmds = g"
    then show ?thesis using gather_same_all [OF g] r by (cases "g = []") auto
  qed simp
qed

definition weight_config :: Config where
  "weight_config = config0\<lparr>channels := 1, ranks := 1, bankgroups := 4, banks_per_group := 4, banks := 16, rows := 64,
     columns := 64, BL := 4\<rparr>"

definition idle_controller :: "ChannelState \<Rightarrow> Controller" where
  "idle_controller cs = \<lparr>channel_id = 0, rd_in_cmds = [], rd_w_cmds = [], wr_cmds = [], release_time = [],
     wr_multitenant = False, ctrl_in_pim = False, ctrl_clk = 0, simple_stats = stats0, channel_state = cs,
     cmd_queue = \<lparr>rank_q_empty = [True], queue_structure = PER_BANK, queues = [], ref_q_indices = {}, is_in_ref = False,
       num_queues = 0, queue_size = 0, queue_idx = 0, cq_clk = 0\<rparr>,
     refresh = \<lparr>ref_clk = 0, refresh_interval = 1000, policy = RANK_LEVEL_STAGGERED, next_rank = 0, next_bg = 0,
       next_bank = 0\<rparr>,
     is_unified_queue = False, unified_queue = empty_buffer, read_queue = empty_buffer, write_buffer = empty_buffer,
     pending_rd_q = [], pending_wr_q = [], return_queue = [], row_buf_policy = OPEN_PAGE, last_trans_clk = 0,
     write_draining = 0\<rparr>"

definition weight_system :: "ChannelState \<Rightarrow> JedecDRAMSystem" where
  "weight_system cs = demo_system\<lparr>ctrls := [idle_controller cs], vcuts := 1, hcuts := 1, M_tile_size := 256, dataflow := 0\<rparr>"

definition weight_tile :: Tile where
  "weight_tile = \<lparr>vcut_no = 0, cut_height = 1, hcut_no = 0, cut_width = 16, N_tile_size = 128, N_tile_no = 0, M_tile_no = 0,
     M_current_tile_size = 3, K_tile_size = 16\<rparr>"

lemma weight_commands:
  "case mk_channel_state weight_config of
     Inr cs \<Rightarrow> w_layout (weight_system cs) weight_tile stream_cut = Inr (2, 64, 0) \<and>
       (case load_weights weight_config (weight_system cs) False weight_tile stream_cut of
          Inr (cmds, k) \<Rightarrow> map cmd_type cmds = [PIM_ACTIVATE, PIM_ACTIVATE] | _ \<Rightarrow> False)
   | _ \<Rightarrow> False"
  by code_simp

theorem weights_all_or_nothing_witness:
  "\<exists>cs cmds k. load_weights weight_config (weight_system cs) False weight_tile stream_cut = Inr (cmds, k) \<and>
     one_each (w_request weight_config (weight_system cs) weight_tile stream_cut 64 0) (ask weight_config (weight_system cs))
       PIM_ACTIVATE (index_pairs 1 2) cmds"
proof -
  obtain cs cmds k where l: "w_layout (weight_system cs) weight_tile stream_cut = Inr (2, 64, 0)"
    "load_weights weight_config (weight_system cs) False weight_tile stream_cut = Inr (cmds, k)"
    and c: "map cmd_type cmds = [PIM_ACTIVATE, PIM_ACTIVATE]"
    using weight_commands by (auto split: sum.splits prod.splits)
  have "cmds \<noteq> []" "cmd_type (hd cmds) = PIM_ACTIVATE" using c by auto
  with weights_all_or_nothing [OF l(2,1)] l(2) show ?thesis by (auto simp: weight_tile_def)
qed

subsection \<open>Divergences\<close>

text \<open>
  A channel that is not ready ends only the loop over its own banks: the commands of the next channel are
  still issued, although the comment promises to flush the commands of all channels.
\<close>

lemma inputs_not_flushed:
  assumes "request 0 0 = Inr d0" "ready d0 = Inr c0" "\<not> IsValid c0"
    and "request 1 0 = Inr d1" "ready d1 = Inr c1" "IsValid c1"
  shows "gather_inputs request ready 2 1 = Inr ([c1], False)"
  using assms by (simp add: gather_inputs_def upto.simps)

text \<open>
  A command that only closes a row moves the input iterators on like a read: the vector is skipped.
\<close>

lemma precharge_advances_inputs:
  assumes "in_layout s t k = Inr col"
    and "gather_inputs (in_request cfg s t (k\<lparr>vpu_cnt := 0\<rparr>) col) (ask cfg s) (cut_height t) (mc s) = Inr (cmds, False)"
    and "cmds \<noteq> []" "cmd_type (hd cmds) = PRECHARGE" "vcuts s * hcuts s = 1" "vpu_cnt k \<in> {0, 1}" "128 < M_tile_size s"
    and "advance_input cfg s t (k\<lparr>vpu_cnt := 0\<rparr>) = Inr k'" "vcuts s = 1"
  shows "stream_inputs cfg s wait t k = Inr (cmds, k')"
proof -
  have "in_layout s t (k\<lparr>vpu_cnt := 0\<rparr>) = Inr col" using assms(1) by (simp add: in_layout_def)
  moreover have "k\<lparr>vpu_cnt := max 0 (vpu_cnt k - 1)\<rparr> = k\<lparr>vpu_cnt := 0\<rparr>" using assms(6) by auto
  ultimately show ?thesis
    using assms by (simp add: stream_inputs_def Let_def in_readp_def idiv_def)
qed

end
