(* ===== verification/Dram_Safety.thy ===== *)
theory Dram_Safety
  imports Dram_System
begin

section \<open>The memory system: no aborts, conservation of transactions\<close>

text \<open>
  Properties of the model of \<^verbatim>\<open>src/dram_system.cc\<close> as a memory. \<open>jedec_inv\<close> is the invariant of a system
  that has no processing transactions: one controller per channel, each with its own invariant. Collecting,
  the clock cycle and the end of an epoch keep it, so the system of controllers is an instance of the locale
  \<open>bag_buffer\<close>, as a single controller is; so is the system of fixed latency. The construction of the
  system from a configuration is shown to succeed and to establish the invariant.
\<close>

subsection \<open>Routing\<close>

lemma GetChannel_mapping: "GetChannel cfg a = channel (AddressMapping cfg a)"
  by (simp add: GetChannel_def AddressMapping_def Let_def mk_address_def)

subsection \<open>Invariant of a system without processing transactions\<close>

definition channels_ok :: "Config \<Rightarrow> bool" where
  "channels_ok cfg \<longleftrightarrow> (\<forall>a. channel (AddressMapping cfg a) \<in> {0..<channels cfg})"

definition memory_only :: "JedecDRAMSystem \<Rightarrow> bool" where
  "memory_only s \<longleftrightarrow> pim_trans_queue s = [] \<and> vcuts s = -1 \<and> hcuts s = -1"

definition jedec_inv :: "Config \<Rightarrow> JedecDRAMSystem \<Rightarrow> bool" where
  "jedec_inv cfg s \<longleftrightarrow> length (ctrls s) = nat (channels cfg) \<and> list_all (ctrl_inv cfg) (ctrls s) \<and> memory_only s"

definition held :: "Controller list \<Rightarrow> event multiset" where
  "held cs = sum_list (map in_flight cs)"

lemma held_simps [simp]: "held [] = {#}" "held (c # cs) = in_flight c + held cs" "held (cs @ ds) = held cs + held ds"
  by (simp_all add: held_def)

lemma held_update:
  "i < length cs \<Longrightarrow> held (cs[i := c]) + in_flight (cs ! i) = held cs + in_flight c"
  by (induction cs arbitrary: i) (auto split: nat.split simp: ac_simps)

lemma held_update_add:
  "i < length cs \<Longrightarrow> in_flight c = add_mset x (in_flight (cs ! i)) \<Longrightarrow> held (cs[i := c]) = add_mset x (held cs)"
  using held_update [of i cs c] by simp

lemma list_all_update: "list_all P xs \<Longrightarrow> P x \<Longrightarrow> list_all P (xs[i := x])"
  by (auto simp: list_all_iff dest: subsetD [OF set_update_subset_insert])

subsection \<open>New transactions\<close>

lemma Jedec_AddTransaction_ok:
  assumes "channels_ok cfg" and "jedec_inv cfg s" and "Jedec_WillAccept cfg s a w = Inr True"
  shows "\<exists>s'. Jedec_AddTransaction cfg a w s = Inr (True, s') \<and> jedec_inv cfg s' \<and>
    held (ctrls s') = add_mset (a, w) (held (ctrls s)) \<and>
    (\<forall>i. i \<noteq> nat (GetChannel cfg a) \<longrightarrow> ctrls s' ! i = ctrls s ! i)"
proof -
  let ?i = "GetChannel cfg a"
  have i: "0 \<le> ?i" "?i < int (length (ctrls s))"
    using assms(1,2) by (auto simp: GetChannel_mapping channels_ok_def jedec_inv_def)
  then have n: "nat ?i < length (ctrls s)" by simp
  let ?c = "ctrls s ! nat ?i"
  have inv: "ctrl_inv cfg ?c" using assms(2) n by (simp add: jedec_inv_def list_all_length)
  have will: "WillAcceptTransaction ?c a w" using assms(3) i by (simp add: Jedec_WillAccept_def)
  note add = AddTransaction_step [OF inv, of "mk_transaction a w"]
  let ?d = "snd (AddTransaction (mk_transaction a w) ?c)"
  have "in_flight ?d = add_mset (a, w) (in_flight ?c)" using add(3) by (simp add: mk_transaction_def)
  from held_update_add [OF n this] show ?thesis
    using i n will add(2) assms(2)
    by (auto simp: Jedec_AddTransaction_def Let_def vset_def vmod_def jedec_inv_def memory_only_def list_all_update)
qed

lemma Jedec_WillAccept_ok:
  assumes "channels_ok cfg" and "jedec_inv cfg s"
  shows "\<exists>b. Jedec_WillAccept cfg s a w = Inr b"
proof -
  have "0 \<le> GetChannel cfg a" "GetChannel cfg a < int (length (ctrls s))"
    using assms by (auto simp: GetChannel_mapping channels_ok_def jedec_inv_def)
  then show ?thesis by (simp add: Jedec_WillAccept_def)
qed

subsection \<open>Completed transactions\<close>

lemma collect_done_ok:
  "ctrl_inv cfg c \<Longrightarrow> collect_done clk c = (es, c') \<Longrightarrow>
   ctrl_inv cfg c' \<and> in_flight c = in_flight c' + mset es"
proof (induction clk c arbitrary: es c' rule: collect_done.induct)
  case (1 clk c)
  obtain a w d where r: "ReturnDoneTrans clk c = ((a, w), d)" by (metis surj_pair)
  note step = ReturnDoneTrans_step [OF "1.prems"(1) r]
  obtain es' d' where d: "collect_done clk d = (es', d')" by (cases "collect_done clk d")
  consider "w = 1" | "w = 0" | "w \<noteq> 1" "w \<noteq> 0" by blast
  then show ?case
  proof cases
    case 1
    show ?thesis
      using "1.prems"(2) r d step 1 "1.IH"(1) [OF r [symmetric] refl 1 step(1) d]
      by (auto simp: collect_done.simps [of clk c] done_answer_def)
  next
    case 2
    show ?thesis
      using "1.prems"(2) r d step 2 "1.IH"(2) [OF r [symmetric] refl _ 2 step(1) d]
      by (auto simp: collect_done.simps [of clk c] done_answer_def)
  next
    case 3
    then show ?thesis
      using "1.prems"(2) r step by (simp add: collect_done.simps [of clk c] done_answer_def)
  qed
qed

lemma collect_all_ok:
  "list_all (ctrl_inv cfg) cs \<Longrightarrow> collect_all clk cs = (es, cs') \<Longrightarrow>
   list_all (ctrl_inv cfg) cs' \<and> length cs' = length cs \<and> held cs = held cs' + mset es"
proof (induction cs arbitrary: es cs')
  case (Cons c cs)
  obtain e1 d where d: "collect_done clk c = (e1, d)" by (cases "collect_done clk c")
  obtain e2 ds where ds: "collect_all clk cs = (e2, ds)" by (cases "collect_all clk cs")
  show ?case
    using Cons.prems d ds collect_done_ok [OF _ d] Cons.IH [OF _ ds] by (auto simp: ac_simps)
qed simp

subsection \<open>A clock cycle\<close>

lemma pim_refresh_ok:
  assumes "ctrl_inv cfg c"
  shows "\<exists>b. Controller_pim_refresh_coming cfg c = Inr b" "\<exists>b. Controller_pim_refresh_coming2 c = Inr b"
  using assms
  by (auto simp: Controller_pim_refresh_coming_def Controller_pim_refresh_coming2_def pim_refresh_coming_def
      pim_refresh_coming2_def pim_refresh_left_def imod_def ctrl_inv_def)

lemma refresh_wait_memory_only:
  assumes "list_all (ctrl_inv cfg) cs" and "\<not> configured s"
  shows "mfold (refresh_wait_step cfg) cs (b, s) = Inr (b, s)"
  using assms
proof (induction cs)
  case (Cons c cs)
  obtain b' where "Controller_pim_refresh_coming cfg c = Inr b'" using pim_refresh_ok(1) Cons.prems by fastforce
  then show ?case using Cons by (simp add: refresh_wait_step_def)
qed simp

lemma system_in_ref_ok:
  assumes "list_all (ctrl_inv cfg) (ctrls s)"
  shows "\<exists>b. system_in_ref s = Inr b"
proof -
  have "\<exists>b. mfold in_ref_step (ctrls s) False = Inr b \<and> True"
    by (rule mfold_invariant)
      (use assms pim_refresh_ok(2) in \<open>fastforce simp: in_ref_step_def list_all_iff\<close>)+
  then show ?thesis by (simp add: system_in_ref_def)
qed

text \<open>A pass over the controllers that keeps the invariant and what is in flight.\<close>

lemma controllers_pass:
  assumes "\<And>c. ctrl_inv cfg c \<Longrightarrow> \<exists>c'. f c = Inr c' \<and> ctrl_inv cfg c' \<and> in_flight c' = in_flight c"
    and "list_all (ctrl_inv cfg) cs"
  shows "\<exists>cs'. mfold (\<lambda>c acc. rbind (f c) (\<lambda>c. Inr (acc @ [c]))) cs acc = Inr (acc @ cs') \<and>
    list_all (ctrl_inv cfg) cs' \<and> length cs' = length cs \<and> held cs' = held cs"
  using assms(2)
proof (induction cs arbitrary: acc)
  case (Cons c cs)
  obtain d where d: "f c = Inr d" "ctrl_inv cfg d" "in_flight d = in_flight c" using assms(1) Cons.prems by auto
  obtain ds where "mfold (\<lambda>c acc. rbind (f c) (\<lambda>c. Inr (acc @ [c]))) cs (acc @ [d]) = Inr ((acc @ [d]) @ ds)"
    "list_all (ctrl_inv cfg) ds" "length ds = length cs" "held ds = held cs"
    using Cons.IH [of "acc @ [d]"] Cons.prems by auto
  with d show ?case by (intro exI [of _ "d # ds"]) simp
qed simp

lemma PrintEpochStats_ok:
  assumes "ctrl_inv cfg c"
  shows "\<exists>c'. Controller_PrintEpochStats cfg c = Inr c' \<and> ctrl_inv cfg c' \<and> in_flight c' = in_flight c"
proof -
  have "stats_ok cfg (Increment ''epoch_num'' (simple_stats c))" using assms by (simp add: ctrl_inv_def)
  then obtain st where st: "UpdateEpochStats cfg (Increment ''epoch_num'' (simple_stats c)) = Inr st" "stats_ok cfg st"
    by (rule UpdateEpochStats_ok)
  have "ctrl_inv cfg (c\<lparr>simple_stats := st\<rparr>)" by (rule ctrl_inv_stats [OF assms st(2)])
  with st(1) show ?thesis by (simp add: Controller_PrintEpochStats_def in_flight_def)
qed

lemma Jedec_ClockTick_ok:
  assumes cfg: "config_ok cfg" "\<not> enable_self_refresh cfg" "epoch_period cfg \<noteq> 0" and inv: "jedec_inv cfg s"
  shows "\<exists>es s'. Jedec_ClockTick cfg s = Inr (es, s') \<and> jedec_inv cfg s' \<and> sys_clk s' = sys_clk s + 1 \<and>
    held (ctrls s) = held (ctrls s') + mset es"
proof -
  obtain es cs where c: "collect_all (sys_clk s) (ctrls s) = (es, cs)" by (cases "collect_all (sys_clk s) (ctrls s)")
  have cs: "list_all (ctrl_inv cfg) cs" "length cs = nat (channels cfg)" "held (ctrls s) = held cs + mset es"
    using collect_all_ok [OF _ c] inv by (auto simp: jedec_inv_def)
  let ?s = "s\<lparr>ctrls := cs\<rparr>"
  have m: "memory_only ?s" "\<not> configured ?s" using inv by (simp_all add: jedec_inv_def memory_only_def configured_def)
  have w: "refresh_wait cfg ?s = Inr (False, ?s)"
    unfolding refresh_wait_def using refresh_wait_memory_only [OF _ m(2)] cs(1) by simp
  have p: "process_pim ?s = Inr ?s" using m by (simp add: process_pim_def memory_only_def)
  obtain b where "system_in_ref ?s = Inr b" using system_in_ref_ok [of cfg ?s] cs(1) by auto
  then have q: "schedule_pim cfg False ?s = Inr ?s" using m(2) by (simp add: schedule_pim_def)
  obtain ds where ds: "tick_ctrls cfg cs = Inr ds" "list_all (ctrl_inv cfg) ds" "length ds = length cs" "held ds = held cs"
    using controllers_pass [OF _ cs(1), of "Controller_ClockTick cfg" "[]"] Controller_ClockTick_ok [OF cfg(1,2)]
    unfolding tick_ctrls_def by fastforce
  obtain fs where fs: "Base_PrintEpochStats cfg ds = Inr fs" "list_all (ctrl_inv cfg) fs" "length fs = length ds" "held fs = held ds"
    using controllers_pass [OF PrintEpochStats_ok ds(2), of "[]"]
    unfolding Base_PrintEpochStats_def by fastforce
  show ?thesis
    using c w p q ds fs cs m cfg(3)
    by (simp add: Jedec_ClockTick_def Let_def jedec_inv_def memory_only_def)
qed

subsection \<open>Construction\<close>

lemma mk_controller_refresh: "mk_controller cfg ch = Inr c \<Longrightarrow> mk_refresh cfg = Inr (refresh c)"
  by (auto simp: mk_controller_def elim!: rbindE split: if_splits prod.splits)

lemma mk_controllers_ok:
  assumes "dims_wf cfg" "0 < ranks cfg" "refresh_policy cfg \<noteq> RefreshPolicy_SIZE"
    "mk_refresh cfg = Inr rf" "0 < refresh_interval rf" "refresh_interval rf < 2 ^ 63"
    and "mfold (\<lambda>i acc. rbind (mk_controller cfg i) (\<lambda>c. Inr (acc @ [c]))) is acc = Inr cs"
    and "list_all (ctrl_inv cfg) acc" "held acc = {#}"
  shows "list_all (ctrl_inv cfg) cs \<and> held cs = {#} \<and> length cs = length acc + length is"
  using assms(7-)
proof (induction "is" arbitrary: acc)
  case (Cons i "is")
  from Cons.prems(1) obtain c where c: "mk_controller cfg i = Inr c"
    and rest: "mfold (\<lambda>i acc. rbind (mk_controller cfg i) (\<lambda>c. Inr (acc @ [c]))) is (acc @ [c]) = Inr cs"
    by (auto elim!: rbindE)
  have "ctrl_inv cfg c" "in_flight c = {#}"
    using mk_controller_inv [OF assms(1) c assms(2,3)] mk_controller_refresh [OF c] assms(4-6) by auto
  then show ?case using Cons.IH [OF rest] Cons.prems(2,3) by simp
qed simp

lemma mk_jedec_inv:
  assumes "dims_wf cfg" "0 < ranks cfg" "refresh_policy cfg \<noteq> RefreshPolicy_SIZE"
    "mk_refresh cfg = Inr rf" "0 < refresh_interval rf" "refresh_interval rf < 2 ^ 63"
    and "mk_jedec cfg = Inr s"
  shows "jedec_inv cfg s" "held (ctrls s) = {#}"
proof -
  from assms(7) obtain cs where cs:
    "mfold (\<lambda>i acc. rbind (mk_controller cfg i) (\<lambda>c. Inr (acc @ [c]))) [0..channels cfg - 1] [] = Inr cs"
    and s: "ctrls s = cs" "memory_only s" "0 \<le> channels cfg"
    by (auto simp: mk_jedec_def memory_only_def Let_def elim!: rbindE split: if_splits)
  from mk_controllers_ok [OF assms(1-6) cs] s show "jedec_inv cfg s" "held (ctrls s) = {#}"
    by (simp_all add: jedec_inv_def)
qed

subsection \<open>The system as a buffer\<close>

text \<open>A client asks whether a transaction is accepted before it adds it.\<close>

definition jedec_put :: "Config \<Rightarrow> event \<Rightarrow> JedecDRAMSystem \<Rightarrow> (bool \<times> JedecDRAMSystem) res" where
  "jedec_put cfg x s =
     (case x of (a, w) \<Rightarrow> rbind (Jedec_WillAccept cfg s a w) (\<lambda>accepts.
        if accepts then Jedec_AddTransaction cfg a w s else Inr (False, s)))"

definition jedec_tick :: "Config \<Rightarrow> unit \<Rightarrow> JedecDRAMSystem \<Rightarrow> (event list \<times> JedecDRAMSystem) res" where
  "jedec_tick cfg u s = Jedec_ClockTick cfg s"

definition system_ok :: "Config \<Rightarrow> bool" where
  "system_ok cfg \<longleftrightarrow> config_ok cfg \<and> channels_ok cfg \<and> \<not> enable_self_refresh cfg \<and> epoch_period cfg \<noteq> 0"

interpretation system_buffer: bag_buffer
  "\<lambda>s. system_ok cfg \<and> jedec_inv cfg s" "\<lambda>s. held (ctrls s)" "\<lambda>_. True" "\<lambda>_. True" "jedec_put cfg" "jedec_tick cfg"
  for cfg
proof (unfold_locales, goal_cases)
  case (1 s x)
  obtain a w where x: "x = (a, w)" by (cases x)
  have ok: "channels_ok cfg" "jedec_inv cfg s" using 1 by (auto simp: system_ok_def)
  obtain b where b: "Jedec_WillAccept cfg s a w = Inr b" using Jedec_WillAccept_ok [OF ok] by blast
  show ?case
  proof (cases b)
    case True
    then show ?thesis using Jedec_AddTransaction_ok [OF ok, of a w] b x 1 by (auto simp: jedec_put_def)
  next
    case False
    then show ?thesis using b x 1 by (auto simp: jedec_put_def)
  qed
next
  case (2 s e)
  then show ?case
    using Jedec_ClockTick_ok [of cfg s] by (auto simp: system_ok_def jedec_tick_def)
qed

subsection \<open>The system with a fixed latency\<close>

definition as_event :: "Transaction \<Rightarrow> event" where
  "as_event t = (trans_addr t, is_write t)"

definition due :: "u64 \<Rightarrow> int \<Rightarrow> Transaction \<Rightarrow> bool" where
  "due clk lat t \<longleftrightarrow> of_int lat \<le> clk - added_cycle t"

lemma ideal_loop_spec:
  "\<exists>ts. fst (ideal_loop clk lat q) = map as_event ts \<and> mset q = mset ts + mset (snd (ideal_loop clk lat q)) \<and>
     list_all (due clk lat) ts \<and> find (due clk lat) q = (case ts of [] \<Rightarrow> None | t # _ \<Rightarrow> Some t)"
proof (induction clk lat q rule: ideal_loop.induct)
  case (2 clk lat t ts)
  show ?case
  proof (cases "due clk lat t")
    case True
    then have d: "of_int lat \<le> clk - added_cycle t" by (simp add: due_def)
    show ?thesis
    proof (cases ts)
      case Nil
      then show ?thesis using d True by (intro exI [of _ "[t]"]) (simp add: as_event_def)
    next
      case (Cons u us)
      obtain xs where "fst (ideal_loop clk lat us) = map as_event xs" "mset us = mset xs + mset (snd (ideal_loop clk lat us))"
        "list_all (due clk lat) xs" using "2.IH"(1) [OF d Cons] by blast
      then show ?thesis using d True Cons by (intro exI [of _ "t # xs"]) (simp add: as_event_def case_prod_beta)
    qed
  next
    case False
    then have d: "\<not> of_int lat \<le> clk - added_cycle t" by (simp add: due_def)
    then show ?thesis using "2.IH"(2) [OF d] False by (auto simp: case_prod_beta)
  qed
qed simp

definition ideal_put :: "event \<Rightarrow> IdealDRAMSystem \<Rightarrow> (bool \<times> IdealDRAMSystem) res" where
  "ideal_put x s = (case x of (a, w) \<Rightarrow> Inr (Ideal_AddTransaction a w s))"

definition ideal_tick :: "unit \<Rightarrow> IdealDRAMSystem \<Rightarrow> (event list \<times> IdealDRAMSystem) res" where
  "ideal_tick u s = Inr (Ideal_ClockTick s)"

interpretation ideal_buffer: bag_buffer
  "\<lambda>_. True" "\<lambda>s. mset (map as_event (infinite_buffer_q s))" "\<lambda>_. True" "\<lambda>_. True" ideal_put ideal_tick
proof (unfold_locales, goal_cases)
  case (1 s x)
  then show ?case
    by (cases x) (auto simp: ideal_put_def Ideal_AddTransaction_def as_event_def mk_transaction_def)
next
  case (2 s e)
  obtain es q where l: "ideal_loop (ideal_clk s) (latency s) (infinite_buffer_q s) = (es, q)" by fastforce
  with ideal_loop_spec [of "ideal_clk s" "latency s" "infinite_buffer_q s"] obtain ts where
    "es = map as_event ts" "mset (infinite_buffer_q s) = mset ts + mset q" by auto
  then show ?case using l by (simp add: ideal_tick_def Ideal_ClockTick_def)
qed

lemma ideal_conserved:
  "\<exists>ins outs s'. buffer_run ideal_put ideal_tick ops (mk_ideal cfg) = Inr (ins, outs, s') \<and>
     mset ins = mset (map as_event (infinite_buffer_q s')) + mset outs"
  using ideal_buffer.conserved [where s = "mk_ideal cfg" and ops = ops] by (simp add: mk_ideal_def)

subsection \<open>From a configuration\<close>

lemma system_ok_mk_config:
  assumes "mk_config rd = Inr cfg"
    and "1 \<le> channels cfg" "1 \<le> ranks cfg" "1 \<le> bankgroups cfg" "1 \<le> banks_per_group cfg" "1 \<le> rows cfg"
    and "\<not> enable_self_refresh cfg" "epoch_period cfg \<noteq> 0"
  shows "system_ok cfg"
proof -
  note range = AddressMapping_in_dims [OF mk_config_mapping_wf [OF assms(1)] assms(2-6)]
  have "dims_wf cfg" using mk_config_params_ok [OF assms(1)] assms(4,5) by (simp add: dims_wf_def params_ok_def)
  then show ?thesis
    using range assms(7,8) by (simp add: system_ok_def config_ok_def channels_ok_def in_range_def)
qed

lemma mk_controllers_run:
  assumes "0 \<le> ranks cfg" "0 \<le> bankgroups cfg" "0 \<le> banks_per_group cfg" "0 \<le> banks cfg"
    and "queue_structure_name cfg \<in> {''PER_BANK'', ''PER_RANK''}" "0 \<le> cmd_queue_size cfg" "0 \<le> trans_queue_size cfg"
    and "mk_refresh cfg = Inr rf"
  obtains cs where "mfold (\<lambda>i acc. rbind (mk_controller cfg i) (\<lambda>c. Inr (acc @ [c]))) is [] = Inr cs"
proof -
  obtain st where "mk_stats cfg = Inr st" by (rule mk_stats_ok [OF assms(1)])
  moreover obtain cs where "mk_channel_state cfg = Inr cs" using assms(1-3) by (simp add: mk_channel_state_def)
  moreover have "0 \<le> banks cfg * ranks cfg" using assms(1,4) by simp
  then obtain cq where "mk_command_queue cfg = Inr cq" using assms(1,5,6) by (auto simp: mk_command_queue_def)
  ultimately have c: "\<exists>c. mk_controller cfg i = Inr c" for i using assms(7,8) by (simp add: mk_controller_def reserve_def)
  have "\<exists>cs. mfold (\<lambda>i acc. rbind (mk_controller cfg i) (\<lambda>c. Inr (acc @ [c]))) is [] = Inr cs \<and> True"
  proof (rule mfold_invariant)
    fix i and acc :: "Controller list"
    show "\<exists>cs. rbind (mk_controller cfg i) (\<lambda>c. Inr (acc @ [c])) = Inr cs \<and> True" using c [of i] by auto
  qed simp
  then show thesis using that by blast
qed

lemma mk_jedec_ok:
  assumes "\<not> IsHMC cfg" "0 \<le> channels cfg" "0 \<le> ranks cfg" "0 \<le> bankgroups cfg" "0 \<le> banks_per_group cfg" "0 \<le> banks cfg"
    and "queue_structure_name cfg \<in> {''PER_BANK'', ''PER_RANK''}" "0 \<le> cmd_queue_size cfg" "0 \<le> trans_queue_size cfg"
    and "mk_refresh cfg = Inr rf"
  obtains s where "mk_jedec cfg = Inr s"
proof -
  obtain cs where "mfold (\<lambda>i acc. rbind (mk_controller cfg i) (\<lambda>c. Inr (acc @ [c]))) [0..channels cfg - 1] [] = Inr cs"
    by (rule mk_controllers_run [OF assms(3-10)])
  moreover have "0 \<le> ranks cfg * bankgroups cfg * banks_per_group cfg" using assms(3-5) by simp
  ultimately show thesis using that assms(1,2) by (simp add: mk_jedec_def Let_def)
qed

subsection \<open>Properties\<close>

text \<open>
  C28. The system of fixed latency answers what is due, once: the answers of a clock cycle belong to
  transactions of the buffer that have waited for the latency, exactly these are taken out of the buffer,
  and the first transaction of the buffer that is due is always among them.
\<close>

theorem ideal_tick_delivers:
  "\<exists>ts. fst (Ideal_ClockTick s) = map as_event ts \<and>
     mset (infinite_buffer_q s) = mset ts + mset (infinite_buffer_q (snd (Ideal_ClockTick s))) \<and>
     list_all (due (ideal_clk s) (latency s)) ts \<and>
     find (due (ideal_clk s) (latency s)) (infinite_buffer_q s) = (case ts of [] \<Rightarrow> None | t # _ \<Rightarrow> Some t)"
  using ideal_loop_spec [of "ideal_clk s" "latency s" "infinite_buffer_q s"]
  by (simp add: Ideal_ClockTick_def case_prod_beta)

text \<open>
  A clock cycle of the system of fixed latency skips the transaction behind the one it has answered: of
  two transactions that are both due, the second is answered one cycle late. The loop advances the iterator
  that \<^verbatim>\<open>erase\<close> has already set to the next element.
\<close>

theorem ideal_neighbour_late:
  assumes "infinite_buffer_q s = [t, u]" and "due (ideal_clk s) (latency s) t" "due (ideal_clk s) (latency s) u"
  shows "fst (Ideal_ClockTick s) = [as_event t] \<and> infinite_buffer_q (snd (Ideal_ClockTick s)) = [u]"
  using assms by (simp add: Ideal_ClockTick_def due_def as_event_def)

definition two_waiting :: IdealDRAMSystem where
  "two_waiting = (mk_ideal (config0\<lparr>ideal_memory_latency := 10\<rparr>))\<lparr>ideal_clk := 10,
     infinite_buffer_q := [mk_transaction 64 False, mk_transaction 128 True]\<rparr>"

theorem ideal_neighbour_late_witness:
  "fst (Ideal_ClockTick two_waiting) = [(64, False)] \<and>
   infinite_buffer_q (snd (Ideal_ClockTick two_waiting)) = [mk_transaction 128 True]"
  using ideal_neighbour_late [of two_waiting "mk_transaction 64 False" "mk_transaction 128 True"]
  by (simp add: two_waiting_def due_def as_event_def mk_transaction_def mk_ideal_def)

end
