(* ===== verification/Hmc.thy ===== *)
theory Hmc
  imports Dram_System
begin

section \<open>The hybrid memory cube\<close>

text \<open>
  Model of \<^verbatim>\<open>src/hmc.h\<close> and \<^verbatim>\<open>src/hmc.cc\<close>: packets, the crossbar between links and quadrants, the vaults
  behind it (one memory controller each), and the two clock domains. A packet is owned by exactly one queue,
  so queues hold the packets themselves. The fields \<open>link\<close> and \<open>exit_time\<close> of a packet are set when it enters
  the queue from which they are read; the constructor leaves them open and the model sets 0. The multimap of
  responses is an association list in order of insertion, of which \<open>find\<close> returns the first entry of a key.
  Calls of the callbacks are the events a clock cycle returns, in order.
\<close>

subsection \<open>Packets\<close>

datatype HMCReqType =
    RD0 | RD16 | RD32 | RD48 | RD64 | RD80 | RD96 | RD112 | RD128 | RD256 | WR0 | WR16 | WR32 | WR48
    | WR64 | WR80 | WR96 | WR112 | WR128 | WR256 | P_WR16 | P_WR32 | P_WR48 | P_WR64 | P_WR80
    | P_WR96 | P_WR112 | P_WR128 | P_WR256 | ADD8 | ADD16 | P_2ADD8 | P_ADD16 | ADDS8R | ADDS16R
    | INC8 | P_INC8 | XOR16 | OR16 | NOR16 | AND16 | NAND16 | CASGT8 | CASGT16 | CASLT8 | CASLT16
    | CASEQ8 | CASZERO16 | EQ8 | EQ16 | BWR | P_BWR | BWR8R | SWAP16 | HMCReqType_SIZE

datatype HMCRespType = RESP_NONE | RD_RS | WR_RS | RESP_ERR | HMCRespType_SIZE

primrec request_flits :: "HMCReqType \<Rightarrow> int res" where
  "request_flits RD0 = Inr 0" | "request_flits RD16 = Inr 1" | "request_flits RD32 = Inr 1"
| "request_flits RD48 = Inr 1" | "request_flits RD64 = Inr 1" | "request_flits RD80 = Inr 1"
| "request_flits RD96 = Inr 1" | "request_flits RD112 = Inr 1" | "request_flits RD128 = Inr 1"
| "request_flits RD256 = Inr 1" | "request_flits WR0 = Inr 0" | "request_flits WR16 = Inr 2"
| "request_flits WR32 = Inr 3" | "request_flits WR48 = Inr 4" | "request_flits WR64 = Inr 5"
| "request_flits WR80 = Inr 6" | "request_flits WR96 = Inr 7" | "request_flits WR112 = Inr 8"
| "request_flits WR128 = Inr 9" | "request_flits WR256 = Inr 17" | "request_flits P_WR16 = Inr 2"
| "request_flits P_WR32 = Inr 3" | "request_flits P_WR48 = Inr 4" | "request_flits P_WR64 = Inr 5"
| "request_flits P_WR80 = Inr 6" | "request_flits P_WR96 = Inr 7" | "request_flits P_WR112 = Inr 8"
| "request_flits P_WR128 = Inr 9" | "request_flits P_WR256 = Inr 17" | "request_flits ADD8 = Inr 2"
| "request_flits ADD16 = Inr 2" | "request_flits P_2ADD8 = Inr 2" | "request_flits P_ADD16 = Inr 2"
| "request_flits ADDS8R = Inr 2" | "request_flits ADDS16R = Inr 2" | "request_flits INC8 = Inr 1"
| "request_flits P_INC8 = Inr 1" | "request_flits XOR16 = Inr 2" | "request_flits OR16 = Inr 2"
| "request_flits NOR16 = Inr 2" | "request_flits AND16 = Inr 2" | "request_flits NAND16 = Inr 2"
| "request_flits CASGT8 = Inr 2" | "request_flits CASGT16 = Inr 2" | "request_flits CASLT8 = Inr 2"
| "request_flits CASLT16 = Inr 2" | "request_flits CASEQ8 = Inr 2" | "request_flits CASZERO16 = Inr 2"
| "request_flits EQ8 = Inr 2" | "request_flits EQ16 = Inr 2" | "request_flits BWR = Inr 2"
| "request_flits P_BWR = Inr 2" | "request_flits BWR8R = Inr 2" | "request_flits SWAP16 = Inr 2"
| "request_flits HMCReqType_SIZE = Inl (AbruptExit ''hmc.cc'' 107)"

primrec response_kind :: "HMCReqType \<Rightarrow> (HMCRespType \<times> int) res" where
  "response_kind RD0 = Inr (RD_RS, 0)" | "response_kind RD16 = Inr (RD_RS, 2)"
| "response_kind RD32 = Inr (RD_RS, 3)" | "response_kind RD48 = Inr (RD_RS, 4)"
| "response_kind RD64 = Inr (RD_RS, 5)" | "response_kind RD80 = Inr (RD_RS, 6)"
| "response_kind RD96 = Inr (RD_RS, 7)" | "response_kind RD112 = Inr (RD_RS, 8)"
| "response_kind RD128 = Inr (RD_RS, 9)" | "response_kind RD256 = Inr (RD_RS, 17)"
| "response_kind WR0 = Inr (WR_RS, 0)" | "response_kind WR16 = Inr (WR_RS, 1)"
| "response_kind WR32 = Inr (WR_RS, 1)" | "response_kind WR48 = Inr (WR_RS, 1)"
| "response_kind WR64 = Inr (WR_RS, 1)" | "response_kind WR80 = Inr (WR_RS, 1)"
| "response_kind WR96 = Inr (WR_RS, 1)" | "response_kind WR112 = Inr (WR_RS, 1)"
| "response_kind WR128 = Inr (WR_RS, 1)" | "response_kind WR256 = Inr (WR_RS, 1)"
| "response_kind P_WR16 = Inr (RESP_NONE, 0)" | "response_kind P_WR32 = Inr (RESP_NONE, 0)"
| "response_kind P_WR48 = Inr (RESP_NONE, 0)" | "response_kind P_WR64 = Inr (RESP_NONE, 0)"
| "response_kind P_WR80 = Inr (RESP_NONE, 0)" | "response_kind P_WR96 = Inr (RESP_NONE, 0)"
| "response_kind P_WR112 = Inr (RESP_NONE, 0)" | "response_kind P_WR128 = Inr (RESP_NONE, 0)"
| "response_kind P_WR256 = Inr (RESP_NONE, 0)" | "response_kind ADD8 = Inr (WR_RS, 1)"
| "response_kind ADD16 = Inr (WR_RS, 1)" | "response_kind P_2ADD8 = Inr (RESP_NONE, 0)"
| "response_kind P_ADD16 = Inr (RESP_NONE, 0)" | "response_kind ADDS8R = Inr (RD_RS, 2)"
| "response_kind ADDS16R = Inr (RD_RS, 2)" | "response_kind INC8 = Inr (WR_RS, 1)"
| "response_kind P_INC8 = Inr (RESP_NONE, 0)" | "response_kind XOR16 = Inr (RD_RS, 2)"
| "response_kind OR16 = Inr (RD_RS, 2)" | "response_kind NOR16 = Inr (RD_RS, 2)"
| "response_kind AND16 = Inr (RD_RS, 2)" | "response_kind NAND16 = Inr (RD_RS, 2)"
| "response_kind CASGT8 = Inr (RD_RS, 2)" | "response_kind CASGT16 = Inr (RD_RS, 2)"
| "response_kind CASLT8 = Inr (RD_RS, 2)" | "response_kind CASLT16 = Inr (RD_RS, 2)"
| "response_kind CASEQ8 = Inr (RD_RS, 2)" | "response_kind CASZERO16 = Inr (RD_RS, 2)"
| "response_kind EQ8 = Inr (WR_RS, 1)" | "response_kind EQ16 = Inr (WR_RS, 1)"
| "response_kind BWR = Inr (WR_RS, 1)" | "response_kind P_BWR = Inr (RESP_NONE, 0)"
| "response_kind BWR8R = Inr (RD_RS, 2)" | "response_kind SWAP16 = Inr (RD_RS, 2)"
| "response_kind HMCReqType_SIZE = Inl (AbruptExit ''hmc.cc'' 237)"

definition write_types :: "HMCReqType list" where
  "write_types =
     [WR0, WR16, WR32, WR48, WR64, WR80, WR96, WR112, WR128, WR256,
      P_WR16, P_WR32, P_WR48, P_WR64, P_WR80, P_WR96, P_WR112, P_WR128, P_WR256]"

record HMCRequest =
  req_type :: HMCReqType
  mem_operand :: u64
  req_link :: int
  req_quad :: int
  vault :: int
  req_flits :: int
  req_is_write :: bool
  req_exit_time :: u64

definition mk_request :: "HMCReqType \<Rightarrow> u64 \<Rightarrow> int \<Rightarrow> HMCRequest res" where
  "mk_request t a v =
     rbind (request_flits t) (\<lambda>n.
       Inr \<lparr>req_type = t, mem_operand = a, req_link = 0, req_quad = tmod v 4, vault = v, req_flits = n,
            req_is_write = (t \<in> set write_types), req_exit_time = 0\<rparr>)"

record HMCResponse =
  resp_id :: u64
  resp_type :: HMCRespType
  resp_link :: int
  resp_quad :: int
  resp_flits :: int
  resp_exit_time :: u64

definition mk_response :: "u64 \<Rightarrow> HMCReqType \<Rightarrow> int \<Rightarrow> int \<Rightarrow> HMCResponse res" where
  "mk_response i t l q =
     rbind (response_kind t) (\<lambda>(k, n).
       Inr \<lparr>resp_id = i, resp_type = k, resp_link = l, resp_quad = q, resp_flits = n, resp_exit_time = 0\<rparr>)"

subsection \<open>The system\<close>

record HMCMemorySystem =
  hmc_last_req_clk :: u64
  hmc_clk :: u64
  vaults :: "Controller list"
  logic_clk :: u64
  ps_per_dram :: u64
  ps_per_logic :: u64
  logic_ps :: u64
  dram_ps :: u64
  next_link :: int
  links :: int
  queue_depth :: u64
  resp_lookup_table :: "(u64 \<times> HMCResponse) list"
  link_req_queues :: "HMCRequest list list"
  link_resp_queues :: "HMCResponse list list"
  quad_req_queues :: "HMCRequest list list"
  quad_resp_queues :: "HMCResponse list list"
  link_busy :: "int list"
  quad_busy :: "int list"
  link_age_counter :: "int list"
  quad_age_counter :: "int list"

text \<open>
  The periods of the memory and of the logic die in ps. The source divides as doubles and truncates, which is
  the truncated quotient of the integers; an infinite or negative quotient does not fit the integer type.
\<close>

definition SetClockRatio :: "Config \<Rightarrow> (u64 \<times> u64) res" where
  "SetClockRatio cfg =
     rbind (idiv 128 (link_width cfg)) (\<lambda>link_cycles_per_flit.
     rbind (idiv (link_speed cfg) link_cycles_per_flit) (\<lambda>logic_speed.
       if logic_speed = 0 \<or> tdiv 1000000 logic_speed < 0 then Inl OutOfRange
       else let p = of_int (tdiv 1000000 logic_speed) in Inr (800, if p > 800 then 800 else p)))"

definition mk_hmc :: "Config \<Rightarrow> HMCMemorySystem res" where
  "mk_hmc cfg =
     (if \<not> IsHMC cfg then Inl (AbruptExit ''hmc.cc'' 255)
      else
        rbind (SetClockRatio cfg) (\<lambda>(per_dram, per_logic).
        if channels cfg < 0 then Inl LengthError
        else
          rbind (mfold (\<lambda>i acc. rbind (mk_controller cfg i) (\<lambda>c. Inr (acc @ [c]))) [0..channels cfg - 1] [])
            (\<lambda>cs.
              if num_links cfg < 0 then Inl LengthError
              else
                let n = nat (num_links cfg) in
                Inr \<lparr>hmc_last_req_clk = 0, hmc_clk = 0, vaults = cs, logic_clk = 0, ps_per_dram = per_dram,
                     ps_per_logic = per_logic, logic_ps = 0, dram_ps = 0, next_link = 0, links = num_links cfg,
                     queue_depth = of_int (xbar_queue_depth cfg), resp_lookup_table = [],
                     link_req_queues = replicate n [], link_resp_queues = replicate n [],
                     quad_req_queues = replicate 4 [], quad_resp_queues = replicate 4 [],
                     link_busy = replicate n 0, quad_busy = [0, 0, 0, 0],
                     link_age_counter = replicate n 0, quad_age_counter = [0, 0, 0, 0]\<rparr>)))"

subsection \<open>New requests\<close>

definition IterateNextLink :: "HMCMemorySystem \<Rightarrow> HMCMemorySystem res" where
  "IterateNextLink s = rbind (imod (next_link s + 1) (links s)) (\<lambda>l. Inr (s\<lparr>next_link := l\<rparr>))"

definition has_room :: "HMCMemorySystem \<Rightarrow> 'a list \<Rightarrow> bool" where
  "has_room s q \<longleftrightarrow> length q < unat (queue_depth s)"

definition Hmc_WillAccept :: "HMCMemorySystem \<Rightarrow> bool" where
  "Hmc_WillAccept s \<longleftrightarrow> list_ex (has_room s) (link_req_queues s)"

definition InsertReqToLink :: "HMCRequest \<Rightarrow> int \<Rightarrow> HMCMemorySystem \<Rightarrow> (bool \<times> HMCMemorySystem) res" where
  "InsertReqToLink req l s =
     rbind (vget (link_req_queues s) l) (\<lambda>q.
       if has_room s q then
         rbind (vset (link_req_queues s) l (q @ [req\<lparr>req_link := l\<rparr>])) (\<lambda>qs.
         rbind (mk_response (mem_operand req) (req_type req) l (req_quad req)) (\<lambda>resp.
         rbind (vset (link_age_counter s) l 1) (\<lambda>ages.
           Inr (True, s\<lparr>link_req_queues := qs,
                        resp_lookup_table := resp_lookup_table s @ [(resp_id resp, resp)],
                        link_age_counter := ages, hmc_last_req_clk := hmc_clk s\<rparr>))))
       else Inr (False, s))"

text \<open>
  The loop over the other links ends when the round robin is back at its start, after at most as many steps
  as there are links.
\<close>

fun insert_loop :: "nat \<Rightarrow> int \<Rightarrow> HMCRequest \<Rightarrow> HMCMemorySystem \<Rightarrow> (bool \<times> HMCMemorySystem) res" where
  "insert_loop fuel start_link req s =
     (if start_link = next_link s then Inr (False, s)
      else case fuel of
        0 \<Rightarrow> Inl OutOfFuel
      | Suc n \<Rightarrow>
          rbind (InsertReqToLink req (next_link s) s) (\<lambda>(inserted, s).
          rbind (IterateNextLink s) (\<lambda>s.
            if inserted then Inr (True, s) else insert_loop n start_link req s)))"

declare insert_loop.simps [simp del]

definition InsertHMCReq :: "HMCRequest \<Rightarrow> HMCMemorySystem \<Rightarrow> (bool \<times> HMCMemorySystem) res" where
  "InsertHMCReq req s =
     rbind (InsertReqToLink req (next_link s) s) (\<lambda>(is_inserted, s).
     let start_link = next_link s in
     rbind (IterateNextLink s) (\<lambda>s.
       if is_inserted then Inr (True, s) else insert_loop (nat (links s)) start_link req s))"

definition block_type :: "int \<Rightarrow> bool \<Rightarrow> HMCReqType res" where
  "block_type bytes w =
     (if bytes = 0 then Inr (if w then WR0 else RD0)
      else if bytes = 32 then Inr (if w then WR32 else RD32)
      else if bytes = 64 then Inr (if w then WR64 else RD64)
      else if bytes = 128 then Inr (if w then WR128 else RD128)
      else if bytes = 256 then Inr (if w then WR256 else RD256)
      else Inl (AbruptExit ''hmc.cc'' (if w then 366 else 388)))"

definition Hmc_AddTransaction :: "Config \<Rightarrow> u64 \<Rightarrow> bool \<Rightarrow> HMCMemorySystem \<Rightarrow> (bool \<times> HMCMemorySystem) res" where
  "Hmc_AddTransaction cfg a w s =
     rbind (block_type (block_size cfg) w) (\<lambda>t.
     rbind (mk_request t a (GetChannel cfg a)) (\<lambda>req. InsertHMCReq req s))"

subsection \<open>Arbitration\<close>

fun insert_by_age :: "int list \<Rightarrow> int \<Rightarrow> int list \<Rightarrow> int list" where
  "insert_by_age ages p [] = [p]"
| "insert_by_age ages p (x # xs) = (if ages ! nat p > x then p # x # xs else x # insert_by_age ages p xs)"

definition BuildAgeQueue :: "u64 \<Rightarrow> int list \<Rightarrow> int list res" where
  "BuildAgeQueue clk ages =
     (let n = int (length ages) in
      if n = 0 then Inl DivByZero
      else
        let start_pos = u64_to_int (clk mod of_int n) in
        Inr (fold (\<lambda>i q. let p = tmod (i + start_pos) n in if ages ! nat p > 0 then insert_by_age ages p q else q)
          [0..n - 1] []))"

definition drain_busy :: "int list \<Rightarrow> int list" where
  "drain_busy bs = map (\<lambda>b. if b > 0 then b - 2 else b) bs"

subsection \<open>Requests\<close>

definition InsertReqToDRAM :: "HMCRequest \<Rightarrow> HMCMemorySystem \<Rightarrow> HMCMemorySystem res" where
  "InsertReqToDRAM req s =
     rbind (vmod (vaults s) (vault req) (\<lambda>c. Inr (snd (AddTransaction (mk_transaction (mem_operand req) (req_is_write req)) c))))
       (\<lambda>cs. Inr (s\<lparr>vaults := cs\<rparr>))"

definition drain_quad :: "int \<Rightarrow> HMCMemorySystem \<Rightarrow> HMCMemorySystem res" where
  "drain_quad i s =
     rbind (vget (quad_req_queues s) i) (\<lambda>q.
     rbind (vget (quad_resp_queues s) i) (\<lambda>rq.
       case q of
         [] \<Rightarrow> Inr s
       | req # rest \<Rightarrow>
           if has_room s rq \<and> req_exit_time req \<le> logic_clk s then
             rbind (vget (vaults s) (vault req)) (\<lambda>c.
               if WillAcceptTransaction c (mem_operand req) (req_is_write req) then
                 rbind (InsertReqToDRAM req s) (\<lambda>s.
                 rbind (vset (quad_req_queues s) i rest) (\<lambda>qs. Inr (s\<lparr>quad_req_queues := qs\<rparr>)))
               else Inr s)
           else Inr s))"

definition drain_link :: "int \<Rightarrow> HMCMemorySystem \<Rightarrow> HMCMemorySystem res" where
  "drain_link src_link s =
     rbind (vget (link_req_queues s) src_link) (\<lambda>q.
       case q of
         [] \<Rightarrow> Inl OutOfRange
       | req # rest \<Rightarrow>
           rbind (vget (quad_req_queues s) (req_quad req)) (\<lambda>dq.
           rbind (vget (quad_busy s) (req_quad req)) (\<lambda>busy.
             if has_room s dq \<and> busy \<le> 0 then
               rbind (vset (link_req_queues s) src_link rest) (\<lambda>lqs.
               rbind (vset (quad_req_queues s) (req_quad req)
                        (dq @ [req\<lparr>req_exit_time := logic_clk s + of_int (req_flits req)\<rparr>])) (\<lambda>qqs.
               rbind (vset (quad_busy s) (req_quad req) (req_flits req)) (\<lambda>bs.
               rbind (vset (link_age_counter s) src_link (if rest = [] then 0 else 1)) (\<lambda>ages.
                 Inr (s\<lparr>link_req_queues := lqs, quad_req_queues := qqs, quad_busy := bs, link_age_counter := ages\<rparr>)))))
             else
               rbind (vmod (link_age_counter s) src_link (\<lambda>a. Inr (a + 1))) (\<lambda>ages.
                 Inr (s\<lparr>link_age_counter := ages\<rparr>)))))"

definition DrainRequests :: "HMCMemorySystem \<Rightarrow> HMCMemorySystem res" where
  "DrainRequests s =
     rbind (mfold drain_quad [0..3] s) (\<lambda>s.
     let s = s\<lparr>quad_busy := drain_busy (quad_busy s)\<rparr> in
     rbind (BuildAgeQueue (logic_clk s) (link_age_counter s)) (\<lambda>age_queue.
       mfold drain_link age_queue s))"

subsection \<open>Responses\<close>

definition answer_link :: "int \<Rightarrow> event list \<times> HMCMemorySystem \<Rightarrow> (event list \<times> HMCMemorySystem) res" where
  "answer_link i es_s =
     (case es_s of (es, s) \<Rightarrow>
        rbind (vget (link_resp_queues s) i) (\<lambda>q.
          case q of
            [] \<Rightarrow> Inr (es, s)
          | resp # rest \<Rightarrow>
              if resp_exit_time resp \<le> logic_clk s then
                rbind (vset (link_resp_queues s) i rest) (\<lambda>qs.
                  Inr (es @ [(resp_id resp, resp_type resp \<noteq> RD_RS)], s\<lparr>link_resp_queues := qs\<rparr>))
              else Inr (es, s)))"

definition drain_response :: "int \<Rightarrow> HMCMemorySystem \<Rightarrow> HMCMemorySystem res" where
  "drain_response src_quad s =
     rbind (vget (quad_resp_queues s) src_quad) (\<lambda>q.
       case q of
         [] \<Rightarrow> Inl OutOfRange
       | resp # rest \<Rightarrow>
           rbind (vget (link_resp_queues s) (resp_link resp)) (\<lambda>dq.
           rbind (vget (link_busy s) (resp_link resp)) (\<lambda>busy.
             if has_room s dq \<and> busy \<le> 0 then
               rbind (vset (quad_resp_queues s) src_quad rest) (\<lambda>qqs.
               rbind (vset (link_resp_queues s) (resp_link resp)
                        (dq @ [resp\<lparr>resp_exit_time := logic_clk s + of_int (resp_flits resp)\<rparr>])) (\<lambda>lqs.
               rbind (vset (link_busy s) (resp_link resp) (resp_flits resp)) (\<lambda>bs.
               rbind (vset (quad_age_counter s) src_quad (if rest = [] then 0 else 1)) (\<lambda>ages.
                 Inr (s\<lparr>quad_resp_queues := qqs, link_resp_queues := lqs, link_busy := bs, quad_age_counter := ages\<rparr>)))))
             else
               rbind (vmod (quad_age_counter s) src_quad (\<lambda>a. Inr (a + 1))) (\<lambda>ages.
                 Inr (s\<lparr>quad_age_counter := ages\<rparr>)))))"

definition DrainResponses :: "HMCMemorySystem \<Rightarrow> (event list \<times> HMCMemorySystem) res" where
  "DrainResponses s =
     rbind (mfold answer_link [0..links s - 1] ([], s)) (\<lambda>(es, s).
     let s = s\<lparr>link_busy := drain_busy (link_busy s)\<rparr> in
     rbind (BuildAgeQueue (logic_clk s) (quad_age_counter s)) (\<lambda>age_queue.
     rbind (mfold drain_response age_queue s) (\<lambda>s. Inr (es, s))))"

subsection \<open>Clock cycles\<close>

definition VaultCallback :: "u64 \<Rightarrow> HMCMemorySystem \<Rightarrow> HMCMemorySystem res" where
  "VaultCallback req_id s =
     (case map_of (resp_lookup_table s) req_id of
        None \<Rightarrow> Inl OutOfRange
      | Some resp \<Rightarrow>
          rbind (vmod (quad_resp_queues s) (resp_quad resp) (\<lambda>q. Inr (q @ [resp]))) (\<lambda>qs.
          rbind (vset (quad_age_counter s) (resp_quad resp) 1) (\<lambda>ages.
            Inr (s\<lparr>resp_lookup_table := erase_first (\<lambda>(k, _). k = req_id) (resp_lookup_table s),
                   quad_resp_queues := qs, quad_age_counter := ages\<rparr>))))"

definition DRAMClockTick :: "Config \<Rightarrow> HMCMemorySystem \<Rightarrow> HMCMemorySystem res" where
  "DRAMClockTick cfg s =
     (case collect_all (hmc_clk s) (vaults s) of (done, cs) \<Rightarrow>
      rbind (mfold (\<lambda>(a, w). VaultCallback a) done (s\<lparr>vaults := cs\<rparr>)) (\<lambda>s.
      rbind (tick_ctrls cfg (vaults s)) (\<lambda>cs.
      let s = s\<lparr>vaults := cs, hmc_clk := hmc_clk s + 1\<rparr> in
      if epoch_period cfg = 0 then Inl DivByZero
      else if hmc_clk s mod of_int (epoch_period cfg) = 0 then
        rbind (Base_PrintEpochStats cfg (vaults s)) (\<lambda>cs. Inr (s\<lparr>vaults := cs\<rparr>))
      else Inr s)))"

definition logic_step :: "HMCMemorySystem \<Rightarrow> HMCMemorySystem" where
  "logic_step s = s\<lparr>logic_ps := logic_ps s + ps_per_logic s, logic_clk := logic_clk s + 1\<rparr>"

text \<open>The cycles of the logic die that fall into one cycle of the memory.\<close>

fun logic_loop :: "nat \<Rightarrow> event list \<Rightarrow> HMCMemorySystem \<Rightarrow> (event list \<times> HMCMemorySystem) res" where
  "logic_loop fuel es s =
     (if logic_ps s < dram_ps s + ps_per_dram s then
        (case fuel of
           0 \<Rightarrow> Inl OutOfFuel
         | Suc n \<Rightarrow>
             rbind (DrainResponses s) (\<lambda>(es', s).
             rbind (DrainRequests s) (\<lambda>s. logic_loop n (es @ es') (logic_step s))))
      else Inr (es, s))"

declare logic_loop.simps [simp del]

definition logic_fuel :: nat where
  "logic_fuel = 800"

definition Hmc_ClockTick :: "Config \<Rightarrow> HMCMemorySystem \<Rightarrow> (event list \<times> HMCMemorySystem) res" where
  "Hmc_ClockTick cfg s =
     rbind
       (if dram_ps s = logic_ps s then
          rbind (DrainResponses s) (\<lambda>(es, s).
          rbind (DRAMClockTick cfg s) (\<lambda>s.
          rbind (DrainRequests s) (\<lambda>s. Inr (es, logic_step s))))
        else rbind (DRAMClockTick cfg s) (\<lambda>s. Inr ([], s)))
       (\<lambda>(es, s).
     rbind (logic_loop logic_fuel es s) (\<lambda>(es, s).
       Inr (es, s\<lparr>dram_ps := dram_ps s + ps_per_dram s\<rparr>)))"

end
