(* ===== verification/Hmc_Safety.thy ===== *)
theory Hmc_Safety
  imports Dram_Safety Hmc
begin

section \<open>The hybrid memory cube: arbitration, conservation of requests\<close>

text \<open>
  Properties of the model of \<^verbatim>\<open>src/hmc.cc\<close>. The two directions of the crossbar are two interpretations of the
  locale \<open>crossbar\<close>, in which one pass of the arbitration is shown to return and to lose no packet.
  \<open>hmc_inv\<close> is the invariant of the cube: each queue holds packets with existing destinations, an age is
  positive exactly for a queue with packets, and the addresses on their way to a vault or inside one are the
  keys of the table of responses. With the invariant of the vaults (\<open>ctrl_inv\<close>) it makes the cube an instance
  of \<open>bag_buffer\<close>.
\<close>

subsection \<open>The order of arbitration\<close>

lemma mset_insert_by_age [simp]: "mset (insert_by_age ages p q) = add_mset p (mset q)"
  by (induction q) auto

lemma fold_insert_by_age:
  "mset (fold (\<lambda>i q. let p = f i in if ages ! nat p > 0 then insert_by_age ages p q else q) xs q) =
   mset q + mset (filter (\<lambda>p. ages ! nat p > 0) (map f xs))"
  by (induction xs arbitrary: q) (auto simp: Let_def)

lemma rotation:
  fixes n k :: int
  assumes "0 \<le> k" "0 < n"
  shows "mset (map (\<lambda>i. tmod (i + k) n) [0..n - 1]) = mset [0..n - 1]"
proof -
  have inj: "inj_on (\<lambda>i. tmod (i + k) n) {0..n - 1}"
  proof (rule inj_onI)
    fix i j
    assume ij: "i \<in> {0..n - 1}" "j \<in> {0..n - 1}" "tmod (i + k) n = tmod (j + k) n"
    then have "(i + k) mod n = (j + k) mod n" using assms by simp
    then have "i mod n = j mod n" by (metis add_diff_cancel_right' mod_diff_left_eq)
    then show "i = j" using ij by simp
  qed
  have "(\<lambda>i. tmod (i + k) n) ` {0..n - 1} \<subseteq> {0..n - 1}" using assms by auto
  then have "(\<lambda>i. tmod (i + k) n) ` {0..n - 1} = {0..n - 1}" by (rule endo_inj_surj [OF _ _ inj, rotated]) simp
  then show ?thesis
    using inj by (intro set_eq_iff_mset_eq_distinct [THEN iffD1]) (simp_all add: distinct_map)
qed

lemma BuildAgeQueue_mset:
  assumes "ages \<noteq> []" "int (length ages) < 2 ^ 31"
  shows "\<exists>q. BuildAgeQueue clk ages = Inr q \<and> mset q = mset (filter (\<lambda>p. ages ! nat p > 0) [0..int (length ages) - 1])"
proof -
  let ?n = "int (length ages)"
  let ?k = "clk mod of_int ?n"
  have n: "uint (of_int ?n :: u64) = ?n"
    using assms(2) take_bit_int_eq_self [of ?n 64] by (simp only: unsigned_of_int) simp
  have "uint clk mod ?n < ?n" by (rule pos_mod_bound) (use assms(1) in simp)
  then have "uint ?k < 2 ^ 31" using assms(2) by (simp only: uint_mod n)
  define k where "k = u64_to_int ?k"
  have k: "0 \<le> k" using \<open>uint ?k < 2 ^ 31\<close> unfolding k_def by (simp only: u64_to_int_small uint_ge_0)
  let ?step = "\<lambda>i q. let p = tmod (i + k) ?n in if ages ! nat p > 0 then insert_by_age ages p q else q"
  have b: "BuildAgeQueue clk ages = Inr (fold ?step [0..?n - 1] [])"
    unfolding BuildAgeQueue_def k_def Let_def using assms(1) by (simp del: of_int_of_nat_eq)
  have "mset (map (\<lambda>i. tmod (i + k) ?n) [0..?n - 1]) = mset [0..?n - 1]"
    using rotation [OF k, of ?n] assms(1) by simp
  then have "mset (fold ?step [0..?n - 1] []) = mset (filter (\<lambda>p. ages ! nat p > 0) [0..?n - 1])"
    using fold_insert_by_age [of "\<lambda>i. tmod (i + k) ?n" ages "[0..?n - 1]" "[]"] by (simp add: mset_filter)
  with b show ?thesis by blast
qed

lemma BuildAgeQueue_ok:
  assumes "ages \<noteq> []" "int (length ages) < 2 ^ 31"
  obtains q where "BuildAgeQueue clk ages = Inr q" "distinct q"
    "set q = {p. 0 \<le> p \<and> p < int (length ages) \<and> ages ! nat p > 0}"
proof -
  obtain q where q: "BuildAgeQueue clk ages = Inr q"
    "mset q = mset (filter (\<lambda>p. ages ! nat p > 0) [0..int (length ages) - 1])"
    using BuildAgeQueue_mset [OF assms] by blast
  have "distinct q" using mset_eq_imp_distinct_iff [OF q(2)] by simp
  moreover have "set q = {p. 0 \<le> p \<and> p < int (length ages) \<and> ages ! nat p > 0}"
    using mset_eq_setD [OF q(2)] by auto
  ultimately show thesis using that q(1) by blast
qed

subsection \<open>Both directions of the crossbar\<close>

text \<open>
  Requests move from links to quadrants and responses from quadrants to links in the same way. \<open>transfer\<close> is
  that way: the packet at the head of a source queue moves to the queue of its destination if there is room
  and the destination is not busy, and ages otherwise.
\<close>

record 'p xbar =
  sources :: "'p list list"
  sinks :: "'p list list"
  busy :: "int list"
  age :: "int list"

lemma xbar_eta [simp]: "\<lparr>sources = sources x, sinks = sinks x, busy = busy x, age = age x\<rparr> = x"
  by simp

definition transfer ::
  "('p \<Rightarrow> int) \<Rightarrow> ('p \<Rightarrow> int) \<Rightarrow> (u64 \<Rightarrow> 'p \<Rightarrow> 'p) \<Rightarrow> nat \<Rightarrow> u64 \<Rightarrow> int \<Rightarrow> 'p xbar \<Rightarrow> 'p xbar res"
where
  "transfer dest flits stamp room now i x =
     rbind (vget (sources x) i) (\<lambda>q.
       case q of
         [] \<Rightarrow> Inl OutOfRange
       | p # rest \<Rightarrow>
           rbind (vget (sinks x) (dest p)) (\<lambda>dq.
           rbind (vget (busy x) (dest p)) (\<lambda>b.
             if length dq < room \<and> b \<le> 0 then
               rbind (vset (sources x) i rest) (\<lambda>srcs.
               rbind (vset (sinks x) (dest p) (dq @ [stamp (now + of_int (flits p)) p])) (\<lambda>dsts.
               rbind (vset (busy x) (dest p) (flits p)) (\<lambda>bs.
               rbind (vset (age x) i (if rest = [] then 0 else 1)) (\<lambda>ages.
                 Inr \<lparr>sources = srcs, sinks = dsts, busy = bs, age = ages\<rparr>))))
             else rbind (vmod (age x) i (\<lambda>a. Inr (a + 1))) (\<lambda>ages. Inr (x\<lparr>age := ages\<rparr>)))))"

definition waiting_ages :: "'p list list \<Rightarrow> int list \<Rightarrow> bool" where
  "waiting_ages qs ages \<longleftrightarrow> length ages = length qs \<and> (\<forall>i < length qs. 0 < ages ! i \<longleftrightarrow> qs ! i \<noteq> [])"

definition queues_ok :: "('p \<Rightarrow> bool) \<Rightarrow> 'p list list \<Rightarrow> bool" where
  "queues_ok P qs \<longleftrightarrow> (\<forall>q \<in> set qs. \<forall>p \<in> set q. P p)"

definition queues_bounded :: "nat \<Rightarrow> 'p list list \<Rightarrow> bool" where
  "queues_bounded n qs \<longleftrightarrow> (\<forall>q \<in> set qs. length q \<le> n)"

lemma set_update_cases: "x \<in> set (xs[i := y]) \<Longrightarrow> x = y \<or> x \<in> set xs"
  using set_update_subset_insert [of xs i y] by auto

lemma queues_ok_update:
  "queues_ok P qs \<Longrightarrow> \<forall>p \<in> set q. P p \<Longrightarrow> queues_ok P (qs[i := q])"
  by (auto simp: queues_ok_def dest: set_update_cases)

lemma queues_bounded_update:
  "queues_bounded n qs \<Longrightarrow> length q \<le> n \<Longrightarrow> queues_bounded n (qs[i := q])"
  by (auto simp: queues_bounded_def dest: set_update_cases)

lemma waiting_ages_update:
  "waiting_ages qs ages \<Longrightarrow> 0 < a \<longleftrightarrow> q \<noteq> [] \<Longrightarrow> waiting_ages (qs[i := q]) (ages[i := a])"
  by (cases "i < length qs") (auto simp: waiting_ages_def nth_list_update)

lemma waiting_ages_later:
  "waiting_ages qs ages \<Longrightarrow> i < length qs \<Longrightarrow> qs ! i \<noteq> [] \<Longrightarrow> waiting_ages qs (ages[i := ages ! i + 1])"
  unfolding waiting_ages_def by (auto simp: nth_list_update)

lemma mset_concat_pop:
  "i < length qs \<Longrightarrow> qs ! i = p # rest \<Longrightarrow> mset (concat qs) = add_mset p (mset (concat (qs[i := rest])))"
  using mset_concat_update [of i qs rest] by simp

lemma mset_concat_push:
  "i < length qs \<Longrightarrow> mset (concat (qs[i := qs ! i @ [p]])) = add_mset p (mset (concat qs))"
  using mset_concat_update [of i qs "qs ! i @ [p]"] by simp

lemma queues_ok_nth: "queues_ok P qs \<Longrightarrow> i < length qs \<Longrightarrow> p \<in> set (qs ! i) \<Longrightarrow> P p"
  by (auto simp: queues_ok_def)

lemma queues_bounded_nth: "queues_bounded n qs \<Longrightarrow> i < length qs \<Longrightarrow> length (qs ! i) \<le> n"
  by (auto simp: queues_bounded_def)

definition xbar_inv :: "(nat \<Rightarrow> 'p \<Rightarrow> bool) \<Rightarrow> nat \<Rightarrow> nat \<Rightarrow> nat \<Rightarrow> 'p xbar \<Rightarrow> bool" where
  "xbar_inv legal room n m x \<longleftrightarrow>
     length (sources x) = n \<and> length (sinks x) = m \<and> length (busy x) = m \<and> waiting_ages (sources x) (age x) \<and>
     queues_ok (legal m) (sources x) \<and> queues_ok (legal m) (sinks x) \<and> queues_bounded room (sinks x)"

definition xbar_content :: "('p \<Rightarrow> 'k) \<Rightarrow> 'p xbar \<Rightarrow> 'k multiset" where
  "xbar_content key x = image_mset key (mset (concat (sources x)) + mset (concat (sinks x)))"

locale crossbar =
  fixes dest :: "'p \<Rightarrow> int" and flits :: "'p \<Rightarrow> int" and stamp :: "u64 \<Rightarrow> 'p \<Rightarrow> 'p" and key :: "'p \<Rightarrow> 'k"
    and legal :: "nat \<Rightarrow> 'p \<Rightarrow> bool"
  assumes key_stamp: "key (stamp t p) = key p"
    and legal_stamp: "legal m p \<Longrightarrow> legal m (stamp t p)"
    and legal_dest: "legal m p \<Longrightarrow> 0 \<le> dest p \<and> dest p < int m"
begin

lemma transfer_ok:
  assumes inv: "xbar_inv legal room n m x" and i: "0 \<le> i" "i < int n" and ne: "sources x ! nat i \<noteq> []"
  shows "\<exists>x'. transfer dest flits stamp room now i x = Inr x' \<and> xbar_inv legal room n m x' \<and>
    xbar_content key x' = xbar_content key x \<and> (queues_bounded k (sources x) \<longrightarrow> queues_bounded k (sources x')) \<and>
    (\<forall>j. 0 \<le> j \<longrightarrow> j \<noteq> i \<longrightarrow> sources x' ! nat j = sources x ! nat j)"
proof -
  obtain p rest where q: "sources x ! nat i = p # rest" using ne by (cases "sources x ! nat i") auto
  have len: "length (sources x) = n" "length (sinks x) = m" "length (busy x) = m" "length (age x) = n"
    using inv by (auto simp: xbar_inv_def waiting_ages_def)
  then have ni: "nat i < length (sources x)" using i by (simp add: nat_less_iff)
  have p: "legal m p" "\<forall>r \<in> set rest. legal m r"
    using inv i q queues_ok_nth [of "legal m" "sources x" "nat i"] by (auto simp: xbar_inv_def)
  note d = legal_dest [OF p(1)]
  then have "nat (dest p) < length (sinks x)" by (simp add: len nat_less_iff)
  note push = mset_concat_push [OF this]
  let ?dq = "sinks x ! nat (dest p)"
  let ?p = "stamp (now + of_int (flits p)) p"
  show ?thesis
  proof (cases "length ?dq < room \<and> busy x ! nat (dest p) \<le> 0")
    case True
    let ?x = "\<lparr>sources = (sources x)[nat i := rest], sinks = (sinks x)[nat (dest p) := ?dq @ [?p]],
      busy = (busy x)[nat (dest p) := flits p], age = (age x)[nat i := if rest = [] then 0 else 1]\<rparr>"
    have t: "transfer dest flits stamp room now i x = Inr ?x"
      using True i d len q by (simp add: transfer_def vset_def vmod_def)
    have "queues_ok (legal m) ((sinks x)[nat (dest p) := ?dq @ [?p]])"
      using inv p(1) d len queues_ok_nth [of "legal m" "sinks x" "nat (dest p)"]
      by (intro queues_ok_update) (auto simp: xbar_inv_def legal_stamp)
    moreover have "queues_bounded room ((sinks x)[nat (dest p) := ?dq @ [?p]])"
      using inv True by (intro queues_bounded_update) (auto simp: xbar_inv_def)
    ultimately have "xbar_inv legal room n m ?x"
      using inv p(2) by (auto simp: xbar_inv_def intro!: queues_ok_update waiting_ages_update)
    moreover have "mset (concat (sources x)) = add_mset p (mset (concat (sources ?x)))"
      using mset_concat_pop [OF _ q] i len by simp
    moreover have "mset (concat (sinks ?x)) = add_mset ?p (mset (concat (sinks x)))"
      by (simp add: push)
    then have "xbar_content key ?x = xbar_content key x"
      using calculation(2) by (simp only: xbar_content_def) (simp add: key_stamp)
    moreover have "queues_bounded k (sources x) \<Longrightarrow> queues_bounded k ((sources x)[nat i := rest])"
      using queues_bounded_nth [OF _ ni, of k] q by (intro queues_bounded_update) auto
    ultimately show ?thesis using t i by (auto simp: nat_eq_iff)
  next
    case False
    let ?x = "x\<lparr>age := (age x)[nat i := age x ! nat i + 1]\<rparr>"
    have t: "transfer dest flits stamp room now i x = Inr ?x"
      using False i d len q by (auto simp add: transfer_def vset_def vmod_def)
    have "xbar_inv legal room n m ?x" using inv i ne len by (simp add: xbar_inv_def waiting_ages_later)
    then show ?thesis using t by (simp add: xbar_content_def)
  qed
qed

text \<open>A pass over the queue of ages returns, keeps the invariant and loses no packet.\<close>

lemma pass_ok:
  assumes inv: "xbar_inv legal room n m x" and n: "0 < n" "int n < 2 ^ 31"
  shows "\<exists>q x'. BuildAgeQueue clk (age x) = Inr q \<and> mfold (transfer dest flits stamp room now) q x = Inr x' \<and>
    xbar_inv legal room n m x' \<and> xbar_content key x' = xbar_content key x \<and>
    (queues_bounded k (sources x) \<longrightarrow> queues_bounded k (sources x'))"
proof -
  have len: "length (age x) = n" using inv by (auto simp: xbar_inv_def waiting_ages_def)
  with n obtain q where q: "BuildAgeQueue clk (age x) = Inr q" "distinct q"
    "set q = {p. 0 \<le> p \<and> p < int n \<and> age x ! nat p > 0}"
    using BuildAgeQueue_ok [of "age x" clk] by auto
  let ?P = "\<lambda>y. xbar_inv legal room n m y \<and> xbar_content key y = xbar_content key x \<and>
    (queues_bounded k (sources x) \<longrightarrow> queues_bounded k (sources y))"
  have "\<exists>x'. mfold (transfer dest flits stamp room now) q x = Inr x' \<and> ?P x'"
  proof (rule mfold_distinct [where R = "\<lambda>j y. sources y ! nat j \<noteq> []"])
    fix i y
    assume "i \<in> set q" "?P y" "sources y ! nat i \<noteq> []"
    with q(3) transfer_ok [of room n m y i now k] obtain y' where
      "transfer dest flits stamp room now i y = Inr y'" "?P y'"
      "\<forall>j. 0 \<le> j \<longrightarrow> j \<noteq> i \<longrightarrow> sources y' ! nat j = sources y ! nat j" by auto
    then show "\<exists>y'. transfer dest flits stamp room now i y = Inr y' \<and> ?P y' \<and>
        (\<forall>j \<in> set q. j \<noteq> i \<longrightarrow> sources y ! nat j \<noteq> [] \<longrightarrow> sources y' ! nat j \<noteq> [])"
      using q(3) by auto
  qed (use inv q n in \<open>auto simp: xbar_inv_def waiting_ages_def\<close>)
  with q(1) show ?thesis by blast
qed

end

subsection \<open>Invariant of the cube\<close>

definition request_legal :: "Config \<Rightarrow> nat \<Rightarrow> HMCRequest \<Rightarrow> bool" where
  "request_legal cfg m r \<longleftrightarrow> 0 \<le> vault r \<and> vault r < channels cfg \<and> 0 \<le> req_quad r \<and> req_quad r < int m"

definition response_legal :: "nat \<Rightarrow> HMCResponse \<Rightarrow> bool" where
  "response_legal m r \<longleftrightarrow> 0 \<le> resp_link r \<and> resp_link r < int m \<and> 0 \<le> resp_quad r \<and> resp_quad r < 4"

definition resp_event :: "HMCResponse \<Rightarrow> event" where
  "resp_event r = (resp_id r, resp_type r \<noteq> RD_RS)"

abbreviation stamp_request :: "u64 \<Rightarrow> HMCRequest \<Rightarrow> HMCRequest" where
  "stamp_request t r \<equiv> r\<lparr>req_exit_time := t\<rparr>"

abbreviation stamp_response :: "u64 \<Rightarrow> HMCResponse \<Rightarrow> HMCResponse" where
  "stamp_response t r \<equiv> r\<lparr>resp_exit_time := t\<rparr>"

interpretation request_xbar: crossbar req_quad req_flits stamp_request mem_operand "request_legal cfg" for cfg
  by unfold_locales (auto simp: request_legal_def)

interpretation response_xbar: crossbar resp_link resp_flits stamp_response resp_event response_legal
  by unfold_locales (auto simp: response_legal_def resp_event_def)

definition request_side :: "HMCMemorySystem \<Rightarrow> HMCRequest xbar" where
  "request_side s =
     \<lparr>sources = link_req_queues s, sinks = quad_req_queues s, busy = quad_busy s, age = link_age_counter s\<rparr>"

definition response_side :: "HMCMemorySystem \<Rightarrow> HMCResponse xbar" where
  "response_side s =
     \<lparr>sources = quad_resp_queues s, sinks = link_resp_queues s, busy = link_busy s, age = quad_age_counter s\<rparr>"

definition with_requests :: "HMCRequest xbar \<Rightarrow> HMCMemorySystem \<Rightarrow> HMCMemorySystem" where
  "with_requests x s =
     s\<lparr>link_req_queues := sources x, quad_req_queues := sinks x, quad_busy := busy x, link_age_counter := age x\<rparr>"

definition with_responses :: "HMCResponse xbar \<Rightarrow> HMCMemorySystem \<Rightarrow> HMCMemorySystem" where
  "with_responses x s =
     s\<lparr>quad_resp_queues := sources x, link_resp_queues := sinks x, link_busy := busy x, quad_age_counter := age x\<rparr>"

lemmas side_defs = request_side_def response_side_def with_requests_def with_responses_def

lemma drain_link_transfer:
  "drain_link i s =
     rbind (transfer req_quad req_flits stamp_request (unat (queue_depth s)) (logic_clk s) i (request_side s))
       (\<lambda>x. Inr (with_requests x s))"
  by (auto simp: drain_link_def transfer_def has_room_def side_defs rbind_assoc intro!: rbind_cong split: list.splits)

lemma drain_response_transfer:
  "drain_response i s =
     rbind (transfer resp_link resp_flits stamp_response (unat (queue_depth s)) (logic_clk s) i (response_side s))
       (\<lambda>x. Inr (with_responses x s))"
  by (auto simp: drain_response_def transfer_def has_room_def side_defs rbind_assoc intro!: rbind_cong split: list.splits)

lemma drain_links_transfer:
  "mfold drain_link q s =
     rbind (mfold (transfer req_quad req_flits stamp_request (unat (queue_depth s)) (logic_clk s)) q (request_side s))
       (\<lambda>x. Inr (with_requests x s))"
proof (induction q arbitrary: s)
  case (Cons i q)
  show ?case
    by (simp add: drain_link_transfer [of i s] Cons rbind_assoc side_defs)
qed (simp add: side_defs)

lemma drain_responses_transfer:
  "mfold drain_response q s =
     rbind (mfold (transfer resp_link resp_flits stamp_response (unat (queue_depth s)) (logic_clk s)) q (response_side s))
       (\<lambda>x. Inr (with_responses x s))"
proof (induction q arbitrary: s)
  case (Cons i q)
  show ?case
    by (simp add: drain_response_transfer [of i s] Cons rbind_assoc side_defs)
qed (simp add: side_defs)

definition hmc_wf :: "Config \<Rightarrow> HMCMemorySystem \<Rightarrow> bool" where
  "hmc_wf cfg s \<longleftrightarrow>
     0 < links s \<and> links s < 2 ^ 31 \<and> 0 \<le> next_link s \<and> next_link s < links s \<and>
     length (vaults s) = nat (channels cfg) \<and> list_all (ctrl_inv cfg) (vaults s) \<and>
     xbar_inv (request_legal cfg) (unat (queue_depth s)) (nat (links s)) 4 (request_side s) \<and>
     queues_bounded (unat (queue_depth s)) (link_req_queues s) \<and>
     xbar_inv response_legal (unat (queue_depth s)) 4 (nat (links s)) (response_side s) \<and>
     (\<forall>e \<in> set (resp_lookup_table s). fst e = resp_id (snd e) \<and> response_legal (nat (links s)) (snd e))"

text \<open>The addresses a response waits for, and the answers that are still to come.\<close>

definition in_transit :: "HMCMemorySystem \<Rightarrow> u64 multiset" where
  "in_transit s = xbar_content mem_operand (request_side s) + image_mset fst (held (vaults s))"

definition outstanding :: "HMCMemorySystem \<Rightarrow> event multiset" where
  "outstanding s = mset (map (resp_event \<circ> snd) (resp_lookup_table s)) + xbar_content resp_event (response_side s)"

definition hmc_clocks :: "HMCMemorySystem \<Rightarrow> u64 \<times> u64 \<times> u64 \<times> u64 \<times> u64" where
  "hmc_clocks s = (logic_clk s, ps_per_dram s, ps_per_logic s, logic_ps s, dram_ps s)"

text \<open>A step of the crossbar that answers \<open>es\<close> and lets everything else travel on.\<close>

definition travels :: "Config \<Rightarrow> event list \<Rightarrow> HMCMemorySystem \<Rightarrow> HMCMemorySystem \<Rightarrow> bool" where
  "travels cfg es s s' \<longleftrightarrow>
     hmc_wf cfg s' \<and> in_transit s' = in_transit s \<and> resp_lookup_table s' = resp_lookup_table s \<and>
     outstanding s = outstanding s' + mset es \<and> hmc_clocks s' = hmc_clocks s"

lemma travels_refl: "hmc_wf cfg s \<Longrightarrow> travels cfg [] s s"
  by (simp add: travels_def)

lemma travels_trans: "travels cfg es s s1 \<Longrightarrow> travels cfg fs s1 s2 \<Longrightarrow> travels cfg (es @ fs) s s2"
  by (simp add: travels_def ac_simps)

subsection \<open>Requests on their way\<close>

lemma drain_quad_ok:
  assumes wf: "hmc_wf cfg s" and i: "0 \<le> i" "i < 4"
  shows "\<exists>s'. drain_quad i s = Inr s' \<and> travels cfg [] s s'"
proof -
  have len: "length (quad_req_queues s) = 4" "length (quad_resp_queues s) = 4"
    using wf by (auto simp: hmc_wf_def xbar_inv_def side_defs)
  then have ni: "nat i < length (quad_req_queues s)" using i by simp
  show ?thesis
  proof (cases "quad_req_queues s ! nat i")
    case Nil
    then show ?thesis using i len travels_refl [OF wf] by (simp add: drain_quad_def)
  next
    case (Cons req rest)
    have legal: "\<forall>r \<in> set (req # rest). request_legal cfg 4 r"
      using wf i len Cons queues_ok_nth [of "request_legal cfg 4" "quad_req_queues s" "nat i"]
      by (auto simp: hmc_wf_def xbar_inv_def side_defs)
    then have v: "0 \<le> vault req" "vault req < int (length (vaults s))" "nat (vault req) < length (vaults s)"
      using wf by (auto simp: request_legal_def hmc_wf_def)
    let ?c = "vaults s ! nat (vault req)"
    show ?thesis
    proof (cases "has_room s (quad_resp_queues s ! nat i) \<and> req_exit_time req \<le> logic_clk s \<and>
        WillAcceptTransaction ?c (mem_operand req) (req_is_write req)")
      case False
      then show ?thesis using i len Cons v travels_refl [OF wf] by (auto simp: drain_quad_def)
    next
      case True
      have inv: "ctrl_inv cfg ?c" using wf v by (simp add: hmc_wf_def list_all_length)
      let ?d = "snd (AddTransaction (mk_transaction (mem_operand req) (req_is_write req)) ?c)"
      note add = AddTransaction_step [OF inv, of "mk_transaction (mem_operand req) (req_is_write req)"]
      let ?s = "s\<lparr>vaults := (vaults s)[nat (vault req) := ?d], quad_req_queues := (quad_req_queues s)[nat i := rest]\<rparr>"
      have s: "drain_quad i s = Inr ?s"
        using True i len Cons v by (simp add: drain_quad_def InsertReqToDRAM_def vset_def vmod_def)
      have "held (vaults ?s) = add_mset (mem_operand req, req_is_write req) (held (vaults s))"
        using held_update_add [OF v(3), of ?d] add(3) by (simp add: mk_transaction_def)
      moreover have "mset (concat (quad_req_queues s)) = add_mset req (mset (concat (quad_req_queues ?s)))"
        using mset_concat_pop [OF _ Cons] i len by simp
      ultimately have "in_transit ?s = in_transit s"
        by (simp add: in_transit_def xbar_content_def side_defs)
      moreover have "length rest \<le> unat (queue_depth s)"
        using wf Cons queues_bounded_nth [OF _ ni, of "unat (queue_depth s)"]
        by (auto simp: hmc_wf_def xbar_inv_def side_defs)
      then have "hmc_wf cfg ?s"
        using wf add(2) legal
        by (auto simp: hmc_wf_def xbar_inv_def side_defs intro!: list_all_update queues_ok_update queues_bounded_update)
      ultimately have "travels cfg [] s ?s"
        by (simp add: travels_def outstanding_def hmc_clocks_def side_defs)
      with s show ?thesis by blast
    qed
  qed
qed

lemma with_requests_travels:
  assumes "hmc_wf cfg s" "xbar_inv (request_legal cfg) (unat (queue_depth s)) (nat (links s)) 4 x"
    "xbar_content mem_operand x = xbar_content mem_operand (request_side s)"
    "queues_bounded (unat (queue_depth s)) (sources x)"
  shows "travels cfg [] s (with_requests x s)"
  using assms by (simp add: travels_def hmc_wf_def in_transit_def outstanding_def hmc_clocks_def side_defs)

lemma with_responses_travels:
  assumes "hmc_wf cfg s" "xbar_inv response_legal (unat (queue_depth s)) 4 (nat (links s)) x"
    "xbar_content resp_event x = xbar_content resp_event (response_side s)"
  shows "travels cfg [] s (with_responses x s)"
  using assms by (simp add: travels_def hmc_wf_def in_transit_def outstanding_def hmc_clocks_def side_defs)

lemma travels_wf: "travels cfg es s s' \<Longrightarrow> hmc_wf cfg s'"
  by (simp add: travels_def)

lemma length_drain_busy [simp]: "length (drain_busy bs) = length bs"
  by (simp add: drain_busy_def)

lemma DrainRequests_ok:
  assumes wf: "hmc_wf cfg s"
  shows "\<exists>s'. DrainRequests s = Inr s' \<and> travels cfg [] s s'"
proof -
  have "\<exists>s'. mfold drain_quad [0..3] s = Inr s' \<and> travels cfg [] s s'"
  proof (rule mfold_invariant)
    fix i s1
    assume "i \<in> set [0..3]" and s1: "travels cfg [] s s1"
    then show "\<exists>s'. drain_quad i s1 = Inr s' \<and> travels cfg [] s s'"
      using drain_quad_ok [OF travels_wf [OF s1], of i] travels_trans [OF s1, of "[]"] by auto
  qed (rule travels_refl [OF wf])
  then obtain s1 where s1: "mfold drain_quad [0..3] s = Inr s1" "travels cfg [] s s1" by blast
  let ?s = "s1\<lparr>quad_busy := drain_busy (quad_busy s1)\<rparr>"
  have "travels cfg [] s1 ?s"
    using travels_wf [OF s1(2)]
    by (simp add: travels_def hmc_wf_def xbar_inv_def in_transit_def outstanding_def xbar_content_def hmc_clocks_def side_defs)
  with s1(2) have t: "travels cfg [] s ?s" using travels_trans by force
  let ?d = "unat (queue_depth ?s)"
  let ?x = "request_side ?s"
  have w: "xbar_inv (request_legal cfg) ?d (nat (links ?s)) 4 ?x" "queues_bounded ?d (sources ?x)"
      "0 < nat (links ?s)" "int (nat (links ?s)) < 2 ^ 31"
    using travels_wf [OF t] by (auto simp: hmc_wf_def side_defs)
  obtain q x where q: "BuildAgeQueue (logic_clk ?s) (age ?x) = Inr q"
    "mfold (transfer req_quad req_flits stamp_request ?d (logic_clk ?s)) q ?x = Inr x"
    and x: "xbar_inv (request_legal cfg) ?d (nat (links ?s)) 4 x"
      "xbar_content mem_operand x = xbar_content mem_operand ?x" "queues_bounded ?d (sources x)"
    using request_xbar.pass_ok [OF w(1,3,4), of "logic_clk ?s" "logic_clk ?s" ?d] w(2) by blast
  have "travels cfg [] ?s (with_requests x ?s)" by (rule with_requests_travels [OF travels_wf [OF t] x])
  with t have "travels cfg [] s (with_requests x ?s)" using travels_trans by force
  moreover have "DrainRequests s = Inr (with_requests x ?s)"
    using s1(1) q drain_links_transfer [of q ?s] by (simp add: DrainRequests_def request_side_def)
  ultimately show ?thesis by blast
qed

subsection \<open>Responses on their way\<close>

lemma answer_link_ok:
  assumes wf: "hmc_wf cfg s" and i: "0 \<le> i" "i < links s"
  shows "\<exists>fs s'. answer_link i (es, s) = Inr (es @ fs, s') \<and> travels cfg fs s s'"
proof -
  have ni: "i < int (length (link_resp_queues s))" "nat i < length (link_resp_queues s)"
    using wf i by (auto simp: hmc_wf_def xbar_inv_def side_defs)
  show ?thesis
  proof (cases "link_resp_queues s ! nat i")
    case Nil
    then show ?thesis using i ni travels_refl [OF wf] by (auto simp: answer_link_def)
  next
    case (Cons r rest)
    show ?thesis
    proof (cases "resp_exit_time r \<le> logic_clk s")
      case False
      then show ?thesis using i ni Cons travels_refl [OF wf] by (auto simp: answer_link_def)
    next
      case True
      let ?s = "s\<lparr>link_resp_queues := (link_resp_queues s)[nat i := rest]\<rparr>"
      have a: "answer_link i (es, s) = Inr (es @ [resp_event r], ?s)"
        using True i ni Cons by (simp add: answer_link_def vset_def vmod_def resp_event_def)
      have "\<forall>p \<in> set rest. response_legal (nat (links s)) p" "length rest \<le> unat (queue_depth s)"
        using wf Cons queues_ok_nth [OF _ ni(2), of "response_legal (nat (links s))"]
          queues_bounded_nth [OF _ ni(2), of "unat (queue_depth s)"]
        by (auto simp: hmc_wf_def xbar_inv_def side_defs)
      then have "hmc_wf cfg ?s"
        using wf by (auto simp: hmc_wf_def xbar_inv_def side_defs intro!: queues_ok_update queues_bounded_update)
      moreover have "outstanding s = outstanding ?s + mset [resp_event r]"
        using mset_concat_pop [OF ni(2) Cons] by (simp add: outstanding_def xbar_content_def side_defs)
      ultimately have "travels cfg [resp_event r] s ?s"
        by (simp add: travels_def in_transit_def hmc_clocks_def side_defs)
      with a show ?thesis by blast
    qed
  qed
qed

lemma answer_links_ok:
  assumes wf: "hmc_wf cfg s"
  shows "\<exists>es s'. mfold answer_link [0..links s - 1] ([], s) = Inr (es, s') \<and> travels cfg es s s'"
proof -
  let ?P = "\<lambda>es_s. travels cfg (fst es_s) s (snd es_s) \<and> links (snd es_s) = links s"
  have "\<exists>r. mfold answer_link [0..links s - 1] ([], s) = Inr r \<and> ?P r"
  proof (rule mfold_invariant)
    fix i and es_s :: "event list \<times> HMCMemorySystem"
    assume i: "i \<in> set [0..links s - 1]" and P: "?P es_s"
    obtain es s1 where es: "es_s = (es, s1)" by (cases es_s)
    with P have t: "travels cfg es s s1" and l: "links s1 = links s" by auto
    obtain fs s' where a: "answer_link i (es, s1) = Inr (es @ fs, s')" "travels cfg fs s1 s'"
      using answer_link_ok [OF travels_wf [OF t], of i es] i l by auto
    moreover have "links s' = links s1"
      using a(1) by (auto simp: answer_link_def elim!: rbindE split: list.splits if_splits)
    ultimately show "\<exists>r. answer_link i es_s = Inr r \<and> ?P r"
      using es l travels_trans [OF t] by auto
  qed (use travels_refl [OF wf] in simp)
  then show ?thesis by auto
qed

lemma DrainResponses_ok:
  assumes wf: "hmc_wf cfg s"
  shows "\<exists>es s'. DrainResponses s = Inr (es, s') \<and> travels cfg es s s'"
proof -
  obtain es s1 where s1: "mfold answer_link [0..links s - 1] ([], s) = Inr (es, s1)" "travels cfg es s s1"
    using answer_links_ok [OF wf] by blast
  let ?s = "s1\<lparr>link_busy := drain_busy (link_busy s1)\<rparr>"
  have "travels cfg [] s1 ?s"
    using travels_wf [OF s1(2)]
    by (simp add: travels_def hmc_wf_def xbar_inv_def in_transit_def outstanding_def xbar_content_def hmc_clocks_def side_defs)
  with s1(2) have t: "travels cfg es s ?s" using travels_trans by force
  let ?d = "unat (queue_depth ?s)"
  let ?x = "response_side ?s"
  have w: "xbar_inv response_legal ?d 4 (nat (links ?s)) ?x"
    using travels_wf [OF t] by (simp add: hmc_wf_def)
  obtain q x where q: "BuildAgeQueue (logic_clk ?s) (age ?x) = Inr q"
    "mfold (transfer resp_link resp_flits stamp_response ?d (logic_clk ?s)) q ?x = Inr x"
    and x: "xbar_inv response_legal ?d 4 (nat (links ?s)) x" "xbar_content resp_event x = xbar_content resp_event ?x"
    using response_xbar.pass_ok [OF w, of "logic_clk ?s" "logic_clk ?s" 0] by auto
  have "travels cfg [] ?s (with_responses x ?s)" by (rule with_responses_travels [OF travels_wf [OF t] x])
  with t have "travels cfg es s (with_responses x ?s)" using travels_trans by force
  moreover have "DrainResponses s = Inr (es, with_responses x ?s)"
    using s1(1) q drain_responses_transfer [of q ?s] by (simp add: DrainResponses_def response_side_def)
  ultimately show ?thesis by blast
qed

subsection \<open>Completed requests\<close>

definition table_keys :: "HMCMemorySystem \<Rightarrow> u64 multiset" where
  "table_keys s = mset (map fst (resp_lookup_table s))"

lemma mset_erase_key:
  "map_of m a = Some r \<Longrightarrow> mset m = add_mset (a, r) (mset (erase_first (\<lambda>(k, _). k = a) m))"
  by (induction m) (auto split: if_splits)

lemma VaultCallback_ok:
  assumes wf: "hmc_wf cfg s" and a: "a \<in># table_keys s"
  shows "\<exists>s'. VaultCallback a s = Inr s' \<and> hmc_wf cfg s' \<and> in_transit s' = in_transit s \<and>
    table_keys s = add_mset a (table_keys s') \<and> outstanding s' = outstanding s \<and> hmc_clocks s' = hmc_clocks s \<and>
    vaults s' = vaults s"
proof -
  obtain r where r: "map_of (resp_lookup_table s) a = Some r"
    using a by (cases "map_of (resp_lookup_table s) a") (auto simp: table_keys_def map_of_eq_None_iff)
  let ?t = "erase_first (\<lambda>(k, _). k = a) (resp_lookup_table s)"
  have t: "mset (resp_lookup_table s) = add_mset (a, r) (mset ?t)" by (rule mset_erase_key [OF r])
  have legal: "response_legal (nat (links s)) r"
    using wf map_of_SomeD [OF r] by (auto simp: hmc_wf_def)
  then have q: "0 \<le> resp_quad r" "resp_quad r < 4" by (simp_all add: response_legal_def)
  have len: "length (quad_resp_queues s) = 4" "length (quad_age_counter s) = 4"
    using wf by (auto simp: hmc_wf_def xbar_inv_def waiting_ages_def side_defs)
  then have nq: "nat (resp_quad r) < length (quad_resp_queues s)" using q by simp
  let ?q = "quad_resp_queues s ! nat (resp_quad r) @ [r]"
  let ?s = "s\<lparr>resp_lookup_table := ?t, quad_resp_queues := (quad_resp_queues s)[nat (resp_quad r) := ?q],
    quad_age_counter := (quad_age_counter s)[nat (resp_quad r) := 1]\<rparr>"
  have v: "VaultCallback a s = Inr ?s" using r q len by (simp add: VaultCallback_def vset_def vmod_def)
  have "\<forall>p \<in> set ?q. response_legal (nat (links s)) p"
    using wf legal queues_ok_nth [OF _ nq] by (auto simp: hmc_wf_def xbar_inv_def side_defs)
  then have "xbar_inv response_legal (unat (queue_depth s)) 4 (nat (links s)) (response_side ?s)"
    using wf by (auto simp: hmc_wf_def xbar_inv_def side_defs intro!: queues_ok_update waiting_ages_update)
  then have "hmc_wf cfg ?s"
    using wf set_erase_first [of "\<lambda>(k, _). k = a" "resp_lookup_table s"] by (auto simp: hmc_wf_def request_side_def)
  moreover have "table_keys s = add_mset a (table_keys ?s)"
    using arg_cong [OF t, of "image_mset fst"] by (simp add: table_keys_def)
  moreover have "outstanding ?s = outstanding s"
    using arg_cong [OF t, of "image_mset (resp_event \<circ> snd)"] mset_concat_push [OF nq, of r]
    by (simp add: outstanding_def xbar_content_def response_side_def)
  ultimately show ?thesis using v by (simp add: in_transit_def hmc_clocks_def request_side_def)
qed

lemma VaultCallbacks_ok:
  assumes "hmc_wf cfg s" "mset (map fst es) \<subseteq># table_keys s"
  shows "\<exists>s'. mfold (\<lambda>(a, w). VaultCallback a) es s = Inr s' \<and> hmc_wf cfg s' \<and> in_transit s' = in_transit s \<and>
    table_keys s = table_keys s' + mset (map fst es) \<and> outstanding s' = outstanding s \<and> hmc_clocks s' = hmc_clocks s \<and>
    vaults s' = vaults s"
  using assms
proof (induction es arbitrary: s)
  case (Cons e es)
  obtain a w where e: "e = (a, w)" by (cases e)
  have "a \<in># table_keys s" using Cons.prems(2) e by (auto dest: insert_subset_eq_iff [THEN iffD1])
  then obtain s1 where s1: "VaultCallback a s = Inr s1" "hmc_wf cfg s1" "in_transit s1 = in_transit s"
    "table_keys s = add_mset a (table_keys s1)" "outstanding s1 = outstanding s" "hmc_clocks s1 = hmc_clocks s"
    "vaults s1 = vaults s"
    using VaultCallback_ok [OF Cons.prems(1)] by blast
  have "mset (map fst es) \<subseteq># table_keys s1" using Cons.prems(2) s1(4) e by simp
  from Cons.IH [OF s1(2) this] s1 e show ?case by auto
qed simp

subsection \<open>Clock cycles\<close>

definition hmc_inv :: "Config \<Rightarrow> HMCMemorySystem \<Rightarrow> bool" where
  "hmc_inv cfg s \<longleftrightarrow> hmc_wf cfg s \<and> in_transit s = table_keys s"

lemma travels_inv: "hmc_inv cfg s \<Longrightarrow> travels cfg es s s' \<Longrightarrow> hmc_inv cfg s'"
  by (simp add: hmc_inv_def travels_def table_keys_def)

lemma hmc_inv_vaults:
  assumes "hmc_inv cfg s" "list_all (ctrl_inv cfg) cs" "length cs = length (vaults s)" "held cs = held (vaults s)"
  shows "hmc_inv cfg (s\<lparr>vaults := cs\<rparr>)" "outstanding (s\<lparr>vaults := cs\<rparr>) = outstanding s"
  using assms by (auto simp: hmc_inv_def hmc_wf_def in_transit_def table_keys_def outstanding_def side_defs)

lemma hmc_inv_clk:
  "hmc_inv cfg (s\<lparr>hmc_clk := c\<rparr>) = hmc_inv cfg s" "outstanding (s\<lparr>hmc_clk := c\<rparr>) = outstanding s"
  by (auto simp: hmc_inv_def hmc_wf_def in_transit_def table_keys_def outstanding_def side_defs)

lemma DRAMClockTick_ok:
  assumes cfg: "config_ok cfg" "\<not> enable_self_refresh cfg" "epoch_period cfg \<noteq> 0" and inv: "hmc_inv cfg s"
  shows "\<exists>s'. DRAMClockTick cfg s = Inr s' \<and> hmc_inv cfg s' \<and> outstanding s' = outstanding s \<and> hmc_clocks s' = hmc_clocks s"
proof -
  obtain es cs where c: "collect_all (hmc_clk s) (vaults s) = (es, cs)" by (cases "collect_all (hmc_clk s) (vaults s)")
  have cs: "list_all (ctrl_inv cfg) cs" "length cs = nat (channels cfg)" "held (vaults s) = held cs + mset es"
    using collect_all_ok [OF _ c] inv by (auto simp: hmc_inv_def hmc_wf_def)
  let ?s = "s\<lparr>vaults := cs\<rparr>"
  have wf: "hmc_wf cfg ?s" using inv cs by (auto simp: hmc_inv_def hmc_wf_def side_defs)
  have keys: "table_keys ?s = in_transit ?s + mset (map fst es)"
  proof -
    have "in_transit s = in_transit ?s + mset (map fst es)" using cs(3) by (simp add: in_transit_def side_defs add.assoc)
    then show ?thesis using inv by (simp add: hmc_inv_def table_keys_def)
  qed
  obtain s1 where s1: "mfold (\<lambda>(a, w). VaultCallback a) es ?s = Inr s1" "hmc_wf cfg s1" "in_transit s1 = in_transit ?s"
    "table_keys ?s = table_keys s1 + mset (map fst es)" "outstanding s1 = outstanding ?s" "hmc_clocks s1 = hmc_clocks ?s"
    "vaults s1 = vaults ?s"
    using VaultCallbacks_ok [OF wf, of es] keys mset_subset_eq_add_right by metis
  have i1: "hmc_inv cfg s1" using s1(2-4) keys by (simp add: hmc_inv_def)
  have o1: "outstanding s1 = outstanding s" "hmc_clocks s1 = hmc_clocks s"
    using s1(5,6) by (simp_all add: outstanding_def hmc_clocks_def side_defs)
  obtain ds where ds: "tick_ctrls cfg cs = Inr ds" "list_all (ctrl_inv cfg) ds" "length ds = length cs" "held ds = held cs"
    using controllers_pass [OF _ cs(1), of "Controller_ClockTick cfg" "[]"] Controller_ClockTick_ok [OF cfg(1,2)]
    unfolding tick_ctrls_def by fastforce
  obtain fs where fs: "Base_PrintEpochStats cfg ds = Inr fs" "list_all (ctrl_inv cfg) fs" "length fs = length ds" "held fs = held ds"
    using controllers_pass [OF PrintEpochStats_ok ds(2), of "[]"]
    unfolding Base_PrintEpochStats_def by fastforce
  let ?u = "s1\<lparr>vaults := ds, hmc_clk := hmc_clk s1 + 1\<rparr>"
  have u: "hmc_inv cfg ?u" "outstanding ?u = outstanding s"
    using hmc_inv_vaults [OF i1, of ds] ds s1(7) o1(1) by (simp_all add: hmc_inv_clk)
  note w = hmc_inv_vaults [OF u(1), of fs]
  show ?thesis
  proof (cases "hmc_clk ?u mod of_int (epoch_period cfg) = 0")
    case True
    then have "DRAMClockTick cfg s = Inr (?u\<lparr>vaults := fs\<rparr>)"
      using c s1(1,7) ds(1) fs(1) cfg(3) by (simp add: DRAMClockTick_def Let_def)
    then show ?thesis using w fs u o1 by (simp add: hmc_clocks_def)
  next
    case False
    then have "DRAMClockTick cfg s = Inr ?u"
      using c s1(1,7) ds(1) fs(1) cfg(3) by (simp add: DRAMClockTick_def Let_def)
    then show ?thesis using u o1 by (simp add: hmc_clocks_def)
  qed
qed

text \<open>
  The two clock domains: the logic die is never behind the memory and ahead by less than one of its own
  cycles. The picosecond counters have room for another cycle of the memory.
\<close>

definition hmc_time :: "HMCMemorySystem \<Rightarrow> bool" where
  "hmc_time s \<longleftrightarrow> ps_per_dram s = 800 \<and> 0 < unat (ps_per_logic s) \<and> unat (ps_per_logic s) \<le> 800 \<and>
     unat (dram_ps s) \<le> unat (logic_ps s) \<and> unat (logic_ps s) < unat (dram_ps s) + unat (ps_per_logic s)"

definition clock_room :: "HMCMemorySystem \<Rightarrow> bool" where
  "clock_room s \<longleftrightarrow> unat (dram_ps s) + 1600 < 2 ^ 64"

lemma hmc_inv_logic_step [simp]:
  "hmc_inv cfg (logic_step s) = hmc_inv cfg s" "outstanding (logic_step s) = outstanding s"
  by (auto simp: hmc_inv_def hmc_wf_def in_transit_def table_keys_def outstanding_def logic_step_def side_defs)

lemma logic_step_simps [simp]:
  "ps_per_dram (logic_step s) = ps_per_dram s" "ps_per_logic (logic_step s) = ps_per_logic s"
  "dram_ps (logic_step s) = dram_ps s" "logic_ps (logic_step s) = logic_ps s + ps_per_logic s"
  by (simp_all add: logic_step_def)

lemma unat_plus_small: "unat a + unat b < 2 ^ 64 \<Longrightarrow> unat (a + b) = unat a + unat b" for a b :: u64
  by (simp add: unat_word_ariths)

lemma crossbar_cycle:
  assumes "hmc_inv cfg s"
  shows "\<exists>es s1 s2. DrainResponses s = Inr (es, s1) \<and> DrainRequests s1 = Inr s2 \<and> hmc_inv cfg s2 \<and>
    outstanding s = outstanding s2 + mset es \<and> hmc_clocks s2 = hmc_clocks s"
proof -
  have wf: "hmc_wf cfg s" using assms by (simp add: hmc_inv_def)
  obtain es s1 where s1: "DrainResponses s = Inr (es, s1)" "travels cfg es s s1" using DrainResponses_ok [OF wf] by blast
  obtain s2 where s2: "DrainRequests s1 = Inr s2" "travels cfg [] s1 s2" using DrainRequests_ok [OF travels_wf [OF s1(2)]] by blast
  have t: "travels cfg es s s2" using travels_trans [OF s1(2) s2(2)] by simp
  with travels_inv [OF assms t] s1(1) s2(1) show ?thesis by (auto simp: travels_def)
qed

lemma logic_loop_ok:
  assumes "hmc_inv cfg s" "ps_per_dram s = 800" "0 < unat (ps_per_logic s)" "unat (ps_per_logic s) \<le> 800" "clock_room s"
    and "unat (logic_ps s) < unat (dram_ps s) + 800 + unat (ps_per_logic s)"
    and "unat (dram_ps s) + 800 \<le> unat (logic_ps s) + fuel"
  shows "\<exists>fs s'. logic_loop fuel es s = Inr (es @ fs, s') \<and> hmc_inv cfg s' \<and> outstanding s = outstanding s' + mset fs \<and>
    ps_per_dram s' = 800 \<and> ps_per_logic s' = ps_per_logic s \<and> dram_ps s' = dram_ps s \<and>
    unat (dram_ps s) + 800 \<le> unat (logic_ps s') \<and> unat (logic_ps s') < unat (dram_ps s) + 800 + unat (ps_per_logic s)"
  using assms
proof (induction fuel arbitrary: es s)
  case 0
  have "unat (dram_ps s + 800) = unat (dram_ps s) + 800"
    using 0 unat_plus_small [of "dram_ps s" 800] by (simp add: clock_room_def)
  with 0 show ?case by (auto simp: logic_loop.simps [of 0] word_less_nat_alt)
next
  case (Suc n)
  have d: "unat (dram_ps s + 800) = unat (dram_ps s) + 800"
    using Suc.prems unat_plus_small [of "dram_ps s" 800] by (simp add: clock_room_def)
  show ?case
  proof (cases "logic_ps s < dram_ps s + 800")
    case False
    then show ?thesis using Suc.prems d by (auto simp: logic_loop.simps [of "Suc n"] word_less_nat_alt)
  next
    case True
    obtain fs s1 s2 where c: "DrainResponses s = Inr (fs, s1)" "DrainRequests s1 = Inr s2" "hmc_inv cfg s2"
      "outstanding s = outstanding s2 + mset fs" "hmc_clocks s2 = hmc_clocks s" using crossbar_cycle [OF Suc.prems(1)] by blast
    have k: "ps_per_dram s2 = 800" "ps_per_logic s2 = ps_per_logic s" "dram_ps s2 = dram_ps s" "logic_ps s2 = logic_ps s"
      using c(5) Suc.prems(2) by (auto simp: hmc_clocks_def)
    let ?s = "logic_step s2"
    have l: "unat (logic_ps ?s) = unat (logic_ps s) + unat (ps_per_logic s)"
      using Suc.prems True d k unat_plus_small [of "logic_ps s" "ps_per_logic s"]
      by (simp add: clock_room_def word_less_nat_alt)
    have "\<exists>gs s'. logic_loop n (es @ fs) ?s = Inr ((es @ fs) @ gs, s') \<and> hmc_inv cfg s' \<and>
        outstanding ?s = outstanding s' + mset gs \<and> ps_per_dram s' = 800 \<and> ps_per_logic s' = ps_per_logic ?s \<and>
        dram_ps s' = dram_ps ?s \<and> unat (dram_ps ?s) + 800 \<le> unat (logic_ps s') \<and>
        unat (logic_ps s') < unat (dram_ps ?s) + 800 + unat (ps_per_logic ?s)"
    proof (rule Suc.IH)
      show "unat (logic_ps ?s) < unat (dram_ps ?s) + 800 + unat (ps_per_logic ?s)"
        "unat (dram_ps ?s) + 800 \<le> unat (logic_ps ?s) + n"
        using l True d k Suc.prems(3,7) by (auto simp: word_less_nat_alt)
    qed (use c(3) k Suc.prems(2-5) in \<open>auto simp: clock_room_def\<close>)
    then obtain gs s' where g: "logic_loop n (es @ fs) ?s = Inr ((es @ fs) @ gs, s')" "hmc_inv cfg s'"
      "outstanding ?s = outstanding s' + mset gs" "ps_per_dram s' = 800" "ps_per_logic s' = ps_per_logic s"
      "dram_ps s' = dram_ps s" "unat (dram_ps s) + 800 \<le> unat (logic_ps s')"
      "unat (logic_ps s') < unat (dram_ps s) + 800 + unat (ps_per_logic s)"
      using k by auto
    have "logic_loop (Suc n) es s = Inr (es @ (fs @ gs), s')"
      using True c(1,2) g(1) Suc.prems(2) by (simp add: logic_loop.simps [of "Suc n"])
    moreover have "outstanding s = outstanding s' + mset (fs @ gs)" using c(4) g(3) by simp
    ultimately show ?thesis using g by blast
  qed
qed

lemma first_cycle:
  assumes cfg: "config_ok cfg" "\<not> enable_self_refresh cfg" "epoch_period cfg \<noteq> 0" and inv: "hmc_inv cfg s"
  shows "\<exists>es s1 s2 s3. DrainResponses s = Inr (es, s1) \<and> DRAMClockTick cfg s1 = Inr s2 \<and> DrainRequests s2 = Inr s3 \<and>
    hmc_inv cfg s3 \<and> outstanding s = outstanding s3 + mset es \<and> hmc_clocks s3 = hmc_clocks s"
proof -
  have wf: "hmc_wf cfg s" using inv by (simp add: hmc_inv_def)
  obtain es s1 where s1: "DrainResponses s = Inr (es, s1)" "travels cfg es s s1" using DrainResponses_ok [OF wf] by blast
  obtain s2 where s2: "DRAMClockTick cfg s1 = Inr s2" "hmc_inv cfg s2" "outstanding s2 = outstanding s1" "hmc_clocks s2 = hmc_clocks s1"
    using DRAMClockTick_ok [OF cfg travels_inv [OF inv s1(2)]] by blast
  obtain s3 where s3: "DrainRequests s2 = Inr s3" "travels cfg [] s2 s3"
    using DrainRequests_ok s2(2) unfolding hmc_inv_def by blast
  show ?thesis using s1 s2 s3 travels_inv [OF s2(2) s3(2)] by (auto simp: travels_def)
qed

lemma Hmc_ClockTick_ok:
  assumes cfg: "config_ok cfg" "\<not> enable_self_refresh cfg" "epoch_period cfg \<noteq> 0"
    and inv: "hmc_inv cfg s" "hmc_time s" and room: "clock_room s"
  shows "\<exists>es s'. Hmc_ClockTick cfg s = Inr (es, s') \<and> hmc_inv cfg s' \<and> hmc_time s' \<and>
    outstanding s = outstanding s' + mset es \<and> dram_ps s' = dram_ps s + 800 \<and> ps_per_logic s' = ps_per_logic s"
proof -
  let ?first = "if dram_ps s = logic_ps s then
          rbind (DrainResponses s) (\<lambda>(es, s).
          rbind (DRAMClockTick cfg s) (\<lambda>s.
          rbind (DrainRequests s) (\<lambda>s. Inr (es, logic_step s))))
        else rbind (DRAMClockTick cfg s) (\<lambda>s. Inr ([], s))"
  have "\<exists>es s1. ?first = Inr (es, s1) \<and> hmc_inv cfg s1 \<and> outstanding s = outstanding s1 + mset es \<and>
      ps_per_dram s1 = 800 \<and> ps_per_logic s1 = ps_per_logic s \<and> dram_ps s1 = dram_ps s \<and>
      unat (dram_ps s) \<le> unat (logic_ps s1) \<and> unat (logic_ps s1) < unat (dram_ps s) + 800 + unat (ps_per_logic s)"
  proof (cases "dram_ps s = logic_ps s")
    case True
    obtain es s1 s2 s3 where c: "DrainResponses s = Inr (es, s1)" "DRAMClockTick cfg s1 = Inr s2" "DrainRequests s2 = Inr s3"
      "hmc_inv cfg s3" "outstanding s = outstanding s3 + mset es" "hmc_clocks s3 = hmc_clocks s"
      using first_cycle [OF cfg inv(1)] by blast
    moreover have "unat (logic_ps s + ps_per_logic s) = unat (logic_ps s) + unat (ps_per_logic s)"
      using True inv(2) room by (intro unat_plus_small) (auto simp: hmc_time_def clock_room_def)
    ultimately show ?thesis
      using True inv(2)
      by (intro exI [of _ es] exI [of _ "logic_step s3"]) (auto simp: hmc_clocks_def hmc_time_def)
  next
    case False
    obtain s1 where "DRAMClockTick cfg s = Inr s1" "hmc_inv cfg s1" "outstanding s1 = outstanding s" "hmc_clocks s1 = hmc_clocks s"
      using DRAMClockTick_ok [OF cfg inv(1)] by blast
    then show ?thesis
      using False inv(2) by (intro exI [of _ "[]"] exI [of _ s1]) (auto simp: hmc_clocks_def hmc_time_def)
  qed
  then obtain es s1 where first: "?first = Inr (es, s1)" and s1: "hmc_inv cfg s1" "outstanding s = outstanding s1 + mset es"
      "ps_per_dram s1 = 800" "ps_per_logic s1 = ps_per_logic s" "dram_ps s1 = dram_ps s"
      "unat (dram_ps s) \<le> unat (logic_ps s1)" "unat (logic_ps s1) < unat (dram_ps s) + 800 + unat (ps_per_logic s)"
    by blast
  obtain fs s2 where loop: "logic_loop logic_fuel es s1 = Inr (es @ fs, s2)" "hmc_inv cfg s2"
    "outstanding s1 = outstanding s2 + mset fs" "ps_per_dram s2 = 800" "ps_per_logic s2 = ps_per_logic s" "dram_ps s2 = dram_ps s"
    "unat (dram_ps s) + 800 \<le> unat (logic_ps s2)" "unat (logic_ps s2) < unat (dram_ps s) + 800 + unat (ps_per_logic s)"
    using logic_loop_ok [OF s1(1,3), of logic_fuel es] s1 inv(2) room
    by (auto simp: hmc_time_def clock_room_def logic_fuel_def)
  let ?s = "s2\<lparr>dram_ps := dram_ps s2 + ps_per_dram s2\<rparr>"
  have "Hmc_ClockTick cfg s = Inr (es @ fs, ?s)"
    unfolding Hmc_ClockTick_def first using loop(1) by simp
  moreover have "hmc_inv cfg ?s" "outstanding ?s = outstanding s2"
    using loop(2) by (auto simp: hmc_inv_def hmc_wf_def in_transit_def table_keys_def outstanding_def side_defs)
  moreover have "unat (dram_ps s + 800) = unat (dram_ps s) + 800"
    using room unat_plus_small [of "dram_ps s" 800] by (simp add: clock_room_def)
  then have "hmc_time ?s" using loop(4-8) inv(2) by (simp add: hmc_time_def)
  ultimately show ?thesis using s1(2) loop(3-6) by (intro exI [of _ "es @ fs"] exI [of _ ?s]) (simp add: ac_simps)
qed

subsection \<open>New requests\<close>

lemma hmc_inv_next_link:
  "hmc_inv cfg s \<Longrightarrow> 0 \<le> l \<Longrightarrow> l < links s \<Longrightarrow> hmc_inv cfg (s\<lparr>next_link := l\<rparr>)"
  "outstanding (s\<lparr>next_link := l\<rparr>) = outstanding s"
  by (auto simp: hmc_inv_def hmc_wf_def in_transit_def table_keys_def outstanding_def side_defs)

definition after_next :: "HMCMemorySystem \<Rightarrow> HMCMemorySystem" where
  "after_next s = s\<lparr>next_link := (next_link s + 1) mod links s\<rparr>"

lemma IterateNextLink_ok:
  assumes "hmc_inv cfg s"
  shows "IterateNextLink s = Inr (after_next s)" "hmc_inv cfg (after_next s)"
  using assms hmc_inv_next_link(1) [OF assms, of "(next_link s + 1) mod links s"]
  by (auto simp: IterateNextLink_def after_next_def imod_pos hmc_inv_def hmc_wf_def)

text \<open>A request is answered by a response of the given kind, and is routed to an existing vault.\<close>

definition request_kind :: "Config \<Rightarrow> HMCRequest \<Rightarrow> event \<Rightarrow> bool" where
  "request_kind cfg req e \<longleftrightarrow> request_legal cfg 4 req \<and> mem_operand req = fst e \<and>
     (\<exists>k n. response_kind (req_type req) = Inr (k, n) \<and> (k \<noteq> RD_RS) = snd e)"

definition room_at :: "HMCMemorySystem \<Rightarrow> int \<Rightarrow> bool" where
  "room_at s l \<longleftrightarrow> has_room s (link_req_queues s ! nat l)"

lemma InsertReqToLink_ok:
  assumes inv: "hmc_inv cfg s" and req: "request_kind cfg req e" and l: "0 \<le> l" "l < links s"
  shows "\<exists>s'. InsertReqToLink req l s = Inr (room_at s l, s') \<and> hmc_inv cfg s' \<and> next_link s' = next_link s \<and>
    hmc_clocks s' = hmc_clocks s \<and> links s' = links s \<and> outstanding s' = outstanding s + (if room_at s l then {#e#} else {#}) \<and>
    (room_at s l \<or> s' = s)"
proof -
  have wf: "hmc_wf cfg s" using inv by (simp add: hmc_inv_def)
  then have len: "int (length (link_req_queues s)) = links s" "int (length (link_age_counter s)) = links s"
    by (auto simp: hmc_wf_def xbar_inv_def waiting_ages_def side_defs)
  have nl: "nat l < length (link_req_queues s)" using l len by linarith
  show ?thesis
  proof (cases "room_at s l")
    case False
    then show ?thesis using inv l len by (simp add: InsertReqToLink_def room_at_def)
  next
    case True
    from req obtain k n where k: "response_kind (req_type req) = Inr (k, n)" "(k \<noteq> RD_RS) = snd e"
      and r: "request_legal cfg 4 req" "mem_operand req = fst e" by (auto simp: request_kind_def)
    let ?r = "\<lparr>resp_id = mem_operand req, resp_type = k, resp_link = l, resp_quad = req_quad req, resp_flits = n, resp_exit_time = 0\<rparr>"
    let ?q = "link_req_queues s ! nat l @ [req\<lparr>req_link := l\<rparr>]"
    let ?s = "s\<lparr>link_req_queues := (link_req_queues s)[nat l := ?q], resp_lookup_table := resp_lookup_table s @ [(mem_operand req, ?r)],
      link_age_counter := (link_age_counter s)[nat l := 1], hmc_last_req_clk := hmc_clk s\<rparr>"
    have i: "InsertReqToLink req l s = Inr (True, ?s)"
      using True l len k(1) by (simp add: InsertReqToLink_def room_at_def mk_response_def vset_def vmod_def)
    have "request_legal cfg 4 (req\<lparr>req_link := l\<rparr>)" using r(1) by (simp add: request_legal_def)
    then have legal: "\<forall>p \<in> set ?q. request_legal cfg 4 p"
      using wf queues_ok_nth [OF _ nl, of "request_legal cfg 4"] by (auto simp: hmc_wf_def xbar_inv_def side_defs)
    have "length ?q \<le> unat (queue_depth s)" using True by (simp add: room_at_def has_room_def)
    moreover have "response_legal (nat (links s)) ?r" using r l by (simp add: response_legal_def request_legal_def)
    ultimately have "hmc_wf cfg ?s"
      using wf legal
      by (auto simp: hmc_wf_def xbar_inv_def side_defs intro!: queues_ok_update queues_bounded_update waiting_ages_update)
    moreover have "in_transit ?s = add_mset (mem_operand req) (in_transit s)"
      using mset_concat_push [OF nl, of "req\<lparr>req_link := l\<rparr>"] by (simp add: in_transit_def xbar_content_def side_defs)
    ultimately have "hmc_inv cfg ?s" using inv by (simp add: hmc_inv_def table_keys_def)
    moreover have "resp_event ?r = e" using k(2) r(2) by (simp add: resp_event_def prod_eq_iff)
    then have "outstanding ?s = outstanding s + {#e#}" by (simp add: outstanding_def side_defs)
    ultimately show ?thesis using i True by (simp add: hmc_clocks_def)
  qed
qed

text \<open>The loop over the other links finds a queue with room if there is one before it is back at its start.\<close>

definition room_before :: "HMCMemorySystem \<Rightarrow> int \<Rightarrow> bool" where
  "room_before s start \<longleftrightarrow>
     (\<exists>k. 0 \<le> k \<and> k < (start - next_link s) mod links s \<and> room_at s ((next_link s + k) mod links s))"

lemma room_before_next:
  assumes "0 \<le> start" "start < links s" "0 \<le> next_link s" "next_link s < links s" "start \<noteq> next_link s"
  shows "(start - next_link (after_next s)) mod links s = (start - next_link s) mod links s - 1"
    and "room_before s start \<longleftrightarrow> room_at s (next_link s) \<or> room_before (after_next s) start"
proof -
  let ?n = "links s"
  let ?d = "(start - next_link s) mod ?n"
  have n: "0 < ?n" using assms by linarith
  have "?d \<noteq> 0"
  proof
    assume "?d = 0"
    then have "start mod ?n = next_link s mod ?n" by (simp add: mod_eq_dvd_iff dvd_eq_mod_eq_0)
    then show False using assms by simp
  qed
  then have d: "0 < ?d" "?d < ?n" using pos_mod_sign [OF n] pos_mod_bound [OF n] by (simp_all add: less_le)
  have "(start - next_link (after_next s)) mod ?n = (?d - 1) mod ?n"
    by (simp add: after_next_def mod_diff_right_eq mod_diff_left_eq diff_diff_eq)
  then show eq: "(start - next_link (after_next s)) mod ?n = ?d - 1" using d by simp
  have nth: "(next_link (after_next s) + k) mod ?n = (next_link s + (k + 1)) mod ?n" for k
    by (simp add: after_next_def mod_add_left_eq) (simp add: ac_simps)
  have same: "room_at (after_next s) = room_at s" "links (after_next s) = ?n"
    by (simp_all add: after_next_def room_at_def has_room_def fun_eq_iff)
  show "room_before s start \<longleftrightarrow> room_at s (next_link s) \<or> room_before (after_next s) start"
  proof
    assume "room_before s start"
    then obtain k where k: "0 \<le> k" "k < ?d" "room_at s ((next_link s + k) mod ?n)" by (auto simp: room_before_def)
    show "room_at s (next_link s) \<or> room_before (after_next s) start"
    proof (cases "k = 0")
      case True
      then show ?thesis using k(3) assms by simp
    next
      case False
      then have "0 \<le> k - 1 \<and> k - 1 < ?d - 1 \<and> room_at s ((next_link (after_next s) + (k - 1)) mod ?n)"
        using k nth [of "k - 1"] by simp
      then show ?thesis unfolding room_before_def same eq by blast
    qed
  next
    assume "room_at s (next_link s) \<or> room_before (after_next s) start"
    then show "room_before s start"
    proof
      assume "room_at s (next_link s)"
      then show ?thesis using d assms unfolding room_before_def by (intro exI [of _ 0]) simp
    next
      assume "room_before (after_next s) start"
      then obtain k where "0 \<le> k" "k < ?d - 1" "room_at s ((next_link s + (k + 1)) mod ?n)"
        unfolding room_before_def same eq nth by blast
      then show ?thesis unfolding room_before_def by (intro exI [of _ "k + 1"]) simp
    qed
  qed
qed

lemma insert_loop_ok:
  assumes "hmc_inv cfg s" "request_kind cfg req e" "0 \<le> start" "start < links s"
    and "(start - next_link s) mod links s \<le> int fuel"
  shows "\<exists>s'. insert_loop fuel start req s = Inr (room_before s start, s') \<and> hmc_inv cfg s' \<and> hmc_clocks s' = hmc_clocks s \<and>
    outstanding s' = outstanding s + (if room_before s start then {#e#} else {#})"
  using assms
proof (induction fuel arbitrary: s)
  case 0
  have r: "0 \<le> next_link s" "next_link s < links s" using "0.prems"(1) by (auto simp: hmc_inv_def hmc_wf_def)
  have "start = next_link s"
    using room_before_next(1) [OF "0.prems"(3,4) r] "0.prems"(5) pos_mod_sign [of "links s" "start - next_link (after_next s)"] r
    by fastforce
  then show ?case using "0.prems"(1) by (simp add: insert_loop.simps [of 0] room_before_def)
next
  case (Suc n)
  have r: "0 \<le> next_link s" "next_link s < links s" using Suc.prems(1) by (auto simp: hmc_inv_def hmc_wf_def)
  show ?case
  proof (cases "start = next_link s")
    case True
    then show ?thesis using Suc.prems(1) by (simp add: insert_loop.simps [of "Suc n"] room_before_def)
  next
    case False
    note nxt = room_before_next [OF Suc.prems(3,4) r False]
    obtain s1 where s1: "InsertReqToLink req (next_link s) s = Inr (room_at s (next_link s), s1)" "hmc_inv cfg s1"
      "next_link s1 = next_link s" "hmc_clocks s1 = hmc_clocks s" "links s1 = links s"
      "outstanding s1 = outstanding s + (if room_at s (next_link s) then {#e#} else {#})" "room_at s (next_link s) \<or> s1 = s"
      using InsertReqToLink_ok [OF Suc.prems(1,2) r] by blast
    note it = IterateNextLink_ok [OF s1(2)]
    have a: "outstanding (after_next s1) = outstanding s1" "hmc_clocks (after_next s1) = hmc_clocks s1" "links (after_next s1) = links s1"
      by (simp_all add: after_next_def hmc_inv_next_link hmc_clocks_def)
    show ?thesis
    proof (cases "room_at s (next_link s)")
      case True
      then show ?thesis using False s1 it a nxt(2) by (simp add: insert_loop.simps [of "Suc n"])
    next
      case f: False
      then have "s1 = s" using s1(7) by simp
      then have "insert_loop (Suc n) start req s = insert_loop n start req (after_next s)"
        using False f s1(1) it(1) by (simp add: insert_loop.simps [of "Suc n"])
      moreover have "(start - next_link (after_next s)) mod links (after_next s) \<le> int n"
        using nxt(1) Suc.prems(5) by (simp add: after_next_def)
      ultimately show ?thesis
        using Suc.IH [of "after_next s"] it(2) Suc.prems(2-4) \<open>s1 = s\<close> a nxt(2) f by simp
    qed
  qed
qed

lemma room_anywhere:
  assumes "hmc_wf cfg s"
  shows "Hmc_WillAccept s \<longleftrightarrow> room_at s (next_link s) \<or> room_before (after_next s) (next_link s)"
proof -
  let ?n = "links s"
  let ?l = "next_link s"
  have n: "0 < ?n" "0 \<le> ?l" "?l < ?n" "int (length (link_req_queues s)) = ?n"
    using assms by (auto simp: hmc_wf_def xbar_inv_def side_defs)
  have d: "(?l - next_link (after_next s)) mod ?n = ?n - 1"
  proof -
    have "(?l - next_link (after_next s)) mod ?n = (- 1) mod ?n" by (simp add: after_next_def mod_diff_right_eq)
    then show ?thesis using n by (simp add: zmod_minus1)
  qed
  have nth: "(next_link (after_next s) + k) mod ?n = (?l + (k + 1)) mod ?n" for k
    by (simp add: after_next_def mod_add_left_eq) (simp add: ac_simps)
  have same: "room_at (after_next s) = room_at s" "links (after_next s) = ?n"
    by (simp_all add: after_next_def room_at_def has_room_def fun_eq_iff)
  have "Hmc_WillAccept s \<longleftrightarrow> (\<exists>j. 0 \<le> j \<and> j < ?n \<and> room_at s j)"
  proof
    assume "Hmc_WillAccept s"
    then obtain i where "i < length (link_req_queues s)" "has_room s (link_req_queues s ! i)"
      by (auto simp: Hmc_WillAccept_def list_ex_length)
    then show "\<exists>j. 0 \<le> j \<and> j < ?n \<and> room_at s j" using n(4) by (intro exI [of _ "int i"]) (simp add: room_at_def)
  next
    assume "\<exists>j. 0 \<le> j \<and> j < ?n \<and> room_at s j"
    then obtain j where "0 \<le> j" "j < ?n" "room_at s j" by blast
    then have "nat j < length (link_req_queues s)" "has_room s (link_req_queues s ! nat j)"
      using n(4) by (simp_all add: room_at_def nat_less_iff)
    then show "Hmc_WillAccept s" by (auto simp: Hmc_WillAccept_def list_ex_length)
  qed
  also have "\<dots> \<longleftrightarrow> room_at s ?l \<or> room_before (after_next s) ?l"
  proof
    assume "\<exists>j. 0 \<le> j \<and> j < ?n \<and> room_at s j"
    then obtain j where j: "0 \<le> j" "j < ?n" "room_at s j" by blast
    let ?k = "(j - ?l - 1) mod ?n"
    have k: "0 \<le> ?k" "?k < ?n" using n by simp_all
    have "(?k + (?l + 1)) mod ?n = (j - ?l - 1 + (?l + 1)) mod ?n" by (rule mod_add_left_eq)
    also have "\<dots> = j" using j by simp
    finally have m: "(?l + (?k + 1)) mod ?n = j" by (simp only: ac_simps)
    show "room_at s ?l \<or> room_before (after_next s) ?l"
    proof (cases "?k = ?n - 1")
      case True
      then show ?thesis using m j(3) n by simp
    next
      case False
      then show ?thesis using k m j(3) unfolding room_before_def same d nth by (intro disjI2 exI [of _ ?k]) simp
    qed
  next
    assume "room_at s ?l \<or> room_before (after_next s) ?l"
    then show "\<exists>j. 0 \<le> j \<and> j < ?n \<and> room_at s j"
      using n pos_mod_sign [OF n(1)] pos_mod_bound [OF n(1)] unfolding room_before_def same by blast
  qed
  finally show ?thesis .
qed

lemma InsertHMCReq_ok:
  assumes inv: "hmc_inv cfg s" and req: "request_kind cfg req e"
  shows "\<exists>s'. InsertHMCReq req s = Inr (Hmc_WillAccept s, s') \<and> hmc_inv cfg s' \<and> hmc_clocks s' = hmc_clocks s \<and>
    outstanding s' = outstanding s + (if Hmc_WillAccept s then {#e#} else {#})"
proof -
  have wf: "hmc_wf cfg s" using inv by (simp add: hmc_inv_def)
  have r: "0 \<le> next_link s" "next_link s < links s" using wf by (auto simp: hmc_wf_def)
  obtain s1 where s1: "InsertReqToLink req (next_link s) s = Inr (room_at s (next_link s), s1)" "hmc_inv cfg s1"
    "next_link s1 = next_link s" "hmc_clocks s1 = hmc_clocks s" "links s1 = links s"
    "outstanding s1 = outstanding s + (if room_at s (next_link s) then {#e#} else {#})" "room_at s (next_link s) \<or> s1 = s"
    using InsertReqToLink_ok [OF inv req r] by blast
  note it = IterateNextLink_ok [OF s1(2)]
  have a: "outstanding (after_next s1) = outstanding s1" "hmc_clocks (after_next s1) = hmc_clocks s1" "links (after_next s1) = links s1"
    by (simp_all add: after_next_def hmc_inv_next_link hmc_clocks_def)
  show ?thesis
  proof (cases "room_at s (next_link s)")
    case True
    then show ?thesis using s1 it a room_anywhere [OF wf] by (simp add: InsertHMCReq_def)
  next
    case False
    then have "s1 = s" using s1(7) by simp
    have "(next_link s - next_link (after_next s)) mod links (after_next s) \<le> int (nat (links s))"
      using r pos_mod_bound [of "links s" "next_link s - next_link (after_next s)"]
      by (simp add: after_next_def less_imp_le)
    then have "\<exists>s'. insert_loop (nat (links s)) (next_link s) req (after_next s) = Inr (room_before (after_next s) (next_link s), s') \<and>
      hmc_inv cfg s' \<and> hmc_clocks s' = hmc_clocks (after_next s) \<and>
      outstanding s' = outstanding (after_next s) + (if room_before (after_next s) (next_link s) then {#e#} else {#})"
      using insert_loop_ok [OF _ req, of "after_next s" "next_link s"] it(2) \<open>s1 = s\<close> r a(3) by simp
    then show ?thesis
      using False s1 it a room_anywhere [OF wf] \<open>s1 = s\<close> by (auto simp: InsertHMCReq_def)
  qed
qed

definition block_ok :: "Config \<Rightarrow> bool" where
  "block_ok cfg \<longleftrightarrow> block_size cfg \<in> {0, 32, 64, 128, 256}"

lemma Hmc_AddTransaction_ok:
  assumes inv: "hmc_inv cfg s" and cfg: "channels_ok cfg" "block_ok cfg"
  shows "\<exists>s'. Hmc_AddTransaction cfg a w s = Inr (Hmc_WillAccept s, s') \<and> hmc_inv cfg s' \<and> hmc_clocks s' = hmc_clocks s \<and>
    outstanding s' = outstanding s + (if Hmc_WillAccept s then {#(a, w)#} else {#})"
proof -
  have c: "0 \<le> GetChannel cfg a" "GetChannel cfg a < channels cfg"
    using cfg(1) by (auto simp: GetChannel_mapping channels_ok_def)
  obtain t where t: "block_type (block_size cfg) w = Inr t" using cfg(2) by (auto simp: block_type_def block_ok_def)
  then have "\<exists>f k n. request_flits t = Inr f \<and> response_kind t = Inr (k, n) \<and> (k \<noteq> RD_RS) = w"
    by (auto simp: block_type_def split: if_splits)
  then obtain f k n where f: "request_flits t = Inr f" "response_kind t = Inr (k, n)" "(k \<noteq> RD_RS) = w" by blast
  obtain req where req: "mk_request t a (GetChannel cfg a) = Inr req" "request_kind cfg req (a, w)"
    using f c by (auto simp: mk_request_def request_kind_def request_legal_def)
  from InsertHMCReq_ok [OF inv req(2)] show ?thesis using t req(1) by (auto simp: Hmc_AddTransaction_def)
qed

subsection \<open>The cube as a buffer\<close>

text \<open>
  A client asks before it adds a request, and stops before the picosecond counters wrap, which is after more
  than 200 days of simulated time.
\<close>

definition hmc_put :: "Config \<Rightarrow> event \<Rightarrow> HMCMemorySystem \<Rightarrow> (bool \<times> HMCMemorySystem) res" where
  "hmc_put cfg x s =
     (case x of (a, w) \<Rightarrow> if Hmc_WillAccept s then Hmc_AddTransaction cfg a w s else Inr (False, s))"

definition hmc_tick :: "Config \<Rightarrow> unit \<Rightarrow> HMCMemorySystem \<Rightarrow> (event list \<times> HMCMemorySystem) res" where
  "hmc_tick cfg u s = (if clock_room s then Hmc_ClockTick cfg s else Inr ([], s))"

definition hmc_ok :: "Config \<Rightarrow> bool" where
  "hmc_ok cfg \<longleftrightarrow> system_ok cfg \<and> block_ok cfg"

lemma hmc_time_clocks: "hmc_clocks s' = hmc_clocks s \<Longrightarrow> hmc_time s' = hmc_time s"
  by (simp add: hmc_clocks_def hmc_time_def)

interpretation hmc_buffer: bag_buffer
  "\<lambda>s. hmc_ok cfg \<and> hmc_inv cfg s \<and> hmc_time s" outstanding "\<lambda>_. True" "\<lambda>_. True" "hmc_put cfg" "hmc_tick cfg" for cfg
proof (unfold_locales, goal_cases)
  case (1 s x)
  obtain a w where x: "x = (a, w)" by (cases x)
  obtain s' where s': "Hmc_AddTransaction cfg a w s = Inr (Hmc_WillAccept s, s')" "hmc_inv cfg s'" "hmc_clocks s' = hmc_clocks s"
    "outstanding s' = outstanding s + (if Hmc_WillAccept s then {#(a, w)#} else {#})"
    using Hmc_AddTransaction_ok [of cfg s a w] 1 by (auto simp: hmc_ok_def system_ok_def)
  show ?case
  proof (cases "Hmc_WillAccept s")
    case True
    then show ?thesis using s' x 1 hmc_time_clocks [OF s'(3)] by (intro exI [of _ True] exI [of _ s']) (simp add: hmc_put_def)
  next
    case False
    then show ?thesis using x 1 by (intro exI [of _ False] exI [of _ s]) (simp add: hmc_put_def)
  qed
next
  case (2 s e)
  then show ?case
    using Hmc_ClockTick_ok [of cfg s] by (cases "clock_room s") (auto simp: hmc_ok_def system_ok_def hmc_tick_def)
qed

subsection \<open>Construction\<close>

lemma SetClockRatio_bounds:
  assumes "SetClockRatio cfg = Inr (d, p)"
  shows "d = 800" "unat p \<le> 800"
  using assms by (auto simp: SetClockRatio_def Let_def word_less_nat_alt not_less elim!: rbindE split: if_splits)

lemma xbar_inv_empty:
  "xbar_inv legal room n m \<lparr>sources = replicate n [], sinks = replicate m [], busy = replicate m 0, age = replicate n 0\<rparr>"
  by (auto simp: xbar_inv_def waiting_ages_def queues_ok_def queues_bounded_def)

lemma four_zeros: "[0, 0, 0, 0 :: int] = replicate 4 0"
  by (simp add: numeral_eq_Suc)

lemma mk_hmc_inv:
  assumes "dims_wf cfg" "0 < ranks cfg" "refresh_policy cfg \<noteq> RefreshPolicy_SIZE"
    "mk_refresh cfg = Inr rf" "0 < refresh_interval rf" "refresh_interval rf < 2 ^ 63"
    and "0 < num_links cfg" "num_links cfg < 2 ^ 31" "SetClockRatio cfg = Inr (800, p)" "p \<noteq> 0"
    and "mk_hmc cfg = Inr s"
  shows "hmc_inv cfg s" "hmc_time s" "outstanding s = {#}" "dram_ps s = 0"
proof -
  from assms(11) obtain cs where cs:
    "mfold (\<lambda>i acc. rbind (mk_controller cfg i) (\<lambda>c. Inr (acc @ [c]))) [0..channels cfg - 1] [] = Inr cs"
    and s: "vaults s = cs" "links s = num_links cfg" "next_link s = 0" "resp_lookup_table s = []"
      "ps_per_dram s = 800" "ps_per_logic s = p" "dram_ps s = 0" "logic_ps s = 0"
      "request_side s = \<lparr>sources = replicate (nat (links s)) [], sinks = replicate 4 [], busy = replicate 4 0,
        age = replicate (nat (links s)) 0\<rparr>"
      "response_side s = \<lparr>sources = replicate 4 [], sinks = replicate (nat (links s)) [],
        busy = replicate (nat (links s)) 0, age = replicate 4 0\<rparr>"
      "link_req_queues s = replicate (nat (links s)) []" "0 \<le> channels cfg"
    using assms(9)
    by (auto simp: mk_hmc_def Let_def side_defs four_zeros simp del: replicate.simps elim!: rbindE split: if_splits)
  note c = mk_controllers_ok [OF assms(1-6) cs]
  show "hmc_inv cfg s" "outstanding s = {#}"
    using c s assms(7,8)
    by (simp_all add: hmc_inv_def hmc_wf_def xbar_inv_empty queues_bounded_def in_transit_def table_keys_def outstanding_def
        xbar_content_def)
  show "hmc_time s" "dram_ps s = 0"
    using s assms(10) SetClockRatio_bounds [OF assms(9)] by (simp_all add: hmc_time_def unat_gt_0)
qed

lemma mk_hmc_ok:
  assumes "IsHMC cfg" "SetClockRatio cfg = Inr dp" "0 \<le> channels cfg" "0 \<le> num_links cfg"
    and "0 \<le> ranks cfg" "0 \<le> bankgroups cfg" "0 \<le> banks_per_group cfg" "0 \<le> banks cfg"
    and "queue_structure_name cfg \<in> {''PER_BANK'', ''PER_RANK''}" "0 \<le> cmd_queue_size cfg" "0 \<le> trans_queue_size cfg"
    and "mk_refresh cfg = Inr rf"
  obtains s where "mk_hmc cfg = Inr s"
proof -
  obtain cs where "mfold (\<lambda>i acc. rbind (mk_controller cfg i) (\<lambda>c. Inr (acc @ [c]))) [0..channels cfg - 1] [] = Inr cs"
    by (rule mk_controllers_run [OF assms(5-12)])
  then show thesis using that assms(1-4) by (cases dp) (simp add: mk_hmc_def Let_def)
qed

subsection \<open>Properties\<close>


text \<open>The links and the structure of \<^verbatim>\<open>configs/HMC2_8GB_4Lx16.ini\<close>; all other values are the defaults.\<close>

definition hmc_ini :: ini where
  "hmc_ini = default_ini\<lparr>
     ini_Get := (\<lambda>_ k d. case map_of [(''protocol'', ''HMC''), (''address_mapping'', ''rocorabgbach''),
       (''queue_structure'', ''PER_BANK''), (''row_buf_policy'', ''CLOSE_PAGE'')] k of None \<Rightarrow> d | Some v \<Rightarrow> v),
     ini_GetInteger := (\<lambda>_ k d. case map_of [(''num_links'', 4), (''link_width'', 16), (''link_speed'', 25000),
       (''block_size'', 64), (''xbar_queue_depth'', 32), (''bankgroups'', 1), (''banks_per_group'', 16), (''rows'', 65536),
       (''columns'', 64), (''device_width'', 32), (''num_dies'', 8), (''channel_size'', 256), (''channels'', 32), (''bus_width'', 32),
       (''cmd_queue_size'', 8), (''trans_queue_size'', 32)] k of None \<Rightarrow> d | Some v \<Rightarrow> v)\<rparr>"

lemma hmc_system:
  obtains cfg rf s where "mk_config hmc_ini = Inr cfg" "dims_of cfg = [32, 1, 1, 16, 65536, 64]"
    "\<not> enable_self_refresh cfg" "epoch_period cfg = 100000" "block_size cfg = 64" "num_links cfg = 4" "IsHMC cfg"
    "SetClockRatio cfg = Inr (800, 320)" "mk_refresh cfg = Inr rf" "refresh_interval rf = 7800" "mk_hmc cfg = Inr s"
proof -
  have "rbind (mk_config hmc_ini) (\<lambda>cfg. Inr (dims_of cfg, enable_self_refresh cfg, epoch_period cfg, refresh_policy cfg,
      tREFI cfg, IsHMC cfg, queue_structure_name cfg, cmd_queue_size cfg, trans_queue_size cfg, banks cfg,
      block_size cfg, num_links cfg, SetClockRatio cfg)) =
      Inr ([32, 1, 1, 16, 65536, 64], False, 100000, RANK_LEVEL_STAGGERED, 7800, True, ''PER_BANK'', 8, 32, 16, 64, 4,
        Inr (800, 320))"
    by code_simp
  then obtain cfg where c: "mk_config hmc_ini = Inr cfg" "dims_of cfg = [32, 1, 1, 16, 65536, 64]"
    "\<not> enable_self_refresh cfg" "epoch_period cfg = 100000" "refresh_policy cfg = RANK_LEVEL_STAGGERED" "tREFI cfg = 7800"
    "IsHMC cfg" "queue_structure_name cfg = ''PER_BANK''" "cmd_queue_size cfg = 8" "trans_queue_size cfg = 32" "banks cfg = 16"
    "block_size cfg = 64" "num_links cfg = 4" "SetClockRatio cfg = Inr (800, 320)"
    by (auto elim!: rbindE)
  then obtain rf where rf: "mk_refresh cfg = Inr rf" "refresh_interval rf = 7800"
    by (simp add: mk_refresh_def idiv_def dims_of_def)
  obtain s where "mk_hmc cfg = Inr s"
    by (rule mk_hmc_ok [OF c(7,14) _ _ _ _ _ _ _ _ _ rf(1)]) (use c in \<open>simp_all add: dims_of_def\<close>)
  with c rf that show thesis by blast
qed


text \<open>
  C29. A request is refused only if every link is full: on a cube with its invariant, \<^verbatim>\<open>AddTransaction\<close> for a
  block size of the protocol returns true exactly if \<^verbatim>\<open>WillAcceptTransaction\<close> does, wherever the round robin
  of the links stands - its loop ends after at most one round - and adds one response to those to come, or
  none.
\<close>

theorem request_finds_link:
  assumes "hmc_inv cfg s" and "channels_ok cfg" and "block_size cfg \<in> {0, 32, 64, 128, 256}"
  shows "\<exists>s'. Hmc_AddTransaction cfg a w s = Inr (Hmc_WillAccept s, s') \<and> hmc_inv cfg s' \<and>
    outstanding s' = outstanding s + (if Hmc_WillAccept s then {#(a, w)#} else {#})"
  using Hmc_AddTransaction_ok [OF assms(1,2), of a w] assms(3) by (auto simp: block_ok_def)

lemma hmc_start:
  obtains cfg s where "mk_config hmc_ini = Inr cfg" "mk_hmc cfg = Inr s" "system_ok cfg" "block_size cfg = 64"
    "hmc_inv cfg s" "hmc_time s" "dram_ps s = 0"
proof -
  obtain cfg rf s where c: "mk_config hmc_ini = Inr cfg" "dims_of cfg = [32, 1, 1, 16, 65536, 64]"
    "\<not> enable_self_refresh cfg" "epoch_period cfg = 100000" "block_size cfg = 64" "num_links cfg = 4" "IsHMC cfg"
    "SetClockRatio cfg = Inr (800, 320)" "mk_refresh cfg = Inr rf" "refresh_interval rf = 7800" "mk_hmc cfg = Inr s"
    by (rule hmc_system)
  have ok: "system_ok cfg" by (rule system_ok_mk_config [OF c(1)]) (use c in \<open>simp_all add: dims_of_def\<close>)
  have "hmc_inv cfg s" "hmc_time s" "dram_ps s = 0"
    using mk_hmc_inv [OF _ _ _ c(9) _ _ _ _ c(8) _ c(11)] ok mk_config_params_ok [OF c(1)] c
    by (simp_all add: system_ok_def config_ok_def params_ok_def dims_of_def)
  with c ok that show thesis by blast
qed

theorem request_finds_link_witness:
  "\<exists>cfg s s'. mk_config hmc_ini = Inr cfg \<and> mk_hmc cfg = Inr s \<and>
     Hmc_AddTransaction cfg 4096 True s = Inr (Hmc_WillAccept s, s')"
proof -
  obtain cfg s where c: "mk_config hmc_ini = Inr cfg" "mk_hmc cfg = Inr s" "system_ok cfg" "block_size cfg = 64" "hmc_inv cfg s"
    by (rule hmc_start)
  then show ?thesis using request_finds_link [of cfg s 4096 True] by (auto simp: system_ok_def)
qed

text \<open>
  C30. The two clock domains of the cube stay together: one call of \<^verbatim>\<open>ClockTick\<close> returns - its loop over the
  cycles of the logic die ends within 800 steps - advances the memory by 800 ps, and leaves the logic die not
  behind the memory and ahead of it by less than one cycle of its own; only the answers it reports leave the
  cube.
\<close>

theorem clock_domains_together:
  assumes "system_ok cfg" and "hmc_inv cfg s" and "hmc_time s" and "unat (dram_ps s) + 1600 < 2 ^ 64"
  shows "\<exists>es s'. Hmc_ClockTick cfg s = Inr (es, s') \<and> hmc_inv cfg s' \<and> dram_ps s' = dram_ps s + 800 \<and>
    ps_per_logic s' = ps_per_logic s \<and> unat (dram_ps s') \<le> unat (logic_ps s') \<and>
    unat (logic_ps s') < unat (dram_ps s') + unat (ps_per_logic s) \<and> outstanding s = outstanding s' + mset es"
  using Hmc_ClockTick_ok [of cfg s] assms by (fastforce simp: system_ok_def clock_room_def hmc_time_def)

theorem clock_domains_together_witness:
  "\<exists>cfg s es s'. mk_config hmc_ini = Inr cfg \<and> mk_hmc cfg = Inr s \<and> Hmc_ClockTick cfg s = Inr (es, s') \<and> dram_ps s' = 800"
proof -
  obtain cfg s where c: "mk_config hmc_ini = Inr cfg" "mk_hmc cfg = Inr s" "system_ok cfg" "hmc_inv cfg s" "hmc_time s" "dram_ps s = 0"
    by (rule hmc_start)
  then show ?thesis using clock_domains_together [of cfg s] by auto
qed

text \<open>
  Every waiting queue gets its turn once per cycle (\<open>BuildAgeQueue_mset\<close>), but not by age: the comparison of \<^verbatim>\<open>BuildAgeQueue\<close> is
  between the age of a queue and the index of another, so a queue that has waited for two cycles is served
  before one that has waited for three.
\<close>

lemma age_queue_not_by_age: "BuildAgeQueue 0 [0, 3, 1, 2] = Inr [3, 1, 2]"
  by code_simp

end
