(* ===== verification/Memory_System.thy ===== *)
theory Memory_System
  imports Hmc
begin

section \<open>The interface of the memory\<close>

text \<open>
  Model of \<^verbatim>\<open>src/memory_system.cc\<close>: a memory of the kind the configuration asks for, and the calls passed on
  to it. The configuration is read once; the callbacks are the events a clock cycle returns.
\<close>

datatype MemorySystem = Jedec JedecDRAMSystem | Cube HMCMemorySystem

definition mk_memory_system :: "ini \<Rightarrow> (Config \<times> MemorySystem) res" where
  "mk_memory_system rd =
     rbind (mk_config rd) (\<lambda>cfg.
       if IsHMC cfg then rbind (mk_hmc cfg) (\<lambda>s. Inr (cfg, Cube s))
       else rbind (mk_jedec cfg) (\<lambda>s. Inr (cfg, Jedec s)))"

fun Memory_ClockTick :: "Config \<Rightarrow> MemorySystem \<Rightarrow> (event list \<times> MemorySystem) res" where
  "Memory_ClockTick cfg (Jedec s) = rbind (Jedec_ClockTick cfg s) (\<lambda>(es, s). Inr (es, Jedec s))"
| "Memory_ClockTick cfg (Cube s) = rbind (Hmc_ClockTick cfg s) (\<lambda>(es, s). Inr (es, Cube s))"

definition GetTCK :: "Config \<Rightarrow> real" where
  "GetTCK cfg = tCK cfg"

definition GetBusBits :: "Config \<Rightarrow> int" where
  "GetBusBits cfg = bus_width cfg"

definition GetBurstLength :: "Config \<Rightarrow> int" where
  "GetBurstLength cfg = BL cfg"

definition GetQueueSize :: "Config \<Rightarrow> int" where
  "GetQueueSize cfg = trans_queue_size cfg"

fun Memory_WillAcceptPim :: "MemorySystem \<Rightarrow> bool" where
  "Memory_WillAcceptPim (Jedec s) = WillAcceptPim s"
| "Memory_WillAcceptPim (Cube s) = True"

fun Memory_WillAccept :: "Config \<Rightarrow> u64 \<Rightarrow> bool \<Rightarrow> MemorySystem \<Rightarrow> bool res" where
  "Memory_WillAccept cfg a w (Jedec s) = Jedec_WillAccept cfg s a w"
| "Memory_WillAccept cfg a w (Cube s) = Inr (Hmc_WillAccept s)"

text \<open>The cube takes a processing transaction without doing anything with it.\<close>

fun Memory_AddPim :: "u64 \<Rightarrow> MemorySystem \<Rightarrow> (bool \<times> MemorySystem) res" where
  "Memory_AddPim a (Jedec s) = rbind (AddPim a s) (\<lambda>(b, s). Inr (b, Jedec s))"
| "Memory_AddPim a (Cube s) = Inr (True, Cube s)"

fun Memory_AddTransaction :: "Config \<Rightarrow> u64 \<Rightarrow> bool \<Rightarrow> MemorySystem \<Rightarrow> (bool \<times> MemorySystem) res" where
  "Memory_AddTransaction cfg a w (Jedec s) = rbind (Jedec_AddTransaction cfg a w s) (\<lambda>(b, s). Inr (b, Jedec s))"
| "Memory_AddTransaction cfg a w (Cube s) = rbind (Hmc_AddTransaction cfg a w s) (\<lambda>(b, s). Inr (b, Cube s))"

fun turnOff :: "MemorySystem \<Rightarrow> bool" where
  "turnOff (Jedec s) = turn_off s"
| "turnOff (Cube s) = False"

fun Memory_PrintStats :: "Config \<Rightarrow> MemorySystem \<Rightarrow> MemorySystem res" where
  "Memory_PrintStats cfg (Jedec s) = rbind (Base_PrintStats cfg (ctrls s)) (\<lambda>cs. Inr (Jedec (s\<lparr>ctrls := cs\<rparr>)))"
| "Memory_PrintStats cfg (Cube s) = rbind (Base_PrintStats cfg (vaults s)) (\<lambda>cs. Inr (Cube (s\<lparr>vaults := cs\<rparr>)))"

fun Memory_ResetStats :: "MemorySystem \<Rightarrow> MemorySystem" where
  "Memory_ResetStats (Jedec s) = Jedec (s\<lparr>ctrls := Base_ResetStats (ctrls s)\<rparr>)"
| "Memory_ResetStats (Cube s) = Cube (s\<lparr>vaults := Base_ResetStats (vaults s)\<rparr>)"

end
