(* ===== verification/Cpu.thy ===== *)
theory Cpu
  imports Memory_System
begin

section \<open>The processors and the main program\<close>

text \<open>
  Model of \<^verbatim>\<open>src/cpu.h\<close>, \<^verbatim>\<open>src/cpu.cc\<close> and of the simulation loop of \<^verbatim>\<open>src/main.cc\<close>. The three processors differ
  in where their addresses come from: the generator \<^verbatim>\<open>std::mt19937_64\<close>, arrays at addresses it draws, or a trace
  file. The callbacks of a processor do nothing. A trace file is a list of records, with white space after the
  last one or not.
\<close>

subsection \<open>The generator\<close>

text \<open>
  \<^verbatim>\<open>std::mt19937_64\<close> of the C++ standard, with its default seed: a window of 312 words, from which each call
  computes and tempers the next.
\<close>

definition mt_seed :: "u64 list" where
  "mt_seed = rev (foldl (\<lambda>xs i. (6364136223846793005 * (hd xs XOR drop_bit 62 (hd xs)) + of_nat i) # xs) [5489] [1..<312])"

definition mt_twist :: "u64 \<Rightarrow> u64 \<Rightarrow> u64 \<Rightarrow> u64" where
  "mt_twist x0 x1 xm =
     (let y = (x0 AND 0xFFFFFFFF80000000) OR (x1 AND 0x7FFFFFFF)
      in xm XOR drop_bit 1 y XOR (if y AND 1 = 0 then 0 else 0xB5026F5AA96619E9))"

definition mt_temper :: "u64 \<Rightarrow> u64" where
  "mt_temper x =
     (let z = x XOR (drop_bit 29 x AND 0x5555555555555555);
          z = z XOR (push_bit 17 z AND 0x71D67FFFEDA60000);
          z = z XOR (push_bit 37 z AND 0xFFF7EEE000000000)
      in z XOR drop_bit 43 z)"

definition gen :: "u64 list \<Rightarrow> u64 \<times> u64 list" where
  "gen xs = (let x = mt_twist (xs ! 0) (xs ! 1) (xs ! 156) in (mt_temper x, tl xs @ [x]))"

subsection \<open>Random addresses\<close>

text \<open>A call of \<^verbatim>\<open>AddTransaction\<close> guarded by \<^verbatim>\<open>WillAcceptTransaction\<close>, as every processor makes it.\<close>

definition offer :: "('m \<Rightarrow> bool res) \<Rightarrow> ('m \<Rightarrow> (bool \<times> 'm) res) \<Rightarrow> 'm \<Rightarrow> (bool \<times> 'm) res" where
  "offer will add m =
     rbind (will m) (\<lambda>accepts.
       if accepts then rbind (add m) (\<lambda>(_, m). Inr (True, m)) else Inr (False, m))"

definition offer_memory :: "Config \<Rightarrow> u64 \<Rightarrow> bool \<Rightarrow> MemorySystem \<Rightarrow> (bool \<times> MemorySystem) res" where
  "offer_memory cfg a w = offer (Memory_WillAccept cfg a w) (Memory_AddTransaction cfg a w)"

definition offer_pim :: "u64 \<Rightarrow> MemorySystem \<Rightarrow> (bool \<times> MemorySystem) res" where
  "offer_pim a = offer (\<lambda>m. Inr (Memory_WillAcceptPim m)) (Memory_AddPim a)"

record RandomCPU =
  rnd_memory_system :: MemorySystem
  rnd_clk :: u64
  last_addr :: u64
  last_write :: bool
  rnd_gen :: "u64 list"
  rnd_get_next :: bool

definition mk_random_cpu :: "MemorySystem \<Rightarrow> RandomCPU" where
  "mk_random_cpu m = \<lparr>rnd_memory_system = m, rnd_clk = 0, last_addr = 0, last_write = False, rnd_gen = mt_seed,
     rnd_get_next = True\<rparr>"

definition next_random :: "RandomCPU \<Rightarrow> RandomCPU" where
  "next_random c =
     (if rnd_get_next c then
        (case gen (rnd_gen c) of (a, g) \<Rightarrow> case gen g of (b, g) \<Rightarrow>
           c\<lparr>last_addr := a, last_write := (b mod 3 = 0), rnd_gen := g\<rparr>)
      else c)"

definition Random_ClockTick :: "Config \<Rightarrow> RandomCPU \<Rightarrow> (event list \<times> RandomCPU) res" where
  "Random_ClockTick cfg c =
     rbind (Memory_ClockTick cfg (rnd_memory_system c)) (\<lambda>(es, m).
     let c = next_random c in
     rbind (offer_memory cfg (last_addr c) (last_write c) m) (\<lambda>(b, m).
       Inr (es, c\<lparr>rnd_memory_system := m, rnd_get_next := b, rnd_clk := rnd_clk c + 1\<rparr>)))"

subsection \<open>Three arrays\<close>

record StreamCPU =
  str_memory_system :: MemorySystem
  str_clk :: u64
  addr_a :: u64
  addr_b :: u64
  addr_c :: u64
  offset :: u64
  str_gen :: "u64 list"
  inserted_a :: bool
  inserted_b :: bool
  inserted_c :: bool

definition array_size :: u64 where
  "array_size = 2097152"

definition stream_stride :: u64 where
  "stream_stride = 64"

definition mk_stream_cpu :: "MemorySystem \<Rightarrow> StreamCPU" where
  "mk_stream_cpu m = \<lparr>str_memory_system = m, str_clk = 0, addr_a = 0, addr_b = 0, addr_c = 0, offset = 0, str_gen = mt_seed,
     inserted_a = False, inserted_b = False, inserted_c = False\<rparr>"

definition next_arrays :: "StreamCPU \<Rightarrow> StreamCPU" where
  "next_arrays c =
     (if offset c \<ge> array_size \<or> str_clk c = 0 then
        (case gen (str_gen c) of (a, g) \<Rightarrow> case gen g of (b, g) \<Rightarrow> case gen g of (d, g) \<Rightarrow>
           c\<lparr>addr_a := a, addr_b := b, addr_c := d, offset := 0, str_gen := g\<rparr>)
      else c)"

definition insert_once :: "Config \<Rightarrow> bool \<Rightarrow> u64 \<Rightarrow> bool \<Rightarrow> MemorySystem \<Rightarrow> (bool \<times> MemorySystem) res" where
  "insert_once cfg inserted a w m = (if inserted then Inr (True, m) else offer_memory cfg a w m)"

definition next_element :: "StreamCPU \<Rightarrow> StreamCPU" where
  "next_element c =
     (if inserted_a c \<and> inserted_b c \<and> inserted_c c
      then c\<lparr>offset := offset c + stream_stride, inserted_a := False, inserted_b := False, inserted_c := False\<rparr>
      else c)"

definition Stream_ClockTick :: "Config \<Rightarrow> StreamCPU \<Rightarrow> (event list \<times> StreamCPU) res" where
  "Stream_ClockTick cfg c =
     rbind (Memory_ClockTick cfg (str_memory_system c)) (\<lambda>(es, m).
     let c = next_arrays c in
     rbind (insert_once cfg (inserted_a c) (addr_a c + offset c) False m) (\<lambda>(ia, m).
     rbind (insert_once cfg (inserted_b c) (addr_b c + offset c) False m) (\<lambda>(ib, m).
     rbind (insert_once cfg (inserted_c c) (addr_c c + offset c) True m) (\<lambda>(ic, m).
       let c = next_element (c\<lparr>str_memory_system := m, inserted_a := ia, inserted_b := ib, inserted_c := ic\<rparr>)
       in Inr (es, c\<lparr>str_clk := str_clk c + 1\<rparr>)))))"

subsection \<open>A trace\<close>

record TraceFile =
  trace_records :: "(u64 \<times> string \<times> u64) list"
  trailing_space :: bool
  eof :: bool

definition open_trace :: "(u64 \<times> string \<times> u64) list \<Rightarrow> bool \<Rightarrow> TraceFile" where
  "open_trace rs sp = \<lparr>trace_records = rs, trailing_space = sp, eof = False\<rparr>"

text \<open>
  Reading a record. At the end of the file nothing is read: address and cycle keep their values, the
  operation is the empty word, and the end-of-file flag is set. It is also set when the last number of the
  file ends with the file.
\<close>

definition read_record :: "TraceFile \<Rightarrow> Transaction \<Rightarrow> TraceFile \<times> Transaction" where
  "read_record f t =
     (case trace_records f of
        [] \<Rightarrow> (f\<lparr>eof := True\<rparr>, read_transaction (trans_addr t) '''' (added_cycle t) t)
      | (a, mem_op, cycle) # rs \<Rightarrow>
          (f\<lparr>trace_records := rs, eof := (rs = [] \<and> \<not> trailing_space f)\<rparr>, read_transaction a mem_op cycle t))"

record TraceBasedCPU =
  trc_memory_system :: MemorySystem
  trc_clk :: u64
  trace_file :: TraceFile
  cur_trans :: Transaction
  trc_get_next :: bool

definition mk_trace_cpu :: "MemorySystem \<Rightarrow> TraceFile option \<Rightarrow> TraceBasedCPU res" where
  "mk_trace_cpu m f =
     (case f of
        None \<Rightarrow> Inl (AbruptExit ''cpu.cc'' 69)
      | Some f \<Rightarrow> Inr \<lparr>trc_memory_system = m, trc_clk = 0, trace_file = f, cur_trans = mk_transaction 0 False, trc_get_next = True\<rparr>)"

definition fetch :: "TraceBasedCPU \<Rightarrow> TraceBasedCPU" where
  "fetch c =
     (if trc_get_next c then
        (case read_record (trace_file c) (cur_trans c) of (f, t) \<Rightarrow> c\<lparr>trc_get_next := False, trace_file := f, cur_trans := t\<rparr>)
      else c)"

definition Trace_ClockTick :: "Config \<Rightarrow> TraceBasedCPU \<Rightarrow> (event list \<times> TraceBasedCPU) res" where
  "Trace_ClockTick cfg c =
     rbind (Memory_ClockTick cfg (trc_memory_system c)) (\<lambda>(es, m).
     rbind
       (if eof (trace_file c) then Inr (c\<lparr>trc_memory_system := m\<rparr>)
        else
          let c = fetch c; t = cur_trans c in
          if added_cycle t \<le> trc_clk c \<and> active t then
            rbind (if is_pim t then offer_pim (trans_addr t) m else offer_memory cfg (trans_addr t) (is_write t) m) (\<lambda>(b, m).
              Inr (c\<lparr>trc_memory_system := m, trc_get_next := b\<rparr>))
          else Inr (c\<lparr>trc_memory_system := m\<rparr>))
       (\<lambda>c. Inr (es, c\<lparr>trc_clk := trc_clk c + 1\<rparr>)))"

subsection \<open>The main program\<close>

datatype CPU = Random RandomCPU | Stream StreamCPU | Trace TraceBasedCPU

fun CPU_ClockTick :: "Config \<Rightarrow> CPU \<Rightarrow> (event list \<times> CPU) res" where
  "CPU_ClockTick cfg (Random c) = rbind (Random_ClockTick cfg c) (\<lambda>(es, c). Inr (es, Random c))"
| "CPU_ClockTick cfg (Stream c) = rbind (Stream_ClockTick cfg c) (\<lambda>(es, c). Inr (es, Stream c))"
| "CPU_ClockTick cfg (Trace c) = rbind (Trace_ClockTick cfg c) (\<lambda>(es, c). Inr (es, Trace c))"

fun CPU_memory :: "CPU \<Rightarrow> MemorySystem" where
  "CPU_memory (Random c) = rnd_memory_system c"
| "CPU_memory (Stream c) = str_memory_system c"
| "CPU_memory (Trace c) = trc_memory_system c"

text \<open>
  The arguments after parsing: the configuration, the number of cycles, the kind of stream and, if one is
  named, the trace file, \<open>None\<close> inside if it does not exist.
\<close>

record main_args =
  config_arg :: ini
  num_cycles :: u64
  stream_type :: string
  trace_arg :: "TraceFile option option"

definition mk_cpu :: "main_args \<Rightarrow> (Config \<times> CPU) res" where
  "mk_cpu args =
     rbind (mk_memory_system (config_arg args)) (\<lambda>(cfg, m).
       case trace_arg args of
         Some f \<Rightarrow> rbind (mk_trace_cpu m f) (\<lambda>c. Inr (cfg, Trace c))
       | None \<Rightarrow>
           if stream_type args = ''stream'' \<or> stream_type args = ''s'' then Inr (cfg, Stream (mk_stream_cpu m))
           else Inr (cfg, Random (mk_random_cpu m)))"

text \<open>
  The loop casts every processor to the trace-based one to ask whether the memory is to be turned off; what
  it reads is the memory system of the common base class.
\<close>

fun main_loop :: "Config \<Rightarrow> nat \<Rightarrow> event list \<Rightarrow> CPU \<Rightarrow> (event list \<times> CPU) res" where
  "main_loop cfg 0 es c = Inr (es, c)"
| "main_loop cfg (Suc n) es c =
     rbind (CPU_ClockTick cfg c) (\<lambda>(fs, c).
       if turnOff (CPU_memory c) then Inr (es @ fs, c) else main_loop cfg n (es @ fs) c)"

definition main :: "main_args \<Rightarrow> (event list \<times> MemorySystem) res" where
  "main args =
     rbind (mk_cpu args) (\<lambda>(cfg, c).
     rbind (main_loop cfg (unat (num_cycles args)) [] c) (\<lambda>(es, c).
     rbind (Memory_PrintStats cfg (CPU_memory c)) (\<lambda>m. Inr (es, m))))"

end
