(* ===== verification/Cpu_Safety.thy ===== *)
theory Cpu_Safety
  imports Hmc_Safety Cpu "HOL-Library.Sublist"
begin

section \<open>The processors and the main program: runs end, traces are simulated in order\<close>

text \<open>
  Properties of the models of \<^verbatim>\<open>src/memory_system.cc\<close>, \<^verbatim>\<open>src/cpu.cc\<close> and \<^verbatim>\<open>src/main.cc\<close>. The locale \<open>memory_port\<close> is
  what a processor relies on: a clock cycle returns, asking returns, and a transaction that is accepted can be
  added; both kinds of memory provide it as long as their clocks have room. A run of the main program is shown
  to end for every usable configuration, and a trace to be simulated in order up to its first record that is
  no write.
\<close>

subsection \<open>What a processor relies on\<close>

locale memory_port =
  fixes inv :: "nat \<Rightarrow> 'm \<Rightarrow> bool" and content :: "'m \<Rightarrow> event multiset"
    and tick :: "'m \<Rightarrow> (event list \<times> 'm) res"
    and will :: "u64 \<Rightarrow> bool \<Rightarrow> 'm \<Rightarrow> bool res" and add :: "u64 \<Rightarrow> bool \<Rightarrow> 'm \<Rightarrow> (bool \<times> 'm) res"
  assumes tick_law: "inv (Suc n) m \<Longrightarrow> \<exists>es m'. tick m = Inr (es, m') \<and> inv n m' \<and> content m = content m' + mset es"
    and will_law: "inv n m \<Longrightarrow> \<exists>b. will a w m = Inr b"
    and add_law: "inv n m \<Longrightarrow> will a w m = Inr True \<Longrightarrow>
      \<exists>m'. add a w m = Inr (True, m') \<and> inv n m' \<and> content m' = add_mset (a, w) (content m)"
begin

lemma offer_ok:
  assumes "inv n m"
  shows "\<exists>b m'. offer (will a w) (add a w) m = Inr (b, m') \<and> inv n m' \<and>
    content m' = content m + (if b then {#(a, w)#} else {#})"
proof -
  obtain b where b: "will a w m = Inr b" using will_law [OF assms] by blast
  show ?thesis
  proof (cases b)
    case True
    then show ?thesis using add_law [OF assms, of a w] b by (auto simp: offer_def)
  next
    case False
    with b have "offer (will a w) (add a w) m = Inr (False, m)" by (simp add: offer_def)
    then show ?thesis using assms by auto
  qed
qed

text \<open>One cycle of a processor: the memory advances and one transaction is offered to it.\<close>

lemma cycle_ok:
  assumes "inv (Suc n) m"
  shows "\<exists>es m1 b m2. tick m = Inr (es, m1) \<and> offer (will a w) (add a w) m1 = Inr (b, m2) \<and> inv n m1 \<and> inv n m2 \<and>
    content m = content m1 + mset es \<and> content m2 = content m1 + (if b then {#(a, w)#} else {#})"
  using tick_law [OF assms] offer_ok by blast

end

fun mem_inv :: "Config \<Rightarrow> nat \<Rightarrow> MemorySystem \<Rightarrow> bool" where
  "mem_inv cfg n (Jedec s) \<longleftrightarrow> system_ok cfg \<and> jedec_inv cfg s"
| "mem_inv cfg n (Cube s) \<longleftrightarrow>
     hmc_ok cfg \<and> hmc_inv cfg s \<and> hmc_time s \<and> unat (dram_ps s) + 800 * n + 800 < 2 ^ 64"

fun mem_content :: "MemorySystem \<Rightarrow> event multiset" where
  "mem_content (Jedec s) = held (ctrls s)"
| "mem_content (Cube s) = outstanding s"

lemma Memory_ClockTick_ok:
  assumes "mem_inv cfg (Suc n) m"
  shows "\<exists>es m'. Memory_ClockTick cfg m = Inr (es, m') \<and> mem_inv cfg n m' \<and> mem_content m = mem_content m' + mset es"
proof (cases m)
  case (Jedec s)
  then show ?thesis using Jedec_ClockTick_ok [of cfg s] assms by (fastforce simp: system_ok_def)
next
  case (Cube s)
  then have inv: "hmc_inv cfg s" "hmc_time s" "clock_room s" and cfg: "hmc_ok cfg"
    and room: "unat (dram_ps s) + 800 * Suc n + 800 < 2 ^ 64"
    using assms by (auto simp: clock_room_def)
  then obtain es s' where s': "Hmc_ClockTick cfg s = Inr (es, s')" "hmc_inv cfg s'" "hmc_time s'"
    "outstanding s = outstanding s' + mset es" "dram_ps s' = dram_ps s + 800"
    using Hmc_ClockTick_ok [of cfg s] by (auto simp: hmc_ok_def system_ok_def)
  have "unat (dram_ps s') = unat (dram_ps s) + 800"
    using room unat_plus_small [of "dram_ps s" 800] s'(5) by simp
  then show ?thesis using s' Cube cfg room by simp
qed

interpretation memory: memory_port "mem_inv cfg" mem_content "Memory_ClockTick cfg" "Memory_WillAccept cfg" "Memory_AddTransaction cfg"
  for cfg
proof (unfold_locales, goal_cases)
  case (1 n m)
  then show ?case by (rule Memory_ClockTick_ok)
next
  case (2 n m a w)
  then show ?case using Jedec_WillAccept_ok by (cases m) (auto simp: system_ok_def)
next
  case (3 n m a w)
  show ?case
  proof (cases m)
    case (Jedec s)
    then show ?thesis using 3 Jedec_AddTransaction_ok [of cfg s a w] by (auto simp: system_ok_def)
  next
    case (Cube s)
    with 3 have i: "hmc_ok cfg" "hmc_inv cfg s" "hmc_time s" "unat (dram_ps s) + 800 * n + 800 < 2 ^ 64" "Hmc_WillAccept s" by simp_all
    then obtain s' where s': "Hmc_AddTransaction cfg a w s = Inr (True, s')" "hmc_inv cfg s'" "hmc_clocks s' = hmc_clocks s"
      "outstanding s' = add_mset (a, w) (outstanding s)"
      using Hmc_AddTransaction_ok [of cfg s a w] by (auto simp: hmc_ok_def system_ok_def)
    then have "dram_ps s' = dram_ps s" by (simp add: hmc_clocks_def)
    then show ?thesis using i s' hmc_time_clocks [OF s'(3)] Cube by simp
  qed
qed

lemmas offer_memory_ok = memory.offer_ok [folded offer_memory_def]
lemmas memory_cycle_ok = memory.cycle_ok [folded offer_memory_def]

subsection \<open>A cycle of each processor\<close>

lemma next_random_memory [simp]: "rnd_memory_system (next_random c) = rnd_memory_system c"
  by (simp add: next_random_def split: prod.splits)

lemma Random_ClockTick_ok:
  assumes "mem_inv cfg (Suc n) (rnd_memory_system c)"
  shows "\<exists>es c'. Random_ClockTick cfg c = Inr (es, c') \<and> mem_inv cfg n (rnd_memory_system c')"
  using memory_cycle_ok [OF assms, of "last_addr (next_random c)" "last_write (next_random c)"]
  by (auto simp: Random_ClockTick_def Let_def)

lemma insert_once_ok:
  "mem_inv cfg n m \<Longrightarrow> \<exists>b m'. insert_once cfg i a w m = Inr (b, m') \<and> mem_inv cfg n m'"
  using offer_memory_ok [of cfg n m a w] by (auto simp: insert_once_def)

lemma next_arrays_memory [simp]: "str_memory_system (next_arrays c) = str_memory_system c"
  by (simp add: next_arrays_def split: prod.splits)

lemma next_element_memory [simp]: "str_memory_system (next_element c) = str_memory_system c"
  by (simp add: next_element_def)

lemma Stream_ClockTick_ok:
  assumes "mem_inv cfg (Suc n) (str_memory_system c)"
  shows "\<exists>es c'. Stream_ClockTick cfg c = Inr (es, c') \<and> mem_inv cfg n (str_memory_system c')"
proof -
  let ?c = "next_arrays c"
  obtain es m where m: "Memory_ClockTick cfg (str_memory_system c) = Inr (es, m)" "mem_inv cfg n m"
    using Memory_ClockTick_ok [OF assms] by blast
  obtain ia ma where a: "insert_once cfg (inserted_a ?c) (addr_a ?c + offset ?c) False m = Inr (ia, ma)" "mem_inv cfg n ma"
    using insert_once_ok [OF m(2)] by blast
  obtain ib mb where b: "insert_once cfg (inserted_b ?c) (addr_b ?c + offset ?c) False ma = Inr (ib, mb)" "mem_inv cfg n mb"
    using insert_once_ok [OF a(2)] by blast
  obtain ic mc where c: "insert_once cfg (inserted_c ?c) (addr_c ?c + offset ?c) True mb = Inr (ic, mc)" "mem_inv cfg n mc"
    using insert_once_ok [OF b(2)] by blast
  show ?thesis using m a b c by (simp add: Stream_ClockTick_def Let_def)
qed

text \<open>A processor with a trace that has no processing transactions.\<close>

definition no_pim :: "(u64 \<times> string \<times> u64) list \<Rightarrow> bool" where
  "no_pim rs \<longleftrightarrow> (\<forall>(a, mem_op, cycle) \<in> set rs. mem_op \<noteq> ''PIM'')"

definition plain_trace :: "TraceBasedCPU \<Rightarrow> bool" where
  "plain_trace c \<longleftrightarrow> no_pim (trace_records (trace_file c)) \<and> \<not> is_pim (cur_trans c) \<and> complete_cycle (cur_trans c) = 0"

lemma fetch_plain: "plain_trace c \<Longrightarrow> plain_trace (fetch c)"
  by (auto simp: plain_trace_def fetch_def read_record_def read_transaction_def no_pim_def Let_def split: list.splits)

lemma fetch_memory [simp]: "trc_memory_system (fetch c) = trc_memory_system c" "trc_clk (fetch c) = trc_clk c"
  by (auto simp: fetch_def split: prod.splits)

text \<open>The transaction that a cycle adds to the memory.\<close>

definition trace_added :: "TraceBasedCPU \<Rightarrow> TraceBasedCPU \<Rightarrow> Transaction list" where
  "trace_added c c' = (if \<not> eof (trace_file c) \<and> trc_get_next c' then [cur_trans c'] else [])"

lemma Trace_ClockTick_ok:
  assumes inv: "mem_inv cfg (Suc n) (trc_memory_system c)" "plain_trace c"
  shows "\<exists>es c'. Trace_ClockTick cfg c = Inr (es, c') \<and> mem_inv cfg n (trc_memory_system c') \<and> plain_trace c' \<and>
    mem_content (trc_memory_system c) + mset (map as_event (trace_added c c')) = mem_content (trc_memory_system c') + mset es"
proof -
  let ?c = "fetch c"
  let ?t = "cur_trans ?c"
  have p: "plain_trace ?c" "\<not> is_pim ?t" using fetch_plain [OF inv(2)] by (auto simp: plain_trace_def)
  have g: "\<not> trc_get_next ?c" by (simp add: fetch_def split: prod.splits)
  obtain es m b m' where m: "Memory_ClockTick cfg (trc_memory_system c) = Inr (es, m)" "mem_inv cfg n m"
    "mem_content (trc_memory_system c) = mem_content m + mset es"
    and o: "offer_memory cfg (trans_addr ?t) (is_write ?t) m = Inr (b, m')" "mem_inv cfg n m'"
    "mem_content m' = mem_content m + (if b then {#(trans_addr ?t, is_write ?t)#} else {#})"
    using memory_cycle_ok [OF inv(1), of "trans_addr ?t" "is_write ?t"] by metis
  consider "eof (trace_file c)" | "\<not> eof (trace_file c)" "added_cycle ?t \<le> trc_clk c \<and> active ?t" |
    "\<not> eof (trace_file c)" "\<not> (added_cycle ?t \<le> trc_clk c \<and> active ?t)" by blast
  then show ?thesis
  proof cases
    case 1
    then show ?thesis using m inv(2) by (simp add: Trace_ClockTick_def trace_added_def plain_trace_def)
  next
    case 2
    then have "Trace_ClockTick cfg c = Inr (es, ?c\<lparr>trc_memory_system := m', trc_get_next := b, trc_clk := trc_clk c + 1\<rparr>)"
      using m o p by (simp add: Trace_ClockTick_def Let_def)
    then show ?thesis using m o p 2 by (simp add: trace_added_def plain_trace_def as_event_def)
  next
    case 3
    then have "Trace_ClockTick cfg c = Inr (es, ?c\<lparr>trc_memory_system := m, trc_clk := trc_clk c + 1\<rparr>)"
      using m p by (auto simp: Trace_ClockTick_def Let_def)
    then show ?thesis using m p 3 g by (simp add: trace_added_def plain_trace_def)
  qed
qed

subsection \<open>The order of a trace\<close>

definition trace_trans :: "u64 \<times> string \<times> u64 \<Rightarrow> Transaction" where
  "trace_trans r = (case r of (a, mem_op, cycle) \<Rightarrow> read_transaction a mem_op cycle (mk_transaction 0 False))"

lemma read_transaction_same:
  "complete_cycle t = 0 \<Longrightarrow> read_transaction a mem_op cycle t = trace_trans (a, mem_op, cycle)"
  by (simp add: read_transaction_def trace_trans_def mk_transaction_def Let_def)

definition trace_todo :: "TraceBasedCPU \<Rightarrow> Transaction list" where
  "trace_todo c = (if trc_get_next c then [] else [cur_trans c]) @ map trace_trans (trace_records (trace_file c))"

lemma todo_fetch:
  assumes "plain_trace c"
  shows "takeWhile active (trace_todo (fetch c)) = takeWhile active (trace_todo c)"
  using assms read_transaction_same [of "cur_trans c"]
  by (auto simp: fetch_def trace_todo_def read_record_def plain_trace_def split: list.splits)
    (auto simp: read_transaction_def trace_trans_def mk_transaction_def Let_def)

lemma Trace_ClockTick_order:
  assumes tick: "Trace_ClockTick cfg c = Inr (es, c')" and p: "plain_trace c"
  shows "takeWhile active (trace_todo c) = trace_added c c' @ takeWhile active (trace_todo c')"
proof -
  let ?c = "fetch c"
  have g: "\<not> trc_get_next ?c" by (simp add: fetch_def split: prod.splits)
  from tick consider "eof (trace_file c)" "trace_todo c' = trace_todo c" |
    b m where "\<not> eof (trace_file c)" "active (cur_trans ?c)" "c' = ?c\<lparr>trc_memory_system := m, trc_get_next := b, trc_clk := trc_clk c + 1\<rparr>" |
    m where "\<not> eof (trace_file c)" "c' = ?c\<lparr>trc_memory_system := m, trc_clk := trc_clk c + 1\<rparr>"
    by (auto simp: Trace_ClockTick_def Let_def trace_todo_def elim!: rbindE split: if_splits)
  then show ?thesis
  proof cases
    case 1
    then show ?thesis by (simp add: trace_added_def)
  next
    case 2
    then have "takeWhile active (trace_todo ?c) = trace_added c c' @ takeWhile active (trace_todo c')"
      using g by (simp add: trace_added_def trace_todo_def)
    then show ?thesis using todo_fetch [OF p] by simp
  next
    case 3
    then have "trace_added c c' = []" "trace_todo c' = trace_todo ?c"
      using g by (simp_all add: trace_added_def trace_todo_def)
    then show ?thesis using todo_fetch [OF p] by simp
  qed
qed

fun trace_run :: "Config \<Rightarrow> nat \<Rightarrow> TraceBasedCPU \<Rightarrow> (event list \<times> Transaction list \<times> TraceBasedCPU) res" where
  "trace_run cfg 0 c = Inr ([], [], c)"
| "trace_run cfg (Suc n) c =
     rbind (Trace_ClockTick cfg c) (\<lambda>(es, c').
     rbind (trace_run cfg n c') (\<lambda>(fs, ts, d). Inr (es @ fs, trace_added c c' @ ts, d)))"

lemma balance_trans:
  fixes a b c :: "'a multiset"
  assumes "a + x = b + e" "b + y = c + f"
  shows "a + (x + y) = c + (e + f)"
proof -
  have "a + (x + y) = (a + x) + y" by (simp only: add.assoc)
  also have "\<dots> = (b + y) + e" unfolding assms(1) by (simp only: ac_simps)
  finally show ?thesis unfolding assms(2) by (simp only: ac_simps)
qed

lemma trace_run_ok:
  assumes "mem_inv cfg n (trc_memory_system c)" "plain_trace c"
  shows "\<exists>es ts c'. trace_run cfg n c = Inr (es, ts, c') \<and> prefix ts (takeWhile active (trace_todo c)) \<and>
    mem_content (trc_memory_system c) + mset (map as_event ts) = mem_content (trc_memory_system c') + mset es"
  using assms
proof (induction n arbitrary: c)
  case (Suc n)
  obtain es c1 where t: "Trace_ClockTick cfg c = Inr (es, c1)" "mem_inv cfg n (trc_memory_system c1)" "plain_trace c1"
    "mem_content (trc_memory_system c) + mset (map as_event (trace_added c c1)) = mem_content (trc_memory_system c1) + mset es"
    using Trace_ClockTick_ok [OF Suc.prems] by blast
  obtain fs ts c2 where r: "trace_run cfg n c1 = Inr (fs, ts, c2)" "prefix ts (takeWhile active (trace_todo c1))"
    "mem_content (trc_memory_system c1) + mset (map as_event ts) = mem_content (trc_memory_system c2) + mset fs"
    using Suc.IH [OF t(2,3)] by blast
  have "prefix (trace_added c c1 @ ts) (takeWhile active (trace_todo c))"
    using Trace_ClockTick_order [OF t(1) Suc.prems(2)] r(2) by simp
  moreover have "mem_content (trc_memory_system c) + mset (map as_event (trace_added c c1 @ ts)) =
      mem_content (trc_memory_system c2) + mset (es @ fs)"
    using balance_trans [OF t(4) r(3)] by simp
  ultimately show ?case using t(1) r(1) by simp
qed simp

subsection \<open>Construction and the main loop\<close>

text \<open>The configurations for which the memory is shown to be constructed and to run.\<close>

definition usable :: "Config \<Rightarrow> bool" where
  "usable cfg \<longleftrightarrow>
     1 \<le> channels cfg \<and> 1 \<le> ranks cfg \<and> 1 \<le> bankgroups cfg \<and> 1 \<le> banks_per_group cfg \<and> 1 \<le> rows cfg \<and>
     \<not> enable_self_refresh cfg \<and> epoch_period cfg \<noteq> 0 \<and> queue_structure_name cfg \<in> {''PER_BANK'', ''PER_RANK''} \<and>
     0 \<le> cmd_queue_size cfg \<and> 0 \<le> trans_queue_size cfg \<and>
     (case mk_refresh cfg of Inl e \<Rightarrow> False | Inr rf \<Rightarrow> 0 < refresh_interval rf \<and> refresh_interval rf < 2 ^ 31) \<and>
     (IsHMC cfg \<longrightarrow>
        block_size cfg \<in> {0, 32, 64, 128, 256} \<and> 1 \<le> num_links cfg \<and> num_links cfg < 2 ^ 31 \<and>
        (case SetClockRatio cfg of Inl e \<Rightarrow> False | Inr (d, p) \<Rightarrow> p \<noteq> 0))"

lemma mk_memory_system_ok:
  assumes "mk_config rd = Inr cfg" and "usable cfg" and n: "800 * n + 800 < 2 ^ 64"
  shows "\<exists>m. mk_memory_system rd = Inr (cfg, m) \<and> mem_inv cfg n m \<and> mem_content m = {#}"
proof -
  from assms(2) obtain rf where rf: "mk_refresh cfg = Inr rf" "0 < refresh_interval rf" "refresh_interval rf < 2 ^ 31"
    by (auto simp: usable_def split: sum.splits)
  have u: "1 \<le> channels cfg" "1 \<le> ranks cfg" "1 \<le> bankgroups cfg" "1 \<le> banks_per_group cfg" "1 \<le> rows cfg"
    "\<not> enable_self_refresh cfg" "epoch_period cfg \<noteq> 0" "queue_structure_name cfg \<in> {''PER_BANK'', ''PER_RANK''}"
    "0 \<le> cmd_queue_size cfg" "0 \<le> trans_queue_size cfg" using assms(2) by (simp_all add: usable_def)
  have ok: "system_ok cfg" by (rule system_ok_mk_config [OF assms(1) u(1-7)])
  note params = mk_config_params_ok [OF assms(1)]
  then have b: "0 \<le> banks cfg" using u by (simp add: params_ok_def)
  have d: "dims_wf cfg" "0 < ranks cfg" "refresh_policy cfg \<noteq> RefreshPolicy_SIZE" "refresh_interval rf < 2 ^ 63"
    using ok params u(2) rf(3) by (simp_all add: system_ok_def config_ok_def params_ok_def)
  show ?thesis
  proof (cases "IsHMC cfg")
    case False
    obtain s where s: "mk_jedec cfg = Inr s"
      by (rule mk_jedec_ok [OF False _ _ _ _ b u(8-10) rf(1)]) (use u in simp_all)
    from mk_jedec_inv [OF d(1-3) rf(1,2) d(4) s] show ?thesis
      using False s ok assms(1) by (simp add: mk_memory_system_def)
  next
    case True
    obtain r p where p: "SetClockRatio cfg = Inr (r, p)" "p \<noteq> 0" and h: "hmc_ok cfg" "1 \<le> num_links cfg" "num_links cfg < 2 ^ 31"
      using assms(2) True ok by (auto simp: usable_def hmc_ok_def block_ok_def split: sum.splits)
    have r: "r = 800" using SetClockRatio_bounds(1) [OF p(1)] .
    obtain s where s: "mk_hmc cfg = Inr s"
      by (rule mk_hmc_ok [OF True p(1) _ _ _ _ _ b u(8-10) rf(1)]) (use u h in simp_all)
    have "0 < num_links cfg" using h by simp
    from mk_hmc_inv [OF d(1-3) rf(1,2) d(4) this h(3) p(1) [unfolded r] p(2) s] show ?thesis
      using True s h assms(1) n by (simp add: mk_memory_system_def)
  qed
qed

fun cpu_inv :: "Config \<Rightarrow> nat \<Rightarrow> CPU \<Rightarrow> bool" where
  "cpu_inv cfg n (Random c) = mem_inv cfg n (rnd_memory_system c)"
| "cpu_inv cfg n (Stream c) = mem_inv cfg n (str_memory_system c)"
| "cpu_inv cfg n (Trace c) = (mem_inv cfg n (trc_memory_system c) \<and> plain_trace c)"

lemma CPU_ClockTick_ok:
  "cpu_inv cfg (Suc n) c \<Longrightarrow> \<exists>es c'. CPU_ClockTick cfg c = Inr (es, c') \<and> cpu_inv cfg n c'"
  using Random_ClockTick_ok Stream_ClockTick_ok Trace_ClockTick_ok by (cases c) fastforce+

lemma main_loop_ok:
  "cpu_inv cfg n c \<Longrightarrow> \<exists>fs c' k. main_loop cfg n es c = Inr (es @ fs, c') \<and> cpu_inv cfg k c'"
proof (induction n arbitrary: es c)
  case (Suc n)
  obtain fs c1 where c1: "CPU_ClockTick cfg c = Inr (fs, c1)" "cpu_inv cfg n c1" using CPU_ClockTick_ok [OF Suc.prems] by blast
  then show ?case using Suc.IH [OF c1(2), of "es @ fs"] by auto
qed auto

lemma cpu_inv_memory: "cpu_inv cfg n c \<Longrightarrow> mem_inv cfg n (CPU_memory c)"
  by (cases c) auto

lemma PrintFinalStats_ok:
  assumes "ctrl_inv cfg c"
  shows "\<exists>c'. Controller_PrintFinalStats cfg c = Inr c' \<and> ctrl_inv cfg c' \<and> in_flight c' = in_flight c"
proof -
  have "stats_ok cfg (simple_stats c)" using assms by (simp add: ctrl_inv_def)
  then obtain st where st: "UpdateFinalStats cfg (simple_stats c) = Inr st" "stats_ok cfg st" by (rule UpdateFinalStats_ok)
  have "ctrl_inv cfg (c\<lparr>simple_stats := st\<rparr>)" by (rule ctrl_inv_stats [OF assms st(2)])
  with st(1) show ?thesis by (simp add: Controller_PrintFinalStats_def in_flight_def)
qed

lemma Memory_PrintStats_ok:
  assumes "mem_inv cfg n m"
  shows "\<exists>m'. Memory_PrintStats cfg m = Inr m' \<and> mem_content m' = mem_content m"
proof -
  have pass: "\<exists>ds. Base_PrintStats cfg cs = Inr ds \<and> held ds = held cs" if "list_all (ctrl_inv cfg) cs" for cs
    using controllers_pass [OF PrintFinalStats_ok that, of "[]"] unfolding Base_PrintStats_def by fastforce
  show ?thesis
  proof (cases m)
    case (Jedec s)
    then show ?thesis using pass [of "ctrls s"] assms by (auto simp: jedec_inv_def)
  next
    case (Cube s)
    then show ?thesis
      using pass [of "vaults s"] assms by (auto simp: hmc_inv_def hmc_wf_def outstanding_def side_defs)
  qed
qed

subsection \<open>Properties\<close>

text \<open>
  C2. A simulation runs to its end: for every usable configuration, Jedec memory or memory cube, and every
  number of cycles below 2^54, the main program with random addresses, with array streams or with an existing
  trace file without processing transactions constructs the memory, passes all its clock cycles and computes
  the final statistics without an abort, an access outside a container or an endless loop.
\<close>

theorem simulation_ends:
  assumes "mk_config (config_arg args) = Inr cfg" and "usable cfg" and "unat (num_cycles args) < 2 ^ 54"
    and "trace_arg args = None \<or> (\<exists>rs sp. trace_arg args = Some (Some (open_trace rs sp)) \<and> no_pim rs)"
  shows "\<exists>es m. main args = Inr (es, m)"
proof -
  let ?n = "unat (num_cycles args)"
  obtain m where m: "mk_memory_system (config_arg args) = Inr (cfg, m)" "mem_inv cfg ?n m"
    using mk_memory_system_ok [OF assms(1,2), of ?n] assms(3) by auto
  have "\<exists>c. mk_cpu args = Inr (cfg, c) \<and> cpu_inv cfg ?n c"
    using assms(4) m
    by (auto simp: mk_cpu_def mk_trace_cpu_def mk_stream_cpu_def mk_random_cpu_def open_trace_def plain_trace_def mk_transaction_def)
  then obtain c where c: "mk_cpu args = Inr (cfg, c)" "cpu_inv cfg ?n c" by blast
  obtain es c' k where r: "main_loop cfg ?n [] c = Inr (es, c')" "cpu_inv cfg k c'" using main_loop_ok [OF c(2), of "[]"] by auto
  obtain m' where "Memory_PrintStats cfg (CPU_memory c') = Inr m'"
    using Memory_PrintStats_ok [OF cpu_inv_memory [OF r(2)]] by blast
  with c(1) r(1) show ?thesis by (simp add: main_def)
qed

lemma usable_default:
  obtains cfg where "mk_config default_ini = Inr cfg" "usable cfg" "\<not> IsHMC cfg"
proof -
  have "rbind (mk_config default_ini) (\<lambda>cfg. Inr (usable cfg, IsHMC cfg)) = Inr (True, False)" by code_simp
  then show thesis by (elim rbindE) (use that in auto)
qed

lemma usable_hmc:
  obtains cfg where "mk_config hmc_ini = Inr cfg" "usable cfg" "IsHMC cfg"
proof -
  have "rbind (mk_config hmc_ini) (\<lambda>cfg. Inr (usable cfg, IsHMC cfg)) = Inr (True, True)" by code_simp
  then show thesis by (elim rbindE) (use that in auto)
qed

definition demo_args :: "ini \<Rightarrow> main_args" where
  "demo_args rd = \<lparr>config_arg = rd, num_cycles = 100000, stream_type = ''random'', trace_arg = None\<rparr>"

theorem simulation_ends_witness:
  "(\<exists>es m. main (demo_args default_ini) = Inr (es, m)) \<and> (\<exists>es m. main (demo_args hmc_ini) = Inr (es, m))"
proof
  obtain cfg where c: "mk_config default_ini = Inr cfg" "usable cfg" by (rule usable_default)
  show "\<exists>es m. main (demo_args default_ini) = Inr (es, m)"
    by (rule simulation_ends [OF _ c(2)]) (use c in \<open>simp_all add: demo_args_def\<close>)
  obtain cfg' where d: "mk_config hmc_ini = Inr cfg'" "usable cfg'" by (rule usable_hmc)
  show "\<exists>es m. main (demo_args hmc_ini) = Inr (es, m)"
    by (rule simulation_ends [OF _ d(2)]) (use d in \<open>simp_all add: demo_args_def\<close>)
qed



text \<open>
  The last record of a trace is lost if nothing follows it in the file and the memory cannot take it in the
  cycle that reads it: the end-of-file flag is set by then, and the processor looks at it first.
\<close>

lemma eof_stops: "eof (trace_file c) \<Longrightarrow> Trace_ClockTick cfg c = Inr (es, c') \<Longrightarrow> eof (trace_file c') \<and> trace_added c c' = []"
  by (auto simp: Trace_ClockTick_def trace_added_def elim!: rbindE)

lemma last_record_lost:
  assumes "trace_file c = open_trace [(a, mem_op, cycle)] False" and "trc_get_next c" and "trc_clk c < cycle"
    and "Trace_ClockTick cfg c = Inr (es, c')"
  shows "eof (trace_file c') \<and> trace_added c c' = []"
  using assms
  by (auto simp: Trace_ClockTick_def trace_added_def fetch_def read_record_def open_trace_def read_transaction_def Let_def
      elim!: rbindE split: if_splits)

end
