(* ===== verification/Thermal_Solver.thy ===== *)
theory Thermal_Solver
  imports Configuration
begin

section \<open>The solver of the thermal model\<close>

text \<open>
  Models \<^verbatim>\<open>src/thermal_config.h\<close> and \<^verbatim>\<open>src/thermal_solver.c\<close>: the network of thermal resistances of a stacked
  chip as a sparse matrix, the capacitances of its layers, the right-hand side of the steady state and the
  explicit time steps of the transient solver. The linear solver \<^verbatim>\<open>pdgssv\<close> is library code and a parameter.

  Doubles are real numbers. The matrix keeps row and column numbers in doubles, which are exact for these
  sizes; here they are integers, so the conversions \<^verbatim>\<open>(int)(x + 0.01)\<close> are the identity. Memory that is
  allocated and freed, and messages, are left out; an access outside an array fails.

  The lemmas describe the rows of the matrix: how many entries there are, that they are ordered, that the
  matrix is symmetric and that a row sums up to zero or, next to the heat sink, to the conductance to the
  environment. From them follows the maximum principle of a time step.
\<close>

subsection \<open>Constants and layers\<close>

definition T0 :: real where "T0 = 27315 / 100"
definition R_TSV :: real where "R_TSV = 5 / 10 ^ 6"
definition Ksi :: real where "Ksi = 148"
definition Kcu :: real where "Kcu = 401"
definition Kin :: real where "Kin = 15 / 10"
definition Khs :: real where "Khs = 4"
definition Csi :: real where "Csi = 1660000"
definition Ccu :: real where "Ccu = 3200000"
definition Cin :: real where "Cin = 1650000"
definition Chs :: real where "Chs = 2420000"
definition Hsi :: real where "Hsi = 400 / 10 ^ 6"
definition Hcu :: real where "Hcu = 5 / 10 ^ 6"
definition Hin :: real where "Hin = 20 / 10 ^ 6"
definition Hhs :: real where "Hhs = 1000 / 10 ^ 6"

lemmas material_defs = Ksi_def Kcu_def Kin_def Khs_def Csi_def Ccu_def Cin_def Chs_def Hsi_def Hcu_def Hin_def
  Hhs_def

text \<open>The arguments that every routine of the solver takes: the size of the chip, its tiers and its grid.\<close>

record Chip =
  W :: real
  Lc :: real
  tiers :: int
  dim_x :: int
  dim_z :: int

abbreviation numLayer :: "Chip \<Rightarrow> int" where "numLayer c \<equiv> tiers c * 3"
abbreviation plane :: "Chip \<Rightarrow> int" where "plane c \<equiv> dim_x c * dim_z c"
abbreviation gridX :: "Chip \<Rightarrow> real" where "gridX c \<equiv> W c / real_of_int (dim_x c)"
abbreviation gridZ :: "Chip \<Rightarrow> real" where "gridZ c \<equiv> Lc c / real_of_int (dim_z c)"

definition layer_K :: "int \<Rightarrow> real" where
  "layer_K i = (if i mod 3 = 0 then Ksi else if i mod 3 = 1 then Kcu else Kin)"

definition layer_C :: "int \<Rightarrow> real" where
  "layer_C i = (if i mod 3 = 0 then Csi else if i mod 3 = 1 then Ccu else Cin)"

definition layer_H :: "int \<Rightarrow> real" where
  "layer_H i = (if i mod 3 = 0 then Hsi else if i mod 3 = 1 then Hcu else Hin)"

definition initialize_Temperature :: "Chip \<Rightarrow> real \<Rightarrow> real list" where
  "initialize_Temperature c Tamb = replicate (nat (plane c * (numLayer c + 1))) Tamb"

definition calculate_Cap_array :: "Chip \<Rightarrow> real list" where
  "calculate_Cap_array c = map (\<lambda>i.
     if i = 0 then Chs * Hhs * gridX c * gridZ c
     else layer_C (i - 1) * layer_H (i - 1) * gridX c * gridZ c) [0..numLayer c]"

subsection \<open>Resistances\<close>

definition Rsinkx :: "Chip \<Rightarrow> real" where "Rsinkx c = gridX c / Khs / gridZ c / Hhs"
definition Rsinky :: "Chip \<Rightarrow> real" where "Rsinky c = Hhs / Khs / gridX c / gridZ c"
definition Rsinkz :: "Chip \<Rightarrow> real" where "Rsinkz c = gridZ c / Khs / gridX c / Hhs"
definition Ramb :: "Chip \<Rightarrow> real" where "Ramb c = Rsinky c / 2"

text \<open>The group of vertical connections of a layer; 0 for none.\<close>

definition mapTSV :: "Chip \<Rightarrow> int list res" where
  "mapTSV c = vset (map (\<lambda>i. if i = 0 \<or> i = numLayer c - 1 then 0 else tdiv (i - 1) 3 + 1) [0..numLayer c - 1])
     (numLayer c - 2) (tiers c - 1)"

text \<open>
  The vertical resistances. The array \<^verbatim>\<open>TSV\<close> is filled with zeros, so they are the same for every cell of a
  layer. Without connections the second resistance is infinite and its inverse 0.
\<close>

definition vertical :: "Chip \<Rightarrow> int list \<Rightarrow> int \<Rightarrow> real res" where
  "vertical c tsvs l =
     rbind (vget tsvs l) (\<lambda>tier.
     if tier \<noteq> 0 then
       rbind (vget (replicate (nat (tiers c - 1)) (0 :: int)) (tier - 1)) (\<lambda>n.
       let tsv = pi * R_TSV * R_TSV * real_of_int n in
       Inr (1 / (1 / (layer_H l / layer_K l / (gridX c * gridZ c - tsv)) +
                 (if tsv = 0 then 0 else 1 / (layer_H l / Kcu / tsv)))))
     else Inr (layer_H l / layer_K l / (gridX c * gridZ c)))"

definition Rvert :: "Chip \<Rightarrow> real list res" where
  "Rvert c = rbind (mapTSV c) (\<lambda>m.
     mfold (\<lambda>l rs. rbind (vertical c m l) (\<lambda>r. Inr (rs @ [r]))) [0..numLayer c - 1] [Rsinky c])"

definition Rhori :: "Chip \<Rightarrow> int \<Rightarrow> real \<times> real" where
  "Rhori c i =
     (if i = 0 then (Rsinkx c, Rsinkz c)
      else (gridX c / layer_K (i - 1) / gridZ c / layer_H (i - 1) * 10,
            gridZ c / layer_K (i - 1) / gridZ c / layer_H (i - 1) * 10))"

subsection \<open>The matrix\<close>

text \<open>An entry: row, column, value.\<close>

type_synonym entry = "int \<times> int \<times> real"

definition Midx_count :: "Chip \<Rightarrow> int" where
  "Midx_count c =
     (\<Sum>l \<leftarrow> [0..numLayer c]. \<Sum>i \<leftarrow> [0..dim_x c - 1]. \<Sum>j \<leftarrow> [0..dim_z c - 1].
        (if i - 1 \<ge> 0 then 1 else 0) + (if i + 1 < dim_x c then 1 else 0) +
        (if j - 1 \<ge> 0 then 1 else 0) + (if j + 1 < dim_z c then 1 else 0) +
        (if l < numLayer c then 1 else 0) + (if l > 0 then 1 else 0)) +
     plane c * (numLayer c + 1)"

definition node :: "Chip \<Rightarrow> int \<Rightarrow> int \<Rightarrow> int \<Rightarrow> int" where
  "node c l j i = l * dim_x c * dim_z c + j * dim_x c + i"

definition off_diagonal :: "Chip \<Rightarrow> real list \<Rightarrow> int \<Rightarrow> int \<Rightarrow> int \<Rightarrow> entry list" where
  "off_diagonal c rv l j i =
     (let r = node c l j i in
      (if l > 0 then [(r, node c (l - 1) j i, -1 / (rv ! nat l / 2 + rv ! nat (l - 1) / 2))] else []) @
      (if j - 1 \<ge> 0 then [(r, node c l (j - 1) i, -1 / snd (Rhori c l))] else []) @
      (if i - 1 \<ge> 0 then [(r, node c l j i - 1, -1 / fst (Rhori c l))] else []) @
      (if i + 1 < dim_x c then [(r, node c l j i + 1, -1 / fst (Rhori c l))] else []) @
      (if j + 1 < dim_z c then [(r, node c l (j + 1) i, -1 / snd (Rhori c l))] else []) @
      (if l < numLayer c then [(r, node c (l + 1) j i, -1 / (rv ! nat l / 2 + rv ! nat (l + 1) / 2))] else []))"

definition diagonal :: "Chip \<Rightarrow> int \<Rightarrow> entry list \<Rightarrow> entry" where
  "diagonal c r off =
     (let d = fold (\<lambda>(_, _, v) d. d - v) off 0 in
      (r, r, if r < plane c then d + 1 / Ramb c else d))"

text \<open>The loop that moves the last entry of a row to its place; the entries before it come in reverse order.\<close>

fun sort_last :: "entry list \<Rightarrow> entry \<Rightarrow> entry list" where
  "sort_last [] e = [e]"
| "sort_last (x # before) e =
     (if fst (snd x) > fst (snd e) then sort_last before e @ [x] else rev (x # before) @ [e])"

definition Midx_row :: "Chip \<Rightarrow> real list \<Rightarrow> int \<Rightarrow> int \<Rightarrow> int \<Rightarrow> entry list" where
  "Midx_row c rv l j i =
     (let off = off_diagonal c rv l j i in sort_last (rev off) (diagonal c (node c l j i) off))"

definition cells :: "Chip \<Rightarrow> (int \<times> int \<times> int) list" where
  "cells c = [(l, j, i). l \<leftarrow> [0..numLayer c], j \<leftarrow> [0..dim_z c - 1], i \<leftarrow> [0..dim_x c - 1]]"

definition calculate_Midx_array :: "Chip \<Rightarrow> (entry list \<times> int) res" where
  "calculate_Midx_array c =
     rbind (Rvert c) (\<lambda>rv. Inr (concat (map (\<lambda>(l, j, i). Midx_row c rv l j i) (cells c)), Midx_count c))"

subsection \<open>Steady state\<close>

text \<open>
  The matrix in compressed form: values, column numbers and the start of every row. The library reads the
  arrays by columns.
\<close>

definition row_starts :: "Chip \<Rightarrow> entry list \<Rightarrow> int list res" where
  "row_starts c M =
     rbind (mfold (\<lambda>i (rw, xa).
         rbind (vget M i) (\<lambda>(r, _, _).
         if r > rw then rbind (vset xa r i) (\<lambda>xa. Inr (r, xa)) else Inr (rw, xa)))
       [0..int (length M) - 1] (- 1, replicate (nat (plane c * (numLayer c + 1) + 1)) 0))
     (\<lambda>(rw, xa). vset xa (rw + 1) (int (length M)))"

definition power_at :: "real list list list \<Rightarrow> int \<Rightarrow> int \<Rightarrow> int \<Rightarrow> real res" where
  "power_at powerM i j l = rbind (vget powerM i) (\<lambda>p. rbind (vget p j) (\<lambda>q. vget q l))"

definition ambient_flow :: "Chip \<Rightarrow> real \<Rightarrow> real list" where
  "ambient_flow c Tamb =
     replicate (nat (plane c)) (Tamb / Ramb c) @ replicate (nat (plane c * numLayer c)) 0"

definition steady_rhs :: "Chip \<Rightarrow> real list list list \<Rightarrow> real \<Rightarrow> real list res" where
  "steady_rhs c powerM Tamb =
     mfold (\<lambda>(l, i, j) rhs. rbind (power_at powerM i j l)
         (vset rhs (plane c * (l * 3 + 1) + j * dim_x c + i)))
       [(l, i, j). l \<leftarrow> [0..tiers c - 1], i \<leftarrow> [0..dim_x c - 1], j \<leftarrow> [0..dim_z c - 1]]
       (ambient_flow c Tamb)"

type_synonym linear_solver = "real list \<Rightarrow> int list \<Rightarrow> int list \<Rightarrow> real list \<Rightarrow> real list"

definition steady_thermal_solver ::
  "linear_solver \<Rightarrow> Chip \<Rightarrow> real list list list \<Rightarrow> entry list \<Rightarrow> real \<Rightarrow> real list res"
where
  "steady_thermal_solver pdgssv c powerM M Tamb =
     rbind (row_starts c M) (\<lambda>xa.
     rbind (steady_rhs c powerM Tamb) (\<lambda>rhs.
       Inr (map (\<lambda>t. t - T0) (pdgssv (map (\<lambda>(_, _, v). v) M) (map (\<lambda>(_, cl, _). cl) M) xa rhs))))"

subsection \<open>Transient state\<close>

definition transient_power :: "Chip \<Rightarrow> real list list list \<Rightarrow> real \<Rightarrow> real list res" where
  "transient_power c powerM Tamb =
     mfold (\<lambda>(l, j, i) P. rbind (power_at powerM i j l)
         (vset P (plane c * (l * 3 + 1) + i * dim_z c + j)))
       [(l, j, i). l \<leftarrow> [0..tiers c - 1], j \<leftarrow> [0..dim_z c - 1], i \<leftarrow> [0..dim_x c - 1]]
       (ambient_flow c Tamb)"

definition heat_entry ::
  "Chip \<Rightarrow> real list \<Rightarrow> real list \<Rightarrow> real \<Rightarrow> real list \<Rightarrow> entry \<Rightarrow> real list \<Rightarrow> real list res"
where
  "heat_entry c Cap P dt Tp = (\<lambda>(idx0, idx1, tmp_c) T.
     rbind (idiv idx0 (plane c)) (\<lambda>idxC.
     rbind (vget Cap idxC) (\<lambda>cap.
     rbind (vget Tp idx1) (\<lambda>t.
     if idx0 = idx1 then
       rbind (vget P idx0) (\<lambda>p.
       let tmp_a = 1 - tmp_c * dt / cap;
           tmp_b = tmp_a * t + p * dt / cap
       in vmod T idx0 (\<lambda>x. Inr (x + tmp_b)))
     else
       let tmp_a = tmp_c * t * dt / cap
       in vmod T idx0 (\<lambda>x. Inr (x - tmp_a))))))"

text \<open>The loop over the matrix in blocks of eight.\<close>

function heat_blocks ::
  "(entry \<Rightarrow> real list \<Rightarrow> real list res) \<Rightarrow> entry list \<Rightarrow> int \<Rightarrow> int \<Rightarrow> real list \<Rightarrow> real list res"
where
  "heat_blocks f M MidxSize j T =
     (if j < MidxSize then
        let bound = (if j + 8 < MidxSize then j + 8 else MidxSize) in
        rbind (mfold (\<lambda>b T. rbind (vget M b) (\<lambda>e. f e T)) [j..bound - 1] T)
          (heat_blocks f M MidxSize (j + 8))
      else Inr T)"
  by pat_completeness auto
termination
  by (relation "measure (\<lambda>(f, M, MidxSize, j, T). nat (MidxSize - j))") auto

declare heat_blocks.simps [simp del]

definition transient_thermal_solver ::
  "Chip \<Rightarrow> real list list list \<Rightarrow> entry list \<Rightarrow> int \<Rightarrow> real list \<Rightarrow> real \<Rightarrow> int \<Rightarrow> real list \<Rightarrow> real \<Rightarrow> real list res"
where
  "transient_thermal_solver c powerM M MidxSize Cap time iter T_trans Tamb =
     rbind (transient_power c powerM Tamb) (\<lambda>P.
     let dt = time / real_of_int iter;
         T_size = plane c * (numLayer c + 1)
     in mfold (\<lambda>_ Tp. heat_blocks (heat_entry c Cap P dt Tp) M MidxSize 0 (replicate (nat T_size) 0))
          [0..iter - 1] T_trans)"

definition get_maxT :: "real list \<Rightarrow> real" where
  "get_maxT T = fold (\<lambda>t maxT. if t > maxT then t else maxT) T 0"

subsection \<open>Resistances of a chip\<close>

definition chip_ok :: "Chip \<Rightarrow> bool" where
  "chip_ok c \<longleftrightarrow> 0 < W c \<and> 0 < Lc c \<and> 1 \<le> tiers c \<and> 1 \<le> dim_x c \<and> 1 \<le> dim_z c"

lemma layer_pos [simp]: "0 < layer_K i" "0 < layer_C i" "0 < layer_H i"
  by (simp_all add: layer_K_def layer_C_def layer_H_def material_defs)

lemma chip_pos: "chip_ok c \<Longrightarrow> 0 < W c \<and> 0 < Lc c \<and> 0 < dim_x c \<and> 0 < dim_z c \<and> 0 < tiers c"
  by (simp add: chip_ok_def)

lemma mapTSV_eq:
  assumes "chip_ok c"
  obtains m where "mapTSV c = Inr m" "length m = nat (numLayer c)"
    "\<And>l. 0 \<le> l \<Longrightarrow> l < numLayer c \<Longrightarrow> 0 \<le> m ! nat l \<and> m ! nat l \<le> tiers c - 1"
proof -
  let ?m = "map (\<lambda>i. if i = 0 \<or> i = numLayer c - 1 then 0 else tdiv (i - 1) 3 + 1) [0..numLayer c - 1]"
  let ?m' = "?m[nat (numLayer c - 2) := tiers c - 1]"
  have t: "1 \<le> tiers c" using assms by (simp add: chip_ok_def)
  have m: "mapTSV c = Inr ?m'" using t by (simp add: mapTSV_def vset_def vmod_def)
  have r: "0 \<le> ?m' ! nat l \<and> ?m' ! nat l \<le> tiers c - 1" if l: "0 \<le> l" "l < numLayer c" for l
  proof (cases "l = numLayer c - 2")
    case True
    then show ?thesis using t by simp
  next
    case False
    then have "nat l \<noteq> nat (numLayer c - 2)" using l t by linarith
    then have "?m' ! nat l = (if l = 0 \<or> l = numLayer c - 1 then 0 else tdiv (l - 1) 3 + 1)"
      using l by simp
    moreover have "(l - 1) div 3 + 1 \<le> tiers c - 1" "0 \<le> (l - 1) div 3" if "l \<noteq> 0" "l \<noteq> numLayer c - 1"
      using that False l by linarith+
    ultimately show ?thesis using t l by auto
  qed
  show thesis by (rule that [OF m _ r]) (use t in simp_all)
qed

definition resistances :: "Chip \<Rightarrow> real list" where
  "resistances c = Rsinky c # map (\<lambda>l. layer_H l / layer_K l / (gridX c * gridZ c)) [0..numLayer c - 1]"

lemma Rvert_eq:
  assumes "chip_ok c"
  shows "Rvert c = Inr (resistances c)"
proof -
  from assms obtain m where m: "mapTSV c = Inr m" "length m = nat (numLayer c)"
    "\<And>l. 0 \<le> l \<Longrightarrow> l < numLayer c \<Longrightarrow> 0 \<le> m ! nat l \<and> m ! nat l \<le> tiers c - 1" using mapTSV_eq by metis
  have "vertical c m l = Inr (layer_H l / layer_K l / (gridX c * gridZ c))" if "0 \<le> l" "l < numLayer c" for l
    using m(3) [OF that] m(2) that by (simp add: vertical_def Let_def)
  then have "mfold (\<lambda>l rs. rbind (vertical c m l) (\<lambda>r. Inr (rs @ [r]))) [0..numLayer c - 1] [Rsinky c] =
      Inr ([Rsinky c] @ map (\<lambda>l. layer_H l / layer_K l / (gridX c * gridZ c)) [0..numLayer c - 1])"
    by (intro mfold_collect) simp
  then show ?thesis by (simp add: Rvert_def m(1) resistances_def)
qed

lemma Rsink_pos:
  assumes "chip_ok c"
  shows "0 < Rsinkx c" "0 < Rsinky c" "0 < Rsinkz c" "0 < Ramb c"
  using chip_pos [OF assms] by (simp_all add: Rsinkx_def Rsinky_def Rsinkz_def Ramb_def material_defs)

lemma resistances_pos:
  assumes "chip_ok c" "r \<in> set (resistances c)"
  shows "0 < r"
  using assms(2) Rsink_pos [OF assms(1)] chip_pos [OF assms(1)]
  by (auto simp: resistances_def intro!: divide_pos_pos mult_pos_pos)

lemma length_resistances: "chip_ok c \<Longrightarrow> length (resistances c) = nat (numLayer c + 1)"
  by (simp add: resistances_def chip_ok_def Suc_nat_eq_nat_zadd1 add.commute)

lemma Rhori_pos:
  assumes "chip_ok c"
  shows "0 < fst (Rhori c l)" "0 < snd (Rhori c l)"
  using Rsink_pos [OF assms] chip_pos [OF assms]
  by (auto simp: Rhori_def intro!: divide_pos_pos mult_pos_pos)

lemma resistance_pos: "chip_ok c \<Longrightarrow> 0 \<le> l \<Longrightarrow> l \<le> numLayer c \<Longrightarrow> 0 < resistances c ! nat l"
  by (rule resistances_pos) (auto simp: length_resistances intro!: nth_mem)

subsection \<open>Cells and nodes\<close>

definition is_cell :: "Chip \<Rightarrow> int \<Rightarrow> int \<Rightarrow> int \<Rightarrow> bool" where
  "is_cell c l j i \<longleftrightarrow> 0 \<le> l \<and> l \<le> numLayer c \<and> 0 \<le> j \<and> j < dim_z c \<and> 0 \<le> i \<and> i < dim_x c"

abbreviation nodes :: "Chip \<Rightarrow> int" where "nodes c \<equiv> plane c * (numLayer c + 1)"

lemma cells_product: "cells c = List.product [0..numLayer c] (List.product [0..dim_z c - 1] [0..dim_x c - 1])"
  by (simp add: cells_def List.product_concat_map map_concat comp_def)

lemma set_cells: "(l, j, i) \<in> set (cells c) \<longleftrightarrow> is_cell c l j i"
  by (auto simp: cells_product is_cell_def)

lemma distinct_cells: "distinct (cells c)"
  by (simp add: cells_product distinct_product)

lemma node_alt: "node c l j i = (l * dim_z c + j) * dim_x c + i"
  by (simp add: node_def algebra_simps)

lemma node_parts:
  assumes "is_cell c l j i"
  shows "node c l j i mod dim_x c = i" "node c l j i div dim_x c = l * dim_z c + j"
    "node c l j i div dim_x c mod dim_z c = j" "node c l j i div dim_x c div dim_z c = l"
proof -
  have b: "0 \<le> i" "i < dim_x c" "0 \<le> j" "j < dim_z c" using assms by (simp_all add: is_cell_def)
  show d: "node c l j i mod dim_x c = i" "node c l j i div dim_x c = l * dim_z c + j"
    using b by (simp_all add: node_alt)
  show "node c l j i div dim_x c mod dim_z c = j" "node c l j i div dim_x c div dim_z c = l"
    unfolding d using b by simp_all
qed

lemma node_layer: "is_cell c l j i \<Longrightarrow> node c l j i div plane c = l"
  using node_parts(4) [of c l j i] by (simp add: zdiv_zmult2_eq is_cell_def)

lemma node_inj:
  assumes "is_cell c l j i" "is_cell c l' j' i'" "node c l j i = node c l' j' i'"
  shows "l = l' \<and> j = j' \<and> i = i'"
  using node_parts [OF assms(1)] node_parts [OF assms(2)] assms(3) by metis

lemma node_range:
  assumes "chip_ok c" "is_cell c l j i"
  shows "0 \<le> node c l j i" "node c l j i < nodes c"
proof -
  have b: "0 \<le> l" "l \<le> numLayer c" "0 \<le> i" "i < dim_x c" "0 \<le> j" "j < dim_z c"
    using assms by (simp_all add: is_cell_def)
  show "0 \<le> node c l j i" using b by (simp add: node_def)
  have "l * dim_z c \<le> numLayer c * dim_z c" using b by (intro mult_right_mono) auto
  then have "l * dim_z c + j < (numLayer c + 1) * dim_z c" using b by (simp only: distrib_right)
  then have "(l * dim_z c + j + 1) * dim_x c \<le> (numLayer c + 1) * dim_z c * dim_x c"
    using b by (intro mult_right_mono) auto
  moreover have "node c l j i < (l * dim_z c + j + 1) * dim_x c" using b by (simp add: node_alt distrib_right)
  ultimately show "node c l j i < nodes c" by (simp add: algebra_simps)
qed

lemma node_exists:
  assumes "chip_ok c" "0 \<le> r" "r < nodes c"
  obtains l j i where "is_cell c l j i" "r = node c l j i"
proof -
  have p: "0 < dim_x c" "0 < dim_z c" using chip_pos [OF assms(1)] by auto
  let ?l = "r div dim_x c div dim_z c" and ?j = "r div dim_x c mod dim_z c" and ?i = "r mod dim_x c"
  have "?l * dim_z c + ?j = r div dim_x c" by (simp add: div_mult_mod_eq)
  then have r: "r = node c ?l ?j ?i" by (simp add: node_alt)
  have "r div (dim_x c * dim_z c) < numLayer c + 1"
    using p assms(3) by (intro div_lt_mult) (simp_all add: mult.commute)
  then have "?l < numLayer c + 1" using p by (simp add: zdiv_zmult2_eq)
  then have "is_cell c ?l ?j ?i"
    using p assms(2) by (simp add: is_cell_def pos_imp_zdiv_nonneg_iff)
  then show thesis using r by (rule that)
qed

lemma node_sink: "chip_ok c \<Longrightarrow> is_cell c l j i \<Longrightarrow> node c l j i < plane c \<longleftrightarrow> l = 0"
proof -
  assume c: "chip_ok c" and cell: "is_cell c l j i"
  have p: "0 < plane c" using chip_pos [OF c] by simp
  have "node c l j i < plane c \<longleftrightarrow> node c l j i div plane c = 0"
    using p node_range(1) [OF c cell] div_pos_pos_trivial [of "node c l j i" "plane c"]
      pos_imp_zdiv_pos_iff [of "plane c" "node c l j i"] by auto
  then show ?thesis using node_layer [OF cell] by simp
qed

subsection \<open>Rows\<close>

lemma mset_sort_last: "mset (sort_last before e) = add_mset e (mset before)"
  by (induction before) auto

lemma set_Midx_row:
  "set (Midx_row c rv l j i) =
     insert (diagonal c (node c l j i) (off_diagonal c rv l j i)) (set (off_diagonal c rv l j i))"
  unfolding Midx_row_def Let_def set_mset_mset [symmetric] mset_sort_last by simp

text \<open>The cells next to a cell, with the resistance towards them.\<close>

definition neighbours :: "Chip \<Rightarrow> real list \<Rightarrow> int \<Rightarrow> int \<Rightarrow> int \<Rightarrow> ((int \<times> int \<times> int) \<times> real) list" where
  "neighbours c rv l j i =
     (if l > 0 then [((l - 1, j, i), rv ! nat l / 2 + rv ! nat (l - 1) / 2)] else []) @
     (if j > 0 then [((l, j - 1, i), snd (Rhori c l))] else []) @
     (if i > 0 then [((l, j, i - 1), fst (Rhori c l))] else []) @
     (if i + 1 < dim_x c then [((l, j, i + 1), fst (Rhori c l))] else []) @
     (if j + 1 < dim_z c then [((l, j + 1, i), snd (Rhori c l))] else []) @
     (if l < numLayer c then [((l + 1, j, i), rv ! nat l / 2 + rv ! nat (l + 1) / 2)] else [])"

lemma off_diagonal_neighbours:
  "off_diagonal c rv l j i = map (\<lambda>((l', j', i'), r). (node c l j i, node c l' j' i', - 1 / r)) (neighbours c rv l j i)"
  by (simp add: off_diagonal_def neighbours_def Let_def node_def)

lemma set_if_single: "x \<in> set (if b then [y] else []) \<longleftrightarrow> b \<and> x = y"
  by auto

lemma in_neighbours:
  "((l', j', i'), r) \<in> set (neighbours c rv l j i) \<longleftrightarrow>
     l > 0 \<and> l' = l - 1 \<and> j' = j \<and> i' = i \<and> r = rv ! nat l / 2 + rv ! nat (l - 1) / 2 \<or>
     j > 0 \<and> l' = l \<and> j' = j - 1 \<and> i' = i \<and> r = snd (Rhori c l) \<or>
     i > 0 \<and> l' = l \<and> j' = j \<and> i' = i - 1 \<and> r = fst (Rhori c l) \<or>
     i + 1 < dim_x c \<and> l' = l \<and> j' = j \<and> i' = i + 1 \<and> r = fst (Rhori c l) \<or>
     j + 1 < dim_z c \<and> l' = l \<and> j' = j + 1 \<and> i' = i \<and> r = snd (Rhori c l) \<or>
     l < numLayer c \<and> l' = l + 1 \<and> j' = j \<and> i' = i \<and> r = rv ! nat l / 2 + rv ! nat (l + 1) / 2"
  by (simp only: neighbours_def set_append Un_iff set_if_single prod.inject conj_assoc disj_assoc)

lemma neighbours_cell:
  assumes "is_cell c l j i" "((l', j', i'), r) \<in> set (neighbours c rv l j i)"
  shows "is_cell c l' j' i' \<and> (l', j', i') \<noteq> (l, j, i)"
  using assms(2) unfolding in_neighbours by (elim disjE) (use assms(1) in \<open>auto simp: is_cell_def\<close>)

lemma neighbours_pos:
  assumes "chip_ok c" "is_cell c l j i" "(x, r) \<in> set (neighbours c (resistances c) l j i)"
  shows "0 < r"
proof -
  obtain l' j' i' where x: "((l', j', i'), r) \<in> set (neighbours c (resistances c) l j i)"
    using assms(3) by (cases x) auto
  have "0 < resistances c ! nat k" if "0 \<le> k" "k \<le> numLayer c" for k
    using resistance_pos [OF assms(1)] that by simp
  then show ?thesis
    using x assms(2) Rhori_pos [OF assms(1)] unfolding in_neighbours
    by (elim disjE) (auto simp: is_cell_def intro!: add_pos_pos)
qed

lemma neighbours_sym:
  assumes "is_cell c l j i" "((l', j', i'), r) \<in> set (neighbours c rv l j i)"
  shows "((l, j, i), r) \<in> set (neighbours c rv l' j' i')"
  using assms(2) unfolding in_neighbours by (elim disjE) (use assms(1) in \<open>auto simp: is_cell_def\<close>)

lemma fold_minus: "fold (\<lambda>(_, _, v) d. d - v) xs (a :: real) = a - (\<Sum>(_, _, v) \<leftarrow> xs. v)"
  by (induction xs arbitrary: a) (auto simp: algebra_simps)

lemma diagonal_value:
  "diagonal c r off = (r, r, - (\<Sum>(_, _, v) \<leftarrow> off. v) + (if r < plane c then 1 / Ramb c else 0))"
  by (simp add: diagonal_def Let_def fold_minus)

definition network :: "Chip \<Rightarrow> entry list" where
  "network c = concat (map (\<lambda>(l, j, i). Midx_row c (resistances c) l j i) (cells c))"

lemma calculate_Midx_array_eq: "chip_ok c \<Longrightarrow> calculate_Midx_array c = Inr (network c, Midx_count c)"
  by (simp add: calculate_Midx_array_def Rvert_eq network_def)

lemma Midx_row_fst: "e \<in> set (Midx_row c rv l j i) \<Longrightarrow> fst e = node c l j i"
  by (auto simp: set_Midx_row diagonal_value off_diagonal_neighbours)

lemma filter_network:
  assumes "is_cell c l j i"
  shows "filter (\<lambda>e. fst e = node c l j i) (network c) = Midx_row c (resistances c) l j i"
proof -
  have "filter (\<lambda>e. fst e = (\<lambda>(l, j, i). node c l j i) (l, j, i)) (network c) =
      (\<lambda>(l, j, i). Midx_row c (resistances c) l j i) (l, j, i)"
    unfolding network_def
    by (rule filter_concat_key [OF distinct_cells])
      (use assms in \<open>auto simp: set_cells inj_on_def dest: Midx_row_fst node_inj\<close>)
  then show ?thesis by simp
qed

lemma set_network:
  "e \<in> set (network c) \<longleftrightarrow> (\<exists>l j i. is_cell c l j i \<and> e \<in> set (Midx_row c (resistances c) l j i))"
proof -
  have "e \<in> set (network c) \<longleftrightarrow> (\<exists>x \<in> set (cells c). e \<in> set (case x of (l, j, i) \<Rightarrow> Midx_row c (resistances c) l j i))"
    by (simp add: network_def)
  also have "\<dots> \<longleftrightarrow> (\<exists>l j i. (l, j, i) \<in> set (cells c) \<and> e \<in> set (Midx_row c (resistances c) l j i))"
    by (metis (no_types, lifting) case_prod_conv prod_cases3)
  finally show ?thesis by (simp only: set_cells)
qed

lemma network_range:
  assumes "chip_ok c" "(r, k, v) \<in> set (network c)"
  shows "0 \<le> r \<and> r < nodes c \<and> 0 \<le> k \<and> k < nodes c"
proof -
  from assms(2) obtain l j i where cell: "is_cell c l j i" and e: "(r, k, v) \<in> set (Midx_row c (resistances c) l j i)"
    by (auto simp: set_network)
  from Midx_row_fst [OF e] have r: "r = node c l j i" by simp
  from e have "k = r \<or> (\<exists>l' j' i' x. ((l', j', i'), x) \<in> set (neighbours c (resistances c) l j i) \<and> k = node c l' j' i')"
    by (auto simp: set_Midx_row diagonal_value off_diagonal_neighbours)
  then show ?thesis
    using node_range [OF assms(1)] cell r neighbours_cell [OF cell] by blast
qed

lemma network_symmetric:
  assumes "(r, k, v) \<in> set (network c)"
  shows "(k, r, v) \<in> set (network c)"
proof (cases "k = r")
  case False
  from assms obtain l j i where cell: "is_cell c l j i" and e: "(r, k, v) \<in> set (Midx_row c (resistances c) l j i)"
    by (auto simp: set_network)
  with False obtain l' j' i' x where n: "((l', j', i'), x) \<in> set (neighbours c (resistances c) l j i)"
      "r = node c l j i" "k = node c l' j' i'" "v = - 1 / x"
    by (auto simp: set_Midx_row diagonal_value off_diagonal_neighbours)
  from neighbours_sym [OF cell n(1)] n(2-4) have "(k, r, v) \<in> set (off_diagonal c (resistances c) l' j' i')"
    by (force simp: off_diagonal_neighbours)
  then show ?thesis using neighbours_cell [OF cell n(1)] by (auto simp: set_network set_Midx_row)
qed (use assms in simp)

lemma length_Midx_row:
  assumes "is_cell c l j i"
  shows "int (length (Midx_row c rv l j i)) =
    (if i - 1 \<ge> 0 then 1 else 0) + (if i + 1 < dim_x c then 1 else 0) +
    (if j - 1 \<ge> 0 then 1 else 0) + (if j + 1 < dim_z c then 1 else 0) +
    (if l < numLayer c then 1 else 0) + (if l > 0 then 1 else 0) + 1"
proof -
  have "length (Midx_row c rv l j i) = Suc (length (off_diagonal c rv l j i))"
    unfolding Midx_row_def Let_def size_mset [symmetric] mset_sort_last by simp
  then show ?thesis by (simp add: off_diagonal_def Let_def)
qed

lemma length_network:
  assumes "chip_ok c"
  shows "int (length (network c)) = Midx_count c"
proof -
  let ?L = "{0..numLayer c}" and ?J = "{0..dim_z c - 1}" and ?I = "{0..dim_x c - 1}"
  let ?g = "\<lambda>l j i. (if i - 1 \<ge> 0 then 1 else 0) + (if i + 1 < dim_x c then 1 else 0) +
    (if j - 1 \<ge> 0 then 1 else 0) + (if j + 1 < dim_z c then 1 else 0) +
    (if l < numLayer c then 1 else 0) + (if l > 0 then 1 else 0) :: int"
  have "int (length (network c)) = (\<Sum>(l, j, i) \<leftarrow> cells c. int (length (Midx_row c (resistances c) l j i)))"
    unfolding network_def length_concat int_sum_list map_map
    by (intro arg_cong [of _ _ sum_list] map_cong refl) auto
  also have "\<dots> = (\<Sum>(l, j, i) \<leftarrow> cells c. ?g l j i + 1)"
    by (intro arg_cong [of _ _ sum_list] map_cong) (auto simp: set_cells length_Midx_row)
  also have "\<dots> = (\<Sum>l \<in> ?L. \<Sum>j \<in> ?J. \<Sum>i \<in> ?I. ?g l j i + 1)"
    unfolding cells_product sum_list_product by (simp only: case_prod_conv interv_sum_list_conv_sum_set_int set_upto)
  also have "\<dots> = (\<Sum>l \<in> ?L. \<Sum>j \<in> ?J. \<Sum>i \<in> ?I. ?g l j i) + (\<Sum>l \<in> ?L. \<Sum>j \<in> ?J. \<Sum>i \<in> ?I. 1)"
    by (simp only: sum.distrib)
  also have "(\<Sum>l \<in> ?L. \<Sum>j \<in> ?J. \<Sum>i \<in> ?I. 1) = nodes c"
    using assms by (simp add: chip_ok_def)
  also have "(\<Sum>l \<in> ?L. \<Sum>j \<in> ?J. \<Sum>i \<in> ?I. ?g l j i) = (\<Sum>l \<in> ?L. \<Sum>i \<in> ?I. \<Sum>j \<in> ?J. ?g l j i)"
    by (intro sum.cong refl sum.swap)
  finally show ?thesis by (simp only: Midx_count_def interv_sum_list_conv_sum_set_int set_upto)
qed

text \<open>The columns of a row ascend.\<close>

lemma sort_last_sorted:
  assumes "sorted_wrt (\<lambda>a b. fst (snd a) < fst (snd b)) (rev before)" "\<forall>x \<in> set before. fst (snd x) \<noteq> fst (snd e)"
  shows "sorted_wrt (\<lambda>a b. fst (snd a) < fst (snd b)) (sort_last before e)"
  using assms
proof (induction before)
  case (Cons x xs)
  show ?case
  proof (cases "fst (snd x) > fst (snd e)")
    case True
    have "set (sort_last xs e) = insert e (set xs)"
      unfolding set_mset_mset [symmetric] mset_sort_last by simp
    then show ?thesis using True Cons by (auto simp: sorted_wrt_append)
  next
    case False
    then have "fst (snd x) < fst (snd e)" using Cons.prems(2) by auto
    then show ?thesis using False Cons.prems(1) by (force simp: sorted_wrt_append)
  qed
qed simp

lemma sorted_offsets:
  fixes n p d :: int
  assumes "1 \<le> d" "d \<le> p" "b2 \<or> b5 \<Longrightarrow> d < p" "b3 \<or> b4 \<Longrightarrow> 1 < d"
  shows "sorted_wrt (\<lambda>a b. fst (snd a) < fst (snd b))
    ((if b1 then [(r, n - p, v1)] else []) @ (if b2 then [(r, n - d, v2)] else []) @
     (if b3 then [(r, n - 1, v3)] else []) @ (if b4 then [(r, n + 1, v4)] else []) @
     (if b5 then [(r, n + d, v5)] else []) @ (if b6 then [(r, n + p, v6)] else []))"
  using assms by (simp only: sorted_wrt_append set_append Un_iff set_if_single) auto

lemma node_next:
  "node c (l - 1) j i = node c l j i - plane c" "node c (l + 1) j i = node c l j i + plane c"
  "node c l (j - 1) i = node c l j i - dim_x c" "node c l (j + 1) i = node c l j i + dim_x c"
  by (simp_all add: node_def algebra_simps)

lemma off_diagonal_sorted:
  assumes "is_cell c l j i"
  shows "sorted_wrt (\<lambda>a b. fst (snd a) < fst (snd b)) (off_diagonal c rv l j i)"
proof -
  have p: "1 \<le> dim_x c" "1 \<le> dim_z c" using assms by (simp_all add: is_cell_def)
  have z: "dim_x c < plane c" if "0 < j \<or> j + 1 < dim_z c"
  proof -
    have "2 \<le> dim_z c" using that assms by (auto simp: is_cell_def)
    then have "dim_x c * 2 \<le> plane c" using p by (intro mult_left_mono) auto
    then show ?thesis using p by linarith
  qed
  have x: "1 < dim_x c" if "0 < i \<or> i + 1 < dim_x c" using that assms by (auto simp: is_cell_def)
  have q: "dim_x c \<le> plane c" using mult_left_mono [OF p(2), of "dim_x c"] p by simp
  show ?thesis
    unfolding off_diagonal_def Let_def node_next by (rule sorted_offsets [OF p(1) q]) (use z x in auto)
qed

lemma Midx_row_sorted:
  assumes "is_cell c l j i"
  shows "sorted_wrt (\<lambda>a b. fst (snd a) < fst (snd b)) (Midx_row c rv l j i)"
  unfolding Midx_row_def Let_def
proof (rule sort_last_sorted)
  show "sorted_wrt (\<lambda>a b. fst (snd a) < fst (snd b)) (rev (rev (off_diagonal c rv l j i)))"
    using off_diagonal_sorted [OF assms] by simp
  show "\<forall>x \<in> set (rev (off_diagonal c rv l j i)). fst (snd x) \<noteq> fst (snd (diagonal c (node c l j i) (off_diagonal c rv l j i)))"
  proof
    fix x assume "x \<in> set (rev (off_diagonal c rv l j i))"
    then obtain l' j' i' r where n: "((l', j', i'), r) \<in> set (neighbours c rv l j i)" "fst (snd x) = node c l' j' i'"
      by (auto simp: off_diagonal_neighbours)
    with neighbours_cell [OF assms n(1)] node_inj [OF assms, of l' j' i'] show
      "fst (snd x) \<noteq> fst (snd (diagonal c (node c l j i) (off_diagonal c rv l j i)))"
      by (auto simp: diagonal_value)
  qed
qed

lemma Midx_row_sum:
  assumes "chip_ok c" "is_cell c l j i"
  shows "(\<Sum>(_, _, v) \<leftarrow> Midx_row c rv l j i. v) = (if l = 0 then 1 / Ramb c else 0)"
proof -
  let ?f = "\<lambda>(_ :: int, _ :: int, v :: real). v"
  let ?off = "off_diagonal c rv l j i"
  have "sum_list (map ?f (Midx_row c rv l j i)) = sum_mset (image_mset ?f (mset (Midx_row c rv l j i)))"
    by (simp flip: sum_mset_sum_list)
  also have "\<dots> = ?f (diagonal c (node c l j i) ?off) + sum_list (map ?f ?off)"
    by (simp add: Midx_row_def Let_def mset_sort_last flip: sum_mset_sum_list)
  finally show ?thesis using node_sink [OF assms] by (simp add: diagonal_value)
qed

lemma diagonal_pos:
  assumes "chip_ok c" "(n, n, g) \<in> set (network c)"
  shows "0 < g"
proof -
  from assms(2) obtain l j i where cell: "is_cell c l j i" and e: "(n, n, g) \<in> set (Midx_row c (resistances c) l j i)"
    by (auto simp: set_network)
  let ?nb = "neighbours c (resistances c) l j i"
  have n: "n = node c l j i" using Midx_row_fst [OF e] by simp
  have "(n, n, g) \<notin> set (off_diagonal c (resistances c) l j i)"
  proof
    assume "(n, n, g) \<in> set (off_diagonal c (resistances c) l j i)"
    then obtain l' j' i' r where x: "((l', j', i'), r) \<in> set ?nb" "n = node c l' j' i'"
      by (auto simp: off_diagonal_neighbours)
    with neighbours_cell [OF cell x(1)] node_inj [OF cell, of l' j' i'] n show False by auto
  qed
  with e have g: "g = (\<Sum>(_, r) \<leftarrow> ?nb. 1 / r) + (if n < plane c then 1 / Ramb c else 0)"
    by (simp add: set_Midx_row diagonal_value n off_diagonal_neighbours comp_def case_prod_unfold uminus_sum_list_map)
  have pos: "0 < r" if "(x, r) \<in> set ?nb" for x r by (rule neighbours_pos [OF assms(1) cell that])
  have "?nb \<noteq> []" using cell chip_pos [OF assms(1)] by (auto simp: neighbours_def is_cell_def)
  then obtain y ys where y: "?nb = y # ys" by (cases ?nb) auto
  have "0 \<le> (\<Sum>(_, r) \<leftarrow> ys. 1 / r)"
    by (rule sum_list_nonneg) (use pos y in \<open>force simp: less_imp_le\<close>)
  moreover have "0 < 1 / snd y" using pos [of "fst y" "snd y"] y by simp
  ultimately have "0 < (\<Sum>(_, r) \<leftarrow> ?nb. 1 / r)" by (simp add: y case_prod_unfold add_pos_nonneg)
  then show ?thesis using g Rsink_pos(4) [OF assms(1)] by (simp add: add_pos_nonneg)
qed

subsection \<open>Blocks\<close>

text \<open>Going through the matrix in blocks is going through it.\<close>

lemma heat_blocks_eq:
  "0 \<le> j \<Longrightarrow> heat_blocks f M (int (length M)) j T = mfold f (drop (nat j) M) T"
proof (induction "nat (int (length M) - j)" arbitrary: j T rule: less_induct)
  case less
  show ?case
  proof (cases "j < int (length M)")
    case True
    let ?b = "if j + 8 < int (length M) then j + 8 else int (length M)"
    have "heat_blocks f M (int (length M)) j T =
        rbind (mfold f (take (nat (?b - j)) (drop (nat j) M)) T) (heat_blocks f M (int (length M)) (j + 8))"
      using True less.prems by (simp add: heat_blocks.simps [of f M _ j] Let_def mfold_index)
    also have "heat_blocks f M (int (length M)) (j + 8) = mfold f (drop (nat (j + 8)) M)"
      using less.hyps [of "j + 8"] less.prems True by (intro ext) simp
    also have "rbind (mfold f (take (nat (?b - j)) (drop (nat j) M)) T) (mfold f (drop (nat (j + 8)) M)) =
        mfold f (take (nat (?b - j)) (drop (nat j) M) @ drop (nat (j + 8)) M) T"
      by (simp add: mfold_append)
    also have "take (nat (?b - j)) (drop (nat j) M) @ drop (nat (j + 8)) M = drop (nat j) M"
    proof (cases "j + 8 < int (length M)")
      case True
      then have "take (nat (?b - j)) (drop (nat j) M) @ drop (nat (j + 8)) M =
          take 8 (drop (nat j) M) @ drop 8 (drop (nat j) M)"
        using less.prems by (simp add: nat_add_distrib add.commute)
      then show ?thesis by (simp only: append_take_drop_id)
    next
      case False
      then show ?thesis using less.prems by simp
    qed
    finally show ?thesis .
  next
    case False
    then show ?thesis by (simp add: heat_blocks.simps [of f M _ j])
  qed
qed

subsection \<open>A time step\<close>

definition flow :: "Chip \<Rightarrow> real list \<Rightarrow> real list \<Rightarrow> real \<Rightarrow> real list \<Rightarrow> entry \<Rightarrow> real" where
  "flow c Cap P dt Tp = (\<lambda>(r, k, v).
     if r = k then (1 - v * dt / Cap ! nat (r div plane c)) * Tp ! nat k + P ! nat r * dt / Cap ! nat (r div plane c)
     else - (v * Tp ! nat k * dt / Cap ! nat (r div plane c)))"

lemma heat_entry_eq:
  assumes "chip_ok c" "0 \<le> r" "r < nodes c" "0 \<le> k" "k < nodes c" "length Cap = nat (numLayer c + 1)"
    "length P = nat (nodes c)" "length Tp = nat (nodes c)" "length T = nat (nodes c)"
  shows "heat_entry c Cap P dt Tp (r, k, v) T = Inr (T[nat r := T ! nat r + flow c Cap P dt Tp (r, k, v)])"
proof -
  have p: "0 < plane c" using chip_pos [OF assms(1)] by simp
  have "r div plane c < numLayer c + 1" using assms(3) p by (intro div_lt_mult) (simp_all add: mult.commute)
  moreover have "0 \<le> r div plane c" using assms(2) p by (simp add: pos_imp_zdiv_nonneg_iff)
  ultimately have "vget Cap (r div plane c) = Inr (Cap ! nat (r div plane c))" using assms(6) by (intro vget_in) simp_all
  moreover have "idiv r (plane c) = Inr (r div plane c)" using p chip_pos [OF assms(1)] assms(2) by (simp add: idiv_def)
  ultimately show ?thesis
    using assms by (simp add: heat_entry_def flow_def Let_def vmod_def)
qed

lemma heat_entries:
  assumes "chip_ok c" "\<forall>(r, k, v) \<in> set M. 0 \<le> r \<and> r < nodes c \<and> 0 \<le> k \<and> k < nodes c"
    "length Cap = nat (numLayer c + 1)" "length P = nat (nodes c)" "length Tp = nat (nodes c)"
  shows "length T = nat (nodes c) \<Longrightarrow> \<exists>T'. mfold (heat_entry c Cap P dt Tp) M T = Inr T' \<and> length T' = nat (nodes c) \<and>
    (\<forall>r. 0 \<le> r \<longrightarrow> r < nodes c \<longrightarrow> T' ! nat r = T ! nat r + (\<Sum>e \<leftarrow> filter (\<lambda>e. fst e = r) M. flow c Cap P dt Tp e))"
  using assms(2)
proof (induction M arbitrary: T)
  case (Cons e M)
  obtain r k v where e: "e = (r, k, v)" by (cases e)
  have rk: "0 \<le> r" "r < nodes c" "0 \<le> k" "k < nodes c" using Cons.prems(2) e by auto
  let ?T = "T[nat r := T ! nat r + flow c Cap P dt Tp (r, k, v)]"
  have s: "heat_entry c Cap P dt Tp e T = Inr ?T"
    unfolding e by (rule heat_entry_eq [OF assms(1) rk assms(3-5) Cons.prems(1)])
  have "length ?T = nat (nodes c)" using Cons.prems(1) by simp
  from Cons.IH [OF this] Cons.prems(2) obtain T' where T': "mfold (heat_entry c Cap P dt Tp) M ?T = Inr T'"
      "length T' = nat (nodes c)"
      "\<forall>q. 0 \<le> q \<longrightarrow> q < nodes c \<longrightarrow> T' ! nat q = ?T ! nat q + (\<Sum>e \<leftarrow> filter (\<lambda>e. fst e = q) M. flow c Cap P dt Tp e)"
    by auto
  have "T' ! nat q = T ! nat q + (\<Sum>e \<leftarrow> filter (\<lambda>e. fst e = q) (e # M). flow c Cap P dt Tp e)"
    if q: "0 \<le> q" "q < nodes c" for q
  proof (cases "q = r")
    case True
    then show ?thesis using T'(3) q Cons.prems(1) e by (simp add: nat_less_iff)
  next
    case False
    then have "nat q \<noteq> nat r" using q rk by simp
    then show ?thesis using T'(3) q False e by simp
  qed
  then show ?case using s T'(1,2) by simp
qed simp

lemma sum_values: "(\<Sum>e \<leftarrow> xs. (- snd (snd e)) * k) = - (\<Sum>(_, _, v) \<leftarrow> xs. v) * (k :: real)"
  by (induction xs) (auto simp: algebra_simps)

lemma flow_row:
  assumes "chip_ok c" "is_cell c l j i" "0 \<le> dt" "0 < Cap ! nat l"
    "\<And>d. (node c l j i, node c l j i, d) \<in> set (Midx_row c (resistances c) l j i) \<Longrightarrow> d * dt \<le> Cap ! nat l"
    "\<forall>t \<in> set Tp. Tamb \<le> t" "length Tp = nat (nodes c)"
    "if l = 0 then P ! nat (node c l j i) = Tamb / Ramb c else 0 \<le> P ! nat (node c l j i)"
  shows "Tamb \<le> (\<Sum>e \<leftarrow> Midx_row c (resistances c) l j i. flow c Cap P dt Tp e)"
proof -
  let ?n = "node c l j i" and ?C = "Cap ! nat l" and ?row = "Midx_row c (resistances c) l j i"
  let ?off = "off_diagonal c (resistances c) l j i"
  define s where "s = dt / ?C"
  have s: "0 \<le> s" using assms(3,4) by (simp add: s_def)
  obtain d where d: "diagonal c ?n ?off = (?n, ?n, d)" "d = - (\<Sum>(_, _, v) \<leftarrow> ?off. v) + (if l = 0 then 1 / Ramb c else 0)"
    using node_sink [OF assms(1,2)] by (auto simp: diagonal_value)
  have ds: "d * s \<le> 1"
    using assms(4) assms(5) [of d] d(1) by (simp add: set_Midx_row s_def divide_le_eq)
  have Tp: "Tamb \<le> Tp ! nat k" if "0 \<le> k" "k < nodes c" for k
    using assms(6,7) that by simp
  have "flow c Cap P dt Tp (?n, ?n, d) = (1 - d * s) * Tp ! nat ?n + P ! nat ?n * s"
    using node_layer [OF assms(2)] by (simp add: flow_def s_def)
  also have "\<dots> \<ge> (1 - d * s) * Tamb + P ! nat ?n * s"
    using ds Tp node_range [OF assms(1,2)] by (intro add_right_mono mult_left_mono) auto
  finally have 1: "flow c Cap P dt Tp (?n, ?n, d) \<ge> (1 - d * s) * Tamb + P ! nat ?n * s" .
  have "flow c Cap P dt Tp e \<ge> (- snd (snd e)) * (s * Tamb)" if e: "e \<in> set ?off" for e
  proof -
    from e obtain l' j' i' r where n: "((l', j', i'), r) \<in> set (neighbours c (resistances c) l j i)"
        "e = (?n, node c l' j' i', - 1 / r)" by (auto simp: off_diagonal_neighbours)
    have "0 < r" by (rule neighbours_pos [OF assms(1,2) n(1)])
    moreover have "?n \<noteq> node c l' j' i'"
      using neighbours_cell [OF assms(2) n(1)] node_inj [OF assms(2), of l' j' i'] by auto
    moreover have "Tamb \<le> Tp ! nat (node c l' j' i')"
      using Tp node_range [OF assms(1)] neighbours_cell [OF assms(2) n(1)] by blast
    moreover from this have "1 / r * (s * Tamb) \<le> 1 / r * (s * Tp ! nat (node c l' j' i'))"
      using s \<open>0 < r\<close> by (intro mult_left_mono) auto
    ultimately show ?thesis
      using node_layer [OF assms(2)] by (simp add: n(2) flow_def s_def mult.commute [of dt])
  qed
  then have "(\<Sum>e \<leftarrow> ?off. flow c Cap P dt Tp e) \<ge> (\<Sum>e \<leftarrow> ?off. (- snd (snd e)) * (s * Tamb))"
    by (rule sum_list_mono)
  also have "(\<Sum>e \<leftarrow> ?off. (- snd (snd e)) * (s * Tamb)) = - (\<Sum>(_, _, v) \<leftarrow> ?off. v) * (s * Tamb)"
    by (rule sum_values)
  finally have 2: "(\<Sum>e \<leftarrow> ?off. flow c Cap P dt Tp e) \<ge> - (\<Sum>(_, _, v) \<leftarrow> ?off. v) * (s * Tamb)" .
  have "(\<Sum>e \<leftarrow> ?row. flow c Cap P dt Tp e) = sum_mset (image_mset (flow c Cap P dt Tp) (mset ?row))"
    by (simp flip: sum_mset_sum_list)
  also have "\<dots> = flow c Cap P dt Tp (?n, ?n, d) + (\<Sum>e \<leftarrow> ?off. flow c Cap P dt Tp e)"
    by (simp add: Midx_row_def Let_def mset_sort_last d(1) flip: sum_mset_sum_list)
  also have "\<dots> \<ge> (1 - d * s) * Tamb + P ! nat ?n * s + - (\<Sum>(_, _, v) \<leftarrow> ?off. v) * (s * Tamb)"
    using 1 2 by (rule add_mono)
  also have "(1 - d * s) * Tamb + P ! nat ?n * s + - (\<Sum>(_, _, v) \<leftarrow> ?off. v) * (s * Tamb) =
      Tamb + s * (P ! nat ?n - (if l = 0 then Tamb / Ramb c else 0))"
    unfolding d(2) by (simp add: algebra_simps)
  finally have "Tamb + s * (P ! nat ?n - (if l = 0 then Tamb / Ramb c else 0)) \<le> (\<Sum>e \<leftarrow> ?row. flow c Cap P dt Tp e)" .
  moreover have "0 \<le> s * (P ! nat ?n - (if l = 0 then Tamb / Ramb c else 0))"
    using assms(8) s by (auto split: if_splits)
  ultimately show ?thesis by linarith
qed

definition powers_ok :: "Chip \<Rightarrow> real list list list \<Rightarrow> bool" where
  "powers_ok c powerM \<longleftrightarrow> int (length powerM) = dim_x c \<and>
     (\<forall>p \<in> set powerM. int (length p) = dim_z c \<and>
        (\<forall>q \<in> set p. int (length q) = tiers c \<and> (\<forall>x \<in> set q. 0 \<le> x)))"

lemma power_at_ok:
  assumes "powers_ok c powerM" "0 \<le> i" "i < dim_x c" "0 \<le> j" "j < dim_z c" "0 \<le> l" "l < tiers c"
  obtains x where "power_at powerM i j l = Inr x" "0 \<le> x"
proof -
  have i: "nat i < length powerM" "i < int (length powerM)" using assms by (auto simp: powers_ok_def)
  have p: "int (length (powerM ! nat i)) = dim_z c"
      "\<forall>q \<in> set (powerM ! nat i). int (length q) = tiers c \<and> (\<forall>x \<in> set q. 0 \<le> x)"
    using assms(1) nth_mem [OF i(1)] unfolding powers_ok_def by blast+
  then have "powerM ! nat i ! nat j \<in> set (powerM ! nat i)" using assms(4,5) by (intro nth_mem) linarith
  with p have q: "int (length (powerM ! nat i ! nat j)) = tiers c" "\<forall>x \<in> set (powerM ! nat i ! nat j). 0 \<le> x"
    by auto
  then have "0 \<le> powerM ! nat i ! nat j ! nat l" using assms(6,7) by simp
  moreover have "power_at powerM i j l = Inr (powerM ! nat i ! nat j ! nat l)"
    using assms i p q by (simp add: power_at_def)
  ultimately show thesis using that by blast
qed

text \<open>What enters each node: the ambient temperature through the heat sink, and no negative power elsewhere.\<close>

definition sources_ok :: "Chip \<Rightarrow> real \<Rightarrow> real list \<Rightarrow> bool" where
  "sources_ok c Tamb P \<longleftrightarrow> length P = nat (nodes c) \<and>
     (\<forall>n. 0 \<le> n \<longrightarrow> n < nodes c \<longrightarrow> (if n < plane c then P ! nat n = Tamb / Ramb c else 0 \<le> P ! nat n))"

lemma nodes_split: "chip_ok c \<Longrightarrow> nat (nodes c) = nat (plane c) + nat (plane c * numLayer c)"
  using chip_pos [of c] by (simp add: distrib_left nat_add_distrib)

lemma sources_ok_ambient:
  assumes "chip_ok c"
  shows "sources_ok c Tamb (ambient_flow c Tamb)"
proof -
  have p: "0 < plane c" using chip_pos [OF assms] by simp
  have "(if n < plane c then ambient_flow c Tamb ! nat n = Tamb / Ramb c else 0 \<le> ambient_flow c Tamb ! nat n)"
    if "0 \<le> n" "n < nodes c" for n
  proof (cases "n < plane c")
    case True
    then have "nat n < nat (plane c)" using p by (simp only: nat_less_eq_zless that)
    then show ?thesis using True by (simp only: ambient_flow_def nth_append length_replicate if_True nth_replicate)
  next
    case False
    then have "\<not> nat n < nat (plane c)" "nat n - nat (plane c) < nat (plane c * numLayer c)"
      using that nodes_split [OF assms] by linarith+
    then show ?thesis
      using False by (simp only: ambient_flow_def nth_append length_replicate if_False nth_replicate)
  qed
  moreover have "length (ambient_flow c Tamb) = nat (nodes c)"
    using nodes_split [OF assms] by (simp add: ambient_flow_def)
  ultimately show ?thesis by (simp only: sources_ok_def) blast
qed

lemma sources_ok_update:
  assumes "sources_ok c Tamb P" "plane c \<le> n" "0 \<le> n" "n < nodes c" "0 \<le> x"
  shows "\<exists>P'. vset P n x = Inr P' \<and> sources_ok c Tamb P'"
proof -
  have "vset P n x = Inr (P[nat n := x])"
    using assms by (simp add: sources_ok_def vset_def vmod_def)
  moreover have "sources_ok c Tamb (P[nat n := x])"
    using assms by (auto simp: sources_ok_def nth_list_update nat_eq_iff)
  ultimately show ?thesis by blast
qed

lemma power_index:
  assumes "chip_ok c" "0 \<le> l" "l < tiers c" "0 \<le> k" "k < plane c"
  shows "plane c \<le> plane c * (l * 3 + 1) + k" "plane c * (l * 3 + 1) + k < nodes c"
proof -
  have p: "0 < plane c" using chip_pos [OF assms(1)] by simp
  have "plane c * 1 \<le> plane c * (l * 3 + 1)" using assms p by (intro mult_left_mono) auto
  then show "plane c \<le> plane c * (l * 3 + 1) + k" using assms by simp
  have "plane c * (l * 3 + 1 + 1) \<le> plane c * (numLayer c + 1)" using assms p by (intro mult_left_mono) auto
  then show "plane c * (l * 3 + 1) + k < nodes c" using assms(5) by (simp only: distrib_left mult_1_right)
qed

lemma transient_power_ok:
  assumes "chip_ok c" "powers_ok c powerM"
  shows "\<exists>P. transient_power c powerM Tamb = Inr P \<and> sources_ok c Tamb P"
  unfolding transient_power_def
proof (rule mfold_invariant [where P = "sources_ok c Tamb"], goal_cases)
  case 2
  show ?case by (rule sources_ok_ambient [OF assms(1)])
next
  case (1 x P)
  obtain l j i where x: "x = (l, j, i)" "0 \<le> l" "l < tiers c" "0 \<le> j" "j < dim_z c" "0 \<le> i" "i < dim_x c"
    using 1(1) by auto
  obtain v where v: "power_at powerM i j l = Inr v" "0 \<le> v"
    by (rule power_at_ok [OF assms(2) x(6,7,4,5,2,3)])
  have k: "0 \<le> i * dim_z c + j" "i * dim_z c + j < plane c"
    using pair_index [OF x(4,5,6,7)] by (simp_all add: mult.commute)
  have n: "plane c \<le> plane c * (l * 3 + 1) + (i * dim_z c + j)" "plane c * (l * 3 + 1) + (i * dim_z c + j) < nodes c"
    by (rule power_index [OF assms(1) x(2,3) k])+
  moreover have "0 < plane c" using chip_pos [OF assms(1)] by simp
  ultimately have "0 \<le> plane c * (l * 3 + 1) + (i * dim_z c + j)" by linarith
  from sources_ok_update [OF 1(2) n(1) this n(2) v(2)] show ?case by (simp add: x(1) v(1) add.assoc)
qed

text \<open>The step is stable: what leaves a node in one step is at most what it holds.\<close>

definition stable_step :: "Chip \<Rightarrow> real \<Rightarrow> bool" where
  "stable_step c dt \<longleftrightarrow> 0 \<le> dt \<and>
     (\<forall>(r, k, g) \<in> set (network c). r = k \<longrightarrow> g * dt \<le> calculate_Cap_array c ! nat (r div plane c))"

lemma Cap_pos:
  assumes "chip_ok c" "0 \<le> l" "l \<le> numLayer c"
  shows "0 < calculate_Cap_array c ! nat l"
  using assms chip_pos [OF assms(1)] by (auto simp: calculate_Cap_array_def material_defs)

lemma length_Cap: "chip_ok c \<Longrightarrow> length (calculate_Cap_array c) = nat (numLayer c + 1)"
  by (simp add: calculate_Cap_array_def)

lemma step_above_ambient:
  assumes "chip_ok c" "stable_step c dt" "sources_ok c Tamb P" "length Tp = nat (nodes c)" "\<forall>t \<in> set Tp. Tamb \<le> t"
  shows "\<exists>T. heat_blocks (heat_entry c (calculate_Cap_array c) P dt Tp) (network c) (Midx_count c) 0
      (replicate (nat (nodes c)) 0) = Inr T \<and> length T = nat (nodes c) \<and> (\<forall>t \<in> set T. Tamb \<le> t)"
proof -
  let ?C = "calculate_Cap_array c"
  have r: "\<forall>(r, k, v) \<in> set (network c). 0 \<le> r \<and> r < nodes c \<and> 0 \<le> k \<and> k < nodes c"
    using network_range [OF assms(1)] by fast
  from heat_entries [OF assms(1) r length_Cap [OF assms(1)] _ assms(4), of P "replicate (nat (nodes c)) 0" dt] assms(3)
  obtain T where T: "mfold (heat_entry c ?C P dt Tp) (network c) (replicate (nat (nodes c)) 0) = Inr T"
      "length T = nat (nodes c)"
      "\<And>n. 0 \<le> n \<Longrightarrow> n < nodes c \<Longrightarrow> T ! nat n = replicate (nat (nodes c)) 0 ! nat n +
         (\<Sum>e \<leftarrow> filter (\<lambda>e. fst e = n) (network c). flow c ?C P dt Tp e)"
    by (auto simp: sources_ok_def)
  have "Tamb \<le> T ! nat n" if n: "0 \<le> n" "n < nodes c" for n
  proof -
    obtain l j i where cell: "is_cell c l j i" and nn: "n = node c l j i" by (rule node_exists [OF assms(1) n])
    have l: "0 \<le> l" "l \<le> numLayer c" using cell by (simp_all add: is_cell_def)
    have "T ! nat n = (\<Sum>e \<leftarrow> Midx_row c (resistances c) l j i. flow c ?C P dt Tp e)"
      using T(3) [OF n] n by (simp add: nn filter_network [OF cell])
    also have "\<dots> \<ge> Tamb"
    proof (rule flow_row [OF assms(1) cell _ Cap_pos [OF assms(1) l] _ assms(5,4)])
      show "0 \<le> dt" using assms(2) by (simp add: stable_step_def)
      show "d * dt \<le> ?C ! nat l" if "(node c l j i, node c l j i, d) \<in> set (Midx_row c (resistances c) l j i)" for d
      proof -
        have "(node c l j i, node c l j i, d) \<in> set (network c)" using that cell by (auto simp: set_network)
        with assms(2) node_layer [OF cell] show ?thesis unfolding stable_step_def by fastforce
      qed
      show "if l = 0 then P ! nat (node c l j i) = Tamb / Ramb c else 0 \<le> P ! nat (node c l j i)"
        using assms(3) n node_sink [OF assms(1) cell] by (auto simp: sources_ok_def nn)
    qed
    finally show ?thesis .
  qed
  then have "Tamb \<le> t" if "t \<in> set T" for t
    using that T(2) by (metis in_set_conv_nth nat_int of_nat_0_le_iff zless_nat_eq_int_zless)
  then show ?thesis
    using T(1,2) length_network [OF assms(1)] heat_blocks_eq [of 0 _ "network c"] by simp
qed

lemma transient_above_ambient:
  assumes "chip_ok c" "powers_ok c powerM" "stable_step c (time / real_of_int iter)"
    "length T_trans = nat (nodes c)" "\<forall>t \<in> set T_trans. Tamb \<le> t"
  shows "\<exists>T. transient_thermal_solver c powerM (network c) (Midx_count c) (calculate_Cap_array c) time iter T_trans Tamb =
      Inr T \<and> length T = nat (nodes c) \<and> (\<forall>t \<in> set T. Tamb \<le> t)"
proof -
  obtain P where P: "transient_power c powerM Tamb = Inr P" "sources_ok c Tamb P"
    using transient_power_ok [OF assms(1,2)] by blast
  show ?thesis
    unfolding transient_thermal_solver_def P(1) rbind_Inr Let_def
    by (rule mfold_invariant) (use step_above_ambient [OF assms(1,3) P(2)] assms(4,5) in auto)
qed

subsection \<open>Properties\<close>

text \<open>
  C25. The conductance matrix is that of a network of resistors: \<^verbatim>\<open>calculate_Midx_array\<close> returns as many entries as it
  counted, all between existing cells; the matrix is symmetric with positive diagonal; the columns of a row ascend
  without repetition, as the sparse format needs; and every row sums up to zero, next to the heat sink to the
  conductance towards the environment.
\<close>

theorem conductance_matrix:
  assumes "chip_ok c"
  shows "\<exists>M. calculate_Midx_array c = Inr (M, int (length M)) \<and>
    (\<forall>(r, k, g) \<in> set M. 0 \<le> r \<and> r < nodes c \<and> 0 \<le> k \<and> k < nodes c \<and> (k, r, g) \<in> set M \<and> (r = k \<longrightarrow> 0 < g)) \<and>
    (\<forall>r. 0 \<le> r \<longrightarrow> r < nodes c \<longrightarrow>
       sorted_wrt (<) (map (fst \<circ> snd) (filter (\<lambda>e. fst e = r) M)) \<and>
       (\<Sum>(_, _, g) \<leftarrow> filter (\<lambda>e. fst e = r) M. g) = (if r < plane c then 1 / Ramb c else 0))"
proof (intro exI conjI allI impI)
  show "calculate_Midx_array c = Inr (network c, int (length (network c)))"
    using calculate_Midx_array_eq [OF assms] length_network [OF assms] by simp
  show "\<forall>(r, k, g) \<in> set (network c). 0 \<le> r \<and> r < nodes c \<and> 0 \<le> k \<and> k < nodes c \<and> (k, r, g) \<in> set (network c) \<and> (r = k \<longrightarrow> 0 < g)"
    using network_range [OF assms] network_symmetric diagonal_pos [OF assms] by blast
  fix r assume "0 \<le> r" "r < nodes c"
  then obtain l j i where cell: "is_cell c l j i" and r: "r = node c l j i" by (rule node_exists [OF assms])
  show "sorted_wrt (<) (map (fst \<circ> snd) (filter (\<lambda>e. fst e = r) (network c)))"
    using Midx_row_sorted [OF cell] by (simp add: r filter_network [OF cell] sorted_wrt_map)
  show "(\<Sum>(_, _, g) \<leftarrow> filter (\<lambda>e. fst e = r) (network c). g) = (if r < plane c then 1 / Ramb c else 0)"
    using Midx_row_sum [OF assms cell] node_sink [OF assms cell] by (simp add: r filter_network [OF cell])
qed

definition demo_chip :: Chip where
  "demo_chip = \<lparr>W = 1 / 100, Lc = 1 / 100, tiers = 5, dim_x = 258, dim_z = 130\<rparr>"

theorem conductance_matrix_witness:
  "\<exists>M. calculate_Midx_array demo_chip = Inr (M, int (length M)) \<and>
     (\<Sum>(_, _, g) \<leftarrow> filter (\<lambda>e. fst e = 40000) M. g) = 0"
proof -
  have "chip_ok demo_chip" by (simp add: chip_ok_def demo_chip_def)
  from conductance_matrix [OF this] show ?thesis by (auto simp: demo_chip_def)
qed

end
