(* ===== verification/Thermal.thy ===== *)
theory Thermal
  imports Thermal_Solver
begin

section \<open>The thermal model\<close>

text \<open>
  Models \<^verbatim>\<open>src/thermal.h\<close>, \<^verbatim>\<open>src/thermal.cc\<close> and the thermal parameters of \<^verbatim>\<open>src/configuration.cc\<close>, which are
  compiled with the option \<^verbatim>\<open>THERMAL\<close>: the floor plan (where a channel and a bank lie on the chip), the maps of
  energy that the issued commands fill, and the temperatures computed from them. The members that the option
  adds to the configuration are the record \<open>ThermalParams\<close>. A line of a \<^verbatim>\<open>csv\<close> file is the tuple of its values.

  Doubles are real numbers. Where C++ would continue with an infinite quotient the model excludes it: the aspect
  ratio of a bank without columns is reported as a division by zero, and a comparison with an infinite ratio
  in \<open>determineXY\<close> is false.
\<close>

unbundle bit_operations_syntax

subsection \<open>Parameters\<close>

record ThermalParams =
  loc_mapping :: string
  num_row_refresh :: int
  amb_temp :: real
  const_logic_power :: real
  chip_dim_x :: real
  chip_dim_y :: real
  num_x_grids :: int
  num_y_grids :: int
  mat_dim_x :: int
  mat_dim_y :: int
  bank_order :: int
  bank_layer_order :: int
  row_tile :: int
  tile_row_num :: int
  bank_asr :: real

text \<open>The loop starts with 1, so the first condition, which makes it end for every argument, always holds.\<close>

function row_tile_loop :: "real \<Rightarrow> int \<Rightarrow> int" where
  "row_tile_loop asr r = (if 0 < r \<and> real_of_int (r * r * 4) < asr then row_tile_loop asr (r * 2) else r)"
  by pat_completeness auto
termination
proof (relation "measure (\<lambda>(asr, r). nat (\<lceil>asr\<rceil> - r))", goal_cases)
  case (2 asr r)
  then have r: "1 \<le> r" "real_of_int (r * r * 4) < asr" by auto
  have "r * 1 \<le> r * (r * 4)" using r(1) by (intro mult_left_mono) auto
  then have "real_of_int r \<le> real_of_int (r * r * 4)" by (simp only: of_int_le_iff mult.assoc mult_1_right)
  then have "real_of_int r < asr" using r(2) by linarith
  then have "r < \<lceil>asr\<rceil>" by (simp add: less_ceiling_iff)
  then show ?case using r(1) by simp
qed simp

declare row_tile_loop.simps [simp del]

text \<open>
  The parameters before the call are an argument: the branch that tiles the rows leaves some of them as they
  are.
\<close>

definition InitThermalParams :: "ini \<Rightarrow> Config \<Rightarrow> ThermalParams \<Rightarrow> ThermalParams res" where
  "InitThermalParams rd cfg tp =
     (let tp = tp\<lparr>const_logic_power := ini_GetReal rd ''thermal'' ''const_logic_power'' 5,
                  mat_dim_x := GetInteger rd ''thermal'' ''mat_dim_x'' 512,
                  mat_dim_y := GetInteger rd ''thermal'' ''mat_dim_y'' 512\<rparr> in
      rbind (idiv (rows cfg) (mat_dim_x tp)) (\<lambda>nx.
      rbind (idiv (columns cfg * device_width cfg) (mat_dim_y tp)) (\<lambda>ny.
      if ny = 0 then Inl DivByZero
      else
        let asr = real_of_int nx / real_of_int ny;
            tp = tp\<lparr>num_x_grids := nx, tile_row_num := rows cfg, num_y_grids := ny, bank_asr := asr, row_tile := 1\<rparr> in
        if asr > 4 \<and> banks_per_group cfg = 1 then
          let rt = row_tile_loop asr 1;
              nx = tdiv nx rt;
              ny = ny * rt
          in Inr (tp\<lparr>row_tile := rt, num_x_grids := nx, tile_row_num := tdiv (tile_row_num tp) rt, num_y_grids := ny,
                     bank_asr := real_of_int nx / real_of_int ny\<rparr>)
        else
          Inr (tp\<lparr>loc_mapping := ini_Get rd ''thermal'' ''loc_mapping'' '''',
                  bank_order := GetInteger rd ''thermal'' ''bank_order'' 1,
                  bank_layer_order := GetInteger rd ''thermal'' ''bank_layer_order'' 0,
                  num_row_refresh := \<lceil>real_of_int (rows cfg) / (64 * 10 ^ 6 / (real_of_int (tREFI cfg) * tCK cfg))\<rceil>,
                  chip_dim_x := ini_GetReal rd ''thermal'' ''chip_dim_x'' (1 / 100),
                  chip_dim_y := ini_GetReal rd ''thermal'' ''chip_dim_y'' (1 / 100),
                  amb_temp := ini_GetReal rd ''thermal'' ''amb_temp'' 40\<rparr>))))"

subsection \<open>State\<close>

type_synonym energy_map = "real list list"

record ThermalCalculator =
  time_iter :: int
  Tamb :: real
  dimX :: int
  dimY :: int
  numP :: int
  Midx :: "entry list"
  MidxSize :: int
  Cap :: "real list"
  T_trans :: energy_map
  T_final :: energy_map
  sample_id :: int
  accu_Pmap :: energy_map
  cur_Pmap :: energy_map
  refresh_count :: "int list list"
  vault_x :: int
  vault_y :: int
  bank_x :: int
  bank_y :: int
  num_case :: int
  background_energy :: energy_map
  avg_logic_power :: real
  mapped_pos :: "int list list option"

text \<open>The arguments of the solver: two cells are added to each dimension (\<^verbatim>\<open>num_dummy\<close>).\<close>

definition chip :: "ThermalParams \<Rightarrow> ThermalCalculator \<Rightarrow> Chip" where
  "chip tp tc = \<lparr>W = chip_dim_x tp, Lc = chip_dim_y tp, tiers = numP tc, dim_x = dimX tc + 2, dim_z = dimY tc + 2\<rparr>"

definition T_size :: "ThermalCalculator \<Rightarrow> int" where
  "T_size tc = (numP tc * 3 + 1) * (dimX tc + 2) * (dimY tc + 2)"

subsection \<open>Physical addresses\<close>

text \<open>The standard functions \<^verbatim>\<open>std::stoi\<close> and \<^verbatim>\<open>std::stoull\<close>.\<close>

definition is_space :: "char \<Rightarrow> bool" where
  "is_space ch \<longleftrightarrow> ch \<in> {CHR 0x09, CHR 0x0A, CHR 0x0B, CHR 0x0C, CHR 0x0D, CHR '' ''}"

definition is_digit :: "char \<Rightarrow> bool" where
  "is_digit ch \<longleftrightarrow> (48 :: nat) \<le> of_char ch \<and> of_char ch \<le> (57 :: nat)"

definition read_number :: "string \<Rightarrow> (bool \<times> int) res" where
  "read_number s =
     (let s1 = dropWhile is_space s;
          s2 = (if s1 \<noteq> [] \<and> hd s1 \<in> {CHR ''-'', CHR ''+''} then tl s1 else s1);
          ds = takeWhile is_digit s2
      in if ds = [] then Inl InvalidArgument
         else Inr (s1 \<noteq> [] \<and> hd s1 = CHR ''-'', fold (\<lambda>ch n. n * 10 + (of_char ch - 48)) ds 0))"

definition stoi :: "string \<Rightarrow> int res" where
  "stoi s = rbind (read_number s) (\<lambda>(neg, n).
     let v = (if neg then - n else n) in
     if - (2 ^ 31) \<le> v \<and> v < 2 ^ 31 then Inr v else Inl OutOfRange)"

definition stoull :: "string \<Rightarrow> u64 res" where
  "stoull s = rbind (read_number s) (\<lambda>(neg, n).
     if n < 2 ^ 64 then Inr (if neg then - of_int n else of_int n) else Inl OutOfRange)"

definition positions_of :: "string \<Rightarrow> int list res" where
  "positions_of s =
     (if s = [] then Inr []
      else if CHR '':'' \<notin> set s then rbind (stoi s) (\<lambda>p. Inr [p])
      else rbind (stoi (takeWhile (\<lambda>ch. ch \<noteq> CHR '':'') s)) (\<lambda>start_pos.
           rbind (stoi (tl (dropWhile (\<lambda>ch. ch \<noteq> CHR '':'') s))) (\<lambda>end_pos.
           if start_pos > end_pos then Inr (rev [end_pos..start_pos]) else Inr [start_pos..end_pos])))"

definition SetPhyAddressMapping :: "string \<Rightarrow> int list list option res" where
  "SetPhyAddressMapping mapping_string =
     (if mapping_string = [] then Inr None
      else
        let bit_fields = StringSplit mapping_string (CHR '','') in
        if length bit_fields \<noteq> 6 then Inl (ExitFailure ''thermal.cc'' 143)
        else rbind (mfold (\<lambda>field mp.
               rbind (mfold (\<lambda>s ps. rbind (positions_of s) (\<lambda>qs. Inr (ps @ qs))) (StringSplit field (CHR ''-'')) [])
                 (\<lambda>ps. Inr (mp @ [ps]))) bit_fields []) (\<lambda>mp. Inr (Some mp)))"

definition map_bits :: "int list \<Rightarrow> int \<Rightarrow> u64 \<Rightarrow> u64 res" where
  "map_bits ps origin new_hex =
     (let field_width = int (length ps) in
      mfold (\<lambda>j hex.
        rbind (vget ps j) (\<lambda>p.
        let this_bit = of_int (GetBitInPos (of_int origin) (field_width - j - 1)) in
        if 0 \<le> p \<and> p < 64 then Inr (hex OR push_bit (nat p) this_bit) else Inl BadShift))
      [0..field_width - 1] new_hex)"

fun new_positions :: "int list list \<Rightarrow> u64 \<Rightarrow> int \<Rightarrow> int list" where
  "new_positions [] hex pos = []"
| "new_positions (ps # rest) hex pos =
     signed_take_bit 31 (uint (ModuloWidth hex (of_nat (length ps)) (of_int pos))) #
     new_positions rest hex (pos + int (length ps))"

definition GetPhyAddress :: "Config \<Rightarrow> ThermalCalculator \<Rightarrow> Address \<Rightarrow> Address res" where
  "GetPhyAddress cfg tc a =
     (case mapped_pos tc of
        None \<Rightarrow> Inr a
      | Some mp \<Rightarrow>
          rbind (mfold (\<lambda>(ps, origin) hex. map_bits ps origin hex)
                  (zip mp [channel a, rank a, bankgroup a, bank a, row a, column a]) 0) (\<lambda>new_hex.
          let new_pos = rev (new_positions (rev mp) new_hex (LogBase2 (BL cfg))) in
          Inr (mk_address (new_pos ! 0) (new_pos ! 1) (new_pos ! 2) (new_pos ! 3) (new_pos ! 4) (new_pos ! 5))))"

subsection \<open>The floor plan\<close>

definition MapToVault :: "Config \<Rightarrow> ThermalParams \<Rightarrow> ThermalCalculator \<Rightarrow> int \<Rightarrow> (int \<times> int) res" where
  "MapToVault cfg tp tc channel_id =
     (if IsHMC cfg then
        let vault_factor = (if bank_order tp = 0 then vault_x tc else vault_y tc) in
        rbind (idiv channel_id vault_factor) (\<lambda>x. rbind (imod channel_id vault_factor) (\<lambda>y.
        Inr (if bank_order tp = 0 then (y, x) else (x, y))))
      else if IsHBM cfg then Inr (0, tmod channel_id 2)
      else Inr (0, 0))"

definition MapToBank :: "Config \<Rightarrow> ThermalParams \<Rightarrow> ThermalCalculator \<Rightarrow> int \<Rightarrow> int \<Rightarrow> (int \<times> int) res" where
  "MapToBank cfg tp tc bankgroup_id bank_id =
     (let abs_bank_id = bankgroup_id * banks_per_group cfg + bank_id;
          bank_factor = (if bank_order tp \<noteq> 0 then bank_y tc else bank_x tc);
          swap = (\<lambda>(x, y). if bank_order tp = 0 then (y, x) else (x, y)) in
      if IsHMC cfg then
        rbind (idiv (banks cfg) (num_dies cfg)) (\<lambda>num_bank_per_layer.
        rbind (imod abs_bank_id num_bank_per_layer) (\<lambda>bank_same_layer.
        rbind (idiv bank_same_layer bank_factor) (\<lambda>x. rbind (imod bank_same_layer bank_factor) (\<lambda>y.
        Inr (swap (x, y))))))
      else if IsHBM cfg then Inr (bankgroup_id * 2 + tdiv bank_id 2, tmod bank_id 2)
      else if bankgroups cfg > 1 then
        let (x, y) = swap (tdiv bank_id 2, tmod bank_id 2) in
        Inr (if bank_x tc \<le> bank_y tc then (x, y + bankgroup_id * 2) else (x + bankgroup_id * 2, y))
      else
        rbind (idiv abs_bank_id bank_factor) (\<lambda>x. rbind (imod abs_bank_id bank_factor) (\<lambda>y.
        Inr (swap (x, y)))))"

definition MapToZ :: "Config \<Rightarrow> ThermalParams \<Rightarrow> ThermalCalculator \<Rightarrow> int \<Rightarrow> int \<Rightarrow> int res" where
  "MapToZ cfg tp tc channel_id bank_id =
     (if IsHMC cfg then
        rbind (idiv (banks cfg) (num_dies cfg)) (\<lambda>num_bank_per_layer.
        rbind (idiv bank_id num_bank_per_layer) (\<lambda>q.
        Inr (if bank_layer_order tp = 0 then q else numP tc - q - 2)))
      else if IsHBM cfg then Inr (tdiv channel_id 2)
      else Inr 0)"

definition MapToXY ::
  "Config \<Rightarrow> ThermalParams \<Rightarrow> ThermalCalculator \<Rightarrow> Command \<Rightarrow> int \<Rightarrow> int \<Rightarrow> int \<Rightarrow> int \<Rightarrow> (int list \<times> int list) res"
where
  "MapToXY cfg tp tc cmd vault_id_x vault_id_y bank_id_x bank_id_y =
     rbind (idiv (Row cmd) (tile_row_num tp)) (\<lambda>col_tile_id.
     rbind (idiv (Row cmd) (mat_dim_x tp)) (\<lambda>g.
     rbind (idiv g (row_tile tp)) (\<lambda>grid_id_x.
     mfold (\<lambda>i (x, y).
       rbind (GetPhyAddress cfg tc ((addr cmd)\<lparr>column := Column cmd + i\<rparr>)) (\<lambda>phy_loc.
       let bank_x_offset = bank_x tc * num_x_grids tp;
           bank_y_offset = bank_y tc * num_y_grids tp
       in mfold (\<lambda>j (x, y).
            let col_id = column phy_loc * device_width cfg + j in
            rbind (idiv col_id (mat_dim_y tp)) (\<lambda>q.
            rbind (idiv (num_y_grids tp) (row_tile tp)) (\<lambda>tile.
            let grid_id_y = q + col_tile_id * tile in
            Inr (x @ [vault_id_x * bank_x_offset + bank_id_x * num_x_grids tp + grid_id_x],
                 y @ [vault_id_y * bank_y_offset + bank_id_y * num_y_grids tp + grid_id_y]))))
          [0..device_width cfg - 1] (x, y)))
     [0..BL cfg - 1] ([], []))))"

subsection \<open>Energy maps\<close>

definition add_energy :: "int \<Rightarrow> int \<Rightarrow> real \<Rightarrow> ThermalCalculator \<Rightarrow> ThermalCalculator res" where
  "add_energy case_id idx e tc =
     rbind (vmod (accu_Pmap tc) case_id (\<lambda>m. vmod m idx (\<lambda>x. Inr (x + e)))) (\<lambda>a.
     rbind (vmod (cur_Pmap tc) case_id (\<lambda>m. vmod m idx (\<lambda>x. Inr (x + e)))) (\<lambda>c.
       Inr (tc\<lparr>accu_Pmap := a, cur_Pmap := c\<rparr>)))"

definition LocationMappingANDaddEnergy ::
  "Config \<Rightarrow> ThermalParams \<Rightarrow> int \<Rightarrow> Command \<Rightarrow> int \<Rightarrow> real \<Rightarrow> ThermalCalculator \<Rightarrow> ThermalCalculator res"
where
  "LocationMappingANDaddEnergy cfg tp ch cmd caseID add tc =
     rbind (MapToVault cfg tp tc ch) (\<lambda>(vault_id_x, vault_id_y).
     rbind (MapToBank cfg tp tc (Bankgroup cmd) (Bank cmd)) (\<lambda>(bank_id_x, bank_id_y).
     rbind (MapToXY cfg tp tc cmd vault_id_x vault_id_y bank_id_x bank_id_y) (\<lambda>(x, y).
     rbind (MapToZ cfg tp tc ch (Bank cmd)) (\<lambda>z.
     let z_offset = z * dimX tc * dimY tc;
         e = add / real_of_int (device_width cfg)
     in mfold (\<lambda>(xi, yi). add_energy caseID (z_offset + yi * dimX tc + xi) e) (zip x y) tc))))"

definition LocationMappingANDaddEnergy_RF ::
  "Config \<Rightarrow> ThermalParams \<Rightarrow> int \<Rightarrow> Command \<Rightarrow> int \<Rightarrow> int \<Rightarrow> int \<Rightarrow> real \<Rightarrow> ThermalCalculator \<Rightarrow> ThermalCalculator res"
where
  "LocationMappingANDaddEnergy_RF cfg tp ch cmd bank0 row0 caseID add tc =
     rbind (idiv bank0 (banks_per_group cfg)) (\<lambda>bankgroup_id.
     rbind (imod bank0 (banks_per_group cfg)) (\<lambda>bank_id.
     rbind (MapToVault cfg tp tc ch) (\<lambda>(vault_id_x, vault_id_y).
     rbind (MapToBank cfg tp tc bankgroup_id bank_id) (\<lambda>(bank_id_x, bank_id_y).
     rbind (MapToZ cfg tp tc ch bank_id) (\<lambda>z.
     rbind (GetPhyAddress cfg tc ((addr cmd)\<lparr>row := row0, bankgroup := bankgroup_id, bank := bank_id\<rparr>)) (\<lambda>phy_addr.
     rbind (idiv (row phy_addr) (tile_row_num tp)) (\<lambda>col_tile_id.
     rbind (idiv (row phy_addr) (mat_dim_x tp)) (\<lambda>g.
     rbind (idiv g (row_tile tp)) (\<lambda>grid_id_x.
     rbind (idiv 0 (mat_dim_y tp)) (\<lambda>q.
     rbind (idiv (num_y_grids tp) (row_tile tp)) (\<lambda>tile.
     let grid_id_y = q + col_tile_id * tile;
         x = vault_id_x * (bank_x tc * num_x_grids tp) + bank_id_x * num_x_grids tp + grid_id_x;
         y = vault_id_y * (bank_y tc * num_y_grids tp) + bank_id_y * num_y_grids tp + grid_id_y;
         z_offset = z * (dimX tc * dimY tc)
     in mfold (\<lambda>i. add_energy caseID (z_offset + (y + i) * dimX tc + x) add)
          [0..num_y_grids tp - 1] tc)))))))))))"

text \<open>One bank of a refresh: its next rows, and the counter of the rows.\<close>

definition refresh_rows ::
  "Config \<Rightarrow> ThermalParams \<Rightarrow> int \<Rightarrow> Command \<Rightarrow> int \<Rightarrow> real \<Rightarrow> int \<Rightarrow> ThermalCalculator \<Rightarrow> ThermalCalculator res"
where
  "refresh_rows cfg tp ch cmd case_id e ib tc =
     (let rank_idx = ch * ranks cfg + Rank cmd in
      rbind (rbind (vget (refresh_count tc) rank_idx) (\<lambda>counts. vget counts ib)) (\<lambda>count.
      let row_s = count * num_row_refresh tp;
          count' = (if (count + 1) * num_row_refresh tp = rows cfg then 0 else count + 1) in
      rbind (vmod (refresh_count tc) rank_idx (\<lambda>counts. vset counts ib count')) (\<lambda>rc.
      mfold (\<lambda>ir. LocationMappingANDaddEnergy_RF cfg tp ch cmd ib ir case_id e)
        [row_s..row_s + num_row_refresh tp - 1] (tc\<lparr>refresh_count := rc\<rparr>))))"

definition UpdateCMDPower ::
  "Config \<Rightarrow> ThermalParams \<Rightarrow> int \<Rightarrow> Command \<Rightarrow> ThermalCalculator \<Rightarrow> ThermalCalculator res"
where
  "UpdateCMDPower cfg tp ch cmd tc =
     (let (device_scale, case_id) =
            (if IsHMC cfg \<or> IsHBM cfg then (1, 0) else (real_of_int (devices_per_rank cfg), ch * ranks cfg + Rank cmd))
      in if cmd_type cmd = REFRESH then
           let e = ref_energy_inc cfg / real_of_int (num_row_refresh tp) / real_of_int (banks cfg)
                     / real_of_int (num_y_grids tp) in
           mfold (refresh_rows cfg tp ch cmd case_id (e / 1000 / device_scale)) [0..banks cfg - 1] tc
         else if cmd_type cmd = REFRESH_BANK then
           let e = refb_energy_inc cfg / real_of_int (num_row_refresh tp) / real_of_int (num_y_grids tp) in
           refresh_rows cfg tp ch cmd case_id (e / 1000 / device_scale) (Bank cmd) tc
         else
           let e = (case cmd_type cmd of
                      ACTIVATE \<Rightarrow> act_energy_inc cfg
                    | READ \<Rightarrow> read_energy_inc cfg
                    | READ_PRECHARGE \<Rightarrow> read_energy_inc cfg
                    | WRITE \<Rightarrow> write_energy_inc cfg
                    | WRITE_PRECHARGE \<Rightarrow> write_energy_inc cfg
                    | _ \<Rightarrow> 0) in
           if e > 0 then
             LocationMappingANDaddEnergy cfg tp ch cmd case_id (e / real_of_int (BL cfg) / 1000 / device_scale) tc
           else Inr tc)"

definition UpdateBackgroundEnergy :: "int \<Rightarrow> int \<Rightarrow> real \<Rightarrow> ThermalCalculator \<Rightarrow> ThermalCalculator res" where
  "UpdateBackgroundEnergy ch ra e tc =
     rbind (vmod (background_energy tc) ch (\<lambda>bs. vset bs ra e)) (\<lambda>b. Inr (tc\<lparr>background_energy := b\<rparr>))"

definition SetLogicPower :: "real \<Rightarrow> ThermalCalculator \<Rightarrow> ThermalCalculator" where
  "SetLogicPower logic_power tc = tc\<lparr>avg_logic_power := logic_power\<rparr>"

definition power_map :: "bool \<Rightarrow> ThermalCalculator \<Rightarrow> energy_map" where
  "power_map transient tc = (if transient then cur_Pmap tc else accu_Pmap tc)"

definition set_power_map :: "bool \<Rightarrow> energy_map \<Rightarrow> ThermalCalculator \<Rightarrow> ThermalCalculator" where
  "set_power_map transient m tc = (if transient then tc\<lparr>cur_Pmap := m\<rparr> else tc\<lparr>accu_Pmap := m\<rparr>)"

definition UpdatePowerMaps :: "Config \<Rightarrow> real \<Rightarrow> bool \<Rightarrow> u64 \<Rightarrow> ThermalCalculator \<Rightarrow> ThermalCalculator res" where
  "UpdatePowerMaps cfg add transient clk tc =
     (let period = (if transient then real_of_int (epoch_period cfg) else real (unat clk));
          lower = dimX tc * dimY tc * (numP tc - 1);
          logic = avg_logic_power tc / real_of_int (dimX tc) / real_of_int (dimY tc) * period in
      rbind (mfold (\<lambda>j m. vmod m j (\<lambda>cells.
          rbind (mfold (\<lambda>i c. vmod c i (\<lambda>x. Inr (x + add))) [0..lower - 1] cells) (\<lambda>cells.
          mfold (\<lambda>i c. vmod c i (\<lambda>x. Inr (x + logic))) [lower..dimX tc * dimY tc * numP tc - 1] cells)))
        [0..num_case tc - 1] (power_map transient tc)) (\<lambda>m.
      Inr (set_power_map transient m tc)))"

text \<open>
  The loops of a memory that is neither HBM nor HMC step the variable \<^verbatim>\<open>i\<close> of the outer loop instead of \<^verbatim>\<open>k\<close>, so
  they do not end by themselves; \<open>OutOfFuel\<close> stands for that. The first writes cell \<^verbatim>\<open>k\<close>, the second cell \<^verbatim>\<open>i\<close>.
\<close>

fun spread :: "nat \<Rightarrow> bool \<Rightarrow> int \<Rightarrow> int \<Rightarrow> int \<Rightarrow> int \<Rightarrow> real \<Rightarrow> energy_map \<Rightarrow> energy_map res" where
  "spread 0 transient bound case_id k i e m = Inl OutOfFuel"
| "spread (Suc fuel) transient bound case_id k i e m =
     (if k < bound then
        rbind (vmod m case_id (\<lambda>cells. vmod cells (if transient then k else i) (\<lambda>x. Inr (x + e))))
          (spread fuel transient bound case_id k (i + 1) e)
      else Inr m)"

definition spread_background :: "Config \<Rightarrow> nat \<Rightarrow> bool \<Rightarrow> u64 \<Rightarrow> ThermalCalculator \<Rightarrow> ThermalCalculator res" where
  "spread_background cfg fuel transient clk tc =
     (if IsHBM cfg \<or> IsHMC cfg then
        let bg_energy = sum_list (map sum_list (background_energy tc))
                          / real_of_int (dimX tc * dimY tc * (numP tc - 1))
        in UpdatePowerMaps cfg (bg_energy / 1000) transient clk tc
      else
        let num_devices = real_of_int (devices_per_rank cfg);
            bound = dimX tc * dimY tc * numP tc in
        rbind (mfold (\<lambda>i. mfold (\<lambda>j m.
            rbind (rbind (vget (background_energy tc) i) (\<lambda>bs. vget bs j)) (\<lambda>b.
            spread fuel transient bound (i * ranks cfg + j) 0 i (b / real_of_int bound / 1000 / num_devices) m))
          [0..ranks cfg - 1]) [0..channels cfg - 1] (power_map transient tc)) (\<lambda>m.
        Inr (set_power_map transient m tc)))"

definition UpdateEpoch :: "Config \<Rightarrow> nat \<Rightarrow> ThermalCalculator \<Rightarrow> ThermalCalculator res" where
  "UpdateEpoch cfg fuel tc = spread_background cfg fuel True (of_int (epoch_period cfg)) tc"

subsection \<open>Power and temperature\<close>

definition InitPowerM :: "Config \<Rightarrow> int \<Rightarrow> u64 \<Rightarrow> ThermalCalculator \<Rightarrow> real list list list res" where
  "InitPowerM cfg case_id clk tc =
     (let nx = dimX tc + 2; ny = dimY tc + 2;
          d = (if clk = 0 then real_of_int (epoch_period cfg) else real (unat clk)) in
      mfold (\<lambda>(i, j, l) M.
        rbind (rbind (vget (power_map (clk = 0) tc) case_id)
                 (\<lambda>m. vget m (l * (dimX tc * dimY tc) + j * dimX tc + i))) (\<lambda>p.
        vmod M (i + 1) (\<lambda>c. vmod c (j + 1) (\<lambda>t. vset t l (p / d)))))
      [(i, j, l). i \<leftarrow> [0..dimX tc - 1], j \<leftarrow> [0..dimY tc - 1], l \<leftarrow> [0..numP tc - 1]]
      (replicate (nat nx) (replicate (nat ny) (replicate (nat (numP tc)) 0))))"

definition GetTotalPower :: "real list list list \<Rightarrow> ThermalCalculator \<Rightarrow> real res" where
  "GetTotalPower powerM tc =
     mfold (\<lambda>(i, j, l) total. rbind (power_at powerM (i + 1) (j + 1) l) (\<lambda>p. Inr (total + p)))
       [(i, j, l). i \<leftarrow> [0..dimX tc - 1], j \<leftarrow> [0..dimY tc - 1], l \<leftarrow> [0..numP tc - 1]] 0"

definition CalcTransT :: "Config \<Rightarrow> ThermalParams \<Rightarrow> int \<Rightarrow> ThermalCalculator \<Rightarrow> (real \<times> ThermalCalculator) res" where
  "CalcTransT cfg tp case_id tc =
     (let time = real_of_int (epoch_period cfg) * tCK cfg / 10 ^ 9 in
      rbind (InitPowerM cfg case_id 0 tc) (\<lambda>powerM.
      rbind (GetTotalPower powerM tc) (\<lambda>totP.
      rbind (vmod (T_trans tc) case_id (\<lambda>T.
          transient_thermal_solver (chip tp tc) powerM (Midx tc) (MidxSize tc) (Cap tc) time (time_iter tc) T (Tamb tc))) (\<lambda>Ts.
      Inr (totP * 1000, tc\<lparr>T_trans := Ts\<rparr>)))))"

definition CalcFinalT ::
  "linear_solver \<Rightarrow> Config \<Rightarrow> ThermalParams \<Rightarrow> int \<Rightarrow> u64 \<Rightarrow> ThermalCalculator \<Rightarrow> (real \<times> ThermalCalculator) res"
where
  "CalcFinalT pdgssv cfg tp case_id clk tc =
     rbind (InitPowerM cfg case_id clk tc) (\<lambda>powerM.
     rbind (GetTotalPower powerM tc) (\<lambda>totP.
     rbind (steady_thermal_solver pdgssv (chip tp tc) powerM (Midx tc) (Tamb tc)) (\<lambda>T.
     rbind (vset (T_final tc) case_id T) (\<lambda>Ts.
     Inr (totP * 1000, tc\<lparr>T_final := Ts\<rparr>)))))"

definition GetMaxTofCase :: "energy_map \<Rightarrow> int \<Rightarrow> ThermalCalculator \<Rightarrow> real res" where
  "GetMaxTofCase temp_map case_id tc =
     rbind (vget temp_map case_id) (\<lambda>T.
     mfold (\<lambda>i maxT. rbind (vget T i) (\<lambda>t. Inr (if t > maxT then t else maxT))) [0..T_size tc - 1] 0)"

text \<open>The place of the cell at \<^verbatim>\<open>x\<close>, \<^verbatim>\<open>y\<close> of an active layer among the temperatures, dummy cells counted.\<close>

definition layer_cell :: "ThermalCalculator \<Rightarrow> int \<Rightarrow> int \<Rightarrow> int \<Rightarrow> int" where
  "layer_cell tc layer j i = (layer * 3 + 1) * ((dimX tc + 2) * (dimY tc + 2)) + j * (dimX tc + 2) + i"

definition GetMaxTofCaseLayer :: "energy_map \<Rightarrow> int \<Rightarrow> int \<Rightarrow> ThermalCalculator \<Rightarrow> real res" where
  "GetMaxTofCaseLayer temp_map case_id layer tc =
     rbind (vget temp_map case_id) (\<lambda>T.
     mfold (\<lambda>(j, i) maxT. rbind (vget T (layer_cell tc layer j i)) (\<lambda>t.
         let t = t - T0 in Inr (if maxT > t then maxT else t)))
       [(j, i). j \<leftarrow> [1..dimY tc], i \<leftarrow> [1..dimX tc]] 0)"

text \<open>A line of the two temperature files: case, place, power, temperature.\<close>

type_synonym csv_line = "int \<times> int \<times> int \<times> int \<times> real \<times> real"

definition csv_lines ::
  "energy_map \<Rightarrow> energy_map \<Rightarrow> int \<Rightarrow> real \<Rightarrow> real \<Rightarrow> ThermalCalculator \<Rightarrow> csv_line list res"
where
  "csv_lines P T case_id scale offset tc =
     mfold (\<lambda>(l, j, i) out.
       rbind (rbind (vget P case_id) (\<lambda>p. vget p (l * (dimX tc * dimY tc) + (j - 1) * dimX tc + (i - 1)))) (\<lambda>p.
       rbind (rbind (vget T case_id) (\<lambda>t. vget t (layer_cell tc l j i))) (\<lambda>t.
       Inr (out @ [(case_id, i - 1, j - 1, l, p / scale, t - offset)]))))
     [(l, j, i). l \<leftarrow> [0..numP tc - 1], j \<leftarrow> [1..dimY tc], i \<leftarrow> [1..dimX tc]] []"

definition PrintCSV_trans :: "Config \<Rightarrow> int \<Rightarrow> ThermalCalculator \<Rightarrow> csv_line list res" where
  "PrintCSV_trans cfg case_id tc = csv_lines (cur_Pmap tc) (T_trans tc) case_id (real_of_int (epoch_period cfg)) T0 tc"

definition PrintCSV_final :: "int \<Rightarrow> u64 \<Rightarrow> ThermalCalculator \<Rightarrow> csv_line list res" where
  "PrintCSV_final case_id scale tc = csv_lines (accu_Pmap tc) (T_final tc) case_id (real (unat scale)) 0 tc"

text \<open>A line of the file of bank positions: vault, bank, first and last column of cells, first and last row, layer.\<close>

definition PrintCSV_bank ::
  "Config \<Rightarrow> ThermalParams \<Rightarrow> ThermalCalculator \<Rightarrow> (int \<times> int \<times> int \<times> int \<times> int \<times> int \<times> int) list res"
where
  "PrintCSV_bank cfg tp tc =
     mfold (\<lambda>(vault_id, bg, ba) out.
       rbind (MapToVault cfg tp tc vault_id) (\<lambda>(vault_id_x, vault_id_y).
       let abs_bank_id = bg * banks_per_group cfg + ba in
       rbind (MapToZ cfg tp tc vault_id abs_bank_id) (\<lambda>z.
       rbind (MapToBank cfg tp tc bg ba) (\<lambda>(bank_id_x, bank_id_y).
       let x_offset = vault_id_x * (bank_x tc * num_x_grids tp);
           y_offset = vault_id_y * (bank_y tc * num_y_grids tp)
       in Inr (out @ [(vault_id, abs_bank_id,
            x_offset + bank_id_x * num_x_grids tp, x_offset + (bank_id_x + 1) * num_x_grids tp - 1,
            y_offset + bank_id_y * num_y_grids tp, y_offset + (bank_id_y + 1) * num_y_grids tp - 1, z)])))))
     [(v, g, b). v \<leftarrow> [0..channels cfg - 1], g \<leftarrow> [0..bankgroups cfg - 1], b \<leftarrow> [0..banks_per_group cfg - 1]] []"

text \<open>
  The end of an epoch. The outputs of a case are its power in milliwatts, the highest temperature of each layer
  and of the case, and the lines of the file.
\<close>

type_synonym report = "real \<times> real list \<times> real \<times> csv_line list"

definition PrintTransPT :: "Config \<Rightarrow> ThermalParams \<Rightarrow> nat \<Rightarrow> ThermalCalculator \<Rightarrow> (report list \<times> ThermalCalculator) res" where
  "PrintTransPT cfg tp fuel tc =
     rbind (UpdateEpoch cfg fuel tc) (\<lambda>tc.
     rbind (mfold (\<lambda>ir (out, tc).
         rbind (CalcTransT cfg tp ir tc) (\<lambda>(totP, tc).
         rbind (mfold (\<lambda>layer (ms, maxT).
             rbind (GetMaxTofCaseLayer (T_trans tc) ir layer tc) (\<lambda>m.
             Inr (ms @ [m], if maxT > m then maxT else m))) [0..numP tc - 1] ([], 0)) (\<lambda>(ms, maxT).
         rbind (if output_level cfg \<ge> 2 then PrintCSV_trans cfg ir tc else Inr []) (\<lambda>csv.
         Inr (out @ [(totP, ms, maxT, csv)], tc))))) [0..num_case tc - 1] ([], tc)) (\<lambda>(out, tc).
     Inr (out, tc\<lparr>cur_Pmap := map (map (\<lambda>_. 0)) (cur_Pmap tc), sample_id := sample_id tc + 1\<rparr>)))"

definition PrintFinalPT ::
  "linear_solver \<Rightarrow> Config \<Rightarrow> ThermalParams \<Rightarrow> nat \<Rightarrow> u64 \<Rightarrow> ThermalCalculator \<Rightarrow>
   ((real \<times> real \<times> csv_line list) list \<times> ThermalCalculator) res"
where
  "PrintFinalPT pdgssv cfg tp fuel clk tc =
     rbind (spread_background cfg fuel False clk tc) (\<lambda>tc.
     mfold (\<lambda>ir (out, tc).
         rbind (CalcFinalT pdgssv cfg tp ir clk tc) (\<lambda>(totP, tc).
         rbind (GetMaxTofCase (T_final tc) ir tc) (\<lambda>maxT.
         rbind (PrintCSV_final ir clk tc) (\<lambda>csv.
         Inr (out @ [(totP, maxT, csv)], tc))))) [0..num_case tc - 1] ([], tc))"

subsection \<open>Construction\<close>

definition square_array :: "int \<Rightarrow> int" where
  "square_array total_grids =
     fold (\<lambda>x x_re. if x * (total_grids div x) = total_grids then x else x_re)
       (filter (\<lambda>x. x * x \<le> total_grids) [1..total_grids]) 1"

definition determineXY :: "real \<Rightarrow> real \<Rightarrow> int \<Rightarrow> int" where
  "determineXY xd yd total_grids =
     fst (fold (\<lambda>y (x_re, asr_re).
       let x = tdiv total_grids y in
       if x * y = total_grids then
         let a = real_of_int x * xd; b = real_of_int y * yd;
             asr = (if a \<ge> b then Some (a / real_of_int y / yd)
                    else if xd = 0 then None else Some (b / real_of_int x / xd))
         in (case asr of
               Some q \<Rightarrow> if q < asr_re then (tdiv total_grids y, q) else (x_re, asr_re)
             | None \<Rightarrow> (x_re, asr_re))
       else (x_re, asr_re)) [1..total_grids] (1, 1000))"

fun time_iter_loop :: "nat \<Rightarrow> real \<Rightarrow> real \<Rightarrow> int \<Rightarrow> int res" where
  "time_iter_loop 0 period dt n = Inl OutOfFuel"
| "time_iter_loop (Suc fuel) period dt n =
     (if period / real_of_int n \<ge> dt then time_iter_loop fuel period dt (n + 1) else Inr n)"

definition max_step :: "Chip \<Rightarrow> entry list \<Rightarrow> real list \<Rightarrow> real res" where
  "max_step c M C =
     mfold (\<lambda>(idx0, idx1, g) dt.
       rbind (idiv idx0 (plane c)) (\<lambda>idxC.
       if idx0 = idx1 then rbind (vget C idxC) (\<lambda>cap. Inr (if cap / g < dt then cap / g else dt)) else Inr dt))
     M 100"

definition calculate_time_step :: "Config \<Rightarrow> Chip \<Rightarrow> entry list \<Rightarrow> real list \<Rightarrow> int res" where
  "calculate_time_step cfg c M C =
     rbind (max_step c M C) (\<lambda>dt.
     let power_epoch_time = real_of_int (epoch_period cfg) * tCK cfg / 10 ^ 9 in
     time_iter_loop (nat \<lceil>power_epoch_time / dt\<rceil> + 2) power_epoch_time dt 10)"

definition mk_table :: "int \<Rightarrow> int \<Rightarrow> 'a \<Rightarrow> 'a list list res" where
  "mk_table n m x = (if n < 0 \<or> m < 0 then Inl LengthError else Inr (replicate (nat n) (replicate (nat m) x)))"

text \<open>The dimensions: tiers, vaults, banks, cells in both directions and cases.\<close>

definition floor_plan :: "Config \<Rightarrow> ThermalParams \<Rightarrow> (int \<times> (int \<times> int) \<times> (int \<times> int) \<times> (int \<times> int) \<times> int) res" where
  "floor_plan cfg tp =
     (if IsHMC cfg then
        let vx = determineXY (bank_asr tp) 2 (channels cfg) in
        rbind (idiv (channels cfg) vx) (\<lambda>vy.
        Inr (num_dies cfg + 1, (vx, vy), (1, 2), (vx * 1 * num_x_grids tp, vy * 2 * num_y_grids tp), 1))
      else if IsHBM cfg then
        Inr (num_dies cfg + 1, (1, 2), (8, 2), (1 * 8 * num_x_grids tp, 2 * 2 * num_y_grids tp), 1)
      else
        let bx = determineXY (bank_asr tp) 1 (banks cfg) in
        rbind (idiv (banks cfg) bx) (\<lambda>by'.
        Inr (1, (0, 0), (bx, by'), (bx * num_x_grids tp, by' * num_y_grids tp), ranks cfg * channels cfg)))"

definition mk_thermal :: "Config \<Rightarrow> ThermalParams \<Rightarrow> ThermalCalculator res" where
  "mk_thermal cfg tp =
     rbind (mk_table (channels cfg) (ranks cfg) 0) (\<lambda>background.
     rbind (floor_plan cfg tp) (\<lambda>(np, (vx, vy), (bx, by'), (dx, dy), cases).
     rbind (SetPhyAddressMapping (loc_mapping tp)) (\<lambda>mp.
     rbind (mk_table cases (np * dx * dy) 0) (\<lambda>pmap.
     let c = \<lparr>W = chip_dim_x tp, Lc = chip_dim_y tp, tiers = np, dim_x = dx + 2, dim_z = dy + 2\<rparr> in
     rbind (calculate_Midx_array c) (\<lambda>(M, n).
     let C = calculate_Cap_array c in
     rbind (calculate_time_step cfg c M C) (\<lambda>iter.
     rbind (mk_table (channels cfg * ranks cfg) (banks cfg) 0) (\<lambda>counts.
     let ambient = amb_temp tp + T0;
         tc = \<lparr>time_iter = iter, Tamb = ambient, dimX = dx, dimY = dy, numP = np, Midx = M, MidxSize = n, Cap = C,
                T_trans = replicate (nat cases) (initialize_Temperature c ambient), T_final = replicate (nat cases) [],
                sample_id = 0, accu_Pmap = pmap, cur_Pmap = pmap, refresh_count = counts,
                vault_x = vx, vault_y = vy, bank_x = bx, bank_y = by', num_case = cases,
                background_energy = background, avg_logic_power = 0, mapped_pos = mp\<rparr> in
     rbind (if output_level cfg \<ge> 0 then PrintCSV_bank cfg tp tc else Inr []) (\<lambda>_. Inr tc))))))))"

end
