(* ===== verification/Thermal_Safety.thy ===== *)
theory Thermal_Safety
  imports Thermal
begin

section \<open>The thermal model: bounds, energy and temperatures\<close>

text \<open>
  Properties of the model of \<^verbatim>\<open>src/thermal.cc\<close>. \<open>adds\<close> says what a call adds to the energy maps; \<open>thermal_inv\<close> is the
  invariant of the calculator: the shapes of its arrays, energies and counters in range, temperatures not below the
  environment, a stable time step and a floor plan in which every bank has its cells (\<open>sites_ok\<close>). Every operation
  keeps it for stacked memories; for the others the end of an epoch is shown never to be reached.
\<close>

subsection \<open>Energy\<close>

text \<open>\<open>adds k e tc tc'\<close>: the cells of case \<open>k\<close> hold \<open>e\<close> more than before in both maps, the other cases what they held.\<close>

definition map_adds :: "int \<Rightarrow> real \<Rightarrow> energy_map \<Rightarrow> energy_map \<Rightarrow> bool" where
  "map_adds k e m m' \<longleftrightarrow> length m' = length m \<and>
     (\<forall>j < length m. sum_list (m' ! j) = sum_list (m ! j) + (if int j = k then e else 0))"

definition adds :: "int \<Rightarrow> real \<Rightarrow> ThermalCalculator \<Rightarrow> ThermalCalculator \<Rightarrow> bool" where
  "adds k e tc tc' \<longleftrightarrow> map_adds k e (accu_Pmap tc) (accu_Pmap tc') \<and> map_adds k e (cur_Pmap tc) (cur_Pmap tc')"

lemma map_adds_trans: "map_adds k e m m1 \<Longrightarrow> map_adds k f m1 m2 \<Longrightarrow> map_adds k (e + f) m m2"
  by (simp add: map_adds_def)

lemma adds_trans: "adds k e tc tc1 \<Longrightarrow> adds k f tc1 tc2 \<Longrightarrow> adds k (e + f) tc tc2"
  using map_adds_trans unfolding adds_def by blast

lemma adds_refl: "adds k 0 tc tc"
  by (simp add: adds_def map_adds_def)

lemma mfold_adds:
  assumes "\<And>x s s'. x \<in> set xs \<Longrightarrow> f x s = Inr s' \<Longrightarrow> adds k e s s'"
  shows "mfold f xs tc = Inr tc' \<Longrightarrow> adds k (real (length xs) * e) tc tc'"
  using assms
proof (induction xs arbitrary: tc)
  case Nil
  then show ?case by (simp add: adds_refl)
next
  case (Cons x xs)
  then obtain s where s: "f x tc = Inr s" "mfold f xs s = Inr tc'" by (auto elim: rbindE)
  have "adds k e tc s" using Cons.prems(2) [OF _ s(1)] by simp
  moreover have "adds k (real (length xs) * e) s tc'" 
    by (rule Cons.IH [OF s(2)]) (rule Cons.prems(2) [OF list.set_intros(2)])
  ultimately have "adds k (e + real (length xs) * e) tc tc'" by (rule adds_trans)
  then show ?case by (simp add: algebra_simps)
qed

lemma sum_list_update_real:
  "i < length xs \<Longrightarrow> sum_list (xs[i := xs ! i + e]) = sum_list xs + (e :: real)"
  by (induction xs arbitrary: i) (auto split: nat.splits)

lemma map_adds_vmod:
  assumes "vmod m k (\<lambda>c. vmod c i (\<lambda>x. Inr (x + e))) = Inr m'"
  shows "map_adds k e m m'"
  using assms by (auto simp: res_simps map_adds_def nth_list_update sum_list_update_real)

lemma add_energy_adds: "add_energy k i e tc = Inr tc' \<Longrightarrow> adds k e tc tc'"
  by (auto simp: add_energy_def adds_def elim!: rbindE intro: map_adds_vmod)

lemma MapToXY_length:
  assumes "MapToXY cfg tp tc cmd vx vy bx by' = Inr (x, y)"
  shows "length x = nat (BL cfg) * nat (device_width cfg) \<and> length y = nat (BL cfg) * nat (device_width cfg)"
proof -
  have "\<mu> (x, y) = \<mu> ([] :: int list, [] :: int list) + length [0..BL cfg - 1] * (length [0..device_width cfg - 1] * 1)"
    if \<mu>: "\<And>x y a b. \<mu> (x @ [a], y @ [b]) = \<mu> (x, y) + 1" for \<mu> :: "int list \<times> int list \<Rightarrow> nat"
    using assms unfolding MapToXY_def
    by (elim rbindE) (erule mfold_measure [rotated],
      auto simp: Let_def \<mu> elim!: rbindE dest!: mfold_measure [where \<mu> = \<mu> and n = 1, rotated])
  from this [of "\<lambda>(x, y). length x"] this [of "\<lambda>(x, y). length y"] show ?thesis by simp
qed

lemma LocationMappingANDaddEnergy_adds:
  assumes "LocationMappingANDaddEnergy cfg tp ch cmd k e tc = Inr tc'" "0 < BL cfg" "0 < device_width cfg"
  shows "adds k (real_of_int (BL cfg) * e) tc tc'"
proof -
  obtain x y zo where xy: "length x = nat (BL cfg) * nat (device_width cfg)" "length y = nat (BL cfg) * nat (device_width cfg)"
    and m: "mfold (\<lambda>(xi, yi). add_energy k (zo + yi * dimX tc + xi) (e / real_of_int (device_width cfg))) (zip x y) tc = Inr tc'"
    using assms(1) unfolding LocationMappingANDaddEnergy_def
    by (auto simp: Let_def elim!: rbindE dest!: MapToXY_length)
  have "adds k (real (length (zip x y)) * (e / real_of_int (device_width cfg))) tc tc'"
    by (rule mfold_adds [OF _ m]) (auto dest: add_energy_adds)
  then show ?thesis using xy assms(2,3) by simp
qed

lemma LocationMappingANDaddEnergy_RF_adds:
  assumes "LocationMappingANDaddEnergy_RF cfg tp ch cmd b r k e tc = Inr tc'" "0 < num_y_grids tp"
  shows "adds k (real_of_int (num_y_grids tp) * e) tc tc'"
proof -
  obtain x y zo where
    m: "mfold (\<lambda>i. add_energy k (zo + (y + i) * dimX tc + x) e) [0..num_y_grids tp - 1] tc = Inr tc'"
    using assms(1) unfolding LocationMappingANDaddEnergy_RF_def by (auto simp: Let_def elim!: rbindE)
  from mfold_adds [OF _ m, of k e] add_energy_adds assms(2) show ?thesis by fastforce
qed

lemma refresh_rows_adds:
  assumes "refresh_rows cfg tp ch cmd k e ib tc = Inr tc'" "0 < num_y_grids tp" "0 < num_row_refresh tp"
  shows "adds k (real_of_int (num_row_refresh tp) * (real_of_int (num_y_grids tp) * e)) tc tc'"
proof -
  obtain row_s rc where
    m: "mfold (\<lambda>ir. LocationMappingANDaddEnergy_RF cfg tp ch cmd ib ir k e) [row_s..row_s + num_row_refresh tp - 1]
         (tc\<lparr>refresh_count := rc\<rparr>) = Inr tc'"
    using assms(1) unfolding refresh_rows_def by (auto simp: Let_def elim!: rbindE)
  from mfold_adds [OF _ m, of k "real_of_int (num_y_grids tp) * e"] LocationMappingANDaddEnergy_RF_adds [OF _ assms(2)]
  have "adds k (real (nat (num_row_refresh tp)) * (real_of_int (num_y_grids tp) * e)) (tc\<lparr>refresh_count := rc\<rparr>) tc'"
    by fastforce
  then show ?thesis using assms(3) by (simp add: adds_def)
qed

text \<open>The energy of a command in a device, as the statistics count it.\<close>

definition command_energy :: "Config \<Rightarrow> CommandType \<Rightarrow> real" where
  "command_energy cfg t =
     (if t = REFRESH then ref_energy_inc cfg
      else if t = REFRESH_BANK then refb_energy_inc cfg
      else if t = ACTIVATE then max 0 (act_energy_inc cfg)
      else if t = READ \<or> t = READ_PRECHARGE then max 0 (read_energy_inc cfg)
      else if t = WRITE \<or> t = WRITE_PRECHARGE then max 0 (write_energy_inc cfg)
      else 0)"

definition stacked :: "Config \<Rightarrow> bool" where
  "stacked cfg \<longleftrightarrow> IsHMC cfg \<or> IsHBM cfg"

lemma UpdateCMDPower_adds:
  assumes "UpdateCMDPower cfg tp ch cmd tc = Inr tc'"
    and "0 < BL cfg" "0 < device_width cfg" "0 < banks cfg" "0 < num_row_refresh tp" "0 < num_y_grids tp"
  shows "adds (if stacked cfg then 0 else ch * ranks cfg + Rank cmd)
    (command_energy cfg (cmd_type cmd) / 1000 / (if stacked cfg then 1 else real_of_int (devices_per_rank cfg))) tc tc'"
proof -
  let ?k = "if stacked cfg then 0 else ch * ranks cfg + Rank cmd"
  let ?d = "if stacked cfg then 1 else real_of_int (devices_per_rank cfg)"
  have sc: "(if IsHMC cfg \<or> IsHBM cfg then (1, 0) else (real_of_int (devices_per_rank cfg), ch * ranks cfg + Rank cmd)) = (?d, ?k)"
    by (simp add: stacked_def)
  note u = assms(1) [unfolded UpdateCMDPower_def sc Let_def case_prod_conv]
  show ?thesis
  proof (cases "cmd_type cmd = REFRESH")
    case True
    let ?e = "ref_energy_inc cfg / real_of_int (num_row_refresh tp) / real_of_int (banks cfg) / real_of_int (num_y_grids tp) / 1000 / ?d"
    have "adds ?k (real (length [0..banks cfg - 1]) * (real_of_int (num_row_refresh tp) * (real_of_int (num_y_grids tp) * ?e))) tc tc'"
    proof (rule mfold_adds [where f = "refresh_rows cfg tp ch cmd ?k ?e"])
      show "mfold (refresh_rows cfg tp ch cmd ?k ?e) [0..banks cfg - 1] tc = Inr tc'" using u True by (simp only: simp_thms if_True)
    qed (rule refresh_rows_adds [OF _ assms(6,5)])
    then show ?thesis using True assms(4-6) by (simp add: command_energy_def)
  next
    case False
    show ?thesis
    proof (cases "cmd_type cmd = REFRESH_BANK")
      case True
      then have "refresh_rows cfg tp ch cmd ?k (refb_energy_inc cfg / real_of_int (num_row_refresh tp) /
          real_of_int (num_y_grids tp) / 1000 / ?d) (Bank cmd) tc = Inr tc'"
        using u by simp
      from refresh_rows_adds [OF this assms(6,5)] True assms(5,6) show ?thesis by (simp add: command_energy_def)
    next
      case nb: False
      define e where "e = (case cmd_type cmd of ACTIVATE \<Rightarrow> act_energy_inc cfg | READ \<Rightarrow> read_energy_inc cfg
          | READ_PRECHARGE \<Rightarrow> read_energy_inc cfg | WRITE \<Rightarrow> write_energy_inc cfg
          | WRITE_PRECHARGE \<Rightarrow> write_energy_inc cfg | _ \<Rightarrow> 0)"
      have e: "command_energy cfg (cmd_type cmd) = max 0 e"
        using False nb by (simp add: command_energy_def e_def split: CommandType.splits)
      have u': "(if 0 < e then LocationMappingANDaddEnergy cfg tp ch cmd ?k (e / real_of_int (BL cfg) / 1000 / ?d) tc else Inr tc) = Inr tc'"
        using u False nb unfolding e_def by (simp only: if_False)
      show ?thesis
      proof (cases "0 < e")
        case True
        with u' have "LocationMappingANDaddEnergy cfg tp ch cmd ?k (e / real_of_int (BL cfg) / 1000 / ?d) tc = Inr tc'" by simp
        from LocationMappingANDaddEnergy_adds [OF this assms(2,3)] True assms(2) show ?thesis
          unfolding e by simp
      next
        case False
        then show ?thesis using u' adds_refl unfolding e by simp
      qed
    qed
  qed
qed

subsection \<open>The time step\<close>

lemma max_step_ok:
  assumes "chip_ok c" "set M \<subseteq> set (network c)"
  shows "0 < d \<Longrightarrow> \<exists>dt. mfold (\<lambda>(idx0, idx1, g) dt.
       rbind (idiv idx0 (plane c)) (\<lambda>idxC.
       if idx0 = idx1 then rbind (vget (calculate_Cap_array c) idxC) (\<lambda>cap. Inr (if cap / g < dt then cap / g else dt)) else Inr dt))
     M d = Inr dt \<and> 0 < dt \<and> dt \<le> d \<and>
     (\<forall>(r, k, g) \<in> set M. r = k \<longrightarrow> dt \<le> calculate_Cap_array c ! nat (r div plane c) / g)"
  using assms(2)
proof (induction M arbitrary: d)
  case (Cons e M)
  let ?C = "calculate_Cap_array c"
  obtain r k g where e: "e = (r, k, g)" by (cases e)
  have p: "0 < plane c" using chip_pos [OF assms(1)] by simp
  have rk: "0 \<le> r" "r < nodes c" using network_range [OF assms(1), of r k g] Cons.prems(2) e by auto
  define idx where "idx = r div plane c"
  have i: "0 \<le> idx" "idx \<le> numLayer c"
    using rk p div_lt_mult [of "plane c" r "numLayer c + 1"]
    by (simp_all add: idx_def pos_imp_zdiv_nonneg_iff mult.commute)
  have v: "vget ?C idx = Inr (?C ! nat idx)" using i length_Cap [OF assms(1)] by (intro vget_in) simp_all
  have dv: "idiv r (plane c) = Inr idx" using p rk chip_pos [OF assms(1)] by (simp add: idiv_def idx_def)
  define d1 where "d1 = (if r = k then (if ?C ! nat idx / g < d then ?C ! nat idx / g else d) else d)"
  have "0 < d1"
    using Cons.prems Cap_pos [OF assms(1) i] diagonal_pos [OF assms(1), of r g] e by (auto simp: d1_def)
  with Cons.IH [of d1] Cons.prems(2) obtain dt where dt: "mfold (\<lambda>(idx0, idx1, g) dt.
       rbind (idiv idx0 (plane c)) (\<lambda>idxC.
       if idx0 = idx1 then rbind (vget ?C idxC) (\<lambda>cap. Inr (if cap / g < dt then cap / g else dt)) else Inr dt))
     M d1 = Inr dt" "0 < dt" "dt \<le> d1" "\<forall>(r, k, g) \<in> set M. r = k \<longrightarrow> dt \<le> ?C ! nat (r div plane c) / g"
    by auto
  moreover have "dt \<le> d" "r = k \<longrightarrow> dt \<le> ?C ! nat (r div plane c) / g"
    using dt(3) by (auto simp: d1_def idx_def split: if_splits)
  moreover have "(\<lambda>(idx0, idx1, g) dt.
       rbind (idiv idx0 (plane c)) (\<lambda>idxC.
       if idx0 = idx1 then rbind (vget ?C idxC) (\<lambda>cap. Inr (if cap / g < dt then cap / g else dt)) else Inr dt)) e d = Inr d1"
    by (simp add: e dv v d1_def)
  ultimately show ?case by (simp add: e)
qed simp

lemma time_iter_loop_ok:
  assumes "0 < dt" "0 \<le> period"
  shows "0 < n \<Longrightarrow> period / dt < real_of_int n + real fuel \<Longrightarrow>
    \<exists>m. time_iter_loop (Suc fuel) period dt n = Inr m \<and> n \<le> m \<and> period / real_of_int m < dt"
proof (induction fuel arbitrary: n)
  case 0
  then have "period / real_of_int n < dt" using assms(1) by (simp add: divide_less_eq mult.commute)
  then show ?case by simp
next
  case (Suc fuel)
  show ?case
  proof (cases "period / real_of_int n \<ge> dt")
    case True
    with Suc.IH [of "n + 1"] Suc.prems obtain m where
      "time_iter_loop (Suc fuel) period dt (n + 1) = Inr m" "n + 1 \<le> m" "period / real_of_int m < dt" by auto
    then show ?thesis using True by (auto simp del: time_iter_loop.simps(2) simp: time_iter_loop.simps(2) [of "Suc fuel"])
  next
    case False
    then show ?thesis by auto
  qed
qed

definition epoch_time :: "Config \<Rightarrow> real" where
  "epoch_time cfg = real_of_int (epoch_period cfg) * tCK cfg / 10 ^ 9"

lemma calculate_time_step_ok:
  assumes "chip_ok c" "0 \<le> epoch_time cfg"
  shows "\<exists>n. calculate_time_step cfg c (network c) (calculate_Cap_array c) = Inr n \<and> 10 \<le> n \<and>
    stable_step c (epoch_time cfg / real_of_int n)"
proof -
  let ?C = "calculate_Cap_array c"
  from max_step_ok [OF assms(1) order_refl, of 100] obtain dt where dt: "max_step c (network c) ?C = Inr dt" "0 < dt"
      "\<forall>(r, k, g) \<in> set (network c). r = k \<longrightarrow> dt \<le> ?C ! nat (r div plane c) / g"
    by (auto simp: max_step_def)
  let ?f = "nat \<lceil>epoch_time cfg / dt\<rceil> + 1"
  have "epoch_time cfg / dt < real_of_int 10 + real ?f"
    using real_nat_ceiling_ge [of "epoch_time cfg / dt"] by linarith
  from time_iter_loop_ok [OF dt(2) assms(2) _ this] obtain n where
    n: "time_iter_loop (Suc ?f) (epoch_time cfg) dt 10 = Inr n" "10 \<le> n" "epoch_time cfg / real_of_int n < dt" by auto
  have "g * (epoch_time cfg / real_of_int n) \<le> ?C ! nat (r div plane c)" if e: "(r, r, g) \<in> set (network c)" for r g
  proof -
    have "epoch_time cfg / real_of_int n \<le> ?C ! nat (r div plane c) / g" using dt(3) n(3) e by fastforce
    then show ?thesis using diagonal_pos [OF assms(1) e] by (simp add: le_divide_eq mult.commute)
  qed
  then have "stable_step c (epoch_time cfg / real_of_int n)" using assms(2) n(2) by (auto simp: stable_step_def)
  moreover have "calculate_time_step cfg c (network c) ?C = Inr n"
    using n(1) unfolding calculate_time_step_def dt(1) rbind_Inr Let_def epoch_time_def by (simp only: Suc_eq_plus1 add.assoc one_add_one)
  ultimately show ?thesis using n(2) by blast
qed

subsection \<open>The state of the calculator\<close>

definition energies_ok :: "int \<Rightarrow> int \<Rightarrow> energy_map \<Rightarrow> bool" where
  "energies_ok cases n m \<longleftrightarrow> int (length m) = cases \<and>
     (\<forall>cs \<in> set m. int (length cs) = n \<and> (\<forall>x \<in> set cs. 0 \<le> x))"

definition temps_ok :: "Chip \<Rightarrow> int \<Rightarrow> real \<Rightarrow> energy_map \<Rightarrow> bool" where
  "temps_ok c cases ambient m \<longleftrightarrow> int (length m) = cases \<and>
     (\<forall>T \<in> set m. length T = nat (nodes c) \<and> (\<forall>t \<in> set T. ambient \<le> t))"

definition counts_ok :: "Config \<Rightarrow> ThermalParams \<Rightarrow> int list list \<Rightarrow> bool" where
  "counts_ok cfg tp m \<longleftrightarrow> int (length m) = channels cfg * ranks cfg \<and>
     (\<forall>cs \<in> set m. int (length cs) = banks cfg \<and> (\<forall>n \<in> set cs. 0 \<le> n \<and> n * num_row_refresh tp < rows cfg))"

text \<open>The place of a bank of a channel: the cells of the bank lie in the plane and in a tier of the stack.\<close>

definition site_ok :: "Config \<Rightarrow> ThermalParams \<Rightarrow> ThermalCalculator \<Rightarrow> int \<Rightarrow> int \<Rightarrow> int \<Rightarrow> bool" where
  "site_ok cfg tp tc ch bg ba \<longleftrightarrow>
     (case (MapToVault cfg tp tc ch, MapToBank cfg tp tc bg ba, MapToZ cfg tp tc ch ba) of
        (Inr (vx, vy), Inr (bx, by'), Inr z) \<Rightarrow>
          0 \<le> vx * bank_x tc + bx \<and> (vx * bank_x tc + bx + 1) * num_x_grids tp \<le> dimX tc \<and>
          0 \<le> vy * bank_y tc + by' \<and> (vy * bank_y tc + by' + 1) * num_y_grids tp \<le> dimY tc \<and>
          0 \<le> z \<and> z < numP tc
      | _ \<Rightarrow> False)"

text \<open>The parameters fit together: whole cells, whole rounds of refreshes, no tiles, no negative energy.\<close>

definition params_fit :: "Config \<Rightarrow> ThermalParams \<Rightarrow> bool" where
  "params_fit cfg tp \<longleftrightarrow>
     0 < mat_dim_x tp \<and> 0 < mat_dim_y tp \<and> 0 < num_x_grids tp \<and> 0 < num_y_grids tp \<and>
     rows cfg = num_x_grids tp * mat_dim_x tp \<and> columns cfg * device_width cfg = num_y_grids tp * mat_dim_y tp \<and>
     row_tile tp = 1 \<and> tile_row_num tp = rows cfg \<and> loc_mapping tp = [] \<and>
     0 < num_row_refresh tp \<and> rows cfg mod num_row_refresh tp = 0 \<and>
     0 < chip_dim_x tp \<and> 0 < chip_dim_y tp \<and>
     1 \<le> channels cfg \<and> 1 \<le> ranks cfg \<and> 1 \<le> bankgroups cfg \<and> 1 \<le> banks_per_group cfg \<and>
     banks cfg = bankgroups cfg * banks_per_group cfg \<and>
     0 < BL cfg \<and> 0 < device_width cfg \<and> 0 < devices_per_rank cfg \<and>
     0 \<le> ref_energy_inc cfg \<and> 0 < epoch_period cfg \<and> 0 < tCK cfg"

definition sites_ok :: "Config \<Rightarrow> ThermalParams \<Rightarrow> ThermalCalculator \<Rightarrow> bool" where
  "sites_ok cfg tp tc \<longleftrightarrow> (\<forall>ch bg ba. 0 \<le> ch \<longrightarrow> ch < channels cfg \<longrightarrow> 0 \<le> bg \<longrightarrow> bg < bankgroups cfg \<longrightarrow>
     0 \<le> ba \<longrightarrow> ba < banks_per_group cfg \<longrightarrow> site_ok cfg tp tc ch bg ba)"

definition volume :: "ThermalCalculator \<Rightarrow> int" where
  "volume tc = numP tc * dimX tc * dimY tc"

definition cases_ok :: "Config \<Rightarrow> int \<Rightarrow> bool" where
  "cases_ok cfg n \<longleftrightarrow> n = (if stacked cfg then 1 else ranks cfg * channels cfg)"

definition ambient_ok :: "ThermalParams \<Rightarrow> real \<Rightarrow> bool" where
  "ambient_ok tp t \<longleftrightarrow> t = amb_temp tp + T0"

definition thermal_inv :: "Config \<Rightarrow> ThermalParams \<Rightarrow> ThermalCalculator \<Rightarrow> bool" where
  "thermal_inv cfg tp tc \<longleftrightarrow>
     sites_ok cfg tp tc \<and> chip_ok (chip tp tc) \<and> mapped_pos tc = None \<and> ambient_ok tp (Tamb tc) \<and>
     cases_ok cfg (num_case tc) \<and> 0 < dimX tc \<and> 0 < dimY tc \<and>
     energies_ok (num_case tc) (volume tc) (accu_Pmap tc) \<and> energies_ok (num_case tc) (volume tc) (cur_Pmap tc) \<and>
     temps_ok (chip tp tc) (num_case tc) (Tamb tc) (T_trans tc) \<and> int (length (T_final tc)) = num_case tc \<and>
     Midx tc = network (chip tp tc) \<and> MidxSize tc = Midx_count (chip tp tc) \<and> Cap tc = calculate_Cap_array (chip tp tc) \<and>
     stable_step (chip tp tc) (epoch_time cfg / real_of_int (time_iter tc)) \<and>
     counts_ok cfg tp (refresh_count tc) \<and> energies_ok (channels cfg) (ranks cfg) (background_energy tc) \<and>
     0 \<le> avg_logic_power tc"

lemma energies_ok_add:
  assumes "energies_ok cases n m" "0 \<le> k" "k < cases" "0 \<le> i" "i < n" "0 \<le> e"
  shows "\<exists>m'. vmod m k (\<lambda>c. vmod c i (\<lambda>x. Inr (x + e))) = Inr m' \<and> energies_ok cases n m'"
proof -
  have k: "nat k < length m" "k < int (length m)" using assms by (auto simp: energies_ok_def)
  have c: "int (length (m ! nat k)) = n" "\<forall>x \<in> set (m ! nat k). 0 \<le> x"
    using assms(1) nth_mem [OF k(1)] unfolding energies_ok_def by blast+
  let ?c = "(m ! nat k)[nat i := m ! nat k ! nat i + e]"
  have "vmod m k (\<lambda>c. vmod c i (\<lambda>x. Inr (x + e))) = Inr (m[nat k := ?c])"
    using assms k c by (simp add: vmod_def)
  moreover have "\<forall>x \<in> set ?c. 0 \<le> x"
    using c assms(4-6) by (auto dest!: set_update_subset_insert [THEN subsetD])
  then have "energies_ok cases n (m[nat k := ?c])"
    using assms(1) c(1) k(1) by (auto simp: energies_ok_def dest!: set_update_subset_insert [THEN subsetD])
  ultimately show ?thesis by blast
qed

definition geometry :: "ThermalCalculator \<Rightarrow> int list" where
  "geometry tc = [dimX tc, dimY tc, numP tc, vault_x tc, vault_y tc, bank_x tc, bank_y tc, num_case tc]"

lemma geometry_cong:
  assumes "geometry tc' = geometry tc"
  shows "MapToVault cfg tp tc' = MapToVault cfg tp tc" "MapToBank cfg tp tc' = MapToBank cfg tp tc"
    "MapToZ cfg tp tc' = MapToZ cfg tp tc" "sites_ok cfg tp tc' = sites_ok cfg tp tc" "volume tc' = volume tc"
    "chip tp tc' = chip tp tc" "num_case tc' = num_case tc" "dimX tc' = dimX tc" "dimY tc' = dimY tc" "numP tc' = numP tc"
proof -
  show m: "MapToVault cfg tp tc' = MapToVault cfg tp tc" "MapToBank cfg tp tc' = MapToBank cfg tp tc"
    "MapToZ cfg tp tc' = MapToZ cfg tp tc"
    using assms by (simp_all add: geometry_def MapToVault_def MapToBank_def MapToZ_def Let_def fun_eq_iff cong: if_cong)
  have g: "dimX tc' = dimX tc" "dimY tc' = dimY tc" "numP tc' = numP tc" "bank_x tc' = bank_x tc" "bank_y tc' = bank_y tc"
    using assms by (simp_all add: geometry_def)
  show "sites_ok cfg tp tc' = sites_ok cfg tp tc"
    unfolding sites_ok_def site_ok_def m g ..
qed (use assms in \<open>simp_all add: geometry_def volume_def chip_def\<close>)

lemma thermal_inv_maps:
  assumes "thermal_inv cfg tp tc" "energies_ok (num_case tc) (volume tc) a" "energies_ok (num_case tc) (volume tc) c"
  shows "thermal_inv cfg tp (tc\<lparr>accu_Pmap := a, cur_Pmap := c\<rparr>)"
proof -
  have "geometry (tc\<lparr>accu_Pmap := a, cur_Pmap := c\<rparr>) = geometry tc" by (simp add: geometry_def)
  from geometry_cong [OF this] assms show ?thesis by (simp add: thermal_inv_def)
qed

lemma add_energy_ok:
  assumes "thermal_inv cfg tp tc" "0 \<le> k" "k < num_case tc" "0 \<le> i" "i < volume tc" "0 \<le> e"
  shows "\<exists>tc'. add_energy k i e tc = Inr tc' \<and> thermal_inv cfg tp tc' \<and> geometry tc' = geometry tc"
proof -
  obtain a c where "vmod (accu_Pmap tc) k (\<lambda>c. vmod c i (\<lambda>x. Inr (x + e))) = Inr a" "energies_ok (num_case tc) (volume tc) a"
      "vmod (cur_Pmap tc) k (\<lambda>c. vmod c i (\<lambda>x. Inr (x + e))) = Inr c" "energies_ok (num_case tc) (volume tc) c"
    using energies_ok_add [OF _ assms(2-6)] assms(1) unfolding thermal_inv_def by metis
  then show ?thesis
    using thermal_inv_maps [OF assms(1)] by (simp add: add_energy_def geometry_def)
qed

lemma add_energies_ok:
  assumes "thermal_inv cfg tp tc" "0 \<le> k" "k < num_case tc" "0 \<le> e"
    "\<And>x. x \<in> set xs \<Longrightarrow> 0 \<le> idx x \<and> idx x < volume tc"
  shows "\<exists>tc'. mfold (\<lambda>x. add_energy k (idx x) e) xs tc = Inr tc' \<and> thermal_inv cfg tp tc' \<and> geometry tc' = geometry tc"
proof (rule mfold_invariant [where P = "\<lambda>s. thermal_inv cfg tp s \<and> geometry s = geometry tc"])
  show "\<exists>s'. add_energy k (idx x) e s = Inr s' \<and> thermal_inv cfg tp s' \<and> geometry s' = geometry tc"
    if "x \<in> set xs" "thermal_inv cfg tp s \<and> geometry s = geometry tc" for x s
    using add_energy_ok [of cfg tp s k "idx x" e] that assms(2-5) geometry_cong [of s tc] by auto
qed (use assms(1) in simp)

lemma cell_index:
  fixes x y z dx dy n :: int
  assumes "0 \<le> x" "x < dx" "0 \<le> y" "y < dy" "0 \<le> z" "z < n"
  shows "0 \<le> z * dx * dy + y * dx + x" "z * dx * dy + y * dx + x < n * dx * dy"
proof -
  have p: "0 \<le> y * dx + x" "y * dx + x < dx * dy" using pair_index [OF assms(1-4)] by auto
  from pair_index [OF p assms(5,6)] show "0 \<le> z * dx * dy + y * dx + x" "z * dx * dy + y * dx + x < n * dx * dy"
    by (simp_all only: mult.assoc add.assoc mult.commute [of n])
qed

lemma site_okE:
  assumes "site_ok cfg tp tc ch bg ba"
  obtains vx vy bx by' z where "MapToVault cfg tp tc ch = Inr (vx, vy)" "MapToBank cfg tp tc bg ba = Inr (bx, by')"
    "MapToZ cfg tp tc ch ba = Inr z" "0 \<le> vx * bank_x tc + bx" "(vx * bank_x tc + bx + 1) * num_x_grids tp \<le> dimX tc"
    "0 \<le> vy * bank_y tc + by'" "(vy * bank_y tc + by' + 1) * num_y_grids tp \<le> dimY tc" "0 \<le> z" "z < numP tc"
proof -
  obtain vx vy where v: "MapToVault cfg tp tc ch = Inr (vx, vy)"
    using assms by (cases "MapToVault cfg tp tc ch") (auto simp: site_ok_def)
  obtain bx by' where b: "MapToBank cfg tp tc bg ba = Inr (bx, by')"
    using assms v by (cases "MapToBank cfg tp tc bg ba") (auto simp: site_ok_def)
  obtain z where z: "MapToZ cfg tp tc ch ba = Inr z"
    using assms v b by (cases "MapToZ cfg tp tc ch ba") (auto simp: site_ok_def)
  show thesis by (rule that [OF v b z]) (use assms v b z in \<open>simp_all add: site_ok_def\<close>)
qed

text \<open>A cell of a bank is a cell of the plane.\<close>

lemma bank_cell:
  fixes v b g n d :: int
  assumes "0 \<le> v * s + b" "(v * s + b + 1) * n \<le> d" "0 \<le> g" "g < n"
  shows "0 \<le> v * (s * n) + b * n + g" "v * (s * n) + b * n + g < d"
proof -
  have e: "v * (s * n) + b * n + g = (v * s + b) * n + g" by (simp add: algebra_simps)
  show "0 \<le> v * (s * n) + b * n + g" unfolding e using assms by simp
  have "(v * s + b) * n + g < (v * s + b + 1) * n" using assms(4) by (simp add: algebra_simps)
  then show "v * (s * n) + b * n + g < d" unfolding e using assms(2) by linarith
qed

subsection \<open>Issued commands\<close>

lemma MapToXY_ok:
  assumes fit: "params_fit cfg tp" and "mapped_pos tc = None"
    and row: "0 \<le> Row cmd" "Row cmd < rows cfg" and col: "0 \<le> Column cmd" "Column cmd + BL cfg \<le> columns cfg"
    and x: "0 \<le> vx * bank_x tc + bx" "(vx * bank_x tc + bx + 1) * num_x_grids tp \<le> dimX tc"
    and y: "0 \<le> vy * bank_y tc + by'" "(vy * bank_y tc + by' + 1) * num_y_grids tp \<le> dimY tc"
  shows "\<exists>s. MapToXY cfg tp tc cmd vx vy bx by' = Inr s \<and>
    (\<forall>a \<in> set (fst s). 0 \<le> a \<and> a < dimX tc) \<and> (\<forall>b \<in> set (snd s). 0 \<le> b \<and> b < dimY tc)"
proof -
  have gx: "0 \<le> Row cmd div mat_dim_x tp" "Row cmd div mat_dim_x tp < num_x_grids tp"
    using fit row by (auto simp: params_fit_def pos_imp_zdiv_nonneg_iff intro!: div_lt_mult)
  have ct: "idiv (Row cmd) (tile_row_num tp) = Inr 0"
    using fit row by (simp add: params_fit_def idiv_def)
  have g: "idiv (Row cmd) (mat_dim_x tp) = Inr (Row cmd div mat_dim_x tp)"
    "idiv (Row cmd div mat_dim_x tp) (row_tile tp) = Inr (Row cmd div mat_dim_x tp)"
    using fit row gx by (simp_all add: params_fit_def idiv_def)
  have gy: "idiv ((Column cmd + i) * device_width cfg + j) (mat_dim_y tp) =
        Inr (((Column cmd + i) * device_width cfg + j) div mat_dim_y tp)"
      "0 \<le> ((Column cmd + i) * device_width cfg + j) div mat_dim_y tp"
      "((Column cmd + i) * device_width cfg + j) div mat_dim_y tp < num_y_grids tp"
    if "0 \<le> i" "i < BL cfg" "0 \<le> j" "j < device_width cfg" for i j
  proof -
    have c: "0 \<le> Column cmd + i" "Column cmd + i < columns cfg" using col that by linarith+
    from pair_index [OF that(3,4) c] have
      p: "0 \<le> (Column cmd + i) * device_width cfg + j" "(Column cmd + i) * device_width cfg + j < num_y_grids tp * mat_dim_y tp"
      using fit by (simp_all add: params_fit_def mult.commute)
    show "idiv ((Column cmd + i) * device_width cfg + j) (mat_dim_y tp) =
        Inr (((Column cmd + i) * device_width cfg + j) div mat_dim_y tp)"
      "0 \<le> ((Column cmd + i) * device_width cfg + j) div mat_dim_y tp"
      "((Column cmd + i) * device_width cfg + j) div mat_dim_y tp < num_y_grids tp"
      using fit p by (simp_all add: params_fit_def idiv_def pos_imp_zdiv_nonneg_iff div_lt_mult)
  qed
  have t: "idiv (num_y_grids tp) (row_tile tp) = Inr (num_y_grids tp)"
    using fit by (simp add: params_fit_def idiv_def)
  let ?P = "\<lambda>s. (\<forall>a \<in> set (fst s). 0 \<le> a \<and> a < dimX tc) \<and> (\<forall>b \<in> set (snd s). 0 \<le> b \<and> b < dimY tc)"
  show ?thesis
    unfolding MapToXY_def ct g rbind_Inr
  proof (rule mfold_invariant [where P = ?P], goal_cases)
    case (1 i s)
    then have i: "0 \<le> i" "i < BL cfg" by auto
    obtain xs ys where s: "s = (xs, ys)" by (cases s)
    show ?case
      unfolding s case_prod_conv GetPhyAddress_def assms(2) option.case rbind_Inr Let_def Address.select_convs Address.update_convs t
    proof (rule mfold_invariant [where P = ?P], goal_cases)
      case (1 j u)
      then have j: "0 \<le> j" "j < device_width cfg" by auto
      show ?case
        using 1(2) gy [OF i j] bank_cell [OF x gx] bank_cell [OF y gy(2,3) [OF i j]] by (cases u) auto
    qed (use 1(2) s in simp)
  qed simp
qed

definition command_ok :: "Config \<Rightarrow> int \<Rightarrow> Command \<Rightarrow> bool" where
  "command_ok cfg ch cmd \<longleftrightarrow> 0 \<le> ch \<and> ch < channels cfg \<and> 0 \<le> Rank cmd \<and> Rank cmd < ranks cfg \<and>
     0 \<le> Bankgroup cmd \<and> Bankgroup cmd < bankgroups cfg \<and> 0 \<le> Bank cmd \<and> Bank cmd < banks_per_group cfg \<and>
     0 \<le> Row cmd \<and> Row cmd < rows cfg \<and> 0 \<le> Column cmd \<and> Column cmd + BL cfg \<le> columns cfg \<and>
     (cmd_type cmd = REFRESH_BANK \<longrightarrow> 0 \<le> refb_energy_inc cfg)"

lemma sites_okD:
  "thermal_inv cfg tp tc \<Longrightarrow> 0 \<le> ch \<Longrightarrow> ch < channels cfg \<Longrightarrow> 0 \<le> bg \<Longrightarrow> bg < bankgroups cfg \<Longrightarrow>
   0 \<le> ba \<Longrightarrow> ba < banks_per_group cfg \<Longrightarrow> site_ok cfg tp tc ch bg ba"
  by (simp add: thermal_inv_def sites_ok_def)

lemma LocationMappingANDaddEnergy_ok:
  assumes fit: "params_fit cfg tp" and inv: "thermal_inv cfg tp tc" and cmd: "command_ok cfg ch cmd"
    and k: "0 \<le> k" "k < num_case tc" and "0 \<le> e"
  shows "\<exists>tc'. LocationMappingANDaddEnergy cfg tp ch cmd k e tc = Inr tc' \<and> thermal_inv cfg tp tc' \<and> geometry tc' = geometry tc"
proof -
  from cmd have c: "0 \<le> Row cmd" "Row cmd < rows cfg" "0 \<le> Column cmd" "Column cmd + BL cfg \<le> columns cfg"
    by (simp_all add: command_ok_def)
  have "site_ok cfg tp tc ch (Bankgroup cmd) (Bank cmd)"
    using cmd by (intro sites_okD [OF inv]) (simp_all add: command_ok_def)
  then obtain vx vy bx by' z where s: "MapToVault cfg tp tc ch = Inr (vx, vy)"
      "MapToBank cfg tp tc (Bankgroup cmd) (Bank cmd) = Inr (bx, by')" "MapToZ cfg tp tc ch (Bank cmd) = Inr z"
      and x: "0 \<le> vx * bank_x tc + bx" "(vx * bank_x tc + bx + 1) * num_x_grids tp \<le> dimX tc"
      and y: "0 \<le> vy * bank_y tc + by'" "(vy * bank_y tc + by' + 1) * num_y_grids tp \<le> dimY tc"
      and z: "0 \<le> z" "z < numP tc" by (rule site_okE)
  have "mapped_pos tc = None" using inv by (simp add: thermal_inv_def)
  from MapToXY_ok [OF fit this c x y] obtain xs ys where
    m: "MapToXY cfg tp tc cmd vx vy bx by' = Inr (xs, ys)" and
    xy: "\<forall>a \<in> set xs. 0 \<le> a \<and> a < dimX tc" "\<forall>b \<in> set ys. 0 \<le> b \<and> b < dimY tc" by auto
  have "\<exists>tc'. mfold (\<lambda>p. add_energy k (z * dimX tc * dimY tc + snd p * dimX tc + fst p) (e / real_of_int (device_width cfg))) (zip xs ys) tc = Inr tc' \<and>
      thermal_inv cfg tp tc' \<and> geometry tc' = geometry tc"
  proof (rule add_energies_ok [OF inv k])
    show "0 \<le> e / real_of_int (device_width cfg)" using fit assms(6) by (simp add: params_fit_def)
    fix p assume "p \<in> set (zip xs ys)"
    then have "(fst p, snd p) \<in> set (zip xs ys)" by simp
    then have "fst p \<in> set xs" "snd p \<in> set ys" by (rule set_zip_leftD, rule set_zip_rightD)
    with xy z show "0 \<le> z * dimX tc * dimY tc + snd p * dimX tc + fst p \<and>
        z * dimX tc * dimY tc + snd p * dimX tc + fst p < volume tc"
      unfolding volume_def by (intro conjI cell_index) auto
  qed
  then show ?thesis
    by (simp add: LocationMappingANDaddEnergy_def s m Let_def case_prod_unfold)
qed

lemma LocationMappingANDaddEnergy_RF_ok:
  assumes fit: "params_fit cfg tp" and inv: "thermal_inv cfg tp tc" and "0 \<le> ch" "ch < channels cfg"
    and b: "0 \<le> b" "b < banks cfg" and r: "0 \<le> r" "r < rows cfg" and k: "0 \<le> k" "k < num_case tc" and "0 \<le> e"
  shows "\<exists>tc'. LocationMappingANDaddEnergy_RF cfg tp ch cmd b r k e tc = Inr tc' \<and> thermal_inv cfg tp tc' \<and> geometry tc' = geometry tc"
proof -
  have bpg: "0 < banks_per_group cfg" using fit by (simp add: params_fit_def)
  have d: "idiv b (banks_per_group cfg) = Inr (b div banks_per_group cfg)" "imod b (banks_per_group cfg) = Inr (b mod banks_per_group cfg)"
    using bpg b by (simp_all add: idiv_def imod_def)
  have "site_ok cfg tp tc ch (b div banks_per_group cfg) (b mod banks_per_group cfg)"
    using assms(3,4) b bpg fit
    by (intro sites_okD [OF inv]) (simp_all add: params_fit_def pos_imp_zdiv_nonneg_iff div_lt_mult)
  then obtain vx vy bx by' z where s: "MapToVault cfg tp tc ch = Inr (vx, vy)"
      "MapToBank cfg tp tc (b div banks_per_group cfg) (b mod banks_per_group cfg) = Inr (bx, by')"
      "MapToZ cfg tp tc ch (b mod banks_per_group cfg) = Inr z"
      and x: "0 \<le> vx * bank_x tc + bx" "(vx * bank_x tc + bx + 1) * num_x_grids tp \<le> dimX tc"
      and y: "0 \<le> vy * bank_y tc + by'" "(vy * bank_y tc + by' + 1) * num_y_grids tp \<le> dimY tc"
      and z: "0 \<le> z" "z < numP tc" by (rule site_okE)
  have gx: "0 \<le> r div mat_dim_x tp" "r div mat_dim_x tp < num_x_grids tp"
    using fit r by (auto simp: params_fit_def pos_imp_zdiv_nonneg_iff intro!: div_lt_mult)
  have g: "idiv r (tile_row_num tp) = Inr 0" "idiv r (mat_dim_x tp) = Inr (r div mat_dim_x tp)"
    "idiv (r div mat_dim_x tp) (row_tile tp) = Inr (r div mat_dim_x tp)" "idiv 0 (mat_dim_y tp) = Inr 0"
    "idiv (num_y_grids tp) (row_tile tp) = Inr (num_y_grids tp)"
    using fit r gx by (simp_all add: params_fit_def idiv_def)
  have n: "mapped_pos tc = None" using inv by (simp add: thermal_inv_def)
  let ?x = "vx * (bank_x tc * num_x_grids tp) + bx * num_x_grids tp + r div mat_dim_x tp"
  let ?y = "vy * (bank_y tc * num_y_grids tp) + by' * num_y_grids tp"
  have "\<exists>tc'. mfold (\<lambda>i. add_energy k (z * (dimX tc * dimY tc) + (?y + i) * dimX tc + ?x) e) [0..num_y_grids tp - 1] tc = Inr tc' \<and>
      thermal_inv cfg tp tc' \<and> geometry tc' = geometry tc"
  proof (rule add_energies_ok [OF inv k assms(11)])
    fix i assume "i \<in> set [0..num_y_grids tp - 1]"
    then have i: "0 \<le> i" "i < num_y_grids tp" by auto
    from cell_index [OF bank_cell [OF x gx] bank_cell [OF y i] z]
    show "0 \<le> z * (dimX tc * dimY tc) + (?y + i) * dimX tc + ?x \<and> z * (dimX tc * dimY tc) + (?y + i) * dimX tc + ?x < volume tc"
      by (simp only: volume_def mult.assoc simp_thms)
  qed
  then show ?thesis
    by (simp add: LocationMappingANDaddEnergy_RF_def d s g n GetPhyAddress_def)
qed

lemma counts_ok_get:
  assumes "counts_ok cfg tp m" "0 \<le> k" "k < channels cfg * ranks cfg" "0 \<le> b" "b < banks cfg"
  obtains n where "rbind (vget m k) (\<lambda>cs. vget cs b) = Inr n" "0 \<le> n" "n * num_row_refresh tp < rows cfg"
    "\<And>n'. 0 \<le> n' \<Longrightarrow> n' * num_row_refresh tp < rows cfg \<Longrightarrow>
       \<exists>m'. vmod m k (\<lambda>cs. vset cs b n') = Inr m' \<and> counts_ok cfg tp m'"
proof -
  have k: "nat k < length m" "k < int (length m)" using assms by (auto simp: counts_ok_def)
  have c: "int (length (m ! nat k)) = banks cfg" "\<forall>n \<in> set (m ! nat k). 0 \<le> n \<and> n * num_row_refresh tp < rows cfg"
    using assms(1) nth_mem [OF k(1)] unfolding counts_ok_def by blast+
  have b: "nat b < length (m ! nat k)" using c(1) assms(4,5) by linarith
  show thesis
  proof (rule that [of "m ! nat k ! nat b"])
    show "rbind (vget m k) (\<lambda>cs. vget cs b) = Inr (m ! nat k ! nat b)" using assms k c by simp
    show "0 \<le> m ! nat k ! nat b" "m ! nat k ! nat b * num_row_refresh tp < rows cfg" using c(2) b by auto
    fix n' assume n': "0 \<le> n'" "n' * num_row_refresh tp < rows cfg"
    let ?m = "m[nat k := (m ! nat k)[nat b := n']]"
    have "vmod m k (\<lambda>cs. vset cs b n') = Inr ?m" using assms k c by (simp add: vmod_def vset_def)
    moreover have "counts_ok cfg tp ?m"
      using assms(1) c n' by (auto simp: counts_ok_def dest!: set_update_subset_insert [THEN subsetD])
    ultimately show "\<exists>m'. vmod m k (\<lambda>cs. vset cs b n') = Inr m' \<and> counts_ok cfg tp m'" by blast
  qed
qed

lemma multiple_step:
  fixes n r t :: int
  assumes "n * r < t" "t mod r = 0" "0 < r"
  shows "(n + 1) * r \<le> t"
proof -
  obtain q where q: "t = q * r" using assms(2) by (metis mod_0_imp_dvd dvdE mult.commute)
  with assms(1,3) have "n < q" by simp
  then have "(n + 1) * r \<le> q * r" using assms(3) by (intro mult_right_mono) auto
  then show ?thesis by (simp add: q)
qed

lemma refresh_rows_ok:
  assumes fit: "params_fit cfg tp" and inv: "thermal_inv cfg tp tc" and ch: "0 \<le> ch" "ch < channels cfg"
    and ra: "0 \<le> Rank cmd" "Rank cmd < ranks cfg" and b: "0 \<le> b" "b < banks cfg"
    and k: "0 \<le> k" "k < num_case tc" and e: "0 \<le> e"
  shows "\<exists>tc'. refresh_rows cfg tp ch cmd k e b tc = Inr tc' \<and> thermal_inv cfg tp tc' \<and> geometry tc' = geometry tc"
proof -
  have f: "0 < num_row_refresh tp" "rows cfg mod num_row_refresh tp = 0" using fit unfolding params_fit_def by blast+
  from pair_index [OF ra ch] have ri: "0 \<le> ch * ranks cfg + Rank cmd" "ch * ranks cfg + Rank cmd < channels cfg * ranks cfg"
    by (simp_all add: mult.commute)
  have "counts_ok cfg tp (refresh_count tc)" using inv by (simp add: thermal_inv_def)
  from counts_ok_get [OF this ri b] obtain n where n: "rbind (vget (refresh_count tc) (ch * ranks cfg + Rank cmd)) (\<lambda>cs. vget cs b) = Inr n"
    "0 \<le> n" "n * num_row_refresh tp < rows cfg" and
    up: "\<And>n'. 0 \<le> n' \<Longrightarrow> n' * num_row_refresh tp < rows cfg \<Longrightarrow>
       \<exists>m'. vmod (refresh_count tc) (ch * ranks cfg + Rank cmd) (\<lambda>cs. vset cs b n') = Inr m' \<and> counts_ok cfg tp m'"
    by metis
  have le: "(n + 1) * num_row_refresh tp \<le> rows cfg" by (rule multiple_step [OF n(3) f(2,1)])
  define n' where "n' = (if (n + 1) * num_row_refresh tp = rows cfg then 0 else n + 1)"
  have "0 \<le> n' \<and> n' * num_row_refresh tp < rows cfg"
    using n le f by (auto simp: n'_def)
  with up obtain rc where rc: "vmod (refresh_count tc) (ch * ranks cfg + Rank cmd) (\<lambda>cs. vset cs b n') = Inr rc"
    "counts_ok cfg tp rc" by blast
  let ?tc = "tc\<lparr>refresh_count := rc\<rparr>"
  have g: "geometry ?tc = geometry tc" by (simp add: geometry_def)
  have inv1: "thermal_inv cfg tp ?tc" using inv rc(2) geometry_cong [OF g] by (simp add: thermal_inv_def)
  have "\<exists>tc'. mfold (\<lambda>ir. LocationMappingANDaddEnergy_RF cfg tp ch cmd b ir k e)
        [n * num_row_refresh tp..n * num_row_refresh tp + num_row_refresh tp - 1] ?tc = Inr tc' \<and>
      thermal_inv cfg tp tc' \<and> geometry tc' = geometry tc"
  proof (rule mfold_invariant [where P = "\<lambda>s. thermal_inv cfg tp s \<and> geometry s = geometry tc"])
    fix r s assume r: "r \<in> set [n * num_row_refresh tp..n * num_row_refresh tp + num_row_refresh tp - 1]"
      and s: "thermal_inv cfg tp s \<and> geometry s = geometry tc"
    have "0 \<le> n * num_row_refresh tp" using n(2) f(1) by simp
    then have "0 \<le> r" "r < rows cfg" using r le by (auto simp: distrib_right)
    then show "\<exists>s'. LocationMappingANDaddEnergy_RF cfg tp ch cmd b r k e s = Inr s' \<and> thermal_inv cfg tp s' \<and> geometry s' = geometry tc"
      using LocationMappingANDaddEnergy_RF_ok [OF fit _ ch b, of s r k e] s k e geometry_cong(7) [of s tc] by simp
  qed (use inv1 g in simp)
  then show ?thesis using n(1) rc(1) unfolding refresh_rows_def Let_def n'_def by simp
qed

lemma UpdateCMDPower_ok:
  assumes fit: "params_fit cfg tp" and inv: "thermal_inv cfg tp tc" and cmd: "command_ok cfg ch cmd"
  shows "\<exists>tc'. UpdateCMDPower cfg tp ch cmd tc = Inr tc' \<and> thermal_inv cfg tp tc' \<and> geometry tc' = geometry tc"
proof -
  let ?k = "if stacked cfg then 0 else ch * ranks cfg + Rank cmd"
  let ?d = "if stacked cfg then 1 else real_of_int (devices_per_rank cfg)"
  have sc: "(if IsHMC cfg \<or> IsHBM cfg then (1, 0) else (real_of_int (devices_per_rank cfg), ch * ranks cfg + Rank cmd)) = (?d, ?k)"
    by (simp add: stacked_def)
  have ch: "0 \<le> ch" "ch < channels cfg" and ra: "0 \<le> Rank cmd" "Rank cmd < ranks cfg"
    and bg: "0 \<le> Bank cmd" "Bank cmd < banks_per_group cfg"
    using cmd by (simp_all add: command_ok_def)
  have k: "0 \<le> ?k" "?k < num_case tc"
    using pair_index [OF ra ch] inv by (auto simp: thermal_inv_def cases_ok_def)
  have d: "0 < ?d" using fit by (simp add: params_fit_def)
  have bk: "banks cfg = bankgroups cfg * banks_per_group cfg" using fit unfolding params_fit_def by blast
  have "1 * banks_per_group cfg \<le> bankgroups cfg * banks_per_group cfg"
    using fit by (intro mult_right_mono) (simp_all add: params_fit_def)
  then have ba: "Bank cmd < banks cfg" using bg(2) unfolding bk by linarith
  show ?thesis
  proof (cases "cmd_type cmd = REFRESH")
    case True
    let ?e = "ref_energy_inc cfg / real_of_int (num_row_refresh tp) / real_of_int (banks cfg) / real_of_int (num_y_grids tp) / 1000 / ?d"
    have "0 \<le> banks cfg" using ba bg by simp
    then have e: "0 \<le> ?e" using fit d by (intro divide_nonneg_nonneg) (auto simp: params_fit_def)
    have "\<exists>tc'. mfold (refresh_rows cfg tp ch cmd ?k ?e) [0..banks cfg - 1] tc = Inr tc' \<and> thermal_inv cfg tp tc' \<and> geometry tc' = geometry tc"
    proof (rule mfold_invariant [where P = "\<lambda>s. thermal_inv cfg tp s \<and> geometry s = geometry tc"])
      fix b s assume b: "b \<in> set [0..banks cfg - 1]" and s: "thermal_inv cfg tp s \<and> geometry s = geometry tc"
      then have "0 \<le> b" "b < banks cfg" by auto
      from refresh_rows_ok [OF fit _ ch ra this k(1) _ e, of s] s k(2) geometry_cong(7) [of s tc]
      show "\<exists>s'. refresh_rows cfg tp ch cmd ?k ?e b s = Inr s' \<and> thermal_inv cfg tp s' \<and> geometry s' = geometry tc" by metis
    qed (use inv in simp)
    then show ?thesis unfolding UpdateCMDPower_def sc Let_def case_prod_conv using True by (simp only: simp_thms if_True)
  next
    case nr: False
    show ?thesis
    proof (cases "cmd_type cmd = REFRESH_BANK")
      case True
      let ?e = "refb_energy_inc cfg / real_of_int (num_row_refresh tp) / real_of_int (num_y_grids tp) / 1000 / ?d"
      have "0 \<le> refb_energy_inc cfg" using cmd True by (simp add: command_ok_def)
      then have e: "0 \<le> ?e" using fit d by (intro divide_nonneg_nonneg) (auto simp: params_fit_def)
      from refresh_rows_ok [OF fit inv ch ra bg(1) ba k e] True nr show ?thesis
        unfolding UpdateCMDPower_def sc Let_def case_prod_conv by (simp only: simp_thms if_True if_False)
    next
      case nb: False
      define e where "e = (case cmd_type cmd of ACTIVATE \<Rightarrow> act_energy_inc cfg | READ \<Rightarrow> read_energy_inc cfg
          | READ_PRECHARGE \<Rightarrow> read_energy_inc cfg | WRITE \<Rightarrow> write_energy_inc cfg
          | WRITE_PRECHARGE \<Rightarrow> write_energy_inc cfg | _ \<Rightarrow> 0)"
      have u: "UpdateCMDPower cfg tp ch cmd tc = (if 0 < e then LocationMappingANDaddEnergy cfg tp ch cmd ?k
          (e / real_of_int (BL cfg) / 1000 / ?d) tc else Inr tc)"
        unfolding UpdateCMDPower_def sc Let_def case_prod_conv e_def using nr nb by (simp only: if_False)
      show ?thesis
      proof (cases "0 < e")
        case True
        then have "0 \<le> e / real_of_int (BL cfg) / 1000 / ?d"
          using fit d by (intro divide_nonneg_nonneg) (auto simp: params_fit_def)
        from LocationMappingANDaddEnergy_ok [OF fit inv cmd k this] True u show ?thesis by simp
      qed (use inv u in simp)
    qed
  qed
qed

lemma UpdateBackgroundEnergy_ok:
  assumes "thermal_inv cfg tp tc" "0 \<le> ch" "ch < channels cfg" "0 \<le> ra" "ra < ranks cfg" "0 \<le> e"
  shows "\<exists>tc'. UpdateBackgroundEnergy ch ra e tc = Inr tc' \<and> thermal_inv cfg tp tc' \<and> geometry tc' = geometry tc"
proof -
  let ?m = "background_energy tc"
  have en: "energies_ok (channels cfg) (ranks cfg) ?m" using assms(1) by (simp add: thermal_inv_def)
  have k: "nat ch < length ?m" "ch < int (length ?m)" using assms en by (auto simp: energies_ok_def)
  have c: "int (length (?m ! nat ch)) = ranks cfg" "\<forall>x \<in> set (?m ! nat ch). 0 \<le> x"
    using en nth_mem [OF k(1)] unfolding energies_ok_def by blast+
  let ?b = "?m[nat ch := (?m ! nat ch)[nat ra := e]]"
  have u: "UpdateBackgroundEnergy ch ra e tc = Inr (tc\<lparr>background_energy := ?b\<rparr>)"
    using assms k c by (simp add: UpdateBackgroundEnergy_def vmod_def vset_def)
  have b: "energies_ok (channels cfg) (ranks cfg) ?b"
    using en c assms(6) by (auto simp: energies_ok_def dest!: set_update_subset_insert [THEN subsetD])
  have g: "geometry (tc\<lparr>background_energy := ?b\<rparr>) = geometry tc" by (simp add: geometry_def)
  show ?thesis using u b g assms(1) geometry_cong [OF g] by (simp add: thermal_inv_def)
qed

subsection \<open>The end of an epoch\<close>

lemma cells_add_ok:
  fixes e :: real and cs :: "real list"
  assumes "int (length cs) = n \<and> (\<forall>x \<in> set cs. 0 \<le> x)" "0 \<le> e" "\<And>i. i \<in> set is \<Longrightarrow> 0 \<le> i \<and> i < n"
  shows "\<exists>cs'. mfold (\<lambda>i c. vmod c i (\<lambda>x. Inr (x + e))) is cs = Inr cs' \<and> int (length cs') = n \<and> (\<forall>x \<in> set cs'. 0 \<le> x)"
proof (rule mfold_invariant [where P = "\<lambda>c. int (length c) = n \<and> (\<forall>x \<in> set c. 0 \<le> x)"])
  fix i and c :: "real list" assume "i \<in> set is" and c: "int (length c) = n \<and> (\<forall>x \<in> set c. 0 \<le> x)"
  then have i: "0 \<le> i" "i < int (length c)" using assms(3) by auto
  then have "vmod c i (\<lambda>x. Inr (x + e)) = Inr (c[nat i := c ! nat i + e])" by (simp add: vmod_def)
  then show "\<exists>s'. vmod c i (\<lambda>x. Inr (x + e)) = Inr s' \<and> int (length s') = n \<and> (\<forall>x \<in> set s'. 0 \<le> x)"
    using c i assms(2) by (auto dest!: set_update_subset_insert [THEN subsetD])
qed (use assms(1) in simp)

lemma energies_ok_vmod:
  assumes "energies_ok cases n m" "0 \<le> k" "k < cases"
    and "\<And>cs. int (length cs) = n \<and> (\<forall>x \<in> set cs. 0 \<le> x) \<Longrightarrow> \<exists>cs'. f cs = Inr cs' \<and> int (length cs') = n \<and> (\<forall>x \<in> set cs'. 0 \<le> x)"
  shows "\<exists>m'. vmod m k f = Inr m' \<and> energies_ok cases n m'"
proof -
  have k: "nat k < length m" "k < int (length m)" using assms by (auto simp: energies_ok_def)
  have "int (length (m ! nat k)) = n \<and> (\<forall>x \<in> set (m ! nat k). 0 \<le> x)"
    using assms(1) nth_mem [OF k(1)] unfolding energies_ok_def by blast
  from assms(4) [OF this] obtain cs where cs: "f (m ! nat k) = Inr cs" "int (length cs) = n" "\<forall>x \<in> set cs. 0 \<le> x" by blast
  have "vmod m k f = Inr (m[nat k := cs])" using assms(2) k cs(1) by (simp add: vmod_def)
  moreover have "energies_ok cases n (m[nat k := cs])"
    using assms(1) cs by (auto simp: energies_ok_def dest!: set_update_subset_insert [THEN subsetD])
  ultimately show ?thesis by blast
qed

lemma UpdatePowerMaps_ok:
  assumes inv: "thermal_inv cfg tp tc" and "0 \<le> e" "0 < epoch_period cfg"
  shows "\<exists>tc'. UpdatePowerMaps cfg e t clk tc = Inr tc' \<and> thermal_inv cfg tp tc' \<and> geometry tc' = geometry tc"
proof -
  let ?period = "if t then real_of_int (epoch_period cfg) else real (unat clk)"
  let ?lower = "dimX tc * dimY tc * (numP tc - 1)"
  let ?logic = "avg_logic_power tc / real_of_int (dimX tc) / real_of_int (dimY tc) * ?period"
  have d: "0 < dimX tc" "0 < dimY tc" "1 \<le> numP tc" "0 \<le> avg_logic_power tc"
    using inv by (auto simp: thermal_inv_def chip_ok_def chip_def)
  have lo: "0 \<le> ?lower" using d by simp
  have vol: "dimX tc * dimY tc * numP tc = volume tc" by (simp add: volume_def)
  have "?lower \<le> dimX tc * dimY tc * numP tc" using d by (intro mult_left_mono) auto
  then have up: "?lower \<le> volume tc" by (simp only: vol)
  have "0 \<le> ?period" using assms(3) by (simp del: of_nat_unat)
  then have logic: "0 \<le> ?logic" using d by (intro mult_nonneg_nonneg divide_nonneg_nonneg) auto
  have m: "energies_ok (num_case tc) (volume tc) (power_map t tc)" using inv by (simp add: thermal_inv_def power_map_def)
  let ?f = "\<lambda>cs. rbind (mfold (\<lambda>i c. vmod c i (\<lambda>x. Inr (x + e))) [0..?lower - 1] cs) (\<lambda>cs.
      mfold (\<lambda>i c. vmod c i (\<lambda>x. Inr (x + ?logic))) [?lower..volume tc - 1] cs)"
  have f: "\<exists>cs'. ?f cs = Inr cs' \<and> int (length cs') = volume tc \<and> (\<forall>x \<in> set cs'. 0 \<le> x)"
    if cs: "int (length cs) = volume tc \<and> (\<forall>x \<in> set cs. 0 \<le> x)" for cs
  proof -
    obtain c1 where c1: "mfold (\<lambda>i c. vmod c i (\<lambda>x. Inr (x + e))) [0..?lower - 1] cs = Inr c1"
        "int (length c1) = volume tc \<and> (\<forall>x \<in> set c1. 0 \<le> x)"
      using cells_add_ok [OF cs assms(2), of "[0..?lower - 1]"] up by fastforce
    from cells_add_ok [OF c1(2) logic, of "[?lower..volume tc - 1]"] lo show ?thesis
      by (auto simp: c1(1))
  qed
  have "\<exists>m'. mfold (\<lambda>j m. vmod m j ?f) [0..num_case tc - 1] (power_map t tc) = Inr m' \<and> energies_ok (num_case tc) (volume tc) m'"
    by (rule mfold_invariant) (use energies_ok_vmod [OF _ _ _ f] m in auto)
  then obtain m' where m': "mfold (\<lambda>j m. vmod m j ?f) [0..num_case tc - 1] (power_map t tc) = Inr m'"
    "energies_ok (num_case tc) (volume tc) m'" by blast
  have u: "UpdatePowerMaps cfg e t clk tc = Inr (set_power_map t m' tc)"
    using m'(1) by (simp add: UpdatePowerMaps_def Let_def vol)
  have g: "geometry (set_power_map t m' tc) = geometry tc" by (simp add: geometry_def set_power_map_def)
  have "thermal_inv cfg tp (set_power_map t m' tc)"
    using inv m'(2) geometry_cong [OF g] by (cases t) (simp_all add: thermal_inv_def set_power_map_def)
  with u g show ?thesis by blast
qed

lemma spread_background_ok:
  assumes inv: "thermal_inv cfg tp tc" and "stacked cfg" "0 < epoch_period cfg"
  shows "\<exists>tc'. spread_background cfg fuel t clk tc = Inr tc' \<and> thermal_inv cfg tp tc' \<and> geometry tc' = geometry tc"
proof -
  have d: "0 < dimX tc" "0 < dimY tc" "1 \<le> numP tc"
    using inv by (auto simp: thermal_inv_def chip_ok_def chip_def)
  have "energies_ok (channels cfg) (ranks cfg) (background_energy tc)" using inv by (simp add: thermal_inv_def)
  then have "0 \<le> sum_list (map sum_list (background_energy tc))"
    by (auto simp: energies_ok_def intro!: sum_list_nonneg)
  moreover have "0 \<le> real_of_int (dimX tc * dimY tc * (numP tc - 1))"
    unfolding of_int_0_le_iff using d by (intro mult_nonneg_nonneg) auto
  ultimately have "0 \<le> sum_list (map sum_list (background_energy tc)) / real_of_int (dimX tc * dimY tc * (numP tc - 1)) / 1000"
    by (intro divide_nonneg_nonneg) auto
  from UpdatePowerMaps_ok [OF inv this assms(3)] assms(2) show ?thesis
    by (auto simp: spread_background_def stacked_def Let_def)
qed

lemma powers_ok_zero:
  "0 \<le> dim_x c \<Longrightarrow> 0 \<le> dim_z c \<Longrightarrow> 0 \<le> tiers c \<Longrightarrow>
   powers_ok c (replicate (nat (dim_x c)) (replicate (nat (dim_z c)) (replicate (nat (tiers c)) 0)))"
  by (auto simp: powers_ok_def)

lemma powers_ok_set:
  assumes "powers_ok c M" "0 \<le> i" "i < dim_x c" "0 \<le> j" "j < dim_z c" "0 \<le> l" "l < tiers c" "0 \<le> p"
  shows "\<exists>M'. vmod M i (\<lambda>cs. vmod cs j (\<lambda>t. vset t l p)) = Inr M' \<and> powers_ok c M'"
proof -
  have i: "nat i < length M" "i < int (length M)" using assms by (auto simp: powers_ok_def)
  have m: "int (length (M ! nat i)) = dim_z c"
      "\<forall>q \<in> set (M ! nat i). int (length q) = tiers c \<and> (\<forall>x \<in> set q. 0 \<le> x)"
    using assms(1) nth_mem [OF i(1)] unfolding powers_ok_def by blast+
  have j: "nat j < length (M ! nat i)" "j < int (length (M ! nat i))" using m(1) assms(4,5) by linarith+
  have q: "int (length (M ! nat i ! nat j)) = tiers c" "\<forall>x \<in> set (M ! nat i ! nat j). 0 \<le> x"
    using m(2) nth_mem [OF j(1)] by blast+
  let ?q = "(M ! nat i ! nat j)[nat l := p]"
  let ?M = "M[nat i := (M ! nat i)[nat j := ?q]]"
  have "vmod M i (\<lambda>cs. vmod cs j (\<lambda>t. vset t l p)) = Inr ?M"
    using assms(2,4,6,7) i j q by (simp add: vmod_def vset_def)
  moreover have "int (length ?q) = tiers c \<and> (\<forall>x \<in> set ?q. 0 \<le> x)"
    using q assms(8) by (auto dest!: set_update_subset_insert [THEN subsetD])
  then have "powers_ok c ?M"
    using assms(1) m unfolding powers_ok_def by (auto dest!: set_update_subset_insert [THEN subsetD])
  ultimately show ?thesis by blast
qed

lemma energies_ok_get:
  assumes "energies_ok cases n m" "0 \<le> k" "k < cases" "0 \<le> i" "i < n"
  obtains p where "rbind (vget m k) (\<lambda>cs. vget cs i) = Inr p" "0 \<le> p"
proof -
  have k: "nat k < length m" "k < int (length m)" using assms by (auto simp: energies_ok_def)
  have c: "int (length (m ! nat k)) = n" "\<forall>x \<in> set (m ! nat k). 0 \<le> x"
    using assms(1) nth_mem [OF k(1)] unfolding energies_ok_def by blast+
  then have "nat i < length (m ! nat k)" using assms by linarith
  with c show thesis using assms k by (intro that [of "m ! nat k ! nat i"]) auto
qed

lemma InitPowerM_ok:
  assumes inv: "thermal_inv cfg tp tc" and "0 \<le> k" "k < num_case tc" "0 < epoch_period cfg"
  shows "\<exists>M. InitPowerM cfg k clk tc = Inr M \<and> powers_ok (chip tp tc) M"
proof -
  let ?d = "if clk = 0 then real_of_int (epoch_period cfg) else real (unat clk)"
  have d: "0 \<le> ?d" using assms(4) by (simp del: of_nat_unat)
  have m: "energies_ok (num_case tc) (volume tc) (power_map (clk = 0) tc)" using inv by (simp add: thermal_inv_def power_map_def)
  have c: "dim_x (chip tp tc) = dimX tc + 2" "dim_z (chip tp tc) = dimY tc + 2" "tiers (chip tp tc) = numP tc"
    by (simp_all add: chip_def)
  have pos: "0 < dimX tc" "0 < dimY tc" "1 \<le> numP tc"
    using inv by (auto simp: thermal_inv_def chip_ok_def chip_def)
  show ?thesis
    unfolding InitPowerM_def Let_def
  proof (rule mfold_invariant [where P = "powers_ok (chip tp tc)"], goal_cases)
    case (1 x M)
    then obtain i j l where x: "x = (i, j, l)" "0 \<le> i" "i < dimX tc" "0 \<le> j" "j < dimY tc" "0 \<le> l" "l < numP tc" by auto
    from cell_index [OF x(2-7)] have "0 \<le> l * (dimX tc * dimY tc) + j * dimX tc + i"
        "l * (dimX tc * dimY tc) + j * dimX tc + i < volume tc" by (simp_all only: volume_def mult.assoc)
    from energies_ok_get [OF m assms(2,3) this] obtain p where
      p: "rbind (vget (power_map (clk = 0) tc) k) (\<lambda>cs. vget cs (l * (dimX tc * dimY tc) + j * dimX tc + i)) = Inr p" "0 \<le> p" by blast
    have "0 \<le> p / ?d" using p(2) d by simp
    from powers_ok_set [OF 1(2) _ _ _ _ x(6) _ this, of "i + 1" "j + 1"] x c p(1) show ?case
      by (simp add: x(1))
  next
    case 2
    show ?case using powers_ok_zero [of "chip tp tc"] pos by (simp add: c)
  qed
qed

lemma GetTotalPower_ok:
  assumes "powers_ok (chip tp tc) M"
  shows "\<exists>p. GetTotalPower M tc = Inr p"
proof -
  have "\<exists>p. GetTotalPower M tc = Inr p \<and> True"
    unfolding GetTotalPower_def
  proof (rule mfold_invariant, goal_cases)
    case (1 x p)
    then obtain i j l where x: "x = (i, j, l)" "0 \<le> i" "i < dimX tc" "0 \<le> j" "j < dimY tc" "0 \<le> l" "l < numP tc" by auto
    have b: "0 \<le> i + 1" "i + 1 < dim_x (chip tp tc)" "0 \<le> j + 1" "j + 1 < dim_z (chip tp tc)" "l < tiers (chip tp tc)"
      using x by (simp_all add: chip_def)
    obtain q where "power_at M (i + 1) (j + 1) l = Inr q" by (rule power_at_ok [OF assms b(1-4) x(6) b(5)])
    then show ?case by (simp add: x(1))
  qed simp
  then show ?thesis by simp
qed

lemma CalcTransT_ok:
  assumes inv: "thermal_inv cfg tp tc" and k: "0 \<le> k" "k < num_case tc" and "0 < epoch_period cfg"
  shows "\<exists>p tc'. CalcTransT cfg tp k tc = Inr (p, tc') \<and> thermal_inv cfg tp tc' \<and> geometry tc' = geometry tc"
proof -
  obtain M p where M: "InitPowerM cfg k 0 tc = Inr M" "powers_ok (chip tp tc) M" "GetTotalPower M tc = Inr p"
    using InitPowerM_ok [OF inv k assms(4)] GetTotalPower_ok by blast
  have i: "chip_ok (chip tp tc)" "stable_step (chip tp tc) (epoch_time cfg / real_of_int (time_iter tc))"
      "Midx tc = network (chip tp tc)" "MidxSize tc = Midx_count (chip tp tc)" "Cap tc = calculate_Cap_array (chip tp tc)"
      and t: "temps_ok (chip tp tc) (num_case tc) (Tamb tc) (T_trans tc)"
    using inv unfolding thermal_inv_def by blast+
  have kl: "nat k < length (T_trans tc)" "k < int (length (T_trans tc))" using t k by (auto simp: temps_ok_def)
  have T: "length (T_trans tc ! nat k) = nat (nodes (chip tp tc))" "\<forall>x \<in> set (T_trans tc ! nat k). Tamb tc \<le> x"
    using t nth_mem [OF kl(1)] unfolding temps_ok_def by blast+
  from transient_above_ambient [OF i(1) M(2) i(2) T] obtain T' where
    T': "transient_thermal_solver (chip tp tc) M (Midx tc) (MidxSize tc) (Cap tc) (epoch_time cfg) (time_iter tc) (T_trans tc ! nat k) (Tamb tc) = Inr T'"
      "length T' = nat (nodes (chip tp tc))" "\<forall>x \<in> set T'. Tamb tc \<le> x" unfolding i(3-5) by blast
  let ?tc = "tc\<lparr>T_trans := (T_trans tc)[nat k := T']\<rparr>"
  have "CalcTransT cfg tp k tc = Inr (p * 1000, ?tc)"
    using M T'(1) k(1) kl by (simp add: CalcTransT_def vmod_def epoch_time_def)
  moreover have g: "geometry ?tc = geometry tc" by (simp add: geometry_def)
  moreover have "temps_ok (chip tp tc) (num_case tc) (Tamb tc) ((T_trans tc)[nat k := T'])"
    using t T'(2,3) by (auto simp: temps_ok_def dest!: set_update_subset_insert [THEN subsetD])
  then have "thermal_inv cfg tp ?tc" using inv geometry_cong [OF g] by (simp add: thermal_inv_def)
  ultimately show ?thesis by blast
qed

subsection \<open>Construction\<close>

lemma determineXY_divides:
  assumes "0 < n"
  shows "0 < determineXY xd yd n \<and> determineXY xd yd n dvd n"
proof -
  let ?P = "\<lambda>s :: int \<times> real. 0 < fst s \<and> fst s dvd n"
  have div: "0 < tdiv n y \<and> tdiv n y dvd n" if "1 \<le> y" "tdiv n y * y = n" for y
  proof -
    have "0 < tdiv n y" using that assms by (metis less_le_trans zero_less_mult_pos2 zero_less_one)
    then show ?thesis using that(2) by (metis dvd_triv_left)
  qed
  show ?thesis
    unfolding determineXY_def
    by (rule fold_invariant [where P = ?P]) (use div in \<open>auto simp: Let_def split: option.splits\<close>)
qed

text \<open>The banks have room in the plan of a stacked memory.\<close>

definition floor_fit :: "Config \<Rightarrow> bool" where
  "floor_fit cfg \<longleftrightarrow> 1 \<le> num_dies cfg \<and>
     (if IsHMC cfg then bankgroups cfg = 1 \<and> (banks cfg = num_dies cfg \<or> banks cfg = 2 * num_dies cfg)
      else IsHBM cfg \<and> bankgroups cfg \<le> 4 \<and> banks_per_group cfg \<le> 4 \<and> channels cfg \<le> 2 * num_dies cfg)"

definition plan_ok :: "Config \<Rightarrow> ThermalParams \<Rightarrow> ThermalCalculator \<Rightarrow> bool" where
  "plan_ok cfg tp tc \<longleftrightarrow> floor_plan cfg tp = Inr (numP tc, (vault_x tc, vault_y tc), (bank_x tc, bank_y tc), (dimX tc, dimY tc), num_case tc)"

lemma hbm_sites:
  assumes fit: "params_fit cfg tp" and "floor_fit cfg" "plan_ok cfg tp tc" and h: "\<not> IsHMC cfg"
  shows "sites_ok cfg tp tc"
proof -
  have b: "IsHBM cfg" "bankgroups cfg \<le> 4" "banks_per_group cfg \<le> 4" "channels cfg \<le> 2 * num_dies cfg"
    using assms(2) h by (simp_all add: floor_fit_def)
  have p: "numP tc = num_dies cfg + 1" "bank_x tc = 8" "bank_y tc = 2" "dimX tc = 8 * num_x_grids tp" "dimY tc = 4 * num_y_grids tp"
    using assms(3) h b(1) by (simp_all add: plan_ok_def floor_plan_def)
  have g: "0 < num_x_grids tp" "0 < num_y_grids tp" using fit by (simp_all add: params_fit_def)
  have "site_ok cfg tp tc ch bg ba" if "0 \<le> ch" "ch < channels cfg" "0 \<le> bg" "bg < bankgroups cfg"
      "0 \<le> ba" "ba < banks_per_group cfg" for ch bg ba
  proof -
    have x: "0 \<le> bg * 2 + ba div 2" "bg * 2 + ba div 2 + 1 \<le> 8" using that b by linarith+
    have y: "0 \<le> ch mod 2 * 2 + ba mod 2" "ch mod 2 * 2 + ba mod 2 + 1 \<le> 4" by linarith+
    have z: "0 \<le> ch div 2" "ch div 2 < num_dies cfg + 1" using that b by linarith+
    have "(bg * 2 + ba div 2 + 1) * num_x_grids tp \<le> 8 * num_x_grids tp"
      "(ch mod 2 * 2 + ba mod 2 + 1) * num_y_grids tp \<le> 4 * num_y_grids tp"
      using x y g by (intro mult_right_mono, simp_all)+
    then show ?thesis
      using x y z that h b(1) p by (simp add: site_ok_def MapToVault_def MapToBank_def MapToZ_def)
  qed
  then show ?thesis by (simp add: sites_ok_def)
qed

lemma hmc_sites:
  assumes fit: "params_fit cfg tp" and "floor_fit cfg" "plan_ok cfg tp tc" and h: "IsHMC cfg"
  shows "sites_ok cfg tp tc"
proof -
  have d: "1 \<le> num_dies cfg" "bankgroups cfg = 1" "banks cfg = num_dies cfg \<or> banks cfg = 2 * num_dies cfg"
    using assms(2) h by (simp_all add: floor_fit_def)
  have bpg: "banks_per_group cfg = banks cfg" "1 \<le> channels cfg" and g: "0 < num_x_grids tp" "0 < num_y_grids tp"
    using fit d(2) unfolding params_fit_def by simp_all
  let ?n = "banks cfg div num_dies cfg"
  have n: "?n = 1 \<or> ?n = 2" "banks cfg = ?n * num_dies cfg" using d by auto
  have idv: "idiv (banks cfg) (num_dies cfg) = Inr ?n" using d by (auto simp: idiv_def)
  obtain vx vy where v: "0 < vx" "channels cfg = vx * vy" "vx = vault_x tc" "vy = vault_y tc" and
    p: "numP tc = num_dies cfg + 1" "bank_x tc = 1" "bank_y tc = 2" "dimX tc = vx * num_x_grids tp" "dimY tc = vy * 2 * num_y_grids tp"
  proof -
    let ?vx = "determineXY (bank_asr tp) 2 (channels cfg)"
    have x: "0 < ?vx" "?vx dvd channels cfg" using determineXY_divides [of "channels cfg"] bpg(2) by auto
    have "plan_ok cfg tp tc" by (rule assms(3))
    then have "vault_x tc = ?vx" "vault_y tc = channels cfg div ?vx" "numP tc = num_dies cfg + 1" "bank_x tc = 1"
        "bank_y tc = 2" "dimX tc = ?vx * num_x_grids tp" "dimY tc = channels cfg div ?vx * 2 * num_y_grids tp"
      using h x bpg(2) by (auto simp: plan_ok_def floor_plan_def idiv_def Let_def)
    with x show thesis by (intro that [of ?vx "channels cfg div ?vx"]) auto
  qed
  have "0 < vx * vy" using v bpg(2) by simp
  then have vy: "0 < vy" using v(1) by (simp add: zero_less_mult_iff)
  have "site_ok cfg tp tc ch bg ba" if "0 \<le> ch" "ch < channels cfg" "0 \<le> bg" "bg < bankgroups cfg"
      "0 \<le> ba" "ba < banks_per_group cfg" for ch bg ba
  proof -
    have bg: "bg = 0" using that d by simp
    define a b where "a = (if bank_order tp = 0 then ch mod vx else ch div vy)"
      and "b = (if bank_order tp = 0 then ch div vx else ch mod vy)"
    have ab: "0 \<le> a" "a < vx" "0 \<le> b" "b < vy"
      using that v(1,2) vy by (auto simp: a_def b_def pos_imp_zdiv_nonneg_iff mult.commute intro!: div_lt_mult)
    have va: "MapToVault cfg tp tc ch = Inr (a, b)"
      using h that v vy by (simp add: MapToVault_def idiv_def imod_def a_def b_def Let_def)
    have s: "0 \<le> ba mod ?n" "ba mod ?n < 2" using n(1) by auto
    have i: "imod ba ?n = Inr (ba mod ?n)" "idiv ba ?n = Inr (ba div ?n)"
      using n(1) that(5) by (auto simp: imod_def idiv_def)
    have "idiv (ba mod ?n) 2 = Inr 0" "imod (ba mod ?n) 2 = Inr (ba mod ?n)" "idiv (ba mod ?n) 1 = Inr (ba mod ?n)"
        "imod (ba mod ?n) 1 = Inr 0"
      using s by (simp_all add: idiv_def imod_def)
    then have mb: "MapToBank cfg tp tc bg ba = Inr (0, ba mod ?n)"
      using h p by (simp add: MapToBank_def idv bg i Let_def)
    define q where "q = ba div ?n"
    have q: "0 \<le> q" "q < num_dies cfg"
      using n that bpg by (auto simp: q_def pos_imp_zdiv_nonneg_iff mult.commute intro!: div_lt_mult)
    have mz: "MapToZ cfg tp tc ch ba = Inr (if bank_layer_order tp = 0 then q else numP tc - q - 2)"
      using h by (simp add: MapToZ_def idv i q_def)
    have "(a + 1) * num_x_grids tp \<le> vx * num_x_grids tp" using ab g by (intro mult_right_mono) auto
    moreover have "(b * 2 + ba mod ?n + 1) * num_y_grids tp \<le> vy * 2 * num_y_grids tp"
      using ab s g by (intro mult_right_mono) linarith+
    ultimately show ?thesis
      using ab s q p by (simp add: site_ok_def va mb mz)
  qed
  then show ?thesis by (simp add: sites_ok_def)
qed

lemma floor_plan_ok:
  assumes fit: "params_fit cfg tp" and ff: "floor_fit cfg"
  obtains np vx vy bx by' dx dy where "floor_plan cfg tp = Inr (np, (vx, vy), (bx, by'), (dx, dy), 1)"
    "1 \<le> np" "0 < dx" "0 < dy"
proof (cases "IsHMC cfg")
  case True
  let ?vx = "determineXY (bank_asr tp) 2 (channels cfg)"
  have c: "1 \<le> channels cfg" and g: "0 < num_x_grids tp" "0 < num_y_grids tp" using fit by (simp_all add: params_fit_def)
  have x: "0 < ?vx" "?vx dvd channels cfg" using determineXY_divides [of "channels cfg"] c by auto
  then have "0 < channels cfg div ?vx" using c by (auto simp: pos_imp_zdiv_pos_iff zdvd_imp_le)
  with True x c g ff show thesis
    by (intro that [of "num_dies cfg + 1" ?vx "channels cfg div ?vx" 1 2 "?vx * num_x_grids tp" "channels cfg div ?vx * 2 * num_y_grids tp"])
      (simp_all add: floor_plan_def idiv_def Let_def floor_fit_def)
next
  case False
  with ff fit show thesis
    by (intro that [of "num_dies cfg + 1" 1 2 8 2 "8 * num_x_grids tp" "4 * num_y_grids tp"])
      (simp_all add: floor_plan_def floor_fit_def params_fit_def)
qed

lemma energies_ok_zero: "0 \<le> n \<Longrightarrow> 0 \<le> m \<Longrightarrow> energies_ok n m (replicate (nat n) (replicate (nat m) 0))"
  by (auto simp: energies_ok_def)

lemma MapToZ_any_bank: "MapToZ cfg tp tc ch ba = Inr z \<Longrightarrow> \<exists>z'. MapToZ cfg tp tc ch ba' = Inr z'"
  by (auto simp: MapToZ_def idiv_def split: if_splits)

lemma PrintCSV_bank_ok:
  assumes "sites_ok cfg tp tc"
  shows "\<exists>out. PrintCSV_bank cfg tp tc = Inr out"
proof -
  have "\<exists>out. PrintCSV_bank cfg tp tc = Inr out \<and> True"
    unfolding PrintCSV_bank_def
  proof (rule mfold_invariant, goal_cases)
    case (1 x out)
    then obtain v g b where x: "x = (v, g, b)" and r: "0 \<le> v" "v < channels cfg" "0 \<le> g" "g < bankgroups cfg"
      "0 \<le> b" "b < banks_per_group cfg" by auto
    have "site_ok cfg tp tc v g b" using assms r by (simp add: sites_ok_def)
    then obtain vx vy bx by' z where s: "MapToVault cfg tp tc v = Inr (vx, vy)" "MapToBank cfg tp tc g b = Inr (bx, by')"
      "MapToZ cfg tp tc v b = Inr z" by (rule site_okE)
    obtain z' where "MapToZ cfg tp tc v (g * banks_per_group cfg + b) = Inr z'" using MapToZ_any_bank [OF s(3)] by blast
    with s show ?case by (simp add: x Let_def)
  qed simp
  then show ?thesis by simp
qed

lemma mk_thermal_ok:
  assumes fit: "params_fit cfg tp" and ff: "floor_fit cfg"
  shows "\<exists>tc. mk_thermal cfg tp = Inr tc \<and> thermal_inv cfg tp tc \<and> accu_Pmap tc = cur_Pmap tc \<and>
    (\<forall>cs \<in> set (cur_Pmap tc). \<forall>x \<in> set cs. x = 0)"
proof -
  obtain np vx vy bx by' dx dy where fp: "floor_plan cfg tp = Inr (np, (vx, vy), (bx, by'), (dx, dy), 1)"
    and pos: "1 \<le> np" "0 < dx" "0 < dy" by (rule floor_plan_ok [OF fit ff])
  have dims: "1 \<le> channels cfg" "1 \<le> ranks cfg" "0 < rows cfg" "loc_mapping tp = []" "0 < chip_dim_x tp" "0 < chip_dim_y tp"
    "0 < epoch_period cfg" "0 < tCK cfg"
    using fit unfolding params_fit_def by auto
  have banks: "0 \<le> banks cfg" using fit unfolding params_fit_def by simp
  define c where "c = \<lparr>W = chip_dim_x tp, Lc = chip_dim_y tp, tiers = np, dim_x = dx + 2, dim_z = dy + 2\<rparr>"
  have c: "chip_ok c" using pos dims by (simp add: c_def chip_ok_def)
  have et: "0 \<le> epoch_time cfg" using dims by (simp add: epoch_time_def)
  obtain n where n: "calculate_time_step cfg c (network c) (calculate_Cap_array c) = Inr n"
      "stable_step c (epoch_time cfg / real_of_int n)"
    using calculate_time_step_ok [OF c et] by blast
  have vol: "0 \<le> np * dx * dy" using pos by simp
  let ?amb = "amb_temp tp + T0"
  define tc where "tc = \<lparr>time_iter = n, Tamb = ?amb, dimX = dx, dimY = dy, numP = np, Midx = network c, MidxSize = Midx_count c,
      Cap = calculate_Cap_array c, T_trans = replicate (nat 1) (initialize_Temperature c ?amb), T_final = replicate (nat 1) [],
      sample_id = 0, accu_Pmap = replicate (nat 1) (replicate (nat (np * dx * dy)) 0),
      cur_Pmap = replicate (nat 1) (replicate (nat (np * dx * dy)) 0),
      refresh_count = replicate (nat (channels cfg * ranks cfg)) (replicate (nat (banks cfg)) 0),
      vault_x = vx, vault_y = vy, bank_x = bx, bank_y = by', num_case = 1,
      background_energy = replicate (nat (channels cfg)) (replicate (nat (ranks cfg)) 0), avg_logic_power = 0, mapped_pos = None\<rparr>"
  have ch: "chip tp tc = c" by (simp add: chip_def tc_def c_def)
  have "plan_ok cfg tp tc" using fp by (simp add: plan_ok_def tc_def)
  then have sites: "sites_ok cfg tp tc" using hbm_sites [OF fit ff] hmc_sites [OF fit ff] by blast
  obtain out where out: "PrintCSV_bank cfg tp tc = Inr out" using PrintCSV_bank_ok [OF sites] by blast
  have cr: "0 \<le> channels cfg * ranks cfg" using dims by simp
  have t: "mk_table (channels cfg) (ranks cfg) 0 = Inr (replicate (nat (channels cfg)) (replicate (nat (ranks cfg)) (0 :: real)))"
    "mk_table 1 (np * dx * dy) 0 = Inr (replicate (nat 1) (replicate (nat (np * dx * dy)) (0 :: real)))"
    "mk_table (channels cfg * ranks cfg) (banks cfg) 0 = Inr (replicate (nat (channels cfg * ranks cfg)) (replicate (nat (banks cfg)) (0 :: int)))"
    using dims vol banks cr by (simp_all only: mk_table_def not_le [symmetric]) simp_all
  have "mk_thermal cfg tp = rbind (if 0 \<le> output_level cfg then PrintCSV_bank cfg tp tc else Inr []) (\<lambda>_. Inr tc)"
    unfolding mk_thermal_def t fp rbind_Inr case_prod_conv Let_def dims(4) c_def [symmetric]
      calculate_Midx_array_eq [OF c] n(1)
    by (simp only: SetPhyAddressMapping_def simp_thms if_True rbind_Inr t tc_def)
  then have mk: "mk_thermal cfg tp = Inr tc" using out by simp
  have st: "stacked cfg" using ff by (auto simp: floor_fit_def stacked_def split: if_splits)
  have "thermal_inv cfg tp tc"
    unfolding thermal_inv_def ch
  proof (intro conjI)
    show "temps_ok c (num_case tc) (Tamb tc) (T_trans tc)"
      by (simp add: temps_ok_def tc_def initialize_Temperature_def)
    show "counts_ok cfg tp (refresh_count tc)"
      using dims banks by (auto simp: counts_ok_def tc_def)
    show "energies_ok (channels cfg) (ranks cfg) (background_energy tc)"
      using energies_ok_zero [of "channels cfg" "ranks cfg"] dims by (simp add: tc_def)
    show "energies_ok (num_case tc) (volume tc) (accu_Pmap tc)" "energies_ok (num_case tc) (volume tc) (cur_Pmap tc)"
      using energies_ok_zero [of 1 "np * dx * dy"] vol by (simp_all add: tc_def volume_def)
    show "stable_step c (epoch_time cfg / real_of_int (time_iter tc))" using n(2) by (simp add: tc_def)
    show "ambient_ok tp (Tamb tc)" by (simp add: tc_def ambient_ok_def)
    show "cases_ok cfg (num_case tc)" using st by (simp add: tc_def cases_ok_def)
  qed (use sites c pos in \<open>simp_all add: tc_def\<close>)
  moreover have "\<forall>cs \<in> set (cur_Pmap tc). \<forall>x \<in> set cs. x = 0" "accu_Pmap tc = cur_Pmap tc" by (simp_all add: tc_def)
  ultimately show ?thesis using mk by blast
qed

lemma layer_cell_range:
  assumes "thermal_inv cfg tp tc" "0 \<le> l" "l < numP tc" "1 \<le> j" "j \<le> dimY tc" "1 \<le> i" "i \<le> dimX tc"
  shows "0 \<le> layer_cell tc l j i" "layer_cell tc l j i < nodes (chip tp tc)"
proof -
  have c: "chip_ok (chip tp tc)" using assms(1) by (simp add: thermal_inv_def)
  have "is_cell (chip tp tc) (l * 3 + 1) j i" using assms by (simp add: is_cell_def chip_def)
  from node_range [OF c this] show "0 \<le> layer_cell tc l j i" "layer_cell tc l j i < nodes (chip tp tc)"
    by (simp_all add: node_def layer_cell_def chip_def algebra_simps)
qed

lemma temps_ok_get:
  assumes "temps_ok c cases a m" "0 \<le> k" "k < cases"
  shows "vget m k = Inr (m ! nat k)" "length (m ! nat k) = nat (nodes c)" "\<forall>t \<in> set (m ! nat k). a \<le> t"
proof -
  have k: "nat k < length m" "k < int (length m)" using assms by (auto simp: temps_ok_def)
  then show "vget m k = Inr (m ! nat k)" using assms(2) by simp
  show "length (m ! nat k) = nat (nodes c)" "\<forall>t \<in> set (m ! nat k). a \<le> t"
    using assms(1) nth_mem [OF k(1)] unfolding temps_ok_def by blast+
qed

lemma GetMaxTofCaseLayer_ok:
  assumes inv: "thermal_inv cfg tp tc" and l: "0 \<le> l" "l < numP tc"
    and k: "vget m k = Inr T" "length T = nat (nodes (chip tp tc))"
  shows "\<exists>t. GetMaxTofCaseLayer m k l tc = Inr t"
proof -
  have "\<exists>t. mfold (\<lambda>(j, i) maxT. rbind (vget T (layer_cell tc l j i)) (\<lambda>t.
         let t = t - T0 in Inr (if maxT > t then maxT else t)))
       [(j, i). j \<leftarrow> [1..dimY tc], i \<leftarrow> [1..dimX tc]] 0 = Inr t \<and> True"
  proof (rule mfold_invariant, goal_cases)
    case (1 x t)
    then obtain j i where x: "x = (j, i)" "1 \<le> j" "j \<le> dimY tc" "1 \<le> i" "i \<le> dimX tc" by auto
    have "vget T (layer_cell tc l j i) = Inr (T ! nat (layer_cell tc l j i))"
      using layer_cell_range [OF inv l x(2-5)] k(2) by (intro vget_in) simp_all
    then show ?case by (simp add: x(1) Let_def)
  qed simp
  then show ?thesis by (simp add: GetMaxTofCaseLayer_def k(1))
qed

lemma csv_lines_ok:
  assumes inv: "thermal_inv cfg tp tc" and P: "energies_ok (num_case tc) (volume tc) P" "0 \<le> k" "k < num_case tc"
    and k: "vget m k = Inr T" "length T = nat (nodes (chip tp tc))"
  shows "\<exists>out. csv_lines P m k s off tc = Inr out"
proof -
  have "\<exists>out. csv_lines P m k s off tc = Inr out \<and> True"
    unfolding csv_lines_def
  proof (rule mfold_invariant, goal_cases)
    case (1 x out)
    then obtain l j i where x: "x = (l, j, i)" "0 \<le> l" "l < numP tc" "1 \<le> j" "j \<le> dimY tc" "1 \<le> i" "i \<le> dimX tc" by auto
    have "0 \<le> i - 1" "i - 1 < dimX tc" "0 \<le> j - 1" "j - 1 < dimY tc" using x by auto
    from cell_index [OF this x(2,3)] have "0 \<le> l * (dimX tc * dimY tc) + (j - 1) * dimX tc + (i - 1)"
        "l * (dimX tc * dimY tc) + (j - 1) * dimX tc + (i - 1) < volume tc" by (simp_all only: volume_def mult.assoc)
    then obtain p where p: "rbind (vget P k) (\<lambda>cs. vget cs (l * (dimX tc * dimY tc) + (j - 1) * dimX tc + (i - 1))) = Inr p"
      using energies_ok_get [OF P] by metis
    have "vget T (layer_cell tc l j i) = Inr (T ! nat (layer_cell tc l j i))"
      using layer_cell_range [OF inv x(2-7)] k(2) by (intro vget_in) simp_all
    then show ?case using p by (simp add: x(1) k(1))
  qed simp
  then show ?thesis by simp
qed

lemma PrintTransPT_ok:
  assumes inv: "thermal_inv cfg tp tc" and "stacked cfg" and ep: "0 < epoch_period cfg"
  shows "\<exists>out tc'. PrintTransPT cfg tp fuel tc = Inr (out, tc') \<and> thermal_inv cfg tp tc' \<and> geometry tc' = geometry tc \<and>
    (\<forall>cs \<in> set (cur_Pmap tc'). \<forall>x \<in> set cs. x = 0)"
proof -
  obtain t1 where t1: "UpdateEpoch cfg fuel tc = Inr t1" "thermal_inv cfg tp t1" "geometry t1 = geometry tc"
    using spread_background_ok [OF inv assms(2) ep] unfolding UpdateEpoch_def by blast
  let ?P = "\<lambda>s. thermal_inv cfg tp (snd s) \<and> geometry (snd s) = geometry t1"
  let ?body = "\<lambda>ir (out, tc).
         rbind (CalcTransT cfg tp ir tc) (\<lambda>(totP, tc).
         rbind (mfold (\<lambda>layer (ms, maxT).
             rbind (GetMaxTofCaseLayer (T_trans tc) ir layer tc) (\<lambda>m.
             Inr (ms @ [m], if maxT > m then maxT else m))) [0..numP tc - 1] ([], 0)) (\<lambda>(ms, maxT).
         rbind (if output_level cfg \<ge> 2 then PrintCSV_trans cfg ir tc else Inr []) (\<lambda>csv.
         Inr (out @ [(totP, ms, maxT, csv)], tc))))"
  have "\<exists>s. mfold ?body [0..num_case t1 - 1] ([], t1) = Inr s \<and> ?P s"
  proof (rule mfold_invariant, goal_cases)
    case (1 k s)
    obtain o1 u where s: "s = (o1, u)" by (cases s)
    have u: "thermal_inv cfg tp u" "geometry u = geometry t1" using 1(2) s by auto
    have k: "0 \<le> k" "k < num_case u" using 1(1) geometry_cong(7) [OF u(2)] by auto
    obtain p v where v: "CalcTransT cfg tp k u = Inr (p, v)" "thermal_inv cfg tp v" "geometry v = geometry u"
      using CalcTransT_ok [OF u(1) k ep] by blast
    have kv: "k < num_case v" using k geometry_cong(7) [OF v(3)] by simp
    have "temps_ok (chip tp v) (num_case v) (Tamb v) (T_trans v)" using v(2) by (simp add: thermal_inv_def)
    note T = temps_ok_get [OF this k(1) kv]
    let ?layers = "mfold (\<lambda>layer (ms, maxT).
             rbind (GetMaxTofCaseLayer (T_trans v) k layer v) (\<lambda>m.
             Inr (ms @ [m], if maxT > m then maxT else m))) [0..numP v - 1] ([], 0)"
    have "\<exists>r. ?layers = Inr r \<and> True"
    proof (rule mfold_invariant, goal_cases)
      case (1 l r)
      then have "0 \<le> l" "l < numP v" by auto
      from GetMaxTofCaseLayer_ok [OF v(2) this T(1,2)] show ?case by (cases r) auto
    qed simp
    then obtain ms mx where r: "?layers = Inr (ms, mx)" by auto
    obtain csv where "(if output_level cfg \<ge> 2 then PrintCSV_trans cfg k v else Inr []) = Inr csv"
      using csv_lines_ok [OF v(2) _ k(1) kv T(1,2)] v(2) unfolding PrintCSV_trans_def thermal_inv_def by force
    then show ?case using v u by (simp add: s r)
  qed (use t1 in simp)
  then obtain s where s: "mfold ?body [0..num_case t1 - 1] ([], t1) = Inr s" "?P s" by blast
  obtain o2 t2 where o2: "s = (o2, t2)" by (cases s)
  have t2: "mfold ?body [0..num_case t1 - 1] ([], t1) = Inr (o2, t2)" "thermal_inv cfg tp t2" "geometry t2 = geometry t1"
    using s unfolding o2 by simp_all
  let ?t3 = "t2\<lparr>cur_Pmap := map (map (\<lambda>_. 0)) (cur_Pmap t2), sample_id := sample_id t2 + 1\<rparr>"
  have g: "geometry ?t3 = geometry t2" by (simp add: geometry_def)
  have "energies_ok (num_case t2) (volume t2) (map (map (\<lambda>_. 0)) (cur_Pmap t2))"
    using t2(2) by (auto simp: thermal_inv_def energies_ok_def)
  then have "thermal_inv cfg tp ?t3" using t2(2) geometry_cong [OF g] by (simp add: thermal_inv_def)
  moreover have "PrintTransPT cfg tp fuel tc = Inr (o2, ?t3)"
    unfolding PrintTransPT_def t1(1) rbind_Inr t2(1) case_prod_conv ..
  ultimately show ?thesis using g t1(3) t2(3) by auto
qed

subsection \<open>The end of a simulation\<close>

text \<open>What the solver of linear systems is relied on for: it returns a value for every node.\<close>

definition solves_all :: "linear_solver \<Rightarrow> bool" where
  "solves_all pdgssv \<longleftrightarrow> (\<forall>a asub xa rhs. length (pdgssv a asub xa rhs) = length rhs)"

lemma row_starts_ok:
  assumes "chip_ok c"
  shows "\<exists>xa. row_starts c (network c) = Inr xa"
proof -
  have pos: "0 < nodes c" using chip_pos [OF assms] by simp
  let ?P = "\<lambda>(rw, xa :: int list). - 1 \<le> rw \<and> rw < nodes c \<and> int (length xa) = nodes c + 1"
  let ?f = "\<lambda>i (rw, xa).
         rbind (vget (network c) i) (\<lambda>(r, _, _).
         if r > rw then rbind (vset xa r i) (\<lambda>xa. Inr (r, xa)) else Inr (rw, xa))"
  have "\<exists>s. mfold ?f [0..int (length (network c)) - 1] (- 1, replicate (nat (nodes c + 1)) 0) = Inr s \<and> ?P s"
  proof (rule mfold_invariant, goal_cases)
    case (1 i s)
    obtain rw xa where s: "s = (rw, xa)" by (cases s)
    have i: "0 \<le> i" "i < int (length (network c))" using 1(1) by auto
    obtain r k v where e: "network c ! nat i = (r, k, v)" by (cases "network c ! nat i")
    have "(r, k, v) \<in> set (network c)" using i nth_mem [of "nat i" "network c"] e by simp
    from network_range [OF assms this] have r: "0 \<le> r" "r < nodes c" by auto
    have "vset xa r i = Inr (xa[nat r := i])" if "int (length xa) = nodes c + 1"
      using r that by (simp add: vset_def vmod_def)
    then show ?case using 1(2) i r by (simp add: s e)
  qed (use pos in simp)
  then obtain rw xa where m: "mfold ?f [0..int (length (network c)) - 1] (- 1, replicate (nat (nodes c + 1)) 0) = Inr (rw, xa)"
    "- 1 \<le> rw" "rw < nodes c" "int (length xa) = nodes c + 1" by auto
  then have "vset xa (rw + 1) (int (length (network c))) = Inr (xa[nat (rw + 1) := int (length (network c))])"
    by (simp add: vset_def vmod_def)
  then show ?thesis using m(1) by (simp add: row_starts_def)
qed

lemma steady_rhs_ok:
  assumes "chip_ok c" "powers_ok c powerM"
  shows "\<exists>P. steady_rhs c powerM a = Inr P \<and> sources_ok c a P"
  unfolding steady_rhs_def
proof (rule mfold_invariant [where P = "sources_ok c a"], goal_cases)
  case 2
  show ?case by (rule sources_ok_ambient [OF assms(1)])
next
  case (1 x P)
  obtain l j i where x: "x = (l, i, j)" "0 \<le> l" "l < tiers c" "0 \<le> j" "j < dim_z c" "0 \<le> i" "i < dim_x c"
    using 1(1) by auto
  obtain v where v: "power_at powerM i j l = Inr v" "0 \<le> v"
    by (rule power_at_ok [OF assms(2) x(6,7,4,5,2,3)])
  note k = pair_index [OF x(6,7,4,5)]
  have n: "plane c \<le> plane c * (l * 3 + 1) + (j * dim_x c + i)" "plane c * (l * 3 + 1) + (j * dim_x c + i) < nodes c"
    by (rule power_index [OF assms(1) x(2,3) k])+
  moreover have "0 < plane c" using chip_pos [OF assms(1)] by simp
  ultimately have "0 \<le> plane c * (l * 3 + 1) + (j * dim_x c + i)" by linarith
  from sources_ok_update [OF 1(2) n(1) this n(2) v(2)] show ?case by (simp add: x(1) v(1) add.assoc)
qed

lemma CalcFinalT_ok:
  assumes inv: "thermal_inv cfg tp tc" and k: "0 \<le> k" "k < num_case tc" and ep: "0 < epoch_period cfg"
    and sol: "solves_all pdgssv"
  shows "\<exists>p tc'. CalcFinalT pdgssv cfg tp k clk tc = Inr (p, tc') \<and> thermal_inv cfg tp tc' \<and> geometry tc' = geometry tc \<and>
    (\<exists>T. vget (T_final tc') k = Inr T \<and> length T = nat (nodes (chip tp tc)))"
proof -
  obtain M p where M: "InitPowerM cfg k clk tc = Inr M" "powers_ok (chip tp tc) M" "GetTotalPower M tc = Inr p"
    using InitPowerM_ok [OF inv k ep] GetTotalPower_ok by blast
  have i: "chip_ok (chip tp tc)" "Midx tc = network (chip tp tc)" "int (length (T_final tc)) = num_case tc"
    using inv unfolding thermal_inv_def by blast+
  obtain xa where xa: "row_starts (chip tp tc) (Midx tc) = Inr xa" using row_starts_ok [OF i(1)] i(2) by auto
  obtain P where P: "steady_rhs (chip tp tc) M (Tamb tc) = Inr P" "length P = nat (nodes (chip tp tc))"
    using steady_rhs_ok [OF i(1) M(2)] unfolding sources_ok_def by blast
  obtain T where T: "steady_thermal_solver pdgssv (chip tp tc) M (Midx tc) (Tamb tc) = Inr T" "length T = nat (nodes (chip tp tc))"
    using sol P by (simp add: steady_thermal_solver_def xa solves_all_def)
  let ?tc = "tc\<lparr>T_final := (T_final tc)[nat k := T]\<rparr>"
  have g: "geometry ?tc = geometry tc" by (simp add: geometry_def)
  have "thermal_inv cfg tp ?tc" using inv geometry_cong [OF g] by (simp add: thermal_inv_def)
  moreover have "CalcFinalT pdgssv cfg tp k clk tc = Inr (p * 1000, ?tc)"
    using M T(1) k i(3) by (simp add: CalcFinalT_def vset_def vmod_def)
  moreover have "nat k < length (T_final tc)" "k < int (length (T_final tc))" using k i(3) by linarith+
  then have "vget (T_final ?tc) k = Inr T" using k by simp
  ultimately show ?thesis using g T(2) by blast
qed

lemma GetMaxTofCase_ok:
  assumes "vget m k = Inr T" "length T = nat (nodes (chip tp tc))"
  shows "\<exists>t. GetMaxTofCase m k tc = Inr t"
proof -
  have n: "T_size tc = nodes (chip tp tc)" by (simp add: T_size_def chip_def)
  have "\<exists>t. mfold (\<lambda>i maxT. rbind (vget T i) (\<lambda>t. Inr (if t > maxT then t else maxT))) [0..T_size tc - 1] 0 = Inr t \<and> True"
  proof (rule mfold_invariant, goal_cases)
    case (1 i t)
    then have "vget T i = Inr (T ! nat i)" using assms(2) n by (intro vget_in) auto
    then show ?case by simp
  qed simp
  then show ?thesis by (simp add: GetMaxTofCase_def assms(1))
qed

lemma PrintFinalPT_ok:
  assumes inv: "thermal_inv cfg tp tc" and "stacked cfg" and ep: "0 < epoch_period cfg" and sol: "solves_all pdgssv"
  shows "\<exists>out tc'. PrintFinalPT pdgssv cfg tp fuel clk tc = Inr (out, tc') \<and> thermal_inv cfg tp tc'"
proof -
  obtain t1 where t1: "spread_background cfg fuel False clk tc = Inr t1" "thermal_inv cfg tp t1"
    using spread_background_ok [OF inv assms(2) ep] by blast
  let ?P = "\<lambda>s. thermal_inv cfg tp (snd s) \<and> geometry (snd s) = geometry t1"
  let ?body = "\<lambda>ir (out, tc).
         rbind (CalcFinalT pdgssv cfg tp ir clk tc) (\<lambda>(totP, tc).
         rbind (GetMaxTofCase (T_final tc) ir tc) (\<lambda>maxT.
         rbind (PrintCSV_final ir clk tc) (\<lambda>csv.
         Inr (out @ [(totP, maxT, csv)], tc))))"
  have "\<exists>s. mfold ?body [0..num_case t1 - 1] ([], t1) = Inr s \<and> ?P s"
  proof (rule mfold_invariant, goal_cases)
    case (1 k s)
    obtain o1 u where s: "s = (o1, u)" by (cases s)
    have u: "thermal_inv cfg tp u" "geometry u = geometry t1" using 1(2) s by auto
    have k: "0 \<le> k" "k < num_case u" using 1(1) geometry_cong(7) [OF u(2)] by auto
    obtain p v T where v: "CalcFinalT pdgssv cfg tp k clk u = Inr (p, v)" "thermal_inv cfg tp v" "geometry v = geometry u"
        "vget (T_final v) k = Inr T" "length T = nat (nodes (chip tp u))"
      using CalcFinalT_ok [OF u(1) k ep sol] by blast
    have T: "length T = nat (nodes (chip tp v))" "k < num_case v" using v(5) k geometry_cong(6,7) [OF v(3)] by simp_all
    obtain t where t: "GetMaxTofCase (T_final v) k v = Inr t" using GetMaxTofCase_ok [OF v(4) T(1)] by blast
    have "energies_ok (num_case v) (volume v) (accu_Pmap v)" using v(2) by (simp add: thermal_inv_def)
    from csv_lines_ok [OF v(2) this k(1) T(2) v(4) T(1)] obtain csv where "PrintCSV_final k clk v = Inr csv"
      unfolding PrintCSV_final_def by blast
    then show ?case using v u t by (simp add: s)
  qed (use t1 in simp)
  then obtain s where s: "mfold ?body [0..num_case t1 - 1] ([], t1) = Inr s" "?P s" by blast
  then show ?thesis unfolding PrintFinalPT_def t1(1) rbind_Inr by (cases s) simp
qed

subsection \<open>Runs\<close>

datatype thermal_op = Issue int Command | SetBackground int int real | SetLogic real | EndEpoch

fun thermal_step :: "Config \<Rightarrow> ThermalParams \<Rightarrow> nat \<Rightarrow> thermal_op \<Rightarrow> ThermalCalculator \<Rightarrow> ThermalCalculator res" where
  "thermal_step cfg tp fuel (Issue ch cmd) tc = UpdateCMDPower cfg tp ch cmd tc"
| "thermal_step cfg tp fuel (SetBackground ch ra e) tc = UpdateBackgroundEnergy ch ra e tc"
| "thermal_step cfg tp fuel (SetLogic p) tc = Inr (SetLogicPower p tc)"
| "thermal_step cfg tp fuel EndEpoch tc = rbind (PrintTransPT cfg tp fuel tc) (\<lambda>(_, tc). Inr tc)"

fun thermal_op_ok :: "Config \<Rightarrow> thermal_op \<Rightarrow> bool" where
  "thermal_op_ok cfg (Issue ch cmd) \<longleftrightarrow> command_ok cfg ch cmd"
| "thermal_op_ok cfg (SetBackground ch ra e) \<longleftrightarrow> 0 \<le> ch \<and> ch < channels cfg \<and> 0 \<le> ra \<and> ra < ranks cfg \<and> 0 \<le> e"
| "thermal_op_ok cfg (SetLogic p) \<longleftrightarrow> 0 \<le> p"
| "thermal_op_ok cfg EndEpoch \<longleftrightarrow> True"

lemma thermal_step_ok:
  assumes fit: "params_fit cfg tp" and st: "stacked cfg" and op: "thermal_op_ok cfg op" and inv: "thermal_inv cfg tp tc"
  shows "\<exists>tc'. thermal_step cfg tp fuel op tc = Inr tc' \<and> thermal_inv cfg tp tc'"
proof (cases op)
  case (Issue ch cmd)
  then show ?thesis using UpdateCMDPower_ok [OF fit inv, of ch cmd] op by auto
next
  case (SetBackground ch ra e)
  then show ?thesis using UpdateBackgroundEnergy_ok [OF inv, of ch ra e] op by auto
next
  case (SetLogic p)
  have g: "geometry (SetLogicPower p tc) = geometry tc" by (simp add: SetLogicPower_def geometry_def)
  have "thermal_inv cfg tp (SetLogicPower p tc)"
    using inv op SetLogic geometry_cong [OF g] by (simp add: thermal_inv_def SetLogicPower_def)
  then show ?thesis using SetLogic by simp
next
  case EndEpoch
  have "0 < epoch_period cfg" using fit by (simp add: params_fit_def)
  from PrintTransPT_ok [OF inv st this, of fuel] EndEpoch show ?thesis by auto
qed

lemma floor_fit_stacked: "floor_fit cfg \<Longrightarrow> stacked cfg"
  by (auto simp: floor_fit_def stacked_def split: if_splits)

lemma sum_list_zeros: "\<forall>x \<in> set xs. x = 0 \<Longrightarrow> sum_list xs = (0 :: real)"
  by (induction xs) simp_all

subsection \<open>Where the code fails\<close>

lemma spread_never_returns: "k < bound \<Longrightarrow> \<not> ok (spread fuel transient bound case_id k i e m)"
proof (induction fuel arbitrary: i m)
  case (Suc fuel)
  then show ?case by (cases "vmod m case_id (\<lambda>cells. vmod cells (if transient then k else i) (\<lambda>x. Inr (x + e)))") simp_all
qed simp

lemma planar_background_never_returns:
  assumes "\<not> stacked cfg" "1 \<le> channels cfg" "1 \<le> ranks cfg" "0 < dimX tc * dimY tc * numP tc"
  shows "\<not> ok (spread_background cfg fuel transient clk tc)"
proof -
  have r: "[0..ranks cfg - 1] = 0 # [1..ranks cfg - 1]" "[0..channels cfg - 1] = 0 # [1..channels cfg - 1]"
    using assms(2,3) by (simp_all add: upto_rec1)
  let ?g = "\<lambda>i j m. rbind (rbind (vget (background_energy tc) i) (\<lambda>bs. vget bs j)) (\<lambda>b.
            spread fuel transient (dimX tc * dimY tc * numP tc) (i * ranks cfg + j) 0 i
              (b / real_of_int (dimX tc * dimY tc * numP tc) / 1000 / real_of_int (devices_per_rank cfg)) m)"
  have "\<not> ok (?g i j m)" for i j m
    using spread_never_returns [OF assms(4)] by (simp add: ok_rbind)
  then have "\<not> ok (mfold (\<lambda>i. mfold (?g i) [0..ranks cfg - 1]) [0..channels cfg - 1] (power_map transient tc))"
    unfolding r by (intro mfold_head_fails)
  from not_ok_rbind [OF this] assms(1) show ?thesis
    by (simp only: spread_background_def stacked_def Let_def if_False de_Morgan_disj disj_commute simp_thms)
qed

lemma planar_epoch_never_ends:
  assumes "\<not> stacked cfg" "1 \<le> channels cfg" "1 \<le> ranks cfg" "0 < dimX tc * dimY tc * numP tc"
  shows "\<not> ok (PrintTransPT cfg tp fuel tc)" "\<not> ok (PrintFinalPT pdgssv cfg tp fuel clk tc)"
  using planar_background_never_returns [OF assms]
  unfolding PrintTransPT_def PrintFinalPT_def UpdateEpoch_def by (intro not_ok_rbind; simp)+

text \<open>On a grid of two by two cells, power at (1, 0) enters another node in the transient solver than in the other.\<close>

lemma transient_power_transposed:
  "steady_rhs \<lparr>W = 1, Lc = 1, tiers = 1, dim_x = 2, dim_z = 2\<rparr> [[[0], [0]], [[1], [0]]] 0 =
     Inr [0, 0, 0, 0, 0, 1, 0, 0, 0, 0, 0, 0, 0, 0, 0, 0]"
  "transient_power \<lparr>W = 1, Lc = 1, tiers = 1, dim_x = 2, dim_z = 2\<rparr> [[[0], [0]], [[1], [0]]] 0 =
     Inr [0, 0, 0, 0, 0, 0, 1, 0, 0, 0, 0, 0, 0, 0, 0, 0]"
  by (simp_all add: steady_rhs_def transient_power_def ambient_flow_def power_at_def vset_def vmod_def vget_def
      upto_rec1 numeral_eq_Suc)

text \<open>Sixteen square banks are laid out four by four, but the last of four groups of four reaches to row seven.\<close>

lemma bank_groups_leave_chip:
  assumes "protocol cfg = DDR4" "bankgroups cfg = 4" "banks_per_group cfg = 4" "bank_order tp = 1"
    and "bank_x tc = determineXY 1 1 16" "bank_y tc = 16 div determineXY 1 1 16"
  shows "bank_y tc = 4" "MapToBank cfg tp tc 3 3 = Inr (1, 7)"
proof -
  have "determineXY 1 1 16 = 4" by code_simp
  with assms show "bank_y tc = 4" "MapToBank cfg tp tc 3 3 = Inr (1, 7)"
    by (simp_all add: MapToBank_def IsHMC_def IsHBM_def Let_def)
qed

subsection \<open>Properties\<close>

text \<open>
  C23. The thermal model of a stacked memory (HBM or HMC) never fails and never cools below the environment: when the
  parameters fit together and the banks have room on the chip, the constructor returns, and so does every sequence
  of issued commands, background energies, logic powers and ends of epochs - no cell of an energy map, matrix or
  temperature field is accessed outside its array, and the number of time steps is found - and the final report
  returns for every linear solver that yields a value per node. No temperature the transient solver computes is below the ambient
  temperature: the chosen time step is small enough for the maximum principle.
\<close>

theorem thermal_run:
  assumes "params_fit cfg tp" and "floor_fit cfg" and "\<forall>op \<in> set ops. thermal_op_ok cfg op" and "solves_all pdgssv"
  shows "\<exists>tc tc' out. mk_thermal cfg tp = Inr tc \<and> mfold (thermal_step cfg tp fuel) ops tc = Inr tc' \<and>
    PrintFinalPT pdgssv cfg tp fuel clk tc' = Inr out \<and>
    (\<forall>T \<in> set (T_trans tc'). int (length T) = T_size tc' \<and> (\<forall>t \<in> set T. amb_temp tp + T0 \<le> t))"
proof -
  note st = floor_fit_stacked [OF assms(2)]
  have ep: "0 < epoch_period cfg" using assms(1) by (simp add: params_fit_def)
  obtain tc where tc: "mk_thermal cfg tp = Inr tc" "thermal_inv cfg tp tc" using mk_thermal_ok [OF assms(1,2)] by blast
  have "\<exists>tc'. mfold (thermal_step cfg tp fuel) ops tc = Inr tc' \<and> thermal_inv cfg tp tc'"
    by (rule mfold_invariant) (use thermal_step_ok [OF assms(1) st] assms(3) tc(2) in auto)
  then obtain tc' where tc': "mfold (thermal_step cfg tp fuel) ops tc = Inr tc'" "thermal_inv cfg tp tc'" by blast
  obtain out where out: "PrintFinalPT pdgssv cfg tp fuel clk tc' = Inr out"
    using PrintFinalPT_ok [OF tc'(2) st ep assms(4)] by fast
  have c: "chip_ok (chip tp tc')" "ambient_ok tp (Tamb tc')" "temps_ok (chip tp tc') (num_case tc') (Tamb tc') (T_trans tc')"
    using tc'(2) unfolding thermal_inv_def by blast+
  have "nodes (chip tp tc') = T_size tc'" by (simp add: T_size_def chip_def)
  moreover have "0 \<le> nodes (chip tp tc')" using chip_pos [OF c(1)] by simp
  ultimately show ?thesis
    using tc(1) tc'(1) out c(2,3) by (auto simp: temps_ok_def ambient_ok_def)
qed

definition hbm_config :: Config where
  "hbm_config = config0\<lparr>protocol := HBM, channels := 8, ranks := 1, bankgroups := 4, banks_per_group := 4, banks := 16,
     rows := 16384, columns := 128, device_width := 128, devices_per_rank := 1, BL := 4, num_dies := 4, tCK := 2,
     act_energy_inc := 414, read_energy_inc := 732, write_energy_inc := 924, ref_energy_inc := 30420,
     refb_energy_inc := - 1200, epoch_period := 500000, output_level := 1\<rparr>"

definition hbm_params :: ThermalParams where
  "hbm_params = \<lparr>loc_mapping = '''', num_row_refresh = 1, amb_temp = 40, const_logic_power = 5, chip_dim_x = 1 / 100,
     chip_dim_y = 1 / 100, num_x_grids = 32, num_y_grids = 32, mat_dim_x = 512, mat_dim_y = 512, bank_order = 1,
     bank_layer_order = 0, row_tile = 1, tile_row_num = 16384, bank_asr = 1\<rparr>"

lemma hbm_fits: "params_fit hbm_config hbm_params" "floor_fit hbm_config"
  by (simp_all add: params_fit_def floor_fit_def hbm_config_def hbm_params_def config0_def IsHMC_def IsHBM_def)

definition hbm_command :: "CommandType \<Rightarrow> Command" where
  "hbm_command t = mk_command t (mk_address 7 0 3 2 16383 124) 0"

lemma hbm_command_ok: "t \<noteq> REFRESH_BANK \<Longrightarrow> command_ok hbm_config 7 (hbm_command t)"
  by (simp add: command_ok_def hbm_config_def hbm_command_def config0_def)

theorem thermal_run_witness:
  "\<exists>tc tc' out. mk_thermal hbm_config hbm_params = Inr tc \<and>
     mfold (thermal_step hbm_config hbm_params 1) [Issue 7 (hbm_command ACTIVATE), Issue 7 (hbm_command READ),
       SetBackground 7 0 300, EndEpoch, Issue 7 (hbm_command REFRESH), EndEpoch] tc = Inr tc' \<and>
     PrintFinalPT (\<lambda>a asub xa rhs. rhs) hbm_config hbm_params 1 1000000 tc' = Inr out \<and>
     (\<forall>T \<in> set (T_trans tc'). \<forall>t \<in> set T. 40 + T0 \<le> t)"
proof -
  have "\<exists>tc tc' out. mk_thermal hbm_config hbm_params = Inr tc \<and>
     mfold (thermal_step hbm_config hbm_params 1) [Issue 7 (hbm_command ACTIVATE), Issue 7 (hbm_command READ),
       SetBackground 7 0 300, EndEpoch, Issue 7 (hbm_command REFRESH), EndEpoch] tc = Inr tc' \<and>
     PrintFinalPT (\<lambda>a asub xa rhs. rhs) hbm_config hbm_params 1 1000000 tc' = Inr out \<and>
     (\<forall>T \<in> set (T_trans tc'). int (length T) = T_size tc' \<and> (\<forall>t \<in> set T. amb_temp hbm_params + T0 \<le> t))"
    by (rule thermal_run [OF hbm_fits])
      (simp_all add: hbm_command_ok solves_all_def, simp add: hbm_config_def config0_def)
  then show ?thesis by (force simp: hbm_params_def)
qed

text \<open>
  C24. Energy is conserved: after any sequence of issued commands, the cells of the accumulated and of the current
  energy map of a stacked memory sum up to exactly the energies of these commands (in thousandths), however they were
  spread over bursts, columns, rows and banks.
\<close>

theorem command_energy_conserved:
  assumes "params_fit cfg tp" and "floor_fit cfg" and "\<forall>(ch, cmd) \<in> set cmds. command_ok cfg ch cmd"
  shows "\<exists>tc tc'. mk_thermal cfg tp = Inr tc \<and> mfold (\<lambda>(ch, cmd). UpdateCMDPower cfg tp ch cmd) cmds tc = Inr tc' \<and>
    sum_list (accu_Pmap tc' ! 0) = (\<Sum>(ch, cmd) \<leftarrow> cmds. command_energy cfg (cmd_type cmd)) / 1000 \<and>
    sum_list (cur_Pmap tc' ! 0) = (\<Sum>(ch, cmd) \<leftarrow> cmds. command_energy cfg (cmd_type cmd)) / 1000"
proof -
  note st = floor_fit_stacked [OF assms(2)]
  have f: "0 < BL cfg" "0 < device_width cfg" "0 < banks cfg" "0 < num_row_refresh tp" "0 < num_y_grids tp"
    using assms(1) unfolding params_fit_def by auto
  obtain tc where tc: "mk_thermal cfg tp = Inr tc" "thermal_inv cfg tp tc" "accu_Pmap tc = cur_Pmap tc"
    "\<forall>cs \<in> set (cur_Pmap tc). \<forall>x \<in> set cs. x = 0" using mk_thermal_ok [OF assms(1,2)] by blast
  have "\<exists>tc'. mfold (\<lambda>(ch, cmd). UpdateCMDPower cfg tp ch cmd) cmds s = Inr tc' \<and>
      adds 0 ((\<Sum>(ch, cmd) \<leftarrow> cmds. command_energy cfg (cmd_type cmd)) / 1000) s tc'"
    if "thermal_inv cfg tp s" for s
    using that assms(3)
  proof (induction cmds arbitrary: s)
    case (Cons x cmds)
    obtain ch cmd where x: "x = (ch, cmd)" by (cases x)
    obtain s1 where s1: "UpdateCMDPower cfg tp ch cmd s = Inr s1" "thermal_inv cfg tp s1"
      using UpdateCMDPower_ok [OF assms(1) Cons.prems(1), of ch cmd] Cons.prems(2) x by auto
    from UpdateCMDPower_adds [OF s1(1) f] st have a: "adds 0 (command_energy cfg (cmd_type cmd) / 1000) s s1" by simp
    from Cons.IH [OF s1(2)] Cons.prems(2) obtain s2 where s2: "mfold (\<lambda>(ch, cmd). UpdateCMDPower cfg tp ch cmd) cmds s1 = Inr s2"
        "adds 0 ((\<Sum>(ch, cmd) \<leftarrow> cmds. command_energy cfg (cmd_type cmd)) / 1000) s1 s2" by auto
    from adds_trans [OF a s2(2)] s1(1) s2(1) show ?case by (simp add: x add_divide_distrib)
  qed (simp add: adds_refl)
  from this [OF tc(2)] obtain tc' where tc': "mfold (\<lambda>(ch, cmd). UpdateCMDPower cfg tp ch cmd) cmds tc = Inr tc'"
    "adds 0 ((\<Sum>(ch, cmd) \<leftarrow> cmds. command_energy cfg (cmd_type cmd)) / 1000) tc tc'" by blast
  have l: "0 < length (cur_Pmap tc)" using tc(2) st by (auto simp: thermal_inv_def energies_ok_def cases_ok_def)
  then have "cur_Pmap tc ! 0 \<in> set (cur_Pmap tc)" by simp
  with tc(4) have "sum_list (cur_Pmap tc ! 0) = 0" by (simp add: sum_list_zeros)
  with tc'(2) l tc(1,3) tc'(1) show ?thesis by (simp add: adds_def map_adds_def)
qed

theorem command_energy_conserved_witness:
  "\<exists>tc tc'. mk_thermal hbm_config hbm_params = Inr tc \<and>
     mfold (\<lambda>(ch, cmd). UpdateCMDPower hbm_config hbm_params ch cmd)
       [(7, hbm_command ACTIVATE), (7, hbm_command WRITE), (7, hbm_command REFRESH), (7, hbm_command PRECHARGE)] tc = Inr tc' \<and>
     sum_list (cur_Pmap tc' ! 0) = (414 + 924 + 30420) / 1000"
proof -
  have "\<forall>(ch, cmd) \<in> set [(7, hbm_command ACTIVATE), (7, hbm_command WRITE), (7, hbm_command REFRESH), (7, hbm_command PRECHARGE)].
      command_ok hbm_config ch cmd" by (simp add: hbm_command_ok)
  moreover have "command_energy hbm_config (cmd_type (hbm_command ACTIVATE)) = 414"
      "command_energy hbm_config (cmd_type (hbm_command WRITE)) = 924"
      "command_energy hbm_config (cmd_type (hbm_command REFRESH)) = 30420"
      "command_energy hbm_config (cmd_type (hbm_command PRECHARGE)) = 0"
    by (simp_all add: hbm_command_def command_energy_def hbm_config_def)
  ultimately show ?thesis using command_energy_conserved [OF hbm_fits] by fastforce
qed

end
