(* ===== verification/Thermal_Replay.thy ===== *)
theory Thermal_Replay
  imports Thermal_Safety Stats_Safety
begin

section \<open>Replaying a command trace for the thermal model\<close>

text \<open>
  Models \<^verbatim>\<open>src/thermal_replay.h\<close> and \<^verbatim>\<open>src/thermal_replay.cc\<close>: a file of timed commands is read, fed several times to
  the statistics and to the thermal model, and the temperatures of the whole run are computed at the end. The
  trace is the list of the lines of the file, or \<open>None\<close> if it cannot be opened; the command line is parsed by
  a library. Files of statistics are not modelled, as elsewhere. The thermal parameters before their
  initialisation and the linear solver are arguments.
\<close>

subsection \<open>State\<close>

record ThermalReplay =
  timed_commands :: "(u64 \<times> Command) list"
  replay_config :: Config
  replay_params :: ThermalParams
  thermal_calc :: ThermalCalculator
  repeat :: u64
  last_clk :: u64
  channel_stats :: "SimpleStats list"
  bank_active :: "bool list list list list"

subsection \<open>Reading the trace\<close>

definition cmd_map :: "(string \<times> CommandType) list" where
  "cmd_map =
     [(''read'', READ), (''read_p'', READ_PRECHARGE), (''write'', WRITE), (''write_p'', WRITE_PRECHARGE),
      (''activate'', ACTIVATE), (''precharge'', PRECHARGE), (''refresh_bank'', REFRESH_BANK), (''refresh'', REFRESH),
      (''self_refresh_enter'', SREF_ENTER), (''self_refresh_exit'', SREF_EXIT)]"

text \<open>The operator \<^verbatim>\<open>[]\<close> of the map yields the first enumerator for a word that is not in it.\<close>

definition ParseLine :: "string \<Rightarrow> (u64 \<times> Command) res" where
  "ParseLine line =
     (let tokens = StringSplit line (CHR '' '') in
      if length tokens \<noteq> 8 then Inl (AbruptExit ''thermal_replay.cc'' 105)
      else
        rbind (stoull (tokens ! 0)) (\<lambda>clk.
        rbind (stoi (tokens ! 2)) (\<lambda>ch. rbind (stoi (tokens ! 3)) (\<lambda>ra. rbind (stoi (tokens ! 4)) (\<lambda>bg.
        rbind (stoi (tokens ! 5)) (\<lambda>ba. rbind (stoi (tokens ! 6)) (\<lambda>ro. rbind (stoi (tokens ! 7)) (\<lambda>co.
        Inr (clk, mk_command (at0 cmd_map READ (tokens ! 1)) (mk_address ch ra bg ba ro co) 0)))))))))"

definition idle_banks :: "Config \<Rightarrow> bool list list list list" where
  "idle_banks cfg = replicate (nat (channels cfg)) (replicate (nat (ranks cfg))
     (replicate (nat (bankgroups cfg)) (replicate (nat (banks_per_group cfg)) False)))"

definition mk_replay ::
  "ini \<Rightarrow> ThermalParams \<Rightarrow> string list option \<Rightarrow> u64 \<Rightarrow> ThermalReplay res"
where
  "mk_replay rd tp0 trace n =
     rbind (mk_config rd) (\<lambda>cfg.
     rbind (InitThermalParams rd cfg tp0) (\<lambda>tp.
     rbind (mk_thermal cfg tp) (\<lambda>tc.
     rbind (mfold (\<lambda>i ss. rbind (mk_stats cfg) (\<lambda>s. Inr (ss @ [s]))) [0..channels cfg - 1] []) (\<lambda>stats.
     if channels cfg > 0 \<and> ranks cfg > 0 \<and> bankgroups cfg > 0 \<and> banks_per_group cfg < 0 then Inl LengthError
     else case trace of
       None \<Rightarrow> Inl (ExitFailure ''thermal_replay.cc'' 36)
     | Some file \<Rightarrow>
         rbind (mfold (\<lambda>line cmds. rbind (ParseLine line) (\<lambda>c. Inr (cmds @ [c]))) file []) (\<lambda>cmds.
         Inr \<lparr>timed_commands = cmds, replay_config = cfg, replay_params = tp, thermal_calc = tc, repeat = n,
              last_clk = 0, channel_stats = stats, bank_active = idle_banks cfg\<rparr>)))))"

subsection \<open>Processing a command\<close>

definition IsRankActive :: "int \<Rightarrow> int \<Rightarrow> ThermalReplay \<Rightarrow> bool res" where
  "IsRankActive ch ra r =
     rbind (vget (bank_active r) ch) (\<lambda>c. rbind (vget c ra) (\<lambda>banks. Inr (\<exists>g \<in> set banks. \<exists>b \<in> set g. b)))"

definition stat_at :: "int \<Rightarrow> (SimpleStats \<Rightarrow> SimpleStats res) \<Rightarrow> ThermalReplay \<Rightarrow> ThermalReplay res" where
  "stat_at ch f r = rbind (vmod (channel_stats r) ch f) (\<lambda>ss. Inr (r\<lparr>channel_stats := ss\<rparr>))"

definition count_cycles :: "u64 \<Rightarrow> ThermalReplay \<Rightarrow> ThermalReplay res" where
  "count_cycles past_clks r =
     (let cfg = replay_config r in
      mfold (\<lambda>i. mfold (\<lambda>j r.
        rbind (IsRankActive i j r) (\<lambda>act.
        stat_at i (IncrementVecBy (if act then ''rank_active_cycles'' else ''all_bank_idle_cycles'') j (u64_to_int past_clks)) r))
      [0..ranks cfg - 1]) [0..channels cfg - 1] r)"

definition counter_of :: "CommandType \<Rightarrow> string res" where
  "counter_of t =
     (case t of
        READ \<Rightarrow> Inr ''num_read_cmds''
      | READ_PRECHARGE \<Rightarrow> Inr ''num_read_cmds''
      | WRITE \<Rightarrow> Inr ''num_write_cmds''
      | WRITE_PRECHARGE \<Rightarrow> Inr ''num_write_cmds''
      | ACTIVATE \<Rightarrow> Inr ''num_act_cmds''
      | PRECHARGE \<Rightarrow> Inr ''num_pre_cmds''
      | REFRESH \<Rightarrow> Inr ''num_ref_cmds''
      | REFRESH_BANK \<Rightarrow> Inr ''num_refb_cmds''
      | SREF_ENTER \<Rightarrow> Inr ''num_srefe_cmds''
      | SREF_EXIT \<Rightarrow> Inr ''num_srefx_cmds''
      | _ \<Rightarrow> Inl (AbruptExit ''thermal_replay.cc'' 168))"

definition set_active :: "Command \<Rightarrow> bool \<Rightarrow> ThermalReplay \<Rightarrow> ThermalReplay res" where
  "set_active cmd b r =
     rbind (vmod (bank_active r) (Channel cmd) (\<lambda>c. vmod c (Rank cmd) (\<lambda>k. vmod k (Bankgroup cmd) (\<lambda>g. vset g (Bank cmd) b))))
       (\<lambda>ba. Inr (r\<lparr>bank_active := ba\<rparr>))"

definition update_active :: "Command \<Rightarrow> ThermalReplay \<Rightarrow> ThermalReplay res" where
  "update_active cmd r =
     (case cmd_type cmd of
        ACTIVATE \<Rightarrow> set_active cmd True r
      | READ_PRECHARGE \<Rightarrow> set_active cmd False r
      | WRITE_PRECHARGE \<Rightarrow> set_active cmd False r
      | PRECHARGE \<Rightarrow> set_active cmd False r
      | _ \<Rightarrow> Inr r)"

definition report_background :: "ThermalReplay \<Rightarrow> ThermalReplay res" where
  "report_background r =
     (let cfg = replay_config r in
      mfold (\<lambda>c r.
        rbind (stat_at c (UpdateEpochStats cfg) r) (\<lambda>r.
        mfold (\<lambda>k r.
          rbind (rbind (vget (channel_stats r) c) (\<lambda>s. RankBackgroundEnergy s k)) (\<lambda>bg_energy.
          rbind (UpdateBackgroundEnergy c k bg_energy (thermal_calc r)) (\<lambda>tc.
          Inr (r\<lparr>thermal_calc := tc\<rparr>)))) [0..ranks cfg - 1] r))
      [0..channels cfg - 1] r)"

definition ProcessCMD :: "Command \<Rightarrow> u64 \<Rightarrow> ThermalReplay \<Rightarrow> ThermalReplay res" where
  "ProcessCMD cmd clk r =
     rbind (count_cycles (clk - last_clk r) r) (\<lambda>r.
     rbind (counter_of (cmd_type cmd)) (\<lambda>name.
     rbind (stat_at (Channel cmd) (\<lambda>s. Inr (Increment name s)) r) (\<lambda>r.
     rbind (update_active cmd r) (\<lambda>r.
     if epoch_period (replay_config r) = 0 then Inl DivByZero
     else rbind (if clk mod of_int (epoch_period (replay_config r)) \<noteq> 0 then report_background r else Inr r) (\<lambda>r.
       Inr (r\<lparr>last_clk := clk\<rparr>))))))"

subsection \<open>The run\<close>

definition replay_command :: "u64 \<Rightarrow> u64 \<times> Command \<Rightarrow> ThermalReplay \<Rightarrow> ThermalReplay res" where
  "replay_command clk = (\<lambda>(clk_offset, cmd) r.
     rbind (ProcessCMD cmd (clk + clk_offset) r) (\<lambda>r.
     rbind (UpdateCMDPower (replay_config r) (replay_params r) 0 cmd (thermal_calc r)) (\<lambda>tc.
     Inr (r\<lparr>thermal_calc := tc\<rparr>))))"

definition replay_once :: "u64 \<times> ThermalReplay \<Rightarrow> (u64 \<times> ThermalReplay) res" where
  "replay_once = (\<lambda>(clk, r).
     rbind (mfold (replay_command clk) (timed_commands r) r) (\<lambda>r.
     let clk_offset = (if timed_commands r = [] then 0 else fst (last (timed_commands r)))
     in Inr (clk + clk_offset, r\<lparr>bank_active := idle_banks (replay_config r)\<rparr>)))"

definition Run ::
  "linear_solver \<Rightarrow> nat \<Rightarrow> ThermalReplay \<Rightarrow> ((real \<times> real \<times> csv_line list) list \<times> ThermalReplay) res"
where
  "Run pdgssv fuel r =
     rbind (mfold (\<lambda>_. replay_once) [0..<unat (repeat r)] (0, r)) (\<lambda>(clk, r).
     rbind (mfold (\<lambda>c. stat_at c (UpdateFinalStats (replay_config r))) [0..channels (replay_config r) - 1] r) (\<lambda>r.
     rbind (PrintFinalPT pdgssv (replay_config r) (replay_params r) fuel clk (thermal_calc r)) (\<lambda>(out, tc).
     Inr (out, r\<lparr>thermal_calc := tc\<rparr>))))"

subsection \<open>Background energy is not negative\<close>

definition nonneg :: "real list smap \<Rightarrow> bool" where
  "nonneg m \<longleftrightarrow> (\<forall>e \<in> set m. \<forall>x \<in> set (snd e). 0 \<le> x)"

abbreviation doubles_ok :: "SimpleStats \<Rightarrow> bool" where
  "doubles_ok s \<equiv> nonneg (vec_doubles s)"

definition energies_fit :: "Config \<Rightarrow> bool" where
  "energies_fit cfg \<longleftrightarrow> 0 \<le> act_stb_energy_inc cfg \<and> 0 \<le> pre_stb_energy_inc cfg \<and> 0 \<le> sref_energy_inc cfg"

lemma set_put: "set (put k v m) \<subseteq> insert (k, v) (set m)"
  by (induction m) auto

lemma at0_entry: "at0 m [] n \<noteq> [] \<Longrightarrow> (n, at0 m [] n) \<in> set m"
  by (auto simp: at0_def split: option.splits dest: map_of_SomeD)

lemma nonneg_put: "nonneg m \<Longrightarrow> \<forall>x \<in> set v. 0 \<le> x \<Longrightarrow> nonneg (put n v m)"
  using set_put [of n v m] unfolding nonneg_def by fastforce

lemma nonneg_vset:
  assumes "nonneg m" "vset (at0 m [] k) i y = Inr v" "0 \<le> y"
  shows "\<forall>x \<in> set v. 0 \<le> x"
proof -
  have "\<forall>x \<in> set (at0 m [] k). 0 \<le> x"
    using assms(1) at0_entry [of m k] by (cases "at0 m [] k = []") (auto simp: nonneg_def)
  then show ?thesis using assms(2,3) by (auto simp: res_simps dest!: set_update_subset_insert [THEN subsetD])
qed

lemma background_nonneg:
  assumes "energies_fit cfg" "background cfg vc vd = Inr (e, vd')" "nonneg vd"
  shows "nonneg vd'"
proof -
  have n: "0 \<le> real (unat (w :: u64)) * act_stb_energy_inc cfg" "0 \<le> real (unat w) * pre_stb_energy_inc cfg"
      "0 \<le> real (unat w) * sref_energy_inc cfg" for w
    using assms(1) by (simp_all add: energies_fit_def del: of_nat_unat)
  have "nonneg (snd (e, vd'))"
    using assms(2) unfolding background_def
  proof (rule mfold_preserves [where P = "\<lambda>s. nonneg (snd s)", rotated 2], goal_cases)
    case (1 i s s')
    obtain b m where s: "s = (b, m)" by (cases s)
    have m: "nonneg m" using 1(2) s by simp
    note v = nonneg_vset [OF m _ n(1)] nonneg_vset [OF m _ n(2)] nonneg_vset [OF m _ n(3)]
    from 1(3) show ?case
      unfolding s case_prod_conv Let_def
      by (elim rbindE) (use m in \<open>auto simp del: of_nat_unat intro!: nonneg_put dest!: v\<close>)
  qed (use assms(3) in simp)
  then show ?thesis by simp
qed

lemma UpdateEpochStats_doubles:
  assumes "energies_fit cfg" "UpdateEpochStats cfg s = Inr s'" "doubles_ok s"
  shows "doubles_ok s'"
proof -
  obtain s1 e vd s2 where s1: "UpdateCounters s = Inr s1"
    and vd: "background cfg (epoch_vec_counters s1) (vec_doubles s1) = Inr (e, vd)"
    and s2: "UpdateHistoBins (s1\<lparr>doubles := put_energies cfg (epoch_counters s1) (epoch_counters s1) (doubles s1), vec_doubles := vd\<rparr>) = Inr s2"
    and s': "vec_doubles s' = vec_doubles s2"
    using assms(2) by (auto simp: UpdateEpochStats_def Let_def elim!: rbindE)
  have "vec_doubles s1 = vec_doubles s" using s1 by (auto simp: UpdateCounters_def Let_def elim!: rbindE)
  moreover have "vec_doubles s2 = vd" using s2 by (auto simp: UpdateHistoBins_def elim!: rbindE)
  ultimately show ?thesis
    using background_nonneg [OF assms(1) vd] assms(3) s' by simp
qed

lemma mk_stats_doubles:
  assumes "mk_stats cfg = Inr s"
  shows "doubles_ok s"
proof -
  have i: "vec_doubles (fold (\<lambda>n. InitStat n ty) ns s) = vec_doubles s" for ty ns s
    by (induction ns arbitrary: s) simp_all
  have v: "doubles_ok s'" if "InitVecStat n ty l s = Inr s'" "doubles_ok s" for n ty l s s'
    using that by (auto simp: InitVecStat_def emplace_def split: if_splits option.splits intro!: nonneg_put)
  have h: "vec_doubles s' = vec_doubles s" if "InitHistoStat n a b k s = Inr s'" for n a b k s s'
    using that by (auto simp: InitHistoStat_def elim!: rbindE split: if_splits)
  have z: "doubles_ok (fold (\<lambda>n. InitStat n ty) ns (fold (\<lambda>n. InitStat n ty') ns' stats0))" for ty ty' ns ns'
    by (simp add: nonneg_def i stats0_def)
  have m: "doubles_ok s'" if "mfold (\<lambda>n. InitVecStat n ty l) ns s = Inr s'" "doubles_ok s" for ty l ns s s'
    using that(1) by (rule mfold_preserves [where P = doubles_ok, rotated 2]) (use v that(2) in auto)
  have d: "doubles_ok (fold (\<lambda>n. InitStat n ty) ns s) = doubles_ok s" for ty ns s
    by (simp add: i)
  have hd: "doubles_ok s'" if "InitHistoStat n a b k s = Inr s'" "doubles_ok s" for n a b k s s'
    using h [OF that(1)] that(2) by simp
  from assms show ?thesis
    unfolding mk_stats_def Let_def by (elim rbindE) (use m z hd d in \<open>metis sum.inject(2)\<close>)
qed

lemma RankBackgroundEnergy_ok:
  assumes "stats_ok cfg s" "doubles_ok s" "0 \<le> r" "r < ranks cfg"
  shows "\<exists>e. RankBackgroundEnergy s r = Inr e \<and> 0 \<le> e"
proof -
  have sh: "shape (vec_doubles s) = per_rank cfg background_names" using assms(1) by (simp add: stats_ok_def)
  have g: "\<exists>v. at_key (vec_doubles s) n = Inr v \<and> vget v r = Inr (v ! nat r) \<and> 0 \<le> v ! nat r"
    if n: "n \<in> set background_names" for n
  proof -
    obtain v where v: "at_key (vec_doubles s) n = Inr v" using at_key_ok [OF shape_per_rank(1) [OF sh] n] by blast
    then have m: "map_of (vec_doubles s) n = Some v" by (auto simp: at_key_def split: option.splits)
    then have "length v = nat (ranks cfg)" using shape_per_rank(2) [OF sh n] by (simp add: at0_def)
    moreover have "\<forall>x \<in> set v. 0 \<le> x" using map_of_SomeD [OF m] assms(2) by (auto simp: nonneg_def)
    ultimately show ?thesis using v assms(3,4) by auto
  qed
  have "''act_stb_energy'' \<in> set background_names" "''pre_stb_energy'' \<in> set background_names"
      "''sref_energy'' \<in> set background_names" by (simp_all add: background_names_def)
  from this [THEN g] show ?thesis by (auto simp: RankBackgroundEnergy_def)
qed

subsection \<open>The replay returns\<close>

definition active_ok :: "Config \<Rightarrow> bool list list list list \<Rightarrow> bool" where
  "active_ok cfg m \<longleftrightarrow> int (length m) = channels cfg \<and> (\<forall>c \<in> set m. int (length c) = ranks cfg \<and>
     (\<forall>k \<in> set c. int (length k) = bankgroups cfg \<and> (\<forall>g \<in> set k. int (length g) = banks_per_group cfg)))"

definition all_stats_ok :: "Config \<Rightarrow> SimpleStats list \<Rightarrow> bool" where
  "all_stats_ok cfg ss \<longleftrightarrow> int (length ss) = channels cfg \<and> (\<forall>s \<in> set ss. stats_ok cfg s \<and> doubles_ok s)"

definition replay_inv :: "Config \<Rightarrow> ThermalParams \<Rightarrow> (u64 \<times> Command) list \<Rightarrow> ThermalReplay \<Rightarrow> bool" where
  "replay_inv cfg tp cmds r \<longleftrightarrow> replay_config r = cfg \<and> replay_params r = tp \<and> timed_commands r = cmds \<and>
     thermal_inv cfg tp (thermal_calc r) \<and> all_stats_ok cfg (channel_stats r) \<and> active_ok cfg (bank_active r)"

text \<open>A command of a trace: its place exists, the statistics know its type, and the thermal model can place it.\<close>

definition replayable :: "Config \<Rightarrow> Command \<Rightarrow> bool" where
  "replayable cfg cmd \<longleftrightarrow> 0 \<le> Channel cmd \<and> Channel cmd < channels cfg \<and> command_ok cfg 0 cmd \<and> ok (counter_of (cmd_type cmd))"

lemma stat_at_ok:
  assumes "replay_inv cfg tp cmds r" "0 \<le> c" "c < channels cfg"
    and "\<And>s. stats_ok cfg s \<and> doubles_ok s \<Longrightarrow> \<exists>s'. f s = Inr s' \<and> stats_ok cfg s' \<and> doubles_ok s'"
  shows "\<exists>r'. stat_at c f r = Inr r' \<and> replay_inv cfg tp cmds r'"
proof -
  have s: "int (length (channel_stats r)) = channels cfg" "\<forall>s \<in> set (channel_stats r). stats_ok cfg s \<and> doubles_ok s"
    using assms(1) by (auto simp: replay_inv_def all_stats_ok_def)
  from vmod_all_ok [OF assms(2) _ s(2), of f] assms(3,4) s(1) obtain ss where
    ss: "vmod (channel_stats r) c f = Inr ss" "length ss = length (channel_stats r)" "\<forall>s \<in> set ss. stats_ok cfg s \<and> doubles_ok s"
    by auto
  then have "all_stats_ok cfg ss" using s(1) by (simp add: all_stats_ok_def)
  then show ?thesis using ss(1) assms(1) by (simp add: stat_at_def replay_inv_def)
qed

lemma IncrementVecBy_doubles: "IncrementVecBy n i k s = Inr s' \<Longrightarrow> vec_doubles s' = vec_doubles s"
  by (auto simp: IncrementVecBy_def elim!: rbindE)

lemma IncrementVecBy_keeps:
  assumes "stats_ok cfg s \<and> doubles_ok s" "n \<in> set cycle_names" "0 \<le> j" "j < ranks cfg"
  shows "\<exists>s'. IncrementVecBy n j k s = Inr s' \<and> stats_ok cfg s' \<and> doubles_ok s'"
proof -
  obtain s' where "IncrementVecBy n j k s = Inr s'" "stats_ok cfg s'"
    by (rule IncrementVecBy_ok [OF _ assms(2-4)]) (use assms(1) in auto)
  then show ?thesis using IncrementVecBy_doubles [of n j k s s'] assms(1) by auto
qed

lemma IsRankActive_ok:
  assumes "replay_inv cfg tp cmds r" "0 \<le> i" "i < channels cfg" "0 \<le> j" "j < ranks cfg"
  shows "\<exists>b. IsRankActive i j r = Inr b"
proof -
  have m: "int (length (bank_active r)) = channels cfg" "\<forall>c \<in> set (bank_active r). int (length c) = ranks cfg"
    using assms(1) by (auto simp: replay_inv_def active_ok_def)
  then have "int (length (bank_active r ! nat i)) = ranks cfg" using assms(2,3) by simp
  then show ?thesis using m(1) assms by (simp add: IsRankActive_def)
qed

lemma count_cycles_ok:
  assumes "replay_inv cfg tp cmds r"
  shows "\<exists>r'. count_cycles n r = Inr r' \<and> replay_inv cfg tp cmds r'"
proof -
  have c: "replay_config r = cfg" using assms by (simp add: replay_inv_def)
  show ?thesis
    unfolding count_cycles_def c Let_def
  proof (rule mfold_invariant [where P = "replay_inv cfg tp cmds"], rule mfold_invariant [where P = "replay_inv cfg tp cmds"], goal_cases)
    case (1 i u j v)
    then have ij: "0 \<le> i" "i < channels cfg" "0 \<le> j" "j < ranks cfg" by auto
    obtain b where b: "IsRankActive i j v = Inr b" using IsRankActive_ok [OF 1(4) ij] by blast
    have n: "(if b then ''rank_active_cycles'' else ''all_bank_idle_cycles'') \<in> set cycle_names" by (simp add: cycle_names_def)
    have "\<exists>r'. stat_at i (IncrementVecBy (if b then ''rank_active_cycles'' else ''all_bank_idle_cycles'') j (u64_to_int n)) v = Inr r' \<and>
        replay_inv cfg tp cmds r'"
      by (rule stat_at_ok [OF 1(4) ij(1,2)]) (rule IncrementVecBy_keeps [OF _ n ij(3,4)])
    then show ?case by (simp add: b)
  qed (use assms in simp_all)
qed

lemma set_active_ok:
  assumes "replay_inv cfg tp cmds r" "replayable cfg cmd"
  shows "\<exists>r'. set_active cmd b r = Inr r' \<and> replay_inv cfg tp cmds r'"
proof -
  let ?G = "\<lambda>g :: bool list. int (length g) = banks_per_group cfg"
  let ?K = "\<lambda>k. int (length k) = bankgroups cfg \<and> (\<forall>g \<in> set k. ?G g)"
  let ?C = "\<lambda>c. int (length c) = ranks cfg \<and> (\<forall>k \<in> set c. ?K k)"
  have a: "0 \<le> Channel cmd" "Channel cmd < channels cfg" "0 \<le> Rank cmd" "Rank cmd < ranks cfg" "0 \<le> Bankgroup cmd"
      "Bankgroup cmd < bankgroups cfg" "0 \<le> Bank cmd" "Bank cmd < banks_per_group cfg"
    using assms(2) by (simp_all add: replayable_def command_ok_def)
  have m: "int (length (bank_active r)) = channels cfg" "\<forall>c \<in> set (bank_active r). ?C c"
    using assms(1) by (simp_all add: replay_inv_def active_ok_def)
  have g: "\<exists>g'. vset g (Bank cmd) b = Inr g' \<and> ?G g'" if "?G g" for g
    using that a by (simp add: vset_def vmod_def)
  have k: "\<exists>k'. vmod k (Bankgroup cmd) (\<lambda>g. vset g (Bank cmd) b) = Inr k' \<and> ?K k'" if "?K k" for k
    using vmod_all_ok [OF a(5), of k ?G "\<lambda>g. vset g (Bank cmd) b"] that a(6) g by auto
  have c: "\<exists>c'. vmod c (Rank cmd) (\<lambda>k. vmod k (Bankgroup cmd) (\<lambda>g. vset g (Bank cmd) b)) = Inr c' \<and> ?C c'" if "?C c" for c
    using vmod_all_ok [OF a(3), of c ?K "\<lambda>k. vmod k (Bankgroup cmd) (\<lambda>g. vset g (Bank cmd) b)"] that a(4) k by auto
  have "\<exists>m'. vmod (bank_active r) (Channel cmd) (\<lambda>c. vmod c (Rank cmd) (\<lambda>k. vmod k (Bankgroup cmd) (\<lambda>g. vset g (Bank cmd) b))) = Inr m' \<and>
      length m' = length (bank_active r) \<and> (\<forall>c \<in> set m'. ?C c)"
    by (rule vmod_all_ok [OF a(1) _ m(2)]) (use m(1) a(2) c in simp_all)
  then obtain m' where
    "vmod (bank_active r) (Channel cmd) (\<lambda>c. vmod c (Rank cmd) (\<lambda>k. vmod k (Bankgroup cmd) (\<lambda>g. vset g (Bank cmd) b))) = Inr m'"
    "length m' = length (bank_active r)" "\<forall>c \<in> set m'. ?C c" by blast
  then show ?thesis using assms(1) m(1) by (simp add: set_active_def replay_inv_def active_ok_def)
qed

lemma update_active_ok:
  assumes "replay_inv cfg tp cmds r" "replayable cfg cmd"
  shows "\<exists>r'. update_active cmd r = Inr r' \<and> replay_inv cfg tp cmds r'"
  using set_active_ok [OF assms] assms(1) by (simp add: update_active_def split: CommandType.split)

lemma report_background_ok:
  assumes "replay_inv cfg tp cmds r" "energies_fit cfg"
  shows "\<exists>r'. report_background r = Inr r' \<and> replay_inv cfg tp cmds r'"
proof -
  have c: "replay_config r = cfg" using assms by (simp add: replay_inv_def)
  show ?thesis
    unfolding report_background_def c Let_def
  proof (rule mfold_invariant [where P = "replay_inv cfg tp cmds"], goal_cases)
    case (1 i u)
    then have i: "0 \<le> i" "i < channels cfg" by auto
    have "\<exists>s'. UpdateEpochStats cfg s = Inr s' \<and> stats_ok cfg s' \<and> doubles_ok s'" if "stats_ok cfg s \<and> doubles_ok s" for s
      using UpdateEpochStats_ok [of cfg s] UpdateEpochStats_doubles [OF assms(2)] that by metis
    then have "\<exists>v. stat_at i (UpdateEpochStats cfg) u = Inr v \<and> replay_inv cfg tp cmds v"
      by (intro stat_at_ok [OF 1(2) i])
    then obtain v where v: "stat_at i (UpdateEpochStats cfg) u = Inr v" "replay_inv cfg tp cmds v" by blast
    show ?case
      unfolding v(1) rbind_Inr
    proof (rule mfold_invariant [where P = "replay_inv cfg tp cmds"], goal_cases)
      case (1 k w)
      then have k: "0 \<le> k" "k < ranks cfg" by auto
      have s: "int (length (channel_stats w)) = channels cfg" "\<forall>s \<in> set (channel_stats w). stats_ok cfg s \<and> doubles_ok s"
        and tc: "thermal_inv cfg tp (thermal_calc w)"
        using 1(2) by (auto simp: replay_inv_def all_stats_ok_def)
      have "stats_ok cfg (channel_stats w ! nat i)" "doubles_ok (channel_stats w ! nat i)" using s i by auto
      from RankBackgroundEnergy_ok [OF this k] obtain e where e: "RankBackgroundEnergy (channel_stats w ! nat i) k = Inr e" "0 \<le> e" by blast
      obtain t where "UpdateBackgroundEnergy i k e (thermal_calc w) = Inr t" "thermal_inv cfg tp t"
        using UpdateBackgroundEnergy_ok [OF tc i k e(2)] by blast
      then show ?case using e(1) s(1) i 1(2) by (simp add: replay_inv_def)
    qed (rule v(2))
  qed (rule assms(1))
qed

lemma ProcessCMD_ok:
  assumes "replay_inv cfg tp cmds r" "energies_fit cfg" "replayable cfg cmd" "0 < epoch_period cfg"
  shows "\<exists>r'. ProcessCMD cmd clk r = Inr r' \<and> replay_inv cfg tp cmds r'"
proof -
  obtain r1 where r1: "count_cycles (clk - last_clk r) r = Inr r1" "replay_inv cfg tp cmds r1"
    using count_cycles_ok [OF assms(1)] by blast
  obtain n where n: "counter_of (cmd_type cmd) = Inr n" using assms(3) by (auto simp: replayable_def ok_def)
  have ch: "0 \<le> Channel cmd" "Channel cmd < channels cfg" using assms(3) by (simp_all add: replayable_def)
  have "\<exists>r2. stat_at (Channel cmd) (\<lambda>s. Inr (Increment n s)) r1 = Inr r2 \<and> replay_inv cfg tp cmds r2"
    by (rule stat_at_ok [OF r1(2) ch]) (simp add: Increment_def)
  then obtain r2 where r2: "stat_at (Channel cmd) (\<lambda>s. Inr (Increment n s)) r1 = Inr r2" "replay_inv cfg tp cmds r2" by blast
  obtain r3 where r3: "update_active cmd r2 = Inr r3" "replay_inv cfg tp cmds r3" using update_active_ok [OF r2(2) assms(3)] by blast
  obtain r4 where "(if clk mod of_int (epoch_period (replay_config r3)) \<noteq> 0 then report_background r3 else Inr r3) = Inr r4"
      "replay_inv cfg tp cmds r4"
    using report_background_ok [OF r3(2) assms(2)] r3(2) by metis
  moreover have "replay_config r3 = cfg" using r3(2) by (simp add: replay_inv_def)
  ultimately show ?thesis using assms(4) by (simp add: ProcessCMD_def r1(1) n r2(1) r3(1) replay_inv_def)
qed

lemma replay_once_ok:
  assumes "replay_inv cfg tp cmds r" "energies_fit cfg" "params_fit cfg tp" "\<forall>(t, cmd) \<in> set cmds. replayable cfg cmd"
  shows "\<exists>clk' r'. replay_once (clk, r) = Inr (clk', r') \<and> replay_inv cfg tp cmds r'"
proof -
  have ep: "0 < epoch_period cfg" using assms(3) by (simp add: params_fit_def)
  have t: "timed_commands r = cmds" using assms(1) by (simp add: replay_inv_def)
  have "\<exists>r'. mfold (replay_command clk) cmds r = Inr r' \<and> replay_inv cfg tp cmds r'"
  proof (rule mfold_invariant [where P = "replay_inv cfg tp cmds"], goal_cases)
    case (1 x u)
    obtain off cmd where x: "x = (off, cmd)" by (cases x)
    have cmd: "replayable cfg cmd" using assms(4) 1(1) x by auto
    obtain v where v: "ProcessCMD cmd (clk + off) u = Inr v" "replay_inv cfg tp cmds v"
      using ProcessCMD_ok [OF 1(2) assms(2) cmd ep] by blast
    then have vi: "thermal_inv cfg tp (thermal_calc v)" "replay_config v = cfg" "replay_params v = tp" by (simp_all add: replay_inv_def)
    obtain tc where "UpdateCMDPower cfg tp 0 cmd (thermal_calc v) = Inr tc" "thermal_inv cfg tp tc"
      using UpdateCMDPower_ok [OF assms(3) vi(1), of 0 cmd] cmd by (auto simp: replayable_def)
    then show ?case using v vi by (simp add: x replay_command_def replay_inv_def)
  qed (rule assms(1))
  then obtain r' where r': "mfold (replay_command clk) cmds r = Inr r'" "replay_inv cfg tp cmds r'" by blast
  have "1 \<le> channels cfg \<and> 1 \<le> ranks cfg \<and> 1 \<le> bankgroups cfg \<and> 1 \<le> banks_per_group cfg" using assms(3) by (simp add: params_fit_def)
  then have "active_ok cfg (idle_banks cfg)" by (auto simp: active_ok_def idle_banks_def)
  then show ?thesis using r' by (simp add: replay_once_def t Let_def replay_inv_def)
qed

lemma mk_replay_inv:
  assumes "mk_replay rd tp0 (Some file) n = Inr r" "params_fit (replay_config r) (replay_params r)" "floor_fit (replay_config r)"
  shows "replay_inv (replay_config r) (replay_params r) (timed_commands r) r"
proof -
  from assms(1) obtain cfg tp tc stats cmds where
    m: "mk_thermal cfg tp = Inr tc" "mfold (\<lambda>i ss. rbind (mk_stats cfg) (\<lambda>s. Inr (ss @ [s]))) [0..channels cfg - 1] [] = Inr stats" and
    r: "r = \<lparr>timed_commands = cmds, replay_config = cfg, replay_params = tp, thermal_calc = tc, repeat = n,
          last_clk = 0, channel_stats = stats, bank_active = idle_banks cfg\<rparr>"
    by (auto simp: mk_replay_def split: if_splits elim!: rbindE)
  have fit: "params_fit cfg tp" "floor_fit cfg" using assms(2,3) r by simp_all
  then have d: "1 \<le> channels cfg" "1 \<le> ranks cfg" "1 \<le> bankgroups cfg" "1 \<le> banks_per_group cfg" by (simp_all add: params_fit_def)
  have "thermal_inv cfg tp tc" using mk_thermal_ok [OF fit] m(1) by auto
  moreover obtain s where s: "mk_stats cfg = Inr s" "stats_ok cfg s" using mk_stats_ok [of cfg] d by (metis order_trans zero_le_one)
  then have "stats = map (\<lambda>_. s) [0..channels cfg - 1]" using m(2) mfold_collect [of "[0..channels cfg - 1]" "\<lambda>_. mk_stats cfg" "\<lambda>_. s" "[]"] by simp
  then have "all_stats_ok cfg stats" using s mk_stats_doubles [OF s(1)] d by (auto simp: all_stats_ok_def)
  moreover have "active_ok cfg (idle_banks cfg)" using d by (auto simp: active_ok_def idle_banks_def)
  ultimately show ?thesis by (simp add: r replay_inv_def)
qed

text \<open>A word that is no command is replayed as a read.\<close>

lemma unknown_word_is_read:
  "ParseLine ''10 nop 0 0 0 0 0 0'' = Inr (10, mk_command READ (mk_address 0 0 0 0 0 0) 0)"
  by code_simp

subsection \<open>Properties\<close>


text \<open>A high-bandwidth memory of eight channels on four dies, with the values of \<^verbatim>\<open>configs/HBM1_4Gb_x128.ini\<close>.\<close>

definition hbm_ini :: ini where
  "hbm_ini = \<lparr>
     ini_Get = (\<lambda>_ opt d. if opt = ''protocol'' then ''HBM'' else if opt = ''address_mapping'' then ''rorabgbachco'' else d),
     ini_GetInteger = (\<lambda>_ opt d. at0 [(''bankgroups'', 4), (''banks_per_group'', 4), (''rows'', 16384), (''columns'', 64),
        (''device_width'', 128), (''BL'', 4), (''num_dies'', 4), (''tRFC'', 130), (''tREFI'', 1950), (''tRAS'', 17), (''tRP'', 7),
        (''channel_size'', 512), (''channels'', 8), (''bus_width'', 128), (''epoch_period'', 500000)] d opt),
     ini_GetBoolean = (\<lambda>_ _ d. d),
     ini_GetReal = (\<lambda>_ opt d. at0 [(''tCK'', 2), (''IDD0'', 65), (''IDD2P'', 28), (''IDD2N'', 40), (''IDD3N'', 55), (''IDD4W'', 440),
        (''IDD4R'', 360), (''IDD5AB'', 250), (''IDD6x'', 31)] d opt)\<rparr>"

definition hbm_trace :: "string list" where
  "hbm_trace = [''10 activate 7 0 3 2 511 0'', ''17 read 7 0 3 2 511 124'', ''40 precharge 7 0 3 2 511 124'', ''1950 refresh 7 0 0 0 0 0'']"

definition replay_fits :: "Config \<Rightarrow> ThermalParams \<Rightarrow> (u64 \<times> Command) list \<Rightarrow> bool" where
  "replay_fits cfg tp cmds \<longleftrightarrow> params_fit cfg tp \<and> floor_fit cfg \<and> energies_fit cfg \<and> list_all (\<lambda>(t, cmd). replayable cfg cmd) cmds"

lemma hbm_replay_fits:
  "rbind (mk_config hbm_ini) (\<lambda>cfg. rbind (InitThermalParams hbm_ini cfg hbm_params) (\<lambda>tp.
     rbind (mfold (\<lambda>line cmds. rbind (ParseLine line) (\<lambda>c. Inr (cmds @ [c]))) hbm_trace []) (\<lambda>cmds.
     Inr (replay_fits cfg tp cmds \<and> length cmds = 4)))) = Inr True"
  by code_simp


end
