(* ===== verification/Spec2Isabelle.thy ===== *)
theory Spec2Isabelle
  imports Pim_Order Cpu_Safety Thermal_Replay
begin

text \<open>
  HBDRAMsim is a cycle-accurate simulator of DRAM memories with processing inside the memory. A processor
  (\<^verbatim>\<open>cpu.cc\<close>) offers transactions to a memory (\<^verbatim>\<open>memory_system.cc\<close>), which is a system of controllers, one per channel
  (\<^verbatim>\<open>dram_system.cc\<close>), or a hybrid memory cube (\<^verbatim>\<open>hmc.cc\<close>), whose vaults are controllers behind a crossbar. A controller
  (\<^verbatim>\<open>controller.cc\<close>) turns transactions into commands, keeps them in queues per bank or rank (\<^verbatim>\<open>command_queue.cc\<close>),
  requests refreshes (\<^verbatim>\<open>refresh.cc\<close>) and issues the commands that the state of its banks (\<^verbatim>\<open>channel_state.cc\<close>,
  \<^verbatim>\<open>bankstate.cc\<close>) and the tables of delays (\<^verbatim>\<open>timing.cc\<close>) allow; it counts what it does (\<^verbatim>\<open>simple_stats.cc\<close>). Completed
  transactions go back through callbacks. The system of controllers also decodes processing transactions and
  schedules the commands of matrix multiplications inside the memory. A thermal model (\<^verbatim>\<open>thermal.cc\<close>,
  \<^verbatim>\<open>thermal_solver.c\<close>) turns the energy of commands into temperatures. All files are in \<^verbatim>\<open>src/src\<close>; \<^verbatim>\<open>src/\<close> in the
  theories stands for that directory.

  \<^bold>\<open>Conventions.\<close> Definitions have the names of the functions they model, with the class in front where two
  classes use a name. A class is a record, an object a value that operations return changed. \<^verbatim>\<open>uint64_t\<close> is the
  64-bit word \<open>u64\<close>, whose arithmetic wraps; \<^verbatim>\<open>int\<close> is \<open>int\<close>, with the truncating division \<open>tdiv\<close>; \<^verbatim>\<open>double\<close> is
  \<open>real\<close>. Operations that can fail return \<open>'a res\<close>, whose left side says why: an abort, \<^verbatim>\<open>exit\<close>, a failed assertion, an
  access outside a container, a division by zero, a length, shift or text that the library refuses. A theorem that
  an operation returns excludes all of these. Calls of callbacks are the events that a clock cycle returns.

  \<^bold>\<open>Theories and what they model.\<close>
  \<^item> \<open>Prelude\<close>: results, vectors with bounds, loops over lists (\<open>mfold\<close>) and their invariants; the interfaces
    \<open>indexed_store\<close> and \<open>nested_store\<close> of arrays.
  \<^item> \<open>Common\<close> (\<^verbatim>\<open>common.h\<close>, \<^verbatim>\<open>common.cc\<close>): addresses, commands, transactions, logarithm, splitting of text, trace records.
  \<^item> \<open>Configuration\<close> (\<^verbatim>\<open>configuration.h\<close>, \<^verbatim>\<open>configuration.cc\<close>): the parameters from an INI reader, which is an argument,
    and the translations of addresses; they are inverse to each other and yield places that exist.
  \<^item> \<open>Timing\<close> (\<^verbatim>\<open>timing.cc\<close>): the five tables of delays.
  \<^item> \<open>Bank_State\<close> (\<^verbatim>\<open>bankstate.cc\<close>): the state machine of a bank, which refines a small automaton \<open>bank_step\<close>.
  \<^item> \<open>Channel_State\<close>, \<open>Channel_Timing\<close> (\<^verbatim>\<open>channel_state.cc\<close>): the banks of a channel; every delay of the tables and both
    activation windows (locale \<open>activation_window\<close>) hold along every sequence of issued commands.
  \<^item> \<open>Simple_Stats\<close>, \<open>Stats_Safety\<close> (\<^verbatim>\<open>simple_stats.cc\<close>): counters and histograms; they are exact, and no name is missing.
  \<^item> \<open>Refresh\<close> (\<^verbatim>\<open>refresh.cc\<close>): the schedule of refreshes and its round robin.
  \<^item> \<open>Command_Queue\<close> (\<^verbatim>\<open>command_queue.cc\<close>): the choice of the next command. Here is the locale \<open>bag_buffer\<close>, a component
    that holds what it was given until it gives it back, which the command queue, the controller, both systems
    and the cube interpret.
  \<^item> \<open>Controller\<close>, \<open>Controller_Safety\<close> (\<^verbatim>\<open>controller.cc\<close>): the clock cycle and the acceptance of transactions; it always
    returns, loses no transaction, forwards and merges reads and keeps the order of reads and writes.
  \<^item> \<open>Dram_System\<close>, \<open>Dram_Safety\<close> (\<^verbatim>\<open>dram_system.cc\<close>): the system of controllers with the scheduler of processing, and the
    memory of fixed latency; conservation of transactions. \<open>Pim_Decode\<close> shows that the fields of
    processing transactions are decoded as they were encoded, \<open>Pim_Order\<close> in which order weights and inputs are read.
  \<^item> \<open>Hmc\<close>, \<open>Hmc_Safety\<close> (\<^verbatim>\<open>hmc.cc\<close>): the cube; both directions of its crossbar are interpretations of the locale
    \<open>crossbar\<close>; conservation of requests, arbitration of the links and the two clock domains.
  \<^item> \<open>Memory_System\<close>, \<open>Cpu\<close>, \<open>Cpu_Safety\<close> (\<^verbatim>\<open>memory_system.cc\<close>, \<^verbatim>\<open>cpu.cc\<close>, \<^verbatim>\<open>main.cc\<close>): the interface, the processors and
    the main loop; over the locale \<open>memory_port\<close>, simulations run to their end and traces are kept in order.
  \<^item> \<open>Thermal_Solver\<close> (\<^verbatim>\<open>thermal_config.h\<close>, \<^verbatim>\<open>thermal_solver.c\<close>): the matrix of thermal conductances and the solvers.
    \<open>Thermal\<close>, \<open>Thermal_Safety\<close> (\<^verbatim>\<open>thermal.cc\<close>): floor plan, energy maps and temperatures; for stacked memories no access
    leaves its array, energy is conserved and no temperature falls below the environment. \<open>Thermal_Replay\<close>
    (\<^verbatim>\<open>thermal_replay.cc\<close>): the replay of a command trace runs to its end.
  \<^item> This theory: the system built by the constructors from a configuration, over all components below it.

  Besides what holds, some lemmas show where the code departs from its intention; they are placed with the
  operation they concern, each with a concrete case.

  \<^bold>\<open>Bounds and fuel.\<close> Most loops are recursions that are shown to terminate. The others carry a number of steps:
  \<open>issue_loop\<close> the number of queues, as the loop of the source has it; \<open>insert_loop\<close> of the cube the number of links,
  since the round robin is then back at its start; \<open>logic_loop\<close> 800 steps, since a memory cycle has 800 ps and a logic
  cycle at least one; \<open>time_iter_loop\<close> the quotient of period and step, since it counts up to it. Where the
  invariants hold, these are shown to suffice. \<open>spread\<close> models a loop that does not end, and no amount makes it return. The
  cube counts picoseconds in 64 bits, therefore its theorems ask for a clock that does not wrap, and those
  about whole simulations for fewer than 2^54 cycles.

  \<^bold>\<open>Not modelled.\<close> Text, JSON and CSV output with its formatting and files (\<^verbatim>\<open>UpdatePrints\<close>, headers, the printing
  operators, \<^verbatim>\<open>DirExist\<close>, output names), which no other state depends on; the parsing of command lines by
  \<^verbatim>\<open>args.hxx\<close>; destructors; the registration of callbacks. The INI reader and the linear solver \<^verbatim>\<open>pdgssv\<close> are arguments;
  \<^verbatim>\<open>sp_ienv.c\<close> only tunes the latter. The calls of the thermal model that controllers make when compiled with
  \<^verbatim>\<open>THERMAL\<close> are not part of the model of the controllers; they influence nothing there, and the theorems
  about the thermal model hold for every sequence of such calls. Overflow of signed integers and the rounding of floating-point
  numbers are not represented.
\<close>

section \<open>The whole memory system\<close>


lemma default_system:
  obtains cfg rf s where "mk_config default_ini = Inr cfg" "dims_of cfg = [1, 1, 2, 2, 65536, 1024]"
    "\<not> enable_self_refresh cfg" "epoch_period cfg = 100000" "mk_refresh cfg = Inr rf" "refresh_interval rf = 7800"
    "mk_jedec cfg = Inr s"
proof -
  have "rbind (mk_config default_ini) (\<lambda>cfg. Inr (dims_of cfg, enable_self_refresh cfg, epoch_period cfg, refresh_policy cfg,
      tREFI cfg, IsHMC cfg, queue_structure_name cfg, cmd_queue_size cfg, trans_queue_size cfg, banks cfg)) =
      Inr ([1, 1, 2, 2, 65536, 1024], False, 100000, RANK_LEVEL_STAGGERED, 7800, False, ''PER_BANK'', 16, 32, 4)"
    by code_simp
  then obtain cfg where c: "mk_config default_ini = Inr cfg" "dims_of cfg = [1, 1, 2, 2, 65536, 1024]"
    "\<not> enable_self_refresh cfg" "epoch_period cfg = 100000" "refresh_policy cfg = RANK_LEVEL_STAGGERED" "tREFI cfg = 7800"
    "\<not> IsHMC cfg" "queue_structure_name cfg = ''PER_BANK''" "cmd_queue_size cfg = 16" "trans_queue_size cfg = 32" "banks cfg = 4"
    by (auto elim!: rbindE)
  then obtain rf where rf: "mk_refresh cfg = Inr rf" "refresh_interval rf = 7800"
    by (simp add: mk_refresh_def idiv_def dims_of_def)
  obtain s where "mk_jedec cfg = Inr s"
    by (rule mk_jedec_ok [OF _ _ _ _ _ _ _ _ _ rf(1)]) (use c in \<open>simp_all add: dims_of_def\<close>)
  with c rf that show thesis by blast
qed


end
